(* ===== verification/Prelude.thy ===== *)
theory Prelude
  imports Main "HOL-Library.Word"
begin

text \<open>
  Shared vocabulary of the development: the machine types of the Rust sources, results
  (\<open>Result<T, Error>\<close> as a sum), byte strings of machine words in both byte orders, and the
  generic lemmas on words and lists that the component theories use.

  Conventions used everywhere: \<open>usize\<close> is 64 bits wide; where the sources compute with it so
  that a wrap or an overflow check matters it is a 64-bit word, and where it is the length or
  an index of a \<open>Vec\<close> or slice (never above \<open>isize::MAX\<close> in Rust) it is a \<open>nat\<close>.
\<close>

unbundle bit_operations_syntax

type_synonym u8 = "8 word"
type_synonym u16 = "16 word"
type_synonym u32 = "32 word"
type_synonym u64 = "64 word"
type_synonym usize = "64 word"
type_synonym bytes = "8 word list"

named_theorems inv_intros \<open>introduction rules for the components' invariants\<close>
named_theorems refine_simps \<open>abstraction functions commute with operations\<close>

section \<open>Checked and saturating arithmetic\<close>

definition checked_add :: "'a::len word \<Rightarrow> 'a word \<Rightarrow> 'a word option" where
  "checked_add a b = (if unat a + unat b < 2 ^ LENGTH('a) then Some (a + b) else None)"

definition checked_mul :: "'a::len word \<Rightarrow> 'a word \<Rightarrow> 'a word option" where
  "checked_mul a b = (if unat a * unat b < 2 ^ LENGTH('a) then Some (a * b) else None)"

definition saturating_add :: "'a::len word \<Rightarrow> 'a word \<Rightarrow> 'a word" where
  "saturating_add a b = (if unat a + unat b < 2 ^ LENGTH('a) then a + b else - 1)"

definition saturating_mul :: "'a::len word \<Rightarrow> 'a word \<Rightarrow> 'a word" where
  "saturating_mul a b = (if unat a * unat b < 2 ^ LENGTH('a) then a * b else - 1)"

definition saturating_sub :: "'a::len word \<Rightarrow> 'a word \<Rightarrow> 'a word" where
  "saturating_sub a b = (if b \<le> a then a - b else 0)"

lemma checked_add_Some_iff:
  fixes a b c :: "'a::len word"
  shows "checked_add a b = Some c \<longleftrightarrow> unat a + unat b < 2 ^ LENGTH('a) \<and> c = a + b"
  by (auto simp: checked_add_def)

lemma checked_add_None_iff:
  fixes a b :: "'a::len word"
  shows "checked_add a b = None \<longleftrightarrow> 2 ^ LENGTH('a) \<le> unat a + unat b"
  by (auto simp: checked_add_def)

lemma checked_mul_Some_iff:
  fixes a b c :: "'a::len word"
  shows "checked_mul a b = Some c \<longleftrightarrow> unat a * unat b < 2 ^ LENGTH('a) \<and> c = a * b"
  by (auto simp: checked_mul_def)

lemma unat_add_exact:
  fixes a b :: "'a::len word"
  shows "unat a + unat b < 2 ^ LENGTH('a) \<Longrightarrow> unat (a + b) = unat a + unat b"
  by (simp add: unat_word_ariths(1))

lemma unat_mult_exact:
  fixes a b :: "'a::len word"
  shows "unat a * unat b < 2 ^ LENGTH('a) \<Longrightarrow> unat (a * b) = unat a * unat b"
  by (simp add: unat_word_ariths(2))

lemma unat_saturating_add:
  fixes a b :: "'a::len word"
  shows "unat (saturating_add a b) = min (unat a + unat b) (2 ^ LENGTH('a) - 1)"
  by (auto simp: saturating_add_def unat_add_exact unsigned_minus_1_eq_mask mask_eq_exp_minus_1 min_def)

lemma unat_saturating_sub:
  fixes a b :: "'a::len word"
  shows "unat (saturating_sub a b) = unat a - unat b"
  by (auto simp: saturating_sub_def unat_sub word_le_nat_alt)

lemma saturating_add_ge:
  fixes a b :: "'a::len word"
  shows "a \<le> saturating_add a b"
proof -
  have "unat a < 2 ^ LENGTH('a)" by simp
  then have "unat a \<le> 2 ^ LENGTH('a) - 1" by linarith
  then show ?thesis by (simp add: word_le_nat_alt unat_saturating_add)
qed

section \<open>Powers of two\<close>

text \<open>\<open>usize::is_power_of_two\<close>: the value is \<open>2 ^ k\<close> for some bit position \<open>k\<close>.\<close>

definition is_power_of_two :: "'a::len word \<Rightarrow> bool" where
  "is_power_of_two w = list_ex (\<lambda>k. w = 2 ^ k) [0..<LENGTH('a)]"

lemma is_power_of_two_iff:
  fixes w :: "'a::len word"
  shows "is_power_of_two w \<longleftrightarrow> (\<exists>k < LENGTH('a). w = 2 ^ k)"
  by (auto simp: is_power_of_two_def list_ex_iff)

lemma and_exp_minus_one:
  fixes w :: "'a::len word"
  assumes "k < LENGTH('a)"
  shows "w AND (2 ^ k - 1) = take_bit k w"
  by (simp add: take_bit_eq_mask mask_eq_exp_minus_1)

lemma unat_take_bit: "unat (take_bit k (w :: 'a::len word)) = unat w mod 2 ^ k"
  unfolding unsigned_take_bit_eq by (rule take_bit_eq_mod)

lemma unat_exp:
  assumes "k < LENGTH('a)"
  shows "unat (2 ^ k :: 'a::len word) = 2 ^ k"
proof -
  have "unat (2 ^ k :: 'a word) = unat (of_nat (2 ^ k) :: 'a word)" by simp
  also have "\<dots> = 2 ^ k mod 2 ^ LENGTH('a)" by (simp only: unat_of_nat)
  also have "\<dots> = 2 ^ k" using assms by simp
  finally show ?thesis .
qed

lemma unat_and_mask:
  fixes w :: "'a::len word"
  assumes "k < LENGTH('a)"
  shows "unat (w AND (2 ^ k - 1)) = unat w mod 2 ^ k"
  by (simp only: and_exp_minus_one [OF assms] unat_take_bit)

text \<open>Wrapping around the width does not disturb an index taken modulo a power of two.\<close>

lemma unat_add_mod_exp:
  fixes w v :: "'a::len word"
  assumes "k < LENGTH('a)"
  shows "unat (w + v) mod 2 ^ k = (unat w + unat v) mod 2 ^ k"
proof -
  have "(2 :: nat) ^ k dvd 2 ^ LENGTH('a)"
    using assms by (simp add: le_imp_power_dvd)
  then show ?thesis
    by (simp add: unat_word_ariths(1) mod_mod_cancel)
qed

lemma unat_of_nat_mod_exp:
  assumes "k < LENGTH('a)"
  shows "unat (of_nat n :: 'a::len word) mod 2 ^ k = n mod 2 ^ k"
proof -
  have "(2 :: nat) ^ k dvd 2 ^ LENGTH('a)"
    using assms by (simp add: le_imp_power_dvd)
  then show ?thesis by (simp add: unat_of_nat mod_mod_cancel)
qed

lemma unat_u64_less: "unat (w :: u64) < 2 ^ 64"
proof -
  have "unat w < 2 ^ LENGTH(64)" by (rule unsigned_less)
  then show ?thesis by simp
qed

lemma unat_of_nat_u64: "n < 2 ^ 64 \<Longrightarrow> unat (of_nat n :: u64) = n"
  by (simp add: unat_of_nat)

lemma unat_of_nat_diff_u64:
  assumes "t \<le> n" "n - t < 2 ^ 64"
  shows "unat (of_nat n - of_nat t :: u64) = n - t"
proof -
  have "(of_nat n - of_nat t :: u64) = of_nat (n - t)" using assms(1) by (simp add: of_nat_diff)
  then show ?thesis using unat_of_nat_u64 [OF assms(2)] by simp
qed

section \<open>Words as byte strings\<close>

text \<open>
  \<open>to_le_bytes\<close> / \<open>to_be_bytes\<close> of an \<open>n\<close>-byte integer, and their inverses. A struct copied
  as raw bytes uses the byte order of the machine: the functions on such bytes take the
  \<open>endian\<close> as an argument, and their properties hold for both orders.
\<close>

datatype endian = Little | Big

fun le_bytes :: "nat \<Rightarrow> 'a::len word \<Rightarrow> bytes" where
  "le_bytes 0 w = []"
| "le_bytes (Suc n) w = ucast w # le_bytes n (drop_bit 8 w)"

fun of_le_bytes :: "bytes \<Rightarrow> 'a::len word" where
  "of_le_bytes [] = 0"
| "of_le_bytes (b # bs) = ucast b OR push_bit 8 (of_le_bytes bs)"

definition be_bytes :: "nat \<Rightarrow> 'a::len word \<Rightarrow> bytes" where
  "be_bytes n w = rev (le_bytes n w)"

definition of_be_bytes :: "bytes \<Rightarrow> 'a::len word" where
  "of_be_bytes bs = of_le_bytes (rev bs)"

fun ne_bytes :: "endian \<Rightarrow> nat \<Rightarrow> 'a::len word \<Rightarrow> bytes" where
  "ne_bytes Little n w = le_bytes n w"
| "ne_bytes Big n w = be_bytes n w"

fun of_ne_bytes :: "endian \<Rightarrow> bytes \<Rightarrow> 'a::len word" where
  "of_ne_bytes Little bs = of_le_bytes bs"
| "of_ne_bytes Big bs = of_be_bytes bs"

lemma length_le_bytes [simp]: "length (le_bytes n w) = n"
  by (induction n arbitrary: w) auto

lemma length_be_bytes [simp]: "length (be_bytes n w) = n"
  by (simp add: be_bytes_def)

lemma length_ne_bytes [simp]: "length (ne_bytes e n w) = n"
  by (cases e) auto

lemma of_le_bytes_le_bytes:
  "of_le_bytes (le_bytes n (w :: 'a::len word)) = take_bit (8 * n) w"
proof (induction n arbitrary: w)
  case 0
  then show ?case by simp
next
  case (Suc n)
  show ?case
    by (rule bit_word_eqI)
      (auto simp: Suc bit_or_iff bit_push_bit_iff bit_take_bit_iff bit_drop_bit_eq
        bit_ucast_iff ac_simps)
qed

lemma of_ne_bytes_ne_bytes:
  assumes "LENGTH('a) \<le> 8 * n"
  shows "of_ne_bytes e (ne_bytes e n w) = (w :: 'a::len word)"
  using assms
  by (cases e) (simp_all add: be_bytes_def of_be_bytes_def of_le_bytes_le_bytes take_bit_word_eq_self)

lemma of_be_bytes_be_bytes:
  assumes "LENGTH('a) \<le> 8 * n"
  shows "of_be_bytes (be_bytes n w) = (w :: 'a::len word)"
  using of_ne_bytes_ne_bytes [OF assms, of Big] by simp

lemma nth_le_bytes: "i < n \<Longrightarrow> le_bytes n w ! i = ucast (drop_bit (8 * i) w)"
proof (induction n arbitrary: i w)
  case (Suc n)
  then show ?case by (cases i) (simp_all add: drop_bit_drop_bit ac_simps)
qed simp

lemma bit_of_le_bytes:
  "bit (of_le_bytes bs :: 'a::len word) k \<longleftrightarrow> k < LENGTH('a) \<and> k div 8 < length bs \<and> bit (bs ! (k div 8)) (k mod 8)"
proof (induction bs arbitrary: k)
  case (Cons b bs)
  show ?case
  proof (cases "k < 8")
    case True
    then show ?thesis by (auto simp: bit_or_iff bit_push_bit_iff bit_ucast_iff)
  next
    case False
    then have d: "k div 8 = Suc ((k - 8) div 8)" "k mod 8 = (k - 8) mod 8" by (simp_all add: le_div_geq le_mod_geq)
    have "\<not> bit b k" using False by (simp add: bit_word.rep_eq)
    then show ?thesis using False Cons [of "k - 8"] unfolding d
      by (auto simp: bit_or_iff bit_push_bit_iff bit_ucast_iff)
  qed
qed simp

text \<open>Bytes that fit the word are what it is written as.\<close>

lemma le_bytes_of_le_bytes:
  assumes "8 * length bs \<le> LENGTH('a)"
  shows "le_bytes (length bs) (of_le_bytes bs :: 'a::len word) = bs"
proof (rule nth_equalityI)
  show "length (le_bytes (length bs) (of_le_bytes bs :: 'a word)) = length bs" by simp
  fix i assume "i < length (le_bytes (length bs) (of_le_bytes bs :: 'a word))"
  then have i: "i < length bs" by simp
  show "le_bytes (length bs) (of_le_bytes bs :: 'a word) ! i = bs ! i"
  proof (rule bit_word_eqI)
    fix j assume j: "j < LENGTH(8)"
    then have "(8 * i + j) div 8 = i" "(8 * i + j) mod 8 = j" "8 * i + j < LENGTH('a)" using i assms by simp_all
    then show "bit (le_bytes (length bs) (of_le_bytes bs :: 'a word) ! i) j = bit (bs ! i) j"
      using i j by (simp add: nth_le_bytes bit_ucast_iff bit_drop_bit_eq bit_of_le_bytes)
  qed
qed

lemma be_bytes_of_be_bytes:
  assumes "length bs = n" "8 * n \<le> LENGTH('a)"
  shows "be_bytes n (of_be_bytes bs :: 'a::len word) = bs"
  using le_bytes_of_le_bytes [where bs = "rev bs" and 'a = 'a] assms by (simp add: be_bytes_def of_be_bytes_def)

section \<open>Memory as a byte list\<close>

definition read_at :: "nat \<Rightarrow> nat \<Rightarrow> 'a list \<Rightarrow> 'a list" where
  "read_at off n mem = take n (drop off mem)"

definition write_at :: "nat \<Rightarrow> 'a list \<Rightarrow> 'a list \<Rightarrow> 'a list" where
  "write_at off bs mem = take off mem @ bs @ drop (off + length bs) mem"

lemma length_write_at [simp]:
  "off + length bs \<le> length mem \<Longrightarrow> length (write_at off bs mem) = length mem"
  by (simp add: write_at_def)

lemma length_read_at [simp]: "off + n \<le> length mem \<Longrightarrow> length (read_at off n mem) = n"
  by (simp add: read_at_def)

lemma read_write_same:
  "off + length bs \<le> length mem \<Longrightarrow> n = length bs \<Longrightarrow> read_at off n (write_at off bs mem) = bs"
  by (simp add: read_at_def write_at_def)

lemma length_fold_writes:
  "list_all (\<lambda>(off, bs). off + length bs \<le> length buf) ws \<Longrightarrow>
     length (fold (\<lambda>(off, bs). write_at off bs) ws buf) = length buf"
proof (induction ws arbitrary: buf)
  case (Cons w ws)
  then show ?case by (cases w) (simp add: length_write_at)
qed simp

lemma nth_write_at:
  assumes "off + length bs \<le> length mem" "i < length mem"
  shows "write_at off bs mem ! i = (if off \<le> i \<and> i < off + length bs then bs ! (i - off) else mem ! i)"
  using assms by (auto simp: write_at_def nth_append)

lemma read_write_disjoint:
  assumes "off + length bs \<le> length mem" "a + n \<le> off \<or> off + length bs \<le> a"
  shows "read_at a n (write_at off bs mem) = read_at a n mem"
proof (rule nth_equalityI)
  show "length (read_at a n (write_at off bs mem)) = length (read_at a n mem)"
    using assms(1) by (simp add: read_at_def)
next
  fix i
  assume "i < length (read_at a n (write_at off bs mem))"
  then have "i < n" "i < length mem - a" using assms(1) by (simp_all add: read_at_def)
  then have "i < n" "a + i < length mem" by linarith+
  then show "read_at a n (write_at off bs mem) ! i = read_at a n mem ! i"
    using assms by (auto simp: read_at_def nth_write_at)
qed

end
