(* ===== verification/Core.thy ===== *)
theory Core
  imports Prelude
begin

text \<open>
  The contract layer of \<open>crates/flyby-core\<close>: errors and their kinds (\<open>error.rs\<close>), the message
  model and its metadata (\<open>message.rs\<close>), sink identifiers (\<open>placement.rs\<close>), the outcome of a
  pipeline step (\<open>pipeline.rs\<close>), metric kinds (\<open>metrics.rs\<close>), and the \<open>Encode\<close> and
  \<open>Message\<close> traits as records of functions. A \<open>Result<T>\<close> is the sum of an error and a value.
\<close>

section \<open>Errors\<close>

datatype error_kind =
    Source | Sink | BackPressure | Decode | Encode | Placement | PreProcess | Config
  | FeatureNotEnabled | NotImplemented | Lifecycle | Io | Other

fun kind_label :: "error_kind \<Rightarrow> string" where
  "kind_label Source = ''source''"
| "kind_label Sink = ''sink''"
| "kind_label BackPressure = ''back-pressure''"
| "kind_label Decode = ''decode''"
| "kind_label Encode = ''encode''"
| "kind_label Placement = ''placement''"
| "kind_label PreProcess = ''preprocess''"
| "kind_label Config = ''config''"
| "kind_label FeatureNotEnabled = ''feature-not-enabled''"
| "kind_label NotImplemented = ''not-implemented''"
| "kind_label Lifecycle = ''lifecycle''"
| "kind_label Io = ''io''"
| "kind_label Other = ''other''"

text \<open>
  The boxed source error is kept as its rendered text: nothing in the sources reads more of it
  than whether it is there.
\<close>

record error =
  err_kind :: error_kind
  err_message :: string
  err_source :: "string option"

type_synonym 'a result = "error + 'a"

definition error_new :: "error_kind \<Rightarrow> string \<Rightarrow> error" where
  "error_new k m = \<lparr>err_kind = k, err_message = m, err_source = None\<rparr>"

definition error_with_source :: "error_kind \<Rightarrow> string \<Rightarrow> string \<Rightarrow> error" where
  "error_with_source k m src = \<lparr>err_kind = k, err_message = m, err_source = Some src\<rparr>"

definition source_error :: "string \<Rightarrow> error" where
  "source_error m = error_new Source m"

definition sink_error :: "string \<Rightarrow> error" where
  "sink_error m = error_new Sink m"

definition back_pressure_error :: "string \<Rightarrow> error" where
  "back_pressure_error m = error_new BackPressure m"

definition decode_error :: "string \<Rightarrow> error" where
  "decode_error m = error_new Decode m"

definition encode_error :: "string \<Rightarrow> error" where
  "encode_error m = error_new Encode m"

definition placement_error :: "string \<Rightarrow> error" where
  "placement_error m = error_new Placement m"

definition config_error :: "string \<Rightarrow> error" where
  "config_error m = error_new Config m"

definition not_implemented_error :: "string \<Rightarrow> error" where
  "not_implemented_error m = error_new NotImplemented m"

definition lifecycle_error :: "string \<Rightarrow> error" where
  "lifecycle_error m = error_new Lifecycle m"

lemmas error_defs =
  source_error_def sink_error_def back_pressure_error_def decode_error_def encode_error_def
  placement_error_def config_error_def not_implemented_error_def lifecycle_error_def

definition error_clone :: "error \<Rightarrow> error" where
  "error_clone e = e\<lparr>err_source := None\<rparr>"

definition error_eq :: "error \<Rightarrow> error \<Rightarrow> bool" where
  "error_eq a b = (err_kind a = err_kind b \<and> err_message a = err_message b)"

definition error_display :: "error \<Rightarrow> string" where
  "error_display e = kind_label (err_kind e) @ '': '' @ err_message e"

text \<open>The kinds of \<open>std::io::Error\<close> that the conversion distinguishes.\<close>

datatype io_kind = WouldBlock | Interrupted | OtherIo

definition error_from_io :: "io_kind \<Rightarrow> string \<Rightarrow> error" where
  "error_from_io k text_of =
     error_with_source
       (case k of WouldBlock \<Rightarrow> BackPressure | Interrupted \<Rightarrow> BackPressure | _ \<Rightarrow> Io)
       text_of text_of"

lemma err_kind_new [simp]: "err_kind (error_new k m) = k"
  by (simp add: error_new_def)

lemma err_kind_helpers [simp]:
  "err_kind (sink_error m) = Sink"
  "err_kind (back_pressure_error m) = BackPressure"
  "err_kind (decode_error m) = Decode"
  "err_kind (encode_error m) = Encode"
  "err_kind (placement_error m) = Placement"
  "err_kind (config_error m) = Config"
  "err_kind (not_implemented_error m) = NotImplemented"
  "err_kind (lifecycle_error m) = Lifecycle"
  by (simp_all add: error_defs)

lemma kind_label_inj: "kind_label a = kind_label b \<longleftrightarrow> a = b"
  by (cases a; cases b) simp_all

text \<open>No label contains the separator, so a rendered error can be read back.\<close>

lemma colon_notin_kind_label: "CHR '':'' \<notin> set (kind_label k)"
  by (cases k) simp_all

lemma takeWhile_kind_label: "takeWhile (\<lambda>c. c \<noteq> CHR '':'') (kind_label k @ '': '' @ m) = kind_label k"
  by (cases k) simp_all

section \<open>Messages\<close>

record metadata =
  md_sequence :: u64
  md_suspect :: bool

text \<open>
  The traits \<open>Message\<close> and \<open>Encode\<close> as the functions an implementation supplies.
  \<open>encode_into\<close> gets the destination slice and returns it as it left it.
\<close>

record 'm message_ops =
  schema_id :: "'m \<Rightarrow> u16"
  timestamp :: "'m \<Rightarrow> u64"
  metadata_of :: "'m \<Rightarrow> metadata"
  encoded_len :: "'m \<Rightarrow> nat"
  encode_into :: "'m \<Rightarrow> bytes \<Rightarrow> nat result \<times> bytes"

section \<open>Sink identifiers\<close>

datatype sink_id = SinkId (as_u32: u32)

definition sink_id_none :: sink_id where
  "sink_id_none = SinkId 0"

definition sink_id_try_new :: "u32 \<Rightarrow> sink_id result" where
  "sink_id_try_new i =
     (if i = 0 then Inl (config_error ''SinkId 0 is reserved; use SinkId::NONE'')
      else Inr (SinkId i))"

text \<open>\<open>SinkId::new\<close> panics on zero: no value.\<close>

definition sink_id_new :: "u32 \<Rightarrow> sink_id option" where
  "sink_id_new i = (if i \<noteq> 0 then Some (SinkId i) else None)"

definition sink_id_is_none :: "sink_id \<Rightarrow> bool" where
  "sink_id_is_none s = (as_u32 s = 0)"

lemma sink_id_is_none_iff: "sink_id_is_none s \<longleftrightarrow> s = sink_id_none"
  by (cases s) (simp add: sink_id_is_none_def sink_id_none_def)

lemma sink_id_try_new_ok: "sink_id_try_new i = Inr s \<longleftrightarrow> i \<noteq> 0 \<and> s = SinkId i"
  by (auto simp: sink_id_try_new_def)

section \<open>Step outcomes and metrics\<close>

datatype step_outcome = Progress | Idle | BackPressured | Exhausted

text \<open>The default \<open>step_outcome\<close> of the \<open>Pipeline\<close> trait, from the result of \<open>step\<close>.\<close>

definition default_step_outcome :: "bool result \<Rightarrow> step_outcome result" where
  "default_step_outcome r =
     (case r of Inl e \<Rightarrow> Inl e | Inr b \<Rightarrow> Inr (if b then Progress else Idle))"

datatype metric_kind = Counter | Gauge | Histogram

text \<open>
  What a stage reports to its collector: the key's name, the kind and the (integer) value.
  The models keep the samples in the order they are recorded.
\<close>

type_synonym sample = "string \<times> metric_kind \<times> nat"

definition record_counter :: "string \<Rightarrow> nat \<Rightarrow> sample list \<Rightarrow> sample list" where
  "record_counter key v log = log @ [(key, Counter, v)]"

definition record_gauge :: "string \<Rightarrow> nat \<Rightarrow> sample list \<Rightarrow> sample list" where
  "record_gauge key v log = log @ [(key, Gauge, v)]"

definition record_histogram :: "string \<Rightarrow> nat \<Rightarrow> sample list \<Rightarrow> sample list" where
  "record_histogram key v log = log @ [(key, Histogram, v)]"

text \<open>The sum a counting collector holds for one counter.\<close>

definition counter_total :: "string \<Rightarrow> sample list \<Rightarrow> nat" where
  "counter_total key log = sum_list (map (\<lambda>(k, t, v). if k = key \<and> t = Counter then v else 0) log)"

lemma counter_total_simps [simp]:
  "counter_total key [] = 0"
  "counter_total key (record_counter key' v log) =
     counter_total key log + (if key' = key then v else 0)"
  "counter_total key (record_gauge key' v log) = counter_total key log"
  "counter_total key (record_histogram key' v log) = counter_total key log"
  by (simp_all add: counter_total_def record_counter_def record_gauge_def record_histogram_def)

section \<open>Numbers in messages\<close>

text \<open>Decimal rendering of a \<open>usize\<close> in a formatted message.\<close>

fun nat_dec :: "nat \<Rightarrow> string" where
  "nat_dec n = (if n < 10 then [char_of (48 + n)] else nat_dec (n div 10) @ [char_of (48 + n mod 10)])"

declare nat_dec.simps [simp del]

end
