(* ===== verification/Placement.thy ===== *)
theory Placement
  imports Core
begin

text \<open>
  The placement strategies of \<open>crates/flyby/src/pipeline.rs\<close> (the trait is in
  \<open>crates/flyby-core/src/placement.rs\<close>). Each is its state with a \<open>route\<close> operation; the key
  function and the callback, closures of the caller, are parameters with their own state.
\<close>

definition fixed_placement_new :: "sink_id \<Rightarrow> sink_id result" where
  "fixed_placement_new i =
     (if sink_id_is_none i
      then Inl (config_error ''FixedPlacement cannot use SinkId::NONE; use DropAllPlacement'')
      else Inr i)"

definition fixed_route :: "sink_id \<Rightarrow> 'm \<Rightarrow> sink_id result \<times> sink_id" where
  "fixed_route i m = (Inr i, i)"

definition drop_all_route :: "unit \<Rightarrow> 'm \<Rightarrow> sink_id result \<times> unit" where
  "drop_all_route u m = (Inr sink_id_none, u)"

record round_robin =
  rr_sinks :: "sink_id list"
  rr_next :: usize

definition round_robin_new :: "sink_id list \<Rightarrow> round_robin result" where
  "round_robin_new ids =
     (if ids = [] then Inl (config_error ''RoundRobinPlacement requires at least one sink'')
      else if list_ex sink_id_is_none ids
      then Inl (config_error ''RoundRobinPlacement cannot include SinkId::NONE'')
      else Inr \<lparr>rr_sinks = ids, rr_next = 0\<rparr>)"

definition round_robin_route :: "round_robin \<Rightarrow> 'm \<Rightarrow> sink_id result \<times> round_robin" where
  "round_robin_route r m =
     (Inr (rr_sinks r ! (unat (rr_next r) mod length (rr_sinks r))), r\<lparr>rr_next := rr_next r + 1\<rparr>)"

record 'c hash_placement =
  hp_sinks :: "sink_id list"
  hp_closure :: 'c

definition hash_placement_new :: "sink_id list \<Rightarrow> 'c \<Rightarrow> 'c hash_placement result" where
  "hash_placement_new ids closure =
     (if ids = [] then Inl (config_error ''HashPlacement requires at least one sink'')
      else if list_ex sink_id_is_none ids
      then Inl (config_error ''HashPlacement cannot include SinkId::NONE'')
      else Inr \<lparr>hp_sinks = ids, hp_closure = closure\<rparr>)"

definition hash_route ::
  "('c \<Rightarrow> 'm \<Rightarrow> u64 \<times> 'c) \<Rightarrow> 'c hash_placement \<Rightarrow> 'm \<Rightarrow> sink_id result \<times> 'c hash_placement"
where
  "hash_route key_fn h m =
     (let (key, c) = key_fn (hp_closure h) m
      in (Inr (hp_sinks h ! (unat key mod length (hp_sinks h))), h\<lparr>hp_closure := c\<rparr>))"

definition schema_hash_route :: "'m message_ops \<Rightarrow> unit hash_placement \<Rightarrow> 'm \<Rightarrow> sink_id result \<times> unit hash_placement" where
  "schema_hash_route ops = hash_route (\<lambda>u m. (ucast (schema_id ops m), u))"

definition callback_route :: "('c \<Rightarrow> 'm \<Rightarrow> sink_id result \<times> 'c) \<Rightarrow> 'c \<Rightarrow> 'm \<Rightarrow> sink_id result \<times> 'c" where
  "callback_route callback c m = callback c m"

section \<open>Runs of routing decisions\<close>

fun routes :: "('r \<Rightarrow> 'm \<Rightarrow> sink_id result \<times> 'r) \<Rightarrow> 'r \<Rightarrow> 'm list \<Rightarrow> sink_id result list \<times> 'r" where
  "routes route r [] = ([], r)"
| "routes route r (m # ms) =
     (let (x, r1) = route r m; (xs, r2) = routes route r1 ms in (x # xs, r2))"

lemma round_robin_routes:
  assumes "unat (rr_next r) + length ms < 2 ^ 64"
  shows "fst (routes round_robin_route r ms)
     = map (\<lambda>i. Inr (rr_sinks r ! ((unat (rr_next r) + i) mod length (rr_sinks r)))) [0..<length ms]"
  using assms
proof (induction ms arbitrary: r)
  case Nil
  then show ?case by simp
next
  case (Cons m ms)
  let ?r = "r\<lparr>rr_next := rr_next r + 1\<rparr>"
  have u: "unat (rr_next ?r) = Suc (unat (rr_next r))"
    using unat_add_exact [of "rr_next r" 1] Cons.prems by simp
  then have "unat (rr_next ?r) + length ms < 2 ^ 64" using Cons.prems by simp
  from Cons.IH [OF this] u have IH: "fst (routes round_robin_route ?r ms)
     = map (\<lambda>i. Inr (rr_sinks r ! ((unat (rr_next r) + Suc i) mod length (rr_sinks r)))) [0..<length ms]"
    by simp
  have "map (\<lambda>i. Inr (rr_sinks r ! ((unat (rr_next r) + i) mod length (rr_sinks r))) :: sink_id result)
       [0..<Suc (length ms)]
     = Inr (rr_sinks r ! (unat (rr_next r) mod length (rr_sinks r)))
       # map (\<lambda>i. Inr (rr_sinks r ! ((unat (rr_next r) + Suc i) mod length (rr_sinks r)))) [0..<length ms]"
    by (simp add: upt_conv_Cons map_Suc_upt [symmetric] o_def del: upt_Suc)
  moreover have "round_robin_route r m = (Inr (rr_sinks r ! (unat (rr_next r) mod length (rr_sinks r))), ?r)"
    by (simp add: round_robin_route_def)
  ultimately show ?case using IH by (simp add: split_beta del: upt_Suc)
qed

section \<open>Properties\<close>

text \<open>
  Round robin visits the sinks cyclically in the given order, starting with the first: the
  \<open>i\<close>-th message goes to sink \<open>i mod n\<close> (for the \<open>2 ^ 64\<close> messages before the counter wraps),
  and never to the reserved identifier.
\<close>

theorem round_robin_cycles:
  assumes "round_robin_new ids = Inr r" "length ms < 2 ^ 64"
  shows "fst (routes round_robin_route r ms) = map (\<lambda>i. Inr (ids ! (i mod length ids))) [0..<length ms]
    \<and> list_all (\<lambda>x. x \<noteq> Inr sink_id_none) (fst (routes round_robin_route r ms))"
proof -
  have r: "r = \<lparr>rr_sinks = ids, rr_next = 0\<rparr>" "ids \<noteq> []" "\<forall>i \<in> set ids. i \<noteq> sink_id_none"
    using assms(1) by (auto simp: round_robin_new_def list_ex_iff sink_id_is_none_iff split: if_splits)
  have e: "fst (routes round_robin_route r ms) = map (\<lambda>i. Inr (ids ! (i mod length ids))) [0..<length ms]"
    using round_robin_routes [of r ms] assms(2) by (simp add: r)
  have "ids ! (i mod length ids) \<noteq> sink_id_none" for i using r(2,3) by (simp add: nth_mem)
  then show ?thesis unfolding e by (simp add: list_all_iff)
qed

lemma round_robin_cycles_witness:
  "\<exists>r. round_robin_new [SinkId 1, SinkId 2] = Inr r
     \<and> fst (routes round_robin_route r [(), (), ()]) = [Inr (SinkId 1), Inr (SinkId 2), Inr (SinkId 1)]"
proof -
  have n: "round_robin_new [SinkId 1, SinkId 2] = Inr \<lparr>rr_sinks = [SinkId 1, SinkId 2], rr_next = 0\<rparr>"
    by (simp add: round_robin_new_def sink_id_is_none_def)
  from round_robin_cycles [OF n, of "[(), (), ()]"] n show ?thesis by (simp add: upt_rec)
qed

text \<open>
  Hash placement sends messages with equal keys to the same sink, always one of the sinks it
  was given and never the reserved identifier, whatever else is routed in between.
\<close>

theorem hash_placement_stable:
  assumes "hash_placement_new ids c = Inr h0" "hp_sinks h = hp_sinks h0" "hp_sinks h' = hp_sinks h0"
    "fst (key_fn (hp_closure h) m) = fst (key_fn (hp_closure h') m')"
  shows "fst (hash_route key_fn h m) = fst (hash_route key_fn h' m')
    \<and> (\<exists>i \<in> set ids. fst (hash_route key_fn h m) = Inr i \<and> i \<noteq> sink_id_none)
    \<and> hp_sinks (snd (hash_route key_fn h m)) = hp_sinks h0"
proof -
  have ids: "hp_sinks h0 = ids" "ids \<noteq> []" "\<forall>i \<in> set ids. i \<noteq> sink_id_none"
    using assms(1) by (auto simp: hash_placement_new_def list_ex_iff sink_id_is_none_iff split: if_splits)
  then have "ids ! (k mod length ids) \<in> set ids" for k by simp
  then show ?thesis
    using assms(2-4) ids by (auto simp: hash_route_def split_beta)
qed

lemma hash_placement_stable_witness:
  "\<exists>h. hash_placement_new [SinkId 4, SinkId 5] () = Inr h
     \<and> fst (hash_route (\<lambda>u m. (m, u)) h (7 :: u64)) = fst (hash_route (\<lambda>u m. (m, u)) h 7)
     \<and> hp_sinks (snd (hash_route (\<lambda>u m. (m, u)) h (7 :: u64))) = [SinkId 4, SinkId 5]"
proof -
  have n: "hash_placement_new [SinkId 4, SinkId 5] () = Inr \<lparr>hp_sinks = [SinkId 4, SinkId 5], hp_closure = ()\<rparr>"
    by (simp add: hash_placement_new_def sink_id_is_none_def)
  from hash_placement_stable [OF n refl refl, of "\<lambda>u m. (m, u)" "7 :: u64" 7] n show ?thesis by auto
qed

end
