(* ===== verification/Runtime_Config.thy ===== *)
theory Runtime_Config
  imports Core
begin

text \<open>
  Runtime configuration of \<open>crates/flyby/src/runtime\<close>: the back-pressure strategies
  (\<open>backpressure.rs\<close>), \<open>RuntimeConfig\<close> with its defaults, setters, validation and files (\<open>config.rs\<close>;
  the TOML parser is an argument), the runtime's metric keys and events
  (\<open>telemetry.rs\<close>) and the CPU affinity requests (\<open>affinity.rs\<close>). Durations are nanoseconds.
\<close>

datatype backpressure_strategy = Block | Spin | DropNewest | DropOldest | Overflow | AdaptiveBatching

fun backpressure_as_str :: "backpressure_strategy \<Rightarrow> string" where
  "backpressure_as_str Block = ''block''"
| "backpressure_as_str Spin = ''spin''"
| "backpressure_as_str DropNewest = ''drop_newest''"
| "backpressure_as_str DropOldest = ''drop_oldest''"
| "backpressure_as_str Overflow = ''overflow''"
| "backpressure_as_str AdaptiveBatching = ''adaptive_batching''"

datatype scheduler_kind = Default | SingleThread | WorkerPool

record runtime_config =
  rc_workers :: nat
  rc_batch_size :: nat
  rc_backpressure :: backpressure_strategy
  rc_scheduler :: scheduler_kind
  rc_metrics :: bool
  rc_backpressure_retries :: "u32 option"
  rc_backpressure_yield_ms :: nat
  rc_idle_sleep_ms :: "nat option"
  rc_overflow_sink :: "u32 option"

definition runtime_config_default :: runtime_config where
  "runtime_config_default =
     \<lparr>rc_workers = 1, rc_batch_size = 512, rc_backpressure = Block, rc_scheduler = Default,
      rc_metrics = True, rc_backpressure_retries = None, rc_backpressure_yield_ms = 0,
      rc_idle_sleep_ms = None, rc_overflow_sink = None\<rparr>"

definition runtime_validate :: "runtime_config \<Rightarrow> unit result" where
  "runtime_validate c =
     (if rc_workers c = 0
      then Inl (config_error (''runtime.workers must be '' @ [CHR 0xE2, CHR 0x89, CHR 0xA5] @ '' 1''))
      else if rc_batch_size c = 0
      then Inl (config_error (''runtime.batch_size must be '' @ [CHR 0xE2, CHR 0x89, CHR 0xA5] @ '' 1''))
      else if rc_scheduler c = WorkerPool \<and> rc_workers c < 1
      then Inl (config_error (''worker pool requires workers '' @ [CHR 0xE2, CHR 0x89, CHR 0xA5] @ '' 1''))
      else Inr ())"

definition idle_sleep :: "runtime_config \<Rightarrow> nat option" where
  "idle_sleep c = map_option (\<lambda>ms. ms * 10 ^ 6) (rc_idle_sleep_ms c)"

definition backpressure_yield :: "runtime_config \<Rightarrow> nat" where
  "backpressure_yield c = rc_backpressure_yield_ms c * 10 ^ 6"

definition with_workers :: "nat \<Rightarrow> runtime_config \<Rightarrow> runtime_config" where
  "with_workers n c = c\<lparr>rc_workers := max n 1\<rparr>"

definition with_batch_size :: "nat \<Rightarrow> runtime_config \<Rightarrow> runtime_config" where
  "with_batch_size n c = c\<lparr>rc_batch_size := max n 1\<rparr>"

definition with_backpressure :: "backpressure_strategy \<Rightarrow> runtime_config \<Rightarrow> runtime_config" where
  "with_backpressure bp c = c\<lparr>rc_backpressure := bp\<rparr>"

definition with_scheduler :: "scheduler_kind \<Rightarrow> runtime_config \<Rightarrow> runtime_config" where
  "with_scheduler k c = c\<lparr>rc_scheduler := k\<rparr>"

definition with_metrics :: "bool \<Rightarrow> runtime_config \<Rightarrow> runtime_config" where
  "with_metrics on c = c\<lparr>rc_metrics := on\<rparr>"

section \<open>Configuration files\<close>

text \<open>
  The document around the \<open>[runtime]\<close> table, which may be missing. The library that parses TOML and fills the table
  is an argument, and so is the reading of the file; both report errors by their text.
\<close>

record runtime_file =
  rf_runtime :: runtime_config

definition runtime_file_default :: runtime_file where
  "runtime_file_default = \<lparr>rf_runtime = runtime_config_default\<rparr>"

definition from_toml_str :: "(string \<Rightarrow> string + runtime_file) \<Rightarrow> string \<Rightarrow> runtime_config result" where
  "from_toml_str parse text =
     (case parse text of
        Inl e \<Rightarrow> Inl (config_error (''runtime TOML: '' @ e))
      | Inr file \<Rightarrow>
          (case runtime_validate (rf_runtime file) of Inl e \<Rightarrow> Inl e | Inr _ \<Rightarrow> Inr (rf_runtime file)))"

definition from_toml_path ::
  "(string \<Rightarrow> string + runtime_file) \<Rightarrow> (string \<Rightarrow> string + string) \<Rightarrow> string \<Rightarrow> runtime_config result"
where
  "from_toml_path parse read_text path =
     (case read_text path of
        Inl e \<Rightarrow> Inl (config_error (''failed to read runtime config '' @ [CHR 0x27] @ path @ [CHR 0x27] @ '': '' @ e))
      | Inr text \<Rightarrow> from_toml_str parse text)"

section \<open>Telemetry\<close>

datatype runtime_metric_key =
    Steps | MessagesOut | MessagesDropped | BackpressureEvents | IdleSkips
  | StepDurationNs | Phase | Workers

fun runtime_metric_name :: "runtime_metric_key \<Rightarrow> string" where
  "runtime_metric_name Steps = ''runtime.steps''"
| "runtime_metric_name MessagesOut = ''runtime.messages_out''"
| "runtime_metric_name MessagesDropped = ''runtime.messages_dropped''"
| "runtime_metric_name BackpressureEvents = ''runtime.backpressure_events''"
| "runtime_metric_name IdleSkips = ''runtime.idle_skips''"
| "runtime_metric_name StepDurationNs = ''runtime.step_duration_ns''"
| "runtime_metric_name Phase = ''runtime.phase''"
| "runtime_metric_name Workers = ''runtime.workers''"

datatype runtime_event =
    Built | Validated | Initialized | Started | Draining | Shutdown | Cleanup | Step nat

fun event_key :: "runtime_event \<Rightarrow> string" where
  "event_key Built = ''runtime.event.built''"
| "event_key Validated = ''runtime.event.validated''"
| "event_key Initialized = ''runtime.event.initialized''"
| "event_key Started = ''runtime.event.started''"
| "event_key Draining = ''runtime.event.draining''"
| "event_key Shutdown = ''runtime.event.shutdown''"
| "event_key Cleanup = ''runtime.event.cleanup''"
| "event_key (Step n) = ''runtime.event.step''"

definition emit_lifecycle :: "bool \<Rightarrow> runtime_event \<Rightarrow> sample list \<Rightarrow> sample list" where
  "emit_lifecycle enabled event log =
     (if \<not> enabled then log else record_counter (event_key event) 1 log)"

section \<open>Affinity\<close>

datatype affinity_policy = NoAffinity | PinWorkers | NumaLocal

record affinity_request =
  af_worker_index :: nat
  af_cpus :: "nat list"
  af_policy :: affinity_policy

definition affinity_for_worker :: "affinity_policy \<Rightarrow> nat \<Rightarrow> affinity_request" where
  "affinity_for_worker policy worker_index =
     \<lparr>af_worker_index = worker_index, af_cpus = [], af_policy = policy\<rparr>"

fun affinity_debug :: "affinity_policy \<Rightarrow> string" where
  "affinity_debug NoAffinity = ''None''"
| "affinity_debug PinWorkers = ''PinWorkers''"
| "affinity_debug NumaLocal = ''NumaLocal''"

definition apply_affinity :: "affinity_request \<Rightarrow> bool \<Rightarrow> unit result" where
  "apply_affinity req strict =
     (case af_policy req of
        NoAffinity \<Rightarrow> Inr ()
      | other \<Rightarrow>
          if \<not> strict then Inr ()
          else Inl (error_new NotImplemented (''CPU affinity policy '' @ affinity_debug other
                 @ '' is not yet implemented'')))"

text \<open>The setters keep a configuration valid, and the third check of \<open>validate\<close> never fires.\<close>

lemma runtime_validate_iff: "runtime_validate c = Inr () \<longleftrightarrow> 0 < rc_workers c \<and> 0 < rc_batch_size c"
  by (auto simp: runtime_validate_def)

lemma setters_valid [intro]:
  "runtime_validate c = Inr () \<Longrightarrow> runtime_validate (with_workers n c) = Inr ()"
  "runtime_validate c = Inr () \<Longrightarrow> runtime_validate (with_batch_size n c) = Inr ()"
  by (simp_all add: runtime_validate_iff with_workers_def with_batch_size_def)

text \<open>Whatever the parser makes of a file, a configuration that is loaded is valid; an empty one is the default.\<close>

lemma from_toml_valid: "from_toml_path parse read_text path = Inr c \<Longrightarrow> 0 < rc_workers c \<and> 0 < rc_batch_size c"
  by (auto simp: from_toml_path_def from_toml_str_def runtime_validate_def split: sum.splits if_splits)

lemma from_toml_default: "parse text = Inr runtime_file_default \<Longrightarrow> from_toml_str parse text = Inr runtime_config_default"
  by (simp add: from_toml_str_def runtime_file_default_def runtime_config_default_def runtime_validate_def)

end
