(* ===== verification/Pipeline.thy ===== *)
theory Pipeline
  imports Placement Runtime_Config
begin

text \<open>
  \<open>SimplePipeline\<close> of \<open>crates/flyby/src/pipeline.rs\<close>: a source of raw frames, a decoder, a
  preprocessor, a placement and a map of sinks, driven one step at a time.

  The stages are trait objects of the caller: their operations are a record of functions on
  their own states (\<open>stages\<close>). \<open>st_yield\<close> is what the rest of the world does to a sink while the
  thread yields or sleeps between two attempts. The hash map of sinks is an association list in
  its iteration order, which Rust leaves unspecified: registering inserts at any position.

  A write that is retried without a budget need not return, nor need the initialisation of a sink
  (the memory sink drains its region), so the operations that reach them are partial: \<open>None\<close> is a
  call that never returns. The retry counter is a \<open>u32\<close> that wraps, as in a release build (a
  debug build panics there).
\<close>

record ('s, 'd, 'p, 'r, 'k, 'm) stages =
  st_source_init :: "'s \<Rightarrow> unit result \<times> 's"
  st_source_shutdown :: "'s \<Rightarrow> unit result \<times> 's"
  st_poll_frames :: "'s \<Rightarrow> nat result \<times> bytes list \<times> 's"
  st_is_exhausted :: "'s \<Rightarrow> bool"
  st_decode :: "'d \<Rightarrow> bytes \<Rightarrow> 'm option result \<times> 'd"
  st_process :: "'p \<Rightarrow> 'm \<Rightarrow> 'm option result \<times> 'p"
  st_route :: "'r \<Rightarrow> 'm \<Rightarrow> sink_id result \<times> 'r"
  st_sink_init :: "'k \<Rightarrow> (unit result \<times> 'k) option"
  st_sink_write :: "'m \<Rightarrow> 'k \<Rightarrow> unit result \<times> 'k"
  st_sink_flush :: "'k \<Rightarrow> unit result \<times> 'k"
  st_sink_shutdown :: "'k \<Rightarrow> unit result \<times> 'k"
  st_yield :: "'k \<Rightarrow> 'k"

record ('s, 'd, 'p, 'r, 'k) pipeline =
  pl_source :: 's
  pl_decoder :: 'd
  pl_preprocessor :: 'p
  pl_placement :: 'r
  pl_sinks :: "(u32 \<times> 'k) list"
  pl_metrics :: "sample list"
  pl_runtime :: runtime_config
  pl_pending :: "bytes list"
  pl_pending_idx :: nat
  pl_initialized :: bool
  pl_messages_out :: nat
  pl_messages_dropped :: nat
  pl_backpressure_events :: nat

definition pipeline_new :: "'s \<Rightarrow> 'd \<Rightarrow> 'p \<Rightarrow> 'r \<Rightarrow> ('s, 'd, 'p, 'r, 'k) pipeline" where
  "pipeline_new source decoder preprocessor placement =
     \<lparr>pl_source = source, pl_decoder = decoder, pl_preprocessor = preprocessor,
      pl_placement = placement, pl_sinks = [], pl_metrics = [], pl_runtime = runtime_config_default,
      pl_pending = [], pl_pending_idx = 0, pl_initialized = False, pl_messages_out = 0,
      pl_messages_dropped = 0, pl_backpressure_events = 0\<rparr>"

text \<open>\<open>IdentityPreProcessor\<close>.\<close>

definition identity_process :: "unit \<Rightarrow> 'm \<Rightarrow> 'm option result \<times> unit" where
  "identity_process u m = (Inr (Some m), u)"

definition with_runtime :: "runtime_config \<Rightarrow> ('s, 'd, 'p, 'r, 'k) pipeline \<Rightarrow> ('s, 'd, 'p, 'r, 'k) pipeline" where
  "with_runtime rc p = p\<lparr>pl_runtime := rc\<rparr>"

definition record_metric ::
  "runtime_metric_key \<Rightarrow> nat \<Rightarrow> ('s, 'd, 'p, 'r, 'k) pipeline \<Rightarrow> ('s, 'd, 'p, 'r, 'k) pipeline"
where
  "record_metric key n p =
     (if rc_metrics (pl_runtime p)
      then p\<lparr>pl_metrics := record_counter (runtime_metric_name key) n (pl_metrics p)\<rparr> else p)"

definition register_sink ::
  "nat \<Rightarrow> sink_id \<Rightarrow> 'k \<Rightarrow> ('s, 'd, 'p, 'r, 'k) pipeline \<Rightarrow> unit result \<times> ('s, 'd, 'p, 'r, 'k) pipeline"
where
  "register_sink place i k p =
     (if pl_initialized p then (Inl (lifecycle_error ''cannot register_sink after init''), p)
      else if sink_id_is_none i
      then (Inl (config_error ''cannot register sink under SinkId::NONE''), p)
      else if map_of (pl_sinks p) (as_u32 i) \<noteq> None
      then (Inl (config_error (''sink id '' @ nat_dec (unat (as_u32 i)) @ '' already registered'')), p)
      else (Inr (), p\<lparr>pl_sinks := take place (pl_sinks p) @ (as_u32 i, k) # drop place (pl_sinks p)\<rparr>))"

section \<open>Writing under back-pressure\<close>

datatype frame_result = FrWritten | FrSkipped | FrDropped | FrBackPressured

definition put_sink :: "u32 \<Rightarrow> 'k \<Rightarrow> (u32 \<times> 'k) list \<Rightarrow> (u32 \<times> 'k) list" where
  "put_sink i k ks = map (\<lambda>(j, x). if j = i then (j, k) else (j, x)) ks"

text \<open>\<open>sinks.get_mut\<close> and \<open>write\<close>: \<open>None\<close> when no sink is registered.\<close>

definition write_to ::
  "('s, 'd, 'p, 'r, 'k, 'm) stages \<Rightarrow> u32 \<Rightarrow> 'm \<Rightarrow> ('s, 'd, 'p, 'r, 'k) pipeline
    \<Rightarrow> unit result option \<times> ('s, 'd, 'p, 'r, 'k) pipeline"
where
  "write_to ops i msg p =
     (case map_of (pl_sinks p) i of
        None \<Rightarrow> (None, p)
      | Some k \<Rightarrow>
          (let (r, k1) = st_sink_write ops msg k in
           (Some r, p\<lparr>pl_sinks := put_sink i k1 (pl_sinks p)\<rparr>)))"

definition count_out :: "('s, 'd, 'p, 'r, 'k) pipeline \<Rightarrow> ('s, 'd, 'p, 'r, 'k) pipeline" where
  "count_out p = record_metric MessagesOut 1 (p\<lparr>pl_messages_out := pl_messages_out p + 1\<rparr>)"

definition count_dropped :: "('s, 'd, 'p, 'r, 'k) pipeline \<Rightarrow> ('s, 'd, 'p, 'r, 'k) pipeline" where
  "count_dropped p = record_metric MessagesDropped 1 (p\<lparr>pl_messages_dropped := pl_messages_dropped p + 1\<rparr>)"

definition overflow_write ::
  "('s, 'd, 'p, 'r, 'k, 'm) stages \<Rightarrow> sink_id \<Rightarrow> 'm \<Rightarrow> ('s, 'd, 'p, 'r, 'k) pipeline
    \<Rightarrow> frame_result result \<times> ('s, 'd, 'p, 'r, 'k) pipeline"
where
  "overflow_write ops target msg p =
     (case rc_overflow_sink (pl_runtime p) of
        None \<Rightarrow> (Inr FrDropped, count_dropped p)
      | Some oid \<Rightarrow>
          (case sink_id_try_new oid of
             Inl e \<Rightarrow> (Inl e, p)
           | Inr overflow \<Rightarrow>
               if overflow \<noteq> target
               then
                 (case write_to ops (as_u32 overflow) msg p of
                    (None, p1) \<Rightarrow>
                      (Inl (placement_error (''overflow sink '' @ nat_dec (unat oid) @ '' not registered'')), p1)
                  | (Some (Inr _), p1) \<Rightarrow> (Inr FrWritten, count_out p1)
                  | (Some (Inl e2), p1) \<Rightarrow>
                      if err_kind e2 = BackPressure then (Inr FrDropped, count_dropped p1) else (Inl e2, p1))
               else (Inr FrDropped, count_dropped p)))"

text \<open>The strategies, after a refused write has been counted: a result, or \<open>None\<close> to try again.\<close>

definition refused ::
  "('s, 'd, 'p, 'r, 'k, 'm) stages \<Rightarrow> sink_id \<Rightarrow> 'm \<Rightarrow> u32 \<Rightarrow> ('s, 'd, 'p, 'r, 'k) pipeline
    \<Rightarrow> frame_result result option \<times> ('s, 'd, 'p, 'r, 'k) pipeline"
where
  "refused ops target msg retries p =
     (case rc_backpressure (pl_runtime p) of
        DropNewest \<Rightarrow> (Some (Inr FrDropped), count_dropped p)
      | DropOldest \<Rightarrow> (Some (Inr FrDropped), count_dropped p)
      | Overflow \<Rightarrow> (let (r, p1) = overflow_write ops target msg p in (Some r, p1))
      | _ \<Rightarrow>
          (case rc_backpressure_retries (pl_runtime p) of
             Some limit \<Rightarrow>
               if retries + 1 > limit then (Some (Inr FrBackPressured), p)
               else (None, p\<lparr>pl_sinks := map (\<lambda>(i, k). (i, st_yield ops k)) (pl_sinks p)\<rparr>)
           | None \<Rightarrow> (None, p\<lparr>pl_sinks := map (\<lambda>(i, k). (i, st_yield ops k)) (pl_sinks p)\<rparr>)))"

text \<open>One round of the retry loop: a result, or \<open>None\<close> to try again after yielding.\<close>

definition write_attempt ::
  "('s, 'd, 'p, 'r, 'k, 'm) stages \<Rightarrow> sink_id \<Rightarrow> 'm \<Rightarrow> u32 \<Rightarrow> ('s, 'd, 'p, 'r, 'k) pipeline
    \<Rightarrow> frame_result result option \<times> ('s, 'd, 'p, 'r, 'k) pipeline"
where
  "write_attempt ops target msg retries p =
     (case write_to ops (as_u32 target) msg p of
        (None, p1) \<Rightarrow>
          (Some (Inl (placement_error (''no sink registered for id '' @ nat_dec (unat (as_u32 target))))), p1)
      | (Some (Inr _), p1) \<Rightarrow> (Some (Inr FrWritten), count_out p1)
      | (Some (Inl e), p1) \<Rightarrow>
          if err_kind e = BackPressure
          then refused ops target msg retries
                 (record_metric BackpressureEvents 1
                    (p1\<lparr>pl_backpressure_events := pl_backpressure_events p1 + 1\<rparr>))
          else (Some (Inl e), p1))"

partial_function (option) write_loop ::
  "('s, 'd, 'p, 'r, 'k, 'm) stages \<Rightarrow> sink_id \<Rightarrow> 'm \<Rightarrow> u32 \<Rightarrow> ('s, 'd, 'p, 'r, 'k) pipeline
    \<Rightarrow> (frame_result result \<times> ('s, 'd, 'p, 'r, 'k) pipeline) option"
where
  "write_loop ops target msg retries p =
     (case write_attempt ops target msg retries p of
        (Some r, p1) \<Rightarrow> Some (r, p1)
      | (None, p1) \<Rightarrow> write_loop ops target msg (retries + 1) p1)"

definition write_with_backpressure ::
  "('s, 'd, 'p, 'r, 'k, 'm) stages \<Rightarrow> sink_id \<Rightarrow> 'm \<Rightarrow> ('s, 'd, 'p, 'r, 'k) pipeline
    \<Rightarrow> (frame_result result \<times> ('s, 'd, 'p, 'r, 'k) pipeline) option"
where
  "write_with_backpressure ops target msg p = write_loop ops target msg 0 p"

section \<open>One frame and one step\<close>

definition process_one_frame ::
  "('s, 'd, 'p, 'r, 'k, 'm) stages \<Rightarrow> bytes \<Rightarrow> ('s, 'd, 'p, 'r, 'k) pipeline
    \<Rightarrow> (frame_result result \<times> ('s, 'd, 'p, 'r, 'k) pipeline) option"
where
  "process_one_frame ops frame p =
     (let (decoded, d) = st_decode ops (pl_decoder p) frame; p1 = p\<lparr>pl_decoder := d\<rparr> in
      case decoded of
        Inl e \<Rightarrow> Some (Inl e, p1)
      | Inr None \<Rightarrow> Some (Inr FrSkipped, record_metric IdleSkips 1 p1)
      | Inr (Some m) \<Rightarrow>
          (let (processed, pp) = st_process ops (pl_preprocessor p1) m; p2 = p1\<lparr>pl_preprocessor := pp\<rparr> in
           case processed of
             Inl e \<Rightarrow> Some (Inl e, p2)
           | Inr None \<Rightarrow> Some (Inr FrSkipped, record_metric IdleSkips 1 p2)
           | Inr (Some msg) \<Rightarrow>
               (let (routed, pl) = st_route ops (pl_placement p2) msg; p3 = p2\<lparr>pl_placement := pl\<rparr> in
                case routed of
                  Inl e \<Rightarrow> Some (Inl e, p3)
                | Inr target \<Rightarrow>
                    if sink_id_is_none target then Some (Inr FrSkipped, record_metric IdleSkips 1 p3)
                    else write_with_backpressure ops target msg p3)))"

definition refill_pending ::
  "('s, 'd, 'p, 'r, 'k, 'm) stages \<Rightarrow> ('s, 'd, 'p, 'r, 'k) pipeline
    \<Rightarrow> bool result \<times> ('s, 'd, 'p, 'r, 'k) pipeline"
where
  "refill_pending ops p =
     (let p0 = p\<lparr>pl_pending := [], pl_pending_idx := 0\<rparr> in
      case st_poll_frames ops (pl_source p0) of
        (Inl e, frames, s) \<Rightarrow> (Inl e, p0\<lparr>pl_source := s, pl_pending := frames\<rparr>)
      | (Inr n, frames, s) \<Rightarrow>
          (let p1 = p0\<lparr>pl_source := s, pl_pending := frames\<rparr>;
               p2 = (if length (pl_pending p1) > rc_batch_size (pl_runtime p1)
                     then p1\<lparr>pl_pending := take (rc_batch_size (pl_runtime p1)) (pl_pending p1)\<rparr> else p1)
           in (Inr (n > 0), p2)))"

text \<open>The loop over the pending frames: an outcome, or \<open>None\<close> when they are used up.\<close>

partial_function (option) drain_pending ::
  "('s, 'd, 'p, 'r, 'k, 'm) stages \<Rightarrow> ('s, 'd, 'p, 'r, 'k) pipeline
    \<Rightarrow> (step_outcome option result \<times> ('s, 'd, 'p, 'r, 'k) pipeline) option"
where
  "drain_pending ops p =
     (if pl_pending_idx p < length (pl_pending p)
      then
        (case process_one_frame ops (pl_pending p ! pl_pending_idx p) p of
           None \<Rightarrow> None
         | Some (Inl e, p1) \<Rightarrow> Some (Inl e, p1)
         | Some (Inr FrWritten, p1) \<Rightarrow>
             Some (Inr (Some Progress), p1\<lparr>pl_pending_idx := pl_pending_idx p1 + 1\<rparr>)
         | Some (Inr FrDropped, p1) \<Rightarrow>
             Some (Inr (Some Progress), p1\<lparr>pl_pending_idx := pl_pending_idx p1 + 1\<rparr>)
         | Some (Inr FrSkipped, p1) \<Rightarrow>
             drain_pending ops (p1\<lparr>pl_pending_idx := pl_pending_idx p1 + 1\<rparr>)
         | Some (Inr FrBackPressured, p1) \<Rightarrow> Some (Inr (Some BackPressured), p1))
      else Some (Inr None, p))"

definition step_outcome_of ::
  "('s, 'd, 'p, 'r, 'k, 'm) stages \<Rightarrow> ('s, 'd, 'p, 'r, 'k) pipeline
    \<Rightarrow> (step_outcome result \<times> ('s, 'd, 'p, 'r, 'k) pipeline) option"
where
  "step_outcome_of ops p =
     (if \<not> pl_initialized p
      then Some (Inl (lifecycle_error ''SimplePipeline: call init() before step()''), p)
      else
        (case drain_pending ops p of
           None \<Rightarrow> None
         | Some (Inl e, p1) \<Rightarrow> Some (Inl e, p1)
         | Some (Inr (Some out), p1) \<Rightarrow> Some (Inr out, p1)
         | Some (Inr None, p1) \<Rightarrow>
             if st_is_exhausted ops (pl_source p1) then Some (Inr Exhausted, p1)
             else
               (case refill_pending ops p1 of
                  (Inl e, p2) \<Rightarrow> Some (Inl e, p2)
                | (Inr had_data, p2) \<Rightarrow>
                    if \<not> had_data
                    then Some (Inr (if st_is_exhausted ops (pl_source p2) then Exhausted else Idle), p2)
                    else
                      (case drain_pending ops p2 of
                         None \<Rightarrow> None
                       | Some (Inl e, p3) \<Rightarrow> Some (Inl e, p3)
                       | Some (Inr (Some out), p3) \<Rightarrow> Some (Inr out, p3)
                       | Some (Inr None, p3) \<Rightarrow> Some (Inr Idle, p3)))))"

definition pipeline_step ::
  "('s, 'd, 'p, 'r, 'k, 'm) stages \<Rightarrow> ('s, 'd, 'p, 'r, 'k) pipeline
    \<Rightarrow> (bool result \<times> ('s, 'd, 'p, 'r, 'k) pipeline) option"
where
  "pipeline_step ops p =
     map_option (\<lambda>(r, p1). (map_sum id (\<lambda>out. out = Progress) r, p1)) (step_outcome_of ops p)"

partial_function (option) pipeline_run ::
  "('s, 'd, 'p, 'r, 'k, 'm) stages \<Rightarrow> ('s, 'd, 'p, 'r, 'k) pipeline
    \<Rightarrow> (unit result \<times> ('s, 'd, 'p, 'r, 'k) pipeline) option"
where
  "pipeline_run ops p =
     (case step_outcome_of ops p of
        None \<Rightarrow> None
      | Some (Inl e, p1) \<Rightarrow> Some (Inl e, p1)
      | Some (Inr Exhausted, p1) \<Rightarrow> Some (Inr (), p1)
      | Some (Inr _, p1) \<Rightarrow> pipeline_run ops p1)"

section \<open>Lifecycle\<close>

fun init_sinks ::
  "('k \<Rightarrow> (unit result \<times> 'k) option) \<Rightarrow> (u32 \<times> 'k) list \<Rightarrow> (unit result \<times> (u32 \<times> 'k) list) option"
where
  "init_sinks ini [] = Some (Inr (), [])"
| "init_sinks ini ((i, k) # ks) =
     (case ini k of
        None \<Rightarrow> None
      | Some (Inl e, k1) \<Rightarrow> Some (Inl e, (i, k1) # ks)
      | Some (Inr _, k1) \<Rightarrow> map_option (\<lambda>(r, ks1). (r, (i, k1) # ks1)) (init_sinks ini ks))"

definition pipeline_init ::
  "('s, 'd, 'p, 'r, 'k, 'm) stages \<Rightarrow> ('s, 'd, 'p, 'r, 'k) pipeline
    \<Rightarrow> (unit result \<times> ('s, 'd, 'p, 'r, 'k) pipeline) option"
where
  "pipeline_init ops p =
     (if pl_sinks p = []
      then Some (Inl (config_error ''SimplePipeline: register at least one sink before init''), p)
      else
        (case st_source_init ops (pl_source p) of
           (Inl e, s) \<Rightarrow> Some (Inl e, p\<lparr>pl_source := s\<rparr>)
         | (Inr _, s) \<Rightarrow>
             (case init_sinks (st_sink_init ops) (pl_sinks p) of
                None \<Rightarrow> None
              | Some (Inl e, ks) \<Rightarrow> Some (Inl e, p\<lparr>pl_source := s, pl_sinks := ks\<rparr>)
              | Some (Inr _, ks) \<Rightarrow>
                  Some (Inr (),
                   p\<lparr>pl_source := s, pl_sinks := ks, pl_pending := [], pl_pending_idx := 0,
                     pl_messages_out := 0, pl_messages_dropped := 0, pl_backpressure_events := 0,
                     pl_initialized := True\<rparr>))))"

definition close_sink :: "('s, 'd, 'p, 'r, 'k, 'm) stages \<Rightarrow> 'k \<Rightarrow> unit result \<times> 'k" where
  "close_sink ops k =
     (case st_sink_flush ops k of
        (Inl e, k1) \<Rightarrow> (Inl e, k1)
      | (Inr _, k1) \<Rightarrow> st_sink_shutdown ops k1)"

definition first_error :: "error option \<Rightarrow> unit result \<Rightarrow> error option" where
  "first_error acc r = (case (acc, r) of (None, Inl e) \<Rightarrow> Some e | _ \<Rightarrow> acc)"

fun close_sinks ::
  "('k \<Rightarrow> unit result \<times> 'k) \<Rightarrow> error option \<Rightarrow> (u32 \<times> 'k) list \<Rightarrow> error option \<times> (u32 \<times> 'k) list"
where
  "close_sinks close acc [] = (acc, [])"
| "close_sinks close acc ((i, k) # ks) =
     (let (r, k1) = close k; (acc1, ks1) = close_sinks close (first_error acc r) ks
      in (acc1, (i, k1) # ks1))"

definition pipeline_shutdown ::
  "('s, 'd, 'p, 'r, 'k, 'm) stages \<Rightarrow> ('s, 'd, 'p, 'r, 'k) pipeline
    \<Rightarrow> unit result \<times> ('s, 'd, 'p, 'r, 'k) pipeline"
where
  "pipeline_shutdown ops p =
     (let (acc, ks) = close_sinks (close_sink ops) None (pl_sinks p);
          (r, s) = st_source_shutdown ops (pl_source p)
      in ((case first_error acc r of None \<Rightarrow> Inr () | Some e \<Rightarrow> Inl e),
          p\<lparr>pl_sinks := ks, pl_source := s, pl_initialized := False, pl_pending := []\<rparr>))"

end
