(* ===== verification/Stage_Lifecycle.thy ===== *)
theory Stage_Lifecycle
  imports Core
begin

text \<open>
  The trait \<open>Lifecycle\<close> of \<open>crates/flyby-core/src/lifecycle.rs\<close>. Its documentation promises a state
  machine: a stage is used only between a successful \<open>init\<close> and the next \<open>shutdown\<close> or failed
  \<open>init\<close>, a use outside gets an error of kind \<open>Lifecycle\<close>, and \<open>shutdown\<close> may be called at any time
  and any number of times.

  The promise is stated as the events a caller may see (\<open>permits\<close>, an abstract machine of two
  phases). What the stages do is stated as laws of the three operations (the locales
  \<open>lifecycle_stage\<close> and \<open>owned_stage\<close>): a failed \<open>init\<close> leaves a stage as usable as it was. The laws
  give that a sequence of calls is a run of the machine unless an \<open>init\<close> of a running stage fails
  (\<open>failed_reinit\<close>); after such a failure the next use is a deviation from the documentation. A stage
  whose \<open>init\<close> cannot fail once it has succeeded (\<open>steady_stage\<close>) follows the machine in every
  sequence. The component theories interpret the locales on their own operations.
\<close>

section \<open>Stages and calls\<close>

text \<open>
  The operations of a stage on its state: \<open>init\<close> with what the environment supplies to it, one use
  (a poll, a step) with its argument, and \<open>shutdown\<close>. \<open>None\<close> is a call that never returns.
\<close>

record ('e, 'a, 's) stage_ops =
  so_init :: "'e \<Rightarrow> 's \<Rightarrow> (unit result \<times> 's) option"
  so_use :: "'a \<Rightarrow> 's \<Rightarrow> (unit result \<times> 's) option"
  so_shutdown :: "'s \<Rightarrow> unit result \<times> 's"

datatype ('e, 'a) stage_call = CallInit 'e | CallUse 'a | CallShutdown

datatype stage_event = InitEv "unit result" | UseEv "unit result" | ShutdownEv "unit result"

definition stage_step ::
  "('e, 'a, 's) stage_ops \<Rightarrow> ('e, 'a) stage_call \<Rightarrow> 's \<Rightarrow> (stage_event \<times> 's) option"
where
  "stage_step ops c s =
     (case c of
        CallInit e \<Rightarrow> map_option (map_prod InitEv id) (so_init ops e s)
      | CallUse a \<Rightarrow> map_option (map_prod UseEv id) (so_use ops a s)
      | CallShutdown \<Rightarrow> Some (map_prod ShutdownEv id (so_shutdown ops s)))"

text \<open>The events of a sequence of calls.\<close>

fun stage_run ::
  "('e, 'a, 's) stage_ops \<Rightarrow> ('e, 'a) stage_call list \<Rightarrow> 's \<Rightarrow> (stage_event list \<times> 's) option"
where
  "stage_run ops [] s = Some ([], s)"
| "stage_run ops (c # cs) s =
     (case stage_step ops c s of
        None \<Rightarrow> None
      | Some (ev, s1) \<Rightarrow> map_option (\<lambda>(evs, s2). (ev # evs, s2)) (stage_run ops cs s1))"

definition is_refused :: "unit result \<Rightarrow> bool" where
  "is_refused r = (case r of Inl e \<Rightarrow> err_kind e = Lifecycle | Inr _ \<Rightarrow> False)"

lemma is_refused_simps [simp]:
  "is_refused (Inr u) = False" "is_refused (Inl e) = (err_kind e = Lifecycle)"
  by (simp_all add: is_refused_def)

text \<open>A call's answer without its value.\<close>

definition answer :: "'b result \<Rightarrow> unit result" where
  "answer r = (case r of Inl e \<Rightarrow> Inl e | Inr _ \<Rightarrow> Inr ())"

lemma answer_simps [simp]:
  "answer (Inl e) = Inl e" "answer (Inr x) = Inr ()" "answer (map_sum id f r) = answer r" "answer u = u"
  by (simp_all add: answer_def split: sum.split)

section \<open>The machine of the documentation\<close>

datatype phase = Shut | Running

definition phase_of :: "bool \<Rightarrow> phase" where
  "phase_of on = (if on then Running else Shut)"

text \<open>
  A failed \<open>init\<close> ends in \<open>Shut\<close>, from every phase: use after it is one of the illegal transitions the
  documentation lists. \<open>strict\<close> is the machine of a stage that owns its resources; a stage that is made of others
  passes on what they answer, so its uses may be refused and its \<open>shutdown\<close> may report an error.
\<close>

inductive permits :: "bool \<Rightarrow> phase \<Rightarrow> stage_event list \<Rightarrow> phase \<Rightarrow> bool" for strict where
  permits_done: "permits strict p [] p"
| permits_init: "permits strict Running evs q \<Longrightarrow> permits strict p (InitEv (Inr u) # evs) q"
| permits_init_failed: "permits strict Shut evs q \<Longrightarrow> permits strict p (InitEv (Inl e) # evs) q"
| permits_refused: "is_refused r \<Longrightarrow> permits strict Shut evs q \<Longrightarrow> permits strict Shut (UseEv r # evs) q"
| permits_used:
    "\<not> (strict \<and> is_refused r) \<Longrightarrow> permits strict Running evs q \<Longrightarrow> permits strict Running (UseEv r # evs) q"
| permits_shutdown:
    "strict \<longrightarrow> r = Inr () \<Longrightarrow> permits strict Shut evs q \<Longrightarrow> permits strict p (ShutdownEv r # evs) q"

inductive_simps permits_simps:
  "permits strict p [] q"
  "permits strict p (InitEv (Inr u) # evs) q"
  "permits strict p (InitEv (Inl e) # evs) q"
  "permits strict Shut (UseEv r # evs) q"
  "permits strict Running (UseEv r # evs) q"
  "permits strict p (ShutdownEv r # evs) q"

lemma permits_append: "permits strict p xs q \<Longrightarrow> permits strict q ys r \<Longrightarrow> permits strict p (xs @ ys) r"
  by (induction rule: permits.induct) (auto intro: permits.intros)

lemma permits_append_split: "permits strict p (xs @ ys) r \<Longrightarrow> \<exists>q. permits strict p xs q \<and> permits strict q ys r"
proof (induction xs arbitrary: p)
  case Nil
  then show ?case by (auto intro: permits_done)
next
  case (Cons ev xs)
  from Cons.prems show ?case unfolding append_Cons
    by (cases rule: permits.cases) (blast dest: Cons.IH intro: permits.intros)+
qed

text \<open>The events hold an \<open>init\<close> that fails while the machine is in \<open>Running\<close>.\<close>

fun failed_reinit :: "phase \<Rightarrow> stage_event list \<Rightarrow> bool" where
  "failed_reinit p [] = False"
| "failed_reinit p (InitEv (Inr _) # evs) = failed_reinit Running evs"
| "failed_reinit p (InitEv (Inl _) # evs) = (p = Running \<or> failed_reinit Shut evs)"
| "failed_reinit p (UseEv _ # evs) = failed_reinit p evs"
| "failed_reinit p (ShutdownEv _ # evs) = failed_reinit Shut evs"

lemma failed_reinit_step:
  "permits strict p [ev] q \<Longrightarrow> failed_reinit p (ev # evs) \<longleftrightarrow> failed_reinit p [ev] \<or> failed_reinit q evs"
  by (erule permits.cases) (auto simp: permits_simps)

lemma permits_step:
  "permits strict p [ev] q \<Longrightarrow> permits strict q evs r \<Longrightarrow> permits strict p (ev # evs) r"
  using permits_append [of strict p "[ev]"] by simp

text \<open>A run of the machine has one end: the events decide the phase.\<close>

lemma permits_unique: "permits strict p evs q \<Longrightarrow> permits strict p evs q' \<Longrightarrow> q' = q"
  by (induction arbitrary: q' rule: permits.induct) (auto simp: permits_simps)

lemma permits_strict_loose: "permits True p evs q \<Longrightarrow> permits False p evs q"
  by (induction rule: permits.induct) (auto intro: permits.intros)

text \<open>After \<open>shutdown\<close>, until an \<open>init\<close> succeeds, every use is refused.\<close>

lemma permits_shut_refuses:
  "permits strict Shut evs q \<Longrightarrow> (\<forall>ev \<in> set evs. \<forall>u. ev \<noteq> InitEv (Inr u)) \<Longrightarrow>
     q = Shut \<and> (\<forall>r. UseEv r \<in> set evs \<longrightarrow> is_refused r)"
proof (induction evs)
  case Nil
  then show ?case by (simp add: permits_simps)
next
  case (Cons ev evs)
  then show ?case
  proof (cases ev)
    case (InitEv r)
    then show ?thesis using Cons by (cases r) (auto simp: permits_simps)
  qed (auto simp: permits_simps)
qed

section \<open>The laws\<close>

locale lifecycle_stage =
  fixes ops :: "('e, 'a, 's) stage_ops" and on :: "'s \<Rightarrow> bool" and inv :: "'s \<Rightarrow> bool"
  assumes init_law: "inv s \<Longrightarrow> so_init ops e s = Some (r, s') \<Longrightarrow> inv s' \<and> on s' = (on s \<or> r = Inr ())"
    and use_law: "inv s \<Longrightarrow> so_use ops a s = Some (r, s') \<Longrightarrow> inv s' \<and> on s' = on s"
    and refuse_law: "inv s \<Longrightarrow> \<not> on s \<Longrightarrow> \<exists>e. so_use ops a s = Some (Inl e, s) \<and> err_kind e = Lifecycle"
    and shutdown_law: "inv s \<Longrightarrow> inv (snd (so_shutdown ops s)) \<and> \<not> on (snd (so_shutdown ops s))"
begin

text \<open>One call: an \<open>init\<close> that fails on a stage in use, or a step of the machine.\<close>

lemma step_permitted:
  assumes "inv s" "stage_step ops c s = Some (ev, s')"
  shows "(failed_reinit (phase_of (on s)) [ev] \<or> permits False (phase_of (on s)) [ev] (phase_of (on s'))) \<and> inv s'"
proof (cases c)
  case (CallInit e)
  with assms(2) obtain r where r: "ev = InitEv r" "so_init ops e s = Some (r, s')"
    by (auto simp: stage_step_def)
  then show ?thesis using init_law [OF assms(1) r(2)]
    by (cases r; cases "on s") (auto simp: permits_simps phase_of_def)
next
  case (CallUse a)
  with assms(2) obtain r where r: "ev = UseEv r" "so_use ops a s = Some (r, s')"
    by (auto simp: stage_step_def)
  show ?thesis
    using r use_law [OF assms(1) r(2)] refuse_law [OF assms(1), of a]
    by (cases "on s") (auto simp: permits_simps phase_of_def)
next
  case CallShutdown
  then show ?thesis using assms shutdown_law [OF assms(1)]
    by (cases "so_shutdown ops s") (auto simp: stage_step_def permits_simps phase_of_def)
qed

text \<open>A sequence of calls is a run of the machine unless an \<open>init\<close> failed on the stage in use.\<close>

lemma run_permitted:
  "inv s \<Longrightarrow> stage_run ops cs s = Some (evs, s') \<Longrightarrow>
     (failed_reinit (phase_of (on s)) evs \<or> permits False (phase_of (on s)) evs (phase_of (on s'))) \<and> (inv s')"
proof (induction cs arbitrary: s evs)
  case Nil
  then show ?case by (simp add: permits_simps)
next
  case (Cons c cs)
  then obtain ev s1 es where st: "stage_step ops c s = Some (ev, s1)" "stage_run ops cs s1 = Some (es, s')" "evs = ev # es"
    by (auto split: option.splits)
  note p = step_permitted [OF Cons.prems(1) st(1)]
  note rest = Cons.IH [OF conjunct2 [OF p] st(2)]
  show ?case
  proof (cases "failed_reinit (phase_of (on s)) [ev]")
    case True
    then have "failed_reinit (phase_of (on s)) evs"
      by (cases "(phase_of (on s), [ev])" rule: failed_reinit.cases) (simp_all add: st(3))
    then show ?thesis using rest by simp
  next
    case False
    then have "permits False (phase_of (on s)) [ev] (phase_of (on s1))" using p by simp
    then show ?thesis using rest failed_reinit_step permits_step st(3) by blast
  qed
qed

text \<open>An \<open>init\<close> that fails on the stage in use leaves it in use: the next use is not the machine's.\<close>

lemma failed_init_keeps:
  "inv s \<Longrightarrow> so_init ops e s = Some (Inl x, s') \<Longrightarrow> on s' = on s \<and> inv s'"
  using init_law by force

lemma closed_refuses:
  assumes "inv s"
  shows "\<exists>e. so_use ops a (snd (so_shutdown ops s)) = Some (Inl e, snd (so_shutdown ops s)) \<and> err_kind e = Lifecycle"
  using shutdown_law [OF assms] refuse_law by blast

end

text \<open>
  A stage that owns its resources: its own answers are never \<open>Lifecycle\<close> errors while it is on,
  and \<open>shutdown\<close> succeeds and is idempotent.
\<close>

locale owned_stage = lifecycle_stage ops on inv
  for ops :: "('e, 'a, 's) stage_ops" and on :: "'s \<Rightarrow> bool" and inv :: "'s \<Rightarrow> bool" +
  assumes on_law: "inv s \<Longrightarrow> on s \<Longrightarrow> so_use ops a s = Some (r, s') \<Longrightarrow> \<not> is_refused r"
    and shutdown_ok: "fst (so_shutdown ops s) = Inr ()"
    and shutdown_again: "so_shutdown ops (snd (so_shutdown ops s)) = so_shutdown ops s"
begin

text \<open>The steps of the loose machine are steps of the strict one.\<close>

lemma step_strict:
  assumes "inv s" "stage_step ops c s = Some (ev, s')" "permits False (phase_of (on s)) [ev] (phase_of (on s'))"
  shows "permits True (phase_of (on s)) [ev] (phase_of (on s'))"
proof (cases c)
  case (CallInit e)
  then obtain r where "ev = InitEv r" using assms(2) by (auto simp: stage_step_def)
  then show ?thesis using assms(3) by (cases r) (auto simp: permits_simps)
next
  case (CallUse a)
  then obtain r where "ev = UseEv r" "so_use ops a s = Some (r, s')" using assms(2) by (auto simp: stage_step_def)
  then show ?thesis using assms(3) on_law [OF assms(1)]
    by (cases "on s") (auto simp: permits_simps phase_of_def)
next
  case CallShutdown
  then show ?thesis using assms(2,3) shutdown_ok [of s]
    by (cases "so_shutdown ops s") (auto simp: stage_step_def permits_simps)
qed

lemma run_strict:
  "inv s \<Longrightarrow> stage_run ops cs s = Some (evs, s') \<Longrightarrow> permits False (phase_of (on s)) evs (phase_of (on s')) \<Longrightarrow>
     \<not> failed_reinit (phase_of (on s)) evs \<Longrightarrow> permits True (phase_of (on s)) evs (phase_of (on s'))"
proof (induction cs arbitrary: s evs)
  case Nil
  then show ?case by (simp add: permits_simps)
next
  case (Cons c cs)
  then obtain ev s1 es where st: "stage_step ops c s = Some (ev, s1)" "stage_run ops cs s1 = Some (es, s')" "evs = ev # es"
    by (auto split: option.splits)
  note p = step_permitted [OF Cons.prems(1) st(1)]
  have one: "\<not> failed_reinit (phase_of (on s)) [ev]" using Cons.prems(4) st(3)
    by (cases "(phase_of (on s), [ev])" rule: failed_reinit.cases) auto
  then have first: "permits False (phase_of (on s)) [ev] (phase_of (on s1))" using p by simp
  have "\<not> failed_reinit (phase_of (on s1)) es"
    using Cons.prems(4) st(3) failed_reinit_step [OF first] by blast
  moreover from this have "permits False (phase_of (on s1)) es (phase_of (on s'))"
    using run_permitted [OF conjunct2 [OF p] st(2)] by blast
  ultimately have "permits True (phase_of (on s1)) es (phase_of (on s'))"
    using Cons.IH [OF conjunct2 [OF p] st(2)] by blast
  then show ?case using permits_step [OF step_strict [OF Cons.prems(1) st(1) first]] st(3) by simp
qed

lemma run_follows:
  assumes "inv s" "stage_run ops cs s = Some (evs, s')"
  shows "failed_reinit (phase_of (on s)) evs \<or> permits True (phase_of (on s)) evs (phase_of (on s'))"
  using run_permitted [OF assms] run_strict [OF assms] by blast

text \<open>After an \<open>init\<close> that failed on the stage in use, the next use is not refused, against the machine.\<close>

lemma failed_reinit_deviates:
  assumes "inv s" "on s" "so_init ops e s = Some (Inl x, s1)" "so_use ops a s1 = Some (r, s2)"
  shows "\<not> is_refused r" "\<not> permits strict Running [InitEv (Inl x), UseEv r] q"
proof -
  show "\<not> is_refused r" using failed_init_keeps [OF assms(1,3)] assms(2) on_law [OF _ _ assms(4)] by blast
  then show "\<not> permits strict Running [InitEv (Inl x), UseEv r] q" by (simp add: permits_simps)
qed

text \<open>Any number of further calls of \<open>shutdown\<close> changes nothing.\<close>

lemma shutdown_many:
  "stage_run ops (replicate (Suc n) CallShutdown) s
     = Some (replicate (Suc n) (ShutdownEv (Inr ())), snd (so_shutdown ops s))"
proof (induction n arbitrary: s)
  case 0
  then show ?case using shutdown_ok [of s] by (cases "so_shutdown ops s") (simp add: stage_step_def)
next
  case (Suc n)
  then show ?case using shutdown_ok [of s] shutdown_again [of s] Suc [of "snd (so_shutdown ops s)"]
    by (cases "so_shutdown ops s") (simp add: stage_step_def)
qed

end

text \<open>A stage whose \<open>init\<close> cannot fail once it has succeeded follows the machine in every sequence of calls.\<close>

locale steady_stage = owned_stage ops on inv
  for ops :: "('e, 'a, 's) stage_ops" and on :: "'s \<Rightarrow> bool" and inv :: "'s \<Rightarrow> bool" +
  assumes steady_law: "inv s \<Longrightarrow> on s \<Longrightarrow> so_init ops e s = Some (r, s') \<Longrightarrow> r = Inr ()"
begin

lemma never_failed_reinit:
  "inv s \<Longrightarrow> stage_run ops cs s = Some (evs, s') \<Longrightarrow> \<not> failed_reinit (phase_of (on s)) evs"
proof (induction cs arbitrary: s evs)
  case Nil
  then show ?case by simp
next
  case (Cons c cs)
  then obtain ev s1 es where st: "stage_step ops c s = Some (ev, s1)" "stage_run ops cs s1 = Some (es, s')" "evs = ev # es"
    by (auto split: option.splits)
  note p = step_permitted [OF Cons.prems(1) st(1)]
  have "\<not> failed_reinit (phase_of (on s)) [ev]"
  proof (cases c)
    case (CallInit e)
    then obtain r where r: "ev = InitEv r" "so_init ops e s = Some (r, s1)" using st(1) by (auto simp: stage_step_def)
    then show ?thesis using steady_law [OF Cons.prems(1) _ r(2)] by (cases r; cases "on s") (auto simp: phase_of_def)
  qed (use st(1) in \<open>auto simp: stage_step_def map_prod_def split: prod.splits\<close>)
  moreover from this have "permits False (phase_of (on s)) [ev] (phase_of (on s1))" using p by blast
  ultimately show ?case using failed_reinit_step Cons.IH [OF conjunct2 [OF p] st(2)] st(3) by blast
qed

lemma run_steady:
  assumes "inv s" "stage_run ops cs s = Some (evs, s')"
  shows "permits True (phase_of (on s)) evs (phase_of (on s'))"
  using run_follows [OF assms] never_failed_reinit [OF assms] by blast

end

end
