(* ===== verification/Pipeline_Laws.thy ===== *)
theory Pipeline_Laws
  imports Pipeline Stage_Lifecycle
begin

text \<open>
  What a step of \<open>SimplePipeline\<close> (\<open>crates/flyby/src/pipeline.rs\<close>) promises: accounting and order of
  frames, the back-pressure strategies with their retry budget, and the shutdown of all stages.
\<close>

section \<open>What the stages of a step leave alone\<close>

text \<open>Pending frames, source and configuration are not touched by processing a frame.\<close>

definition same_queue :: "('s, 'd, 'p, 'r, 'k) pipeline \<Rightarrow> ('s, 'd, 'p, 'r, 'k) pipeline \<Rightarrow> bool" where
  "same_queue p p' \<longleftrightarrow> pl_source p' = pl_source p \<and> pl_pending p' = pl_pending p
     \<and> pl_pending_idx p' = pl_pending_idx p \<and> pl_runtime p' = pl_runtime p
     \<and> pl_initialized p' = pl_initialized p \<and> map fst (pl_sinks p') = map fst (pl_sinks p)"

lemma same_queue_refl [simp]: "same_queue p p"
  by (simp add: same_queue_def)

lemma same_queue_trans: "same_queue p p1 \<Longrightarrow> same_queue p1 p2 \<Longrightarrow> same_queue p p2"
  by (simp add: same_queue_def)

lemma map_fst_put_sink [simp]: "map fst (put_sink i k ks) = map fst ks"
  by (induction ks) (auto simp: put_sink_def)

lemma map_fst_yield [simp]: "map fst (map (\<lambda>(i, k). (i, f k)) ks) = map fst ks"
  by (induction ks) auto

lemma record_metric_frame [simp]:
  "pl_source (record_metric key n p) = pl_source p" "pl_pending (record_metric key n p) = pl_pending p"
  "pl_pending_idx (record_metric key n p) = pl_pending_idx p" "pl_runtime (record_metric key n p) = pl_runtime p"
  "pl_initialized (record_metric key n p) = pl_initialized p" "pl_sinks (record_metric key n p) = pl_sinks p"
  "pl_messages_out (record_metric key n p) = pl_messages_out p"
  "pl_messages_dropped (record_metric key n p) = pl_messages_dropped p"
  "pl_backpressure_events (record_metric key n p) = pl_backpressure_events p"
  "pl_placement (record_metric key n p) = pl_placement p"
  by (simp_all add: record_metric_def)

text \<open>The counters after a frame with the given result.\<close>

definition counted :: "frame_result result \<Rightarrow> ('s, 'd, 'p, 'r, 'k) pipeline \<Rightarrow> ('s, 'd, 'p, 'r, 'k) pipeline \<Rightarrow> bool" where
  "counted r p p' \<longleftrightarrow>
     pl_messages_out p' = pl_messages_out p + (if r = Inr FrWritten then 1 else 0)
     \<and> pl_messages_dropped p' = pl_messages_dropped p + (if r = Inr FrDropped then 1 else 0)"

definition uncounted :: "('s, 'd, 'p, 'r, 'k) pipeline \<Rightarrow> ('s, 'd, 'p, 'r, 'k) pipeline \<Rightarrow> bool" where
  "uncounted p p' \<longleftrightarrow> pl_messages_out p' = pl_messages_out p \<and> pl_messages_dropped p' = pl_messages_dropped p"

lemmas queue_defs = same_queue_def counted_def uncounted_def count_out_def count_dropped_def

lemma same_queue_counts [simp]:
  "same_queue p (count_out q) = same_queue p q"
  "same_queue p (count_dropped q) = same_queue p q"
  "same_queue p (record_metric key n q) = same_queue p q"
  "same_queue p (q\<lparr>pl_backpressure_events := v\<rparr>) = same_queue p q"
  "same_queue p (q\<lparr>pl_sinks := map (\<lambda>(i, k). (i, f k)) (pl_sinks q)\<rparr>) = same_queue p q"
  by (simp_all add: queue_defs comp_def case_prod_unfold)

lemma counts_simps [simp]:
  "uncounted p (record_metric key n q) = uncounted p q"
  "uncounted p (q\<lparr>pl_backpressure_events := v\<rparr>) = uncounted p q"
  "uncounted p (q\<lparr>pl_sinks := ks\<rparr>) = uncounted p q"
  "counted (Inl e) p q = uncounted p q"
  "counted (Inr FrSkipped) p q = uncounted p q"
  "counted (Inr FrBackPressured) p q = uncounted p q"
  by (simp_all add: queue_defs)

lemma counted_counts [simp]:
  "uncounted p q \<Longrightarrow> counted (Inr FrWritten) p (count_out q)"
  "uncounted p q \<Longrightarrow> counted (Inr FrDropped) p (count_dropped q)"
  "uncounted p p"
  by (simp_all add: queue_defs)

lemma counted_trans: "uncounted p q \<Longrightarrow> counted r q p' \<Longrightarrow> counted r p p'"
  by (simp add: counted_def uncounted_def)

lemma uncounted_trans: "uncounted p q \<Longrightarrow> uncounted q p' \<Longrightarrow> uncounted p p'"
  by (simp add: uncounted_def)

lemma write_to_frame:
  "write_to ops i msg p = (r, p1) \<Longrightarrow> same_queue p p1 \<and> uncounted p p1"
  by (auto simp: write_to_def queue_defs Let_def split: option.splits prod.splits)

lemma overflow_write_frame:
  assumes "overflow_write ops i msg p = (r, p1)"
  shows "same_queue p p1 \<and> counted r p p1"
proof (cases "\<exists>oid ov. rc_overflow_sink (pl_runtime p) = Some oid \<and> sink_id_try_new oid = Inr ov \<and> ov \<noteq> i")
  case False
  then show ?thesis
    using assms by (auto simp: overflow_write_def split: option.splits sum.splits if_splits)
next
  case True
  then obtain oid ov where ov: "rc_overflow_sink (pl_runtime p) = Some oid" "sink_id_try_new oid = Inr ov" "ov \<noteq> i"
    by blast
  obtain w p2 where w: "write_to ops (as_u32 ov) msg p = (w, p2)" by fastforce
  from write_to_frame [OF w] show ?thesis
    using assms ov w by (auto simp: overflow_write_def split: if_splits option.splits sum.splits)
qed

lemma refused_frame:
  assumes "refused ops i msg n q = (ex, p1)" "same_queue p q" "uncounted p q"
  shows "same_queue p p1 \<and> (case ex of None \<Rightarrow> uncounted p p1 | Some r \<Rightarrow> counted r p p1)"
proof -
  obtain r4 p4 where o: "overflow_write ops i msg q = (r4, p4)" by fastforce
  have g: "same_queue p p4" "counted r4 p p4"
    using overflow_write_frame [OF o] assms(2,3) same_queue_trans counted_trans by blast+
  show ?thesis
    using assms g o
    by (cases "rc_backpressure (pl_runtime q)") (auto simp: refused_def split: option.splits if_splits)
qed

lemma write_attempt_frame:
  assumes "write_attempt ops i msg n p = (ex, p1)"
  shows "same_queue p p1 \<and> (case ex of None \<Rightarrow> uncounted p p1 | Some r \<Rightarrow> counted r p p1)"
proof -
  obtain w p2 where w: "write_to ops (as_u32 i) msg p = (w, p2)" by fastforce
  have f: "same_queue p p2" "uncounted p p2" using write_to_frame [OF w] by auto
  show ?thesis
  proof (cases "\<exists>e. w = Some (Inl e) \<and> err_kind e = BackPressure")
    case False
    then show ?thesis
      using assms w f by (auto simp: write_attempt_def split: option.splits sum.splits if_splits)
  next
    case True
    then show ?thesis
      using assms w f refused_frame [of ops i msg n _ ex p1 p] by (auto simp: write_attempt_def)
  qed
qed

lemma write_loop_frame_aux:
  assumes "write_loop ops i msg n p = Some y"
  shows "same_queue p (snd y) \<and> counted (fst y) p (snd y)"
proof (rule write_loop.raw_induct [where P = "\<lambda>ops i msg n p y. same_queue p (snd y) \<and> counted (fst y) p (snd y)", OF _ assms])
  fix f and ops :: "('a, 'b, 'c, 'd, 'e, 'f) stages" and i msg n and p :: "('a, 'b, 'c, 'd, 'e) pipeline" and y
  assume IH: "\<And>ops i msg n (p :: ('a, 'b, 'c, 'd, 'e) pipeline) y.
      f ops i msg n p = Some y \<Longrightarrow> same_queue p (snd y) \<and> counted (fst y) p (snd y)"
    and body: "(case write_attempt ops i msg n p of
        (Some r, p1) \<Rightarrow> Some (r, p1) | (None, p1) \<Rightarrow> f ops i msg (n + 1) p1) = Some y"
  obtain ex p1 where a: "write_attempt ops i msg n p = (ex, p1)" by fastforce
  note fr = write_attempt_frame [OF a]
  show "same_queue p (snd y) \<and> counted (fst y) p (snd y)"
  proof (cases ex)
    case (Some r)
    then show ?thesis using body a fr by auto
  next
    case None
    then have "f ops i msg (n + 1) p1 = Some y" using body a by simp
    from IH [OF this] fr None show ?thesis using same_queue_trans counted_trans by fastforce
  qed
qed

lemmas write_loop_frame = write_loop_frame_aux [of _ _ _ _ _ "(r, p1)" for r p1, simplified]

lemma process_one_frame_frame:
  assumes "process_one_frame ops frame p = Some (r, p1)"
  shows "same_queue p p1 \<and> counted r p p1"
proof -
  obtain d st where d: "st_decode ops (pl_decoder p) frame = (d, st)" by fastforce
  let ?p1 = "p\<lparr>pl_decoder := st\<rparr>"
  show ?thesis
  proof (cases "\<exists>m. d = Inr (Some m)")
    case False
    then show ?thesis
      using assms d by (cases d) (auto simp: process_one_frame_def queue_defs split: option.splits)
  next
    case True
    then obtain m where m: "d = Inr (Some m)" by blast
    obtain q st2 where q: "st_process ops (pl_preprocessor ?p1) m = (q, st2)" by fastforce
    let ?p2 = "?p1\<lparr>pl_preprocessor := st2\<rparr>"
    show ?thesis
    proof (cases "\<exists>m. q = Inr (Some m)")
      case False
      then show ?thesis
        using assms d m q by (cases q) (auto simp: process_one_frame_def queue_defs split: option.splits)
    next
      case True
      then obtain msg where msg: "q = Inr (Some msg)" by blast
      obtain t st3 where t: "st_route ops (pl_placement ?p2) msg = (t, st3)" by fastforce
      let ?p3 = "?p2\<lparr>pl_placement := st3\<rparr>"
      have q3: "same_queue p ?p3" "uncounted p ?p3" by (simp_all add: queue_defs)
      show ?thesis
      proof (cases "\<exists>i. t = Inr i \<and> \<not> sink_id_is_none i")
        case False
        then show ?thesis
          using assms d m q msg t by (cases t) (auto simp: process_one_frame_def queue_defs)
      next
        case True
        then obtain i where "t = Inr i" "\<not> sink_id_is_none i" by blast
        then have "write_loop ops i msg 0 ?p3 = Some (r, p1)"
          using assms d m q msg t by (simp add: process_one_frame_def write_with_backpressure_def)
        from write_loop_frame [OF this] q3 show ?thesis
          using same_queue_trans [OF q3(1)] by (auto simp: counted_def uncounted_def)
      qed
    qed
  qed
qed

section \<open>Accounting of frames in a step\<close>

text \<open>The frames that wait.\<close>

definition waiting :: "('s, 'd, 'p, 'r, 'k) pipeline \<Rightarrow> bytes list" where
  "waiting p = drop (pl_pending_idx p) (pl_pending p)"

text \<open>
  The work on a list of frames: \<open>handled ops p wl p'\<close> says that the frames of the wl were processed one
  after the other, in this order and each once, with the results next to them, and that nothing else
  happened to the pipeline except to its queue (source, pending frames and index).
\<close>

definition same_work :: "('s, 'd, 'p, 'r, 'k) pipeline \<Rightarrow> ('s, 'd, 'p, 'r, 'k) pipeline \<Rightarrow> bool" where
  "same_work p q \<longleftrightarrow>
     q = p\<lparr>pl_source := pl_source q, pl_pending := pl_pending q, pl_pending_idx := pl_pending_idx q\<rparr>"

inductive handled ::
  "('s, 'd, 'p, 'r, 'k, 'm) stages \<Rightarrow> ('s, 'd, 'p, 'r, 'k) pipeline \<Rightarrow> (bytes \<times> frame_result) list
    \<Rightarrow> ('s, 'd, 'p, 'r, 'k) pipeline \<Rightarrow> bool" for ops
where
  handled_done: "same_work p p' \<Longrightarrow> handled ops p [] p'"
| handled_frame:
    "same_work p p0 \<Longrightarrow> process_one_frame ops f p0 = Some (Inr r, p1) \<Longrightarrow> handled ops p1 wl p'
      \<Longrightarrow> handled ops p ((f, r) # wl) p'"

lemma same_work_refl [simp]: "same_work p p"
  by (simp add: same_work_def)

lemma same_work_queue [simp]:
  "same_work p (p\<lparr>pl_pending_idx := n\<rparr>)" "same_work p (p\<lparr>pl_source := s, pl_pending := fs, pl_pending_idx := n\<rparr>)"
  by (cases p; simp add: same_work_def)+

lemma same_work_trans: "same_work p q \<Longrightarrow> same_work q r \<Longrightarrow> same_work p r"
  unfolding same_work_def by (cases p; cases q; cases r) simp

lemma same_work_counts:
  "same_work p q \<Longrightarrow> pl_messages_out q = pl_messages_out p \<and> pl_messages_dropped q = pl_messages_dropped p"
  unfolding same_work_def by (cases p; cases q) simp

lemma handled_same: "same_work p q \<Longrightarrow> handled ops q wl r \<Longrightarrow> handled ops p wl r"
  by (erule handled.cases) (auto intro: handled.intros same_work_trans)

lemma handled_append: "handled ops p l1 q \<Longrightarrow> handled ops q l2 r \<Longrightarrow> handled ops p (l1 @ l2) r"
  by (induction rule: handled.induct) (auto intro: handled_same handled_frame)

definition results :: "frame_result \<Rightarrow> (bytes \<times> frame_result) list \<Rightarrow> nat" where
  "results r wl = length (filter (\<lambda>(_, r'). r' = r) wl)"

lemma results_simps [simp]:
  "results r [] = 0" "results r ((f, r') # wl) = of_bool (r' = r) + results r wl"
  "results r (l1 @ l2) = results r l1 + results r l2"
  by (simp_all add: results_def)

lemma handled_counts:
  "handled ops p wl p' \<Longrightarrow> pl_messages_out p' = pl_messages_out p + results FrWritten wl
     \<and> pl_messages_dropped p' = pl_messages_dropped p + results FrDropped wl"
proof (induction rule: handled.induct)
  case (handled_frame p p0 f r p1 wl p')
  then show ?case using process_one_frame_frame [OF handled_frame.hyps(2)] same_work_counts [OF handled_frame.hyps(1)]
    by (auto simp: counted_def)
qed (simp add: same_work_counts)

text \<open>
  How a log ends with an outcome: all frames before the last are skipped; with progress the last one
  is written or dropped, under back-pressure it is refused, otherwise it is skipped as well. The
  frames that are used up are all but the refused one.
\<close>

definition log_ends :: "step_outcome option \<Rightarrow> (bytes \<times> frame_result) list \<Rightarrow> bool" where
  "log_ends out wl \<longleftrightarrow>
     (\<exists>skipped. case out of
        Some Progress \<Rightarrow> \<exists>f. wl = map (\<lambda>f. (f, FrSkipped)) skipped @ [(f, FrWritten)]
                           \<or> wl = map (\<lambda>f. (f, FrSkipped)) skipped @ [(f, FrDropped)]
      | Some BackPressured \<Rightarrow> \<exists>f. wl = map (\<lambda>f. (f, FrSkipped)) skipped @ [(f, FrBackPressured)]
      | _ \<Rightarrow> wl = map (\<lambda>f. (f, FrSkipped)) skipped)"

definition used_up :: "(bytes \<times> frame_result) list \<Rightarrow> bytes list" where
  "used_up wl = map fst (filter (\<lambda>(_, r). r \<noteq> FrBackPressured) wl)"

lemma used_up_simps [simp]:
  "used_up [] = []" "used_up ((f, r) # wl) = (if r = FrBackPressured then used_up wl else f # used_up wl)"
  "used_up (l1 @ l2) = used_up l1 @ used_up l2"
  by (simp_all add: used_up_def)

lemma skipped_log [simp]:
  "used_up (map (\<lambda>f. (f, FrSkipped)) fs) = fs"
  "results r (map (\<lambda>f. (f, FrSkipped)) fs) = (if r = FrSkipped then length fs else 0)"
  by (induction fs) auto

lemma log_ends_append:
  assumes "log_ends None l1" "log_ends out l2"
  shows "log_ends out (l1 @ l2)"
proof -
  from assms(1) obtain s1 where s1: "l1 = map (\<lambda>f. (f, FrSkipped)) s1" by (auto simp: log_ends_def)
  from assms(2) obtain s2 where "case out of
        Some Progress \<Rightarrow> \<exists>f. l2 = map (\<lambda>f. (f, FrSkipped)) s2 @ [(f, FrWritten)]
                           \<or> l2 = map (\<lambda>f. (f, FrSkipped)) s2 @ [(f, FrDropped)]
      | Some BackPressured \<Rightarrow> \<exists>f. l2 = map (\<lambda>f. (f, FrSkipped)) s2 @ [(f, FrBackPressured)]
      | _ \<Rightarrow> l2 = map (\<lambda>f. (f, FrSkipped)) s2" unfolding log_ends_def by blast
  then show ?thesis unfolding log_ends_def s1
    by (intro exI [of _ "s1 @ s2"]) (simp split: option.splits step_outcome.splits)
qed

lemma log_ends_skip: "log_ends out wl \<Longrightarrow> log_ends out ((f, FrSkipped) # wl)"
  using log_ends_append [of "[(f, FrSkipped)]" out wl]
  by (force simp: log_ends_def intro: exI [of _ "[f]"])

text \<open>The frames in line are the frames used up, in the order of the log, and those that still wait.\<close>

definition drained ::
  "('s, 'd, 'p, 'r, 'k, 'm) stages \<Rightarrow> step_outcome option \<Rightarrow> (bytes \<times> frame_result) list
    \<Rightarrow> ('s, 'd, 'p, 'r, 'k) pipeline \<Rightarrow> ('s, 'd, 'p, 'r, 'k) pipeline \<Rightarrow> bool"
where
  "drained ops out wl p p' \<longleftrightarrow> handled ops p wl p' \<and> log_ends out wl \<and> waiting p = used_up wl @ waiting p'
     \<and> (out = None \<longrightarrow> waiting p' = [])
     \<and> (out = Some BackPressured \<longrightarrow> waiting p' \<noteq> [] \<and> hd (waiting p') = fst (last wl))"

lemma drained_skip:
  assumes "process_one_frame ops f p = Some (Inr FrSkipped, p1)" "waiting p = f # waiting p2" "same_work p1 p2"
    "drained ops out wl p2 p'"
  shows "drained ops out ((f, FrSkipped) # wl) p p'"
proof -
  have "handled ops p ((f, FrSkipped) # wl) p'"
    using assms(1,3,4) by (auto simp: drained_def intro: handled_frame [OF same_work_refl] handled_same)
  moreover have "wl \<noteq> []" if "out = Some BackPressured" using assms(4) that by (auto simp: drained_def log_ends_def)
  ultimately show ?thesis using assms(2,4) log_ends_skip by (auto simp: drained_def)
qed

lemma drained_last:
  assumes "process_one_frame ops f p = Some (Inr r, p1)" "same_work p1 p2"
    "r = FrBackPressured \<longrightarrow> out = Some BackPressured \<and> waiting p2 = waiting p \<and> (\<exists>fs. waiting p = f # fs)"
    "r \<noteq> FrBackPressured \<longrightarrow> (r = FrWritten \<or> r = FrDropped) \<and> out = Some Progress \<and> waiting p = f # waiting p2"
  shows "drained ops out [(f, r)] p p2"
proof -
  have "handled ops p [(f, r)] p2"
    using assms(1,2) by (auto intro: handled_frame [OF same_work_refl] handled_done)
  moreover have "log_ends out [(f, r)]"
    using assms(3,4) by (cases "r = FrBackPressured") (auto simp: log_ends_def intro: exI [of _ "[]"])
  ultimately show ?thesis using assms(3,4) by (cases "r = FrBackPressured") (auto simp: drained_def)
qed

lemma drain_pending_log:
  assumes "drain_pending ops p = Some (r, p')"
  shows "pl_source p' = pl_source p \<and> pl_initialized p' = pl_initialized p
    \<and> pl_runtime p' = pl_runtime p \<and> (\<forall>out. r = Inr out \<longrightarrow> out \<in> {None, Some Progress, Some BackPressured}
        \<and> (\<exists>wl. drained ops out wl p p'))"
proof -
  define P where "P = (\<lambda>(ops :: ('a, 'b, 'c, 'd, 'e, 'f) stages) (p :: ('a, 'b, 'c, 'd, 'e) pipeline)
        (y :: step_outcome option result \<times> ('a, 'b, 'c, 'd, 'e) pipeline).
    pl_source (snd y) = pl_source p \<and> pl_initialized (snd y) = pl_initialized p
    \<and> pl_runtime (snd y) = pl_runtime p
    \<and> (\<forall>out. fst y = Inr out \<longrightarrow> out \<in> {None, Some Progress, Some BackPressured}
        \<and> (\<exists>wl. drained ops out wl p (snd y))))"
  have step: "P ops p y"
    if IH: "\<And>ops p y. g ops p = Some y \<Longrightarrow> P ops p y"
      and body: "(if pl_pending_idx p < length (pl_pending p)
      then
        (case process_one_frame ops (pl_pending p ! pl_pending_idx p) p of
           None \<Rightarrow> None
         | Some (Inl e, p1) \<Rightarrow> Some (Inl e, p1)
         | Some (Inr FrWritten, p1) \<Rightarrow>
             Some (Inr (Some Progress), p1\<lparr>pl_pending_idx := pl_pending_idx p1 + 1\<rparr>)
         | Some (Inr FrDropped, p1) \<Rightarrow>
             Some (Inr (Some Progress), p1\<lparr>pl_pending_idx := pl_pending_idx p1 + 1\<rparr>)
         | Some (Inr FrSkipped, p1) \<Rightarrow>
             g ops (p1\<lparr>pl_pending_idx := pl_pending_idx p1 + 1\<rparr>)
         | Some (Inr FrBackPressured, p1) \<Rightarrow> Some (Inr (Some BackPressured), p1))
      else Some (Inr None, p)) = Some y" for g ops p y
  proof (cases "pl_pending_idx p < length (pl_pending p)")
    case False
    then have "y = (Inr None, p)" using body by simp
    moreover have "drained ops None [] p p" using False
      by (auto simp: drained_def log_ends_def waiting_def intro: handled_done)
    ultimately show ?thesis by (auto simp: P_def)
  next
    case True
    let ?f = "pl_pending p ! pl_pending_idx p"
    have w: "waiting p = ?f # drop (Suc (pl_pending_idx p)) (pl_pending p)"
      using True by (simp add: waiting_def Cons_nth_drop_Suc)
    obtain r p1 where res: "process_one_frame ops ?f p = Some (r, p1)" using body True by (auto split: option.splits)
    note fr = process_one_frame_frame [OF res]
    let ?p2 = "p1\<lparr>pl_pending_idx := pl_pending_idx p1 + 1\<rparr>"
    have w2: "waiting p = ?f # waiting ?p2" and w1: "waiting p1 = waiting p"
      using w fr by (simp_all add: waiting_def same_queue_def)
    have frames: "pl_source p1 = pl_source p" "pl_initialized p1 = pl_initialized p" "pl_runtime p1 = pl_runtime p"
      using fr by (simp_all add: same_queue_def)
    show ?thesis
    proof (cases "r = Inr FrSkipped")
      case skip: True
      then have "g ops ?p2 = Some y" using body True res by simp
      from IH [OF this] show ?thesis
        using drained_skip [OF res [unfolded skip] w2 same_work_queue(1)] frames by (fastforce simp: P_def)
    next
      case False
      show ?thesis
      proof (cases r)
        case (Inl e)
        then show ?thesis using body True res frames by (auto simp: P_def)
      next
        case (Inr fres)
        note last = drained_last [OF res [unfolded Inr]]
        have "y = (if fres = FrBackPressured then (Inr (Some BackPressured), p1) else (Inr (Some Progress), ?p2))"
          using body True res Inr False by (cases fres) auto
        then show ?thesis
          using last [of ?p2 "Some Progress"] last [of p1 "Some BackPressured"] w1 w2 frames False Inr
          by (cases fres) (auto simp: P_def)
      qed
    qed
  qed
  have "P ops p (r, p')" by (rule drain_pending.raw_induct [where P = P, OF step assms])
  then show ?thesis by (simp add: P_def)
qed

section \<open>The contract of the lifecycle\<close>

text \<open>The pipeline as a stage; a use is a step. Its answers are those of its stages.\<close>

definition pipeline_stage ::
  "('s, 'd, 'p, 'r, 'k, 'm) stages \<Rightarrow> (unit, unit, ('s, 'd, 'p, 'r, 'k) pipeline) stage_ops"
where
  "pipeline_stage ops =
     \<lparr>so_init = (\<lambda>_ p. pipeline_init ops p),
      so_use = (\<lambda>_ p. map_option (\<lambda>(r, p1). (answer r, p1)) (pipeline_step ops p)),
      so_shutdown = pipeline_shutdown ops\<rparr>"

lemma pipeline_init_initialized:
  assumes "pipeline_init ops p = Some (r, p')"
  shows "pl_initialized p' = (pl_initialized p \<or> r = Inr ())"
  using assms by (auto simp: pipeline_init_def split: if_splits prod.splits sum.splits option.splits)

lemma refill_initialized: "refill_pending ops p = (r, p') \<Longrightarrow> pl_initialized p' = pl_initialized p"
  by (auto simp: refill_pending_def Let_def split: prod.splits sum.splits if_splits)

lemma step_initialized:
  assumes "step_outcome_of ops p = Some (r, p')"
  shows "pl_initialized p' = pl_initialized p"
proof (cases "pl_initialized p")
  case False
  then show ?thesis using assms by (simp add: step_outcome_of_def)
next
  case True
  then obtain x p1 where d: "drain_pending ops p = Some (x, p1)"
    using assms by (auto simp: step_outcome_of_def split: option.splits)
  have p1: "pl_initialized p1" using drain_pending_log [OF d] True by simp
  obtain y p2 where f: "refill_pending ops p1 = (y, p2)" by (rule prod.exhaust)
  have p2: "pl_initialized p2" using refill_initialized [OF f] p1 by simp
  have p3: "pl_initialized p3" if "drain_pending ops p2 = Some (z, p3)" for z p3
    using drain_pending_log [OF that] p2 by simp
  show ?thesis
    using assms True d p1 f p2 p3
    by (auto simp: step_outcome_of_def split: option.splits sum.splits if_splits)
qed

interpretation pipeline_lc: lifecycle_stage "pipeline_stage ops" pl_initialized "\<lambda>_. True" for ops
proof unfold_locales
  fix p p' and r :: "unit result" and u :: unit
  show "True \<and> pl_initialized p' = (pl_initialized p \<or> r = Inr ())" if "so_init (pipeline_stage ops) u p = Some (r, p')"
    using that pipeline_init_initialized [of ops p r p'] by (simp add: pipeline_stage_def)
  show "True \<and> pl_initialized p' = pl_initialized p" if "so_use (pipeline_stage ops) u p = Some (r, p')"
    using that by (auto simp: pipeline_stage_def pipeline_step_def step_initialized)
  show "\<exists>e. so_use (pipeline_stage ops) u p = Some (Inl e, p) \<and> err_kind e = Lifecycle" if "\<not> pl_initialized p"
    using that by (simp add: pipeline_stage_def pipeline_step_def step_outcome_of_def)
  show "True \<and> \<not> pl_initialized (snd (so_shutdown (pipeline_stage ops) p))"
    by (simp add: pipeline_stage_def pipeline_shutdown_def split_beta Let_def)
qed

end
