(* ===== verification/Pipeline_Run.thy ===== *)
theory Pipeline_Run
  imports Pipeline_Laws
begin

text \<open>
  A run of \<open>SimplePipeline\<close> (\<open>crates/flyby/src/pipeline.rs\<close>) to the end of a finite source, when the
  stages behave: every frame is decoded, routed and written once, in the order of the source, and
  the run returns.
\<close>

section \<open>What the run should deliver\<close>

text \<open>The message a frame gives and the sink it goes to, for stages without state.\<close>

definition routed ::
  "(bytes \<Rightarrow> 'm option) \<Rightarrow> ('m \<Rightarrow> 'm option) \<Rightarrow> ('m \<Rightarrow> sink_id) \<Rightarrow> bytes \<Rightarrow> (u32 \<times> 'm) option"
where
  "routed dec pro rt frame =
     (case Option.bind (dec frame) pro of
        None \<Rightarrow> None
      | Some msg \<Rightarrow> if sink_id_is_none (rt msg) then None else Some (as_u32 (rt msg), msg))"

definition traffic ::
  "(bytes \<Rightarrow> 'm option) \<Rightarrow> ('m \<Rightarrow> 'm option) \<Rightarrow> ('m \<Rightarrow> sink_id) \<Rightarrow> bytes list \<Rightarrow> (u32 \<times> 'm) list"
where
  "traffic dec pro rt frames = List.map_filter (routed dec pro rt) frames"

text \<open>Every sink after the messages for it have been put in, in order.\<close>

definition delivered :: "('m \<Rightarrow> 'k \<Rightarrow> 'k) \<Rightarrow> (u32 \<times> 'm) list \<Rightarrow> (u32 \<times> 'k) list \<Rightarrow> (u32 \<times> 'k) list" where
  "delivered put ms ks = map (\<lambda>(i, k). (i, fold put (map snd (filter (\<lambda>x. fst x = i) ms)) k)) ks"

lemma traffic_append [simp]: "traffic dec pro rt (xs @ ys) = traffic dec pro rt xs @ traffic dec pro rt ys"
  by (simp add: traffic_def map_filter_def)

lemma traffic_Nil [simp]: "traffic dec pro rt [] = []"
  by (simp add: traffic_def map_filter_def)

lemma traffic_Cons:
  "traffic dec pro rt (x # xs) = (case routed dec pro rt x of None \<Rightarrow> [] | Some y \<Rightarrow> [y]) @ traffic dec pro rt xs"
  by (simp add: traffic_def map_filter_def split: option.split)

lemma delivered_Nil [simp]: "delivered put [] ks = ks"
  by (simp add: delivered_def case_prod_unfold)

lemma delivered_append: "delivered put (xs @ ys) ks = delivered put ys (delivered put xs ks)"
  by (simp add: delivered_def case_prod_unfold)

lemma map_fst_delivered [simp]: "map fst (delivered put ms ks) = map fst ks"
  by (simp add: delivered_def case_prod_unfold)

lemma delivered_one:
  assumes "distinct (map fst ks)" "map_of ks i = Some k"
  shows "put_sink i (put m k) ks = delivered put [(i, m)] ks"
proof -
  have "x = k" if "(i, x) \<in> set ks" for x
    using assms that by (metis map_of_eq_Some_iff option.inject)
  then show ?thesis by (auto simp: put_sink_def delivered_def)
qed

text \<open>The messages for one sink.\<close>

definition mail :: "u32 \<Rightarrow> (u32 \<times> 'm) list \<Rightarrow> 'm list" where
  "mail i ms = map snd (filter (\<lambda>x. fst x = i) ms)"

lemma mail_append [simp]: "mail i (xs @ ys) = mail i xs @ mail i ys"
  by (simp add: mail_def)

lemma delivered_mail: "delivered put ms ks = map (\<lambda>(i, k). (i, fold put (mail i ms) k)) ks"
  by (simp add: delivered_def mail_def)

section \<open>Stages that behave\<close>

text \<open>
  Stages without state of their own, and sinks that take the messages they are sure to take
  (\<open>takes\<close>, with the effect \<open>put\<close>).
\<close>

locale working =
  fixes ops :: "('s, 'd, 'p, 'r, 'k, 'm) stages"
    and dec :: "bytes \<Rightarrow> 'm option" and pro :: "'m \<Rightarrow> 'm option" and rt :: "'r \<Rightarrow> 'm \<Rightarrow> sink_id"
    and takes :: "'m list \<Rightarrow> 'k \<Rightarrow> bool" and put :: "'m \<Rightarrow> 'k \<Rightarrow> 'k"
  assumes decodes: "st_decode ops d frame = (Inr (dec frame), d)"
    and processes: "st_process ops q m = (Inr (pro m), q)"
    and routes: "st_route ops r m = (Inr (rt r m), r)"
    and accepts: "takes (m # ms) k \<Longrightarrow> st_sink_write ops m k = (Inr (), put m k) \<and> takes ms (put m k)"
begin

lemma takes_fold: "takes (xs @ ys) k \<Longrightarrow> takes ys (fold put xs k)"
  by (induction xs arbitrary: k) (use accepts in auto)

text \<open>A pipeline whose sinks cover the routes of the frames ahead, and take their messages.\<close>

definition ready :: "'r \<Rightarrow> bytes list \<Rightarrow> ('s, 'd, 'p, 'r, 'k) pipeline \<Rightarrow> bool" where
  "ready r frames p \<longleftrightarrow> pl_initialized p \<and> distinct (map fst (pl_sinks p)) \<and> pl_placement p = r
     \<and> fst ` set (traffic dec pro (rt r) frames) \<subseteq> fst ` set (pl_sinks p)
     \<and> list_all (\<lambda>(i, k). takes (mail i (traffic dec pro (rt r) frames)) k) (pl_sinks p)"

text \<open>Progress from \<open>p\<close> to \<open>p'\<close>: the frames done, and their messages delivered and counted.\<close>

definition advance :: "'r \<Rightarrow> bytes list \<Rightarrow> ('s, 'd, 'p, 'r, 'k) pipeline \<Rightarrow> ('s, 'd, 'p, 'r, 'k) pipeline \<Rightarrow> bool" where
  "advance r frames p p' \<longleftrightarrow> pl_initialized p' = pl_initialized p \<and> pl_runtime p' = pl_runtime p
     \<and> pl_placement p' = pl_placement p
     \<and> pl_sinks p' = delivered put (traffic dec pro (rt r) frames) (pl_sinks p)
     \<and> pl_messages_out p' = pl_messages_out p + length (traffic dec pro (rt r) frames)
     \<and> pl_messages_dropped p' = pl_messages_dropped p"

lemma advance_refl: "advance r [] p p"
  by (simp add: advance_def)

lemma advance_trans: "advance r xs p p1 \<Longrightarrow> advance r ys p1 p2 \<Longrightarrow> advance r (xs @ ys) p p2"
  by (simp add: advance_def delivered_append)

lemma ready_advance: "ready r (xs @ ys) p \<Longrightarrow> advance r xs p p1 \<Longrightarrow> ready r ys p1"
  by (auto simp: ready_def advance_def list_all_iff delivered_mail image_image case_prod_unfold comp_def
      intro!: takes_fold)

lemma process_one_advance:
  assumes "ready r (frame # frames) p"
  shows "\<exists>res p'. process_one_frame ops frame p = Some (Inr res, p')
    \<and> res = (if traffic dec pro (rt r) [frame] = [] then FrSkipped else FrWritten)
    \<and> advance r [frame] p p' \<and> same_queue p p'"
proof (cases "routed dec pro (rt r) frame")
  case None
  then show ?thesis using assms
    by (auto simp: process_one_frame_def decodes processes routes routed_def advance_def traffic_Cons same_queue_def
        ready_def split: option.splits bind_splits if_splits)
next
  case (Some y)
  obtain i msg where y: "y = (i, msg)" by fastforce
  obtain m where m: "dec frame = Some m" "pro m = Some msg" "\<not> sink_id_is_none (rt r msg)" "i = as_u32 (rt r msg)"
    using Some y by (auto simp: routed_def split: option.splits bind_splits if_splits)
  have tr: "traffic dec pro (rt r) (frame # frames) = (i, msg) # traffic dec pro (rt r) frames"
    "traffic dec pro (rt r) [frame] = [(i, msg)]" using Some y by (simp_all add: traffic_Cons)
  then have "i \<in> fst ` set (pl_sinks p)" using assms by (simp add: ready_def)
  then obtain k where k: "map_of (pl_sinks p) i = Some k"
    by (metis map_of_eq_None_iff not_None_eq)
  then have "takes (mail i ((i, msg) # traffic dec pro (rt r) frames)) k"
    using assms tr map_of_SomeD [OF k] by (auto simp: ready_def list_all_iff)
  then have w: "st_sink_write ops msg k = (Inr (), put msg k)" using accepts by (simp add: mail_def)
  have put: "put_sink i (put msg k) (pl_sinks p) = delivered put [(i, msg)] (pl_sinks p)"
    by (rule delivered_one) (use assms k in \<open>simp_all add: ready_def\<close>)
  have pr: "pl_placement p = r" using assms by (simp add: ready_def)
  show ?thesis
    using m k put tr w pr
    by (simp add: process_one_frame_def decodes processes routes write_with_backpressure_def write_loop.simps
        write_attempt_def write_to_def advance_def same_queue_def count_out_def)
qed

lemma drain_advance:
  assumes "ready r (waiting p @ rest) p"
  shows "\<exists>out p' fs. drain_pending ops p = Some (Inr out, p') \<and> waiting p = fs @ waiting p' \<and> advance r fs p p'
    \<and> pl_source p' = pl_source p
    \<and> (case out of None \<Rightarrow> waiting p' = [] \<and> traffic dec pro (rt r) fs = []
        | Some x \<Rightarrow> x = Progress \<and> length (traffic dec pro (rt r) fs) = 1)"
  using assms
proof (induction "length (waiting p)" arbitrary: p)
  case 0
  then show ?case
    by (intro exI [of _ None] exI [of _ p] exI [of _ "[]"])
      (simp add: drain_pending.simps waiting_def advance_refl)
next
  case (Suc n)
  then have lt: "pl_pending_idx p < length (pl_pending p)" by (simp add: waiting_def)
  let ?f = "pl_pending p ! pl_pending_idx p"
  have w: "waiting p = ?f # drop (Suc (pl_pending_idx p)) (pl_pending p)"
    using lt by (simp add: waiting_def Cons_nth_drop_Suc)
  with Suc.prems have rd: "ready r (?f # drop (Suc (pl_pending_idx p)) (pl_pending p) @ rest) p" by simp
  from process_one_advance [OF rd] obtain res p1 where
    p1: "process_one_frame ops ?f p = Some (Inr res, p1)"
      "res = (if traffic dec pro (rt r) [?f] = [] then FrSkipped else FrWritten)" "advance r [?f] p p1"
      "same_queue p p1" by blast
  let ?p2 = "p1\<lparr>pl_pending_idx := pl_pending_idx p1 + 1\<rparr>"
  have w2: "waiting p = ?f # waiting ?p2" and s2: "pl_source ?p2 = pl_source p"
    using w p1(4) by (simp_all add: waiting_def same_queue_def)
  have a2: "advance r [?f] p ?p2" using p1(3) by (simp add: advance_def)
  show ?case
  proof (cases "traffic dec pro (rt r) [?f] = []")
    case False
    then have "drain_pending ops p = Some (Inr (Some Progress), ?p2)"
      using lt p1 by (simp add: drain_pending.simps)
    moreover have "length (traffic dec pro (rt r) [?f]) = 1" using False by (simp add: traffic_Cons split: option.splits)
    ultimately show ?thesis using w2 s2 a2
      by (intro exI [of _ "Some Progress"] exI [of _ ?p2] exI [of _ "[?f]"]) simp
  next
    case True
    then have d: "drain_pending ops p = drain_pending ops ?p2"
      using lt p1 by (simp add: drain_pending.simps [of ops p])
    have "n = length (waiting ?p2)" using Suc.hyps(2) w2 by simp
    moreover have "ready r (waiting ?p2 @ rest) ?p2"
      by (rule ready_advance [OF _ a2]) (use Suc.prems w2 in simp)
    ultimately obtain out p' fs where e: "drain_pending ops ?p2 = Some (Inr out, p')" "waiting ?p2 = fs @ waiting p'"
      "advance r fs ?p2 p'" "pl_source p' = pl_source ?p2"
      "case out of None \<Rightarrow> waiting p' = [] \<and> traffic dec pro (rt r) fs = []
         | Some x \<Rightarrow> x = Progress \<and> length (traffic dec pro (rt r) fs) = 1"
      using Suc.hyps(1) [of ?p2] by blast
    have tr: "traffic dec pro (rt r) (?f # fs) = traffic dec pro (rt r) fs"
      using True traffic_append [of dec pro "rt r" "[?f]" fs] by simp
    show ?thesis
      using e d w2 s2 tr advance_trans [OF a2 e(3)]
      by (intro exI [of _ out] exI [of _ p'] exI [of _ "?f # fs"]) (auto split: option.splits)
  qed
qed

end

text \<open>
  A finite source besides: \<open>stream\<close> are the frames it will still give, \<open>left\<close> bounds its polls and the
  width the frames of a poll.
\<close>

locale behaved = working ops dec pro rt takes put
  for ops :: "('s, 'd, 'p, 'r, 'k, 'm) stages"
    and dec :: "bytes \<Rightarrow> 'm option" and pro :: "'m \<Rightarrow> 'm option" and rt :: "'r \<Rightarrow> 'm \<Rightarrow> sink_id"
    and takes :: "'m list \<Rightarrow> 'k \<Rightarrow> bool" and put :: "'m \<Rightarrow> 'k \<Rightarrow> 'k" +
  fixes src_ok :: "nat \<Rightarrow> 's \<Rightarrow> bool" and stream :: "'s \<Rightarrow> bytes list" and left :: "'s \<Rightarrow> nat"
  assumes ends: "src_ok w s \<Longrightarrow> st_is_exhausted ops s \<Longrightarrow> stream s = []"
    and polls: "src_ok w s \<Longrightarrow> \<not> st_is_exhausted ops s \<Longrightarrow>
          \<exists>b s'. st_poll_frames ops s = (Inr (length b), b, s') \<and> src_ok w s' \<and> stream s = b @ stream s'
            \<and> left s' < left s \<and> length b \<le> w"
begin

text \<open>The frames that a pipeline will still process.\<close>

definition ahead :: "('s, 'd, 'p, 'r, 'k) pipeline \<Rightarrow> bytes list" where
  "ahead p = waiting p @ stream (pl_source p)"

definition progress_from :: "('s, 'd, 'p, 'r, 'k) pipeline \<Rightarrow> ('s, 'd, 'p, 'r, 'k) pipeline \<Rightarrow> bool" where
  "progress_from p p' \<longleftrightarrow> (p', p) \<in> measures [\<lambda>p. left (pl_source p), \<lambda>p. length (waiting p)]"

lemma refill_advance:
  assumes "src_ok w (pl_source p)" "\<not> st_is_exhausted ops (pl_source p)" "waiting p = []"
    "w \<le> rc_batch_size (pl_runtime p)"
  shows "\<exists>had p'. refill_pending ops p = (Inr had, p') \<and> src_ok w (pl_source p') \<and> ahead p' = ahead p
    \<and> advance r [] p p' \<and> left (pl_source p') < left (pl_source p) \<and> (\<not> had \<longrightarrow> waiting p' = [])"
proof -
  from polls [OF assms(1,2)] obtain b s' where
    "st_poll_frames ops (pl_source p) = (Inr (length b), b, s')" "src_ok w s'"
    "stream (pl_source p) = b @ stream s'" "left s' < left (pl_source p)" "length b \<le> w" by blast
  then show ?thesis using assms
    by (auto simp: refill_pending_def Let_def ahead_def advance_def waiting_def)
qed

lemma step_advance:
  assumes "src_ok w (pl_source p)" "ready r (ahead p) p" "w \<le> rc_batch_size (pl_runtime p)"
  shows "\<exists>out p' fs. step_outcome_of ops p = Some (Inr out, p') \<and> ahead p = fs @ ahead p' \<and> advance r fs p p'
    \<and> src_ok w (pl_source p') \<and> (if out = Exhausted then ahead p' = [] else progress_from p p')"
proof -
  have init: "pl_initialized p" using assms(2) by (simp add: ready_def)
  from drain_advance [of r p] assms(2) obtain out p1 fs where
    d: "drain_pending ops p = Some (Inr out, p1)" "waiting p = fs @ waiting p1" "advance r fs p p1"
      "pl_source p1 = pl_source p" "case out of None \<Rightarrow> waiting p1 = [] | Some x \<Rightarrow> x = Progress \<and> fs \<noteq> []"
    unfolding ahead_def by (fastforce split: option.splits)
  show ?thesis
  proof (cases out)
    case (Some x)
    then show ?thesis using d init assms(1)
      by (intro exI [of _ Progress] exI [of _ p1] exI [of _ fs])
        (simp add: step_outcome_of_def ahead_def progress_from_def)
  next
    case None
    then have w1: "waiting p1 = []" using d by simp
    show ?thesis
    proof (cases "st_is_exhausted ops (pl_source p)")
      case True
      then show ?thesis using d init assms(1) None w1 ends
        by (intro exI [of _ Exhausted] exI [of _ p1] exI [of _ fs]) (simp add: step_outcome_of_def ahead_def)
    next
      case False
      have ok1: "src_ok w (pl_source p1)" "\<not> st_is_exhausted ops (pl_source p1)"
        "w \<le> rc_batch_size (pl_runtime p1)" using assms d False by (simp_all add: advance_def)
      from refill_advance [OF ok1(1,2) w1 ok1(3), of r] obtain had p2 where
        f: "refill_pending ops p1 = (Inr had, p2)" "src_ok w (pl_source p2)" "ahead p2 = ahead p1"
          "advance r [] p1 p2" "left (pl_source p2) < left (pl_source p1)" "\<not> had \<longrightarrow> waiting p2 = []"
        by blast
      have a2: "ahead p = fs @ ahead p2" using d f by (simp add: ahead_def)
      have adv2: "advance r fs p p2" using advance_trans [OF d(3) f(4)] by simp
      show ?thesis
      proof (cases had)
        case False
        then show ?thesis using d f None init a2 adv2 \<open>\<not> st_is_exhausted ops (pl_source p)\<close> ends [OF f(2)]
          by (intro exI [of _ "if st_is_exhausted ops (pl_source p2) then Exhausted else Idle"] exI [of _ p2]
              exI [of _ fs]) (auto simp: step_outcome_of_def progress_from_def ahead_def)
      next
        case True
        have "ready r (waiting p2 @ stream (pl_source p2)) p2"
          using ready_advance [OF _ adv2] assms(2) a2 by (simp add: ahead_def)
        from drain_advance [OF this] obtain out3 p3 gs where
          g: "drain_pending ops p2 = Some (Inr out3, p3)" "waiting p2 = gs @ waiting p3" "advance r gs p2 p3"
            "pl_source p3 = pl_source p2" "case out3 of None \<Rightarrow> waiting p3 = [] | Some x \<Rightarrow> x = Progress \<and> gs \<noteq> []"
          by (fastforce split: option.splits)
        have "step_outcome_of ops p = Some (Inr (case out3 of None \<Rightarrow> Idle | Some x \<Rightarrow> x), p3)"
          using d f g None True init \<open>\<not> st_is_exhausted ops (pl_source p)\<close>
          by (simp add: step_outcome_of_def split: option.splits)
        moreover have "ahead p = (fs @ gs) @ ahead p3" using a2 g by (simp add: ahead_def)
        moreover have "(case out3 of None \<Rightarrow> Idle | Some x \<Rightarrow> x) \<noteq> Exhausted" using g by (auto split: option.splits)
        ultimately show ?thesis
          using advance_trans [OF adv2 g(3)] f d g by (force simp: progress_from_def)
      qed
    qed
  qed
qed

text \<open>The run returns, and everything ahead has been delivered.\<close>

lemma run_delivers:
  assumes "src_ok w (pl_source p)" "ready r (ahead p) p" "w \<le> rc_batch_size (pl_runtime p)"
  shows "\<exists>p'. pipeline_run ops p = Some (Inr (), p') \<and> advance r (ahead p) p p' \<and> ahead p' = []"
  using assms
proof (induction p rule: wf_induct_rule [OF wf_measures [of "[\<lambda>p. left (pl_source p), \<lambda>p. length (waiting p)]"]])
  case (1 p)
  from step_advance [OF 1(2-4)] obtain out p1 fs where
    s: "step_outcome_of ops p = Some (Inr out, p1)" "ahead p = fs @ ahead p1" "advance r fs p p1"
      "src_ok w (pl_source p1)" "if out = Exhausted then ahead p1 = [] else progress_from p p1" by blast
  show ?case
  proof (cases "out = Exhausted")
    case True
    then show ?thesis using s by (simp add: pipeline_run.simps [of ops p])
  next
    case False
    then have run: "pipeline_run ops p = pipeline_run ops p1"
      using s by (simp add: pipeline_run.simps [of ops p] split: step_outcome.splits)
    have "progress_from p p1" "ready r (ahead p1) p1" "w \<le> rc_batch_size (pl_runtime p1)"
      using s False ready_advance [OF _ s(3), of "ahead p1"] 1(3,4) by (simp_all add: advance_def)
    then obtain p' where "pipeline_run ops p1 = Some (Inr (), p')" "advance r (ahead p1) p1 p'" "ahead p' = []"
      using 1(1) [of p1] s(4) unfolding progress_from_def by blast
    then show ?thesis using run s(2) advance_trans [OF s(3)] by auto
  qed
qed

end

end
