(* ===== verification/Record_Batch.thy ===== *)
theory Record_Batch
  imports Core
begin

text \<open>
  The reusable record batch of \<open>crates/flyby-storage/src/batch.rs\<close>: pre-allocated slot
  buffers with parallel length and metadata arrays and an occupied count. The abstraction is
  the list of stored records (\<open>batch_records\<close>); buffers keep stale bytes behind it.
\<close>

record record_meta =
  file_offset :: nat
  timestamp_ns :: nat
  record_index :: nat

definition record_meta_default :: record_meta where
  "record_meta_default = \<lparr>file_offset = 0, timestamp_ns = 0, record_index = 0\<rparr>"

datatype push_result = PushOk | PushFull | PushOversized

record record_batch =
  rb_bufs :: "bytes list"
  rb_lens :: "nat list"
  rb_meta :: "record_meta list"
  rb_count :: nat
  rb_max_record_size :: nat
  rb_records_read :: nat
  rb_parse_errors :: nat

text \<open>\<open>new\<close> panics on a zero capacity or record size.\<close>

definition record_batch_new :: "nat \<Rightarrow> nat \<Rightarrow> record_batch option" where
  "record_batch_new cap max_record_size =
     (if cap > 0 \<and> max_record_size > 0
      then Some \<lparr>rb_bufs = replicate cap (replicate max_record_size 0), rb_lens = replicate cap 0,
             rb_meta = replicate cap record_meta_default, rb_count = 0,
             rb_max_record_size = max_record_size, rb_records_read = 0, rb_parse_errors = 0\<rparr>
      else None)"

definition batch_reset :: "record_batch \<Rightarrow> record_batch" where
  "batch_reset b = b\<lparr>rb_count := 0\<rparr>"

definition batch_capacity :: "record_batch \<Rightarrow> nat" where
  "batch_capacity b = length (rb_bufs b)"

definition batch_len :: "record_batch \<Rightarrow> nat" where
  "batch_len b = rb_count b"

definition batch_is_empty :: "record_batch \<Rightarrow> bool" where
  "batch_is_empty b = (rb_count b = 0)"

definition batch_records :: "record_batch \<Rightarrow> (bytes \<times> record_meta) list" where
  "batch_records b = map (\<lambda>i. (take (rb_lens b ! i) (rb_bufs b ! i), rb_meta b ! i)) [0..<rb_count b]"

text \<open>\<open>record_mut\<close>: the slice and the metadata of one record, \<open>None\<close> out of range.\<close>

definition batch_record_mut :: "record_batch \<Rightarrow> nat \<Rightarrow> (bytes \<times> record_meta) option" where
  "batch_record_mut b index =
     (if index \<ge> rb_count b then None
      else Some (take (rb_lens b ! index) (rb_bufs b ! index), rb_meta b ! index))"

definition batch_truncate :: "nat \<Rightarrow> record_batch \<Rightarrow> record_batch" where
  "batch_truncate new_len b = (if new_len < rb_count b then b\<lparr>rb_count := new_len\<rparr> else b)"

definition batch_push :: "bytes \<Rightarrow> record_meta \<Rightarrow> record_batch \<Rightarrow> push_result \<times> record_batch" where
  "batch_push data meta b =
     (if rb_count b \<ge> length (rb_bufs b) then (PushFull, b)
      else if length data > length (rb_bufs b ! rb_count b)
      then (PushOversized, b\<lparr>rb_parse_errors := rb_parse_errors b + 1\<rparr>)
      else (PushOk,
        b\<lparr>rb_bufs := (rb_bufs b)[rb_count b := write_at 0 data (rb_bufs b ! rb_count b)],
          rb_lens := (rb_lens b)[rb_count b := length data],
          rb_meta := (rb_meta b)[rb_count b := meta],
          rb_count := rb_count b + 1, rb_records_read := rb_records_read b + 1\<rparr>))"

definition batch_try_push :: "bytes \<Rightarrow> record_meta \<Rightarrow> record_batch \<Rightarrow> unit result \<times> record_batch" where
  "batch_try_push data meta b =
     (case batch_push data meta b of
        (PushOk, b1) \<Rightarrow> (Inr (), b1)
      | (PushFull, b1) \<Rightarrow> (Inl (error_new Source ''record batch is full''), b1)
      | (PushOversized, b1) \<Rightarrow>
          (Inl (error_new Decode (''record length '' @ nat_dec (length data)
             @ '' exceeds max_record_size '' @ nat_dec (rb_max_record_size b1))), b1))"

section \<open>Invariant and abstraction\<close>

definition batch_inv :: "record_batch \<Rightarrow> bool" where
  "batch_inv b \<longleftrightarrow>
     length (rb_lens b) = length (rb_bufs b) \<and> length (rb_meta b) = length (rb_bufs b)
     \<and> (\<forall>buf \<in> set (rb_bufs b). length buf = rb_max_record_size b)
     \<and> rb_count b \<le> length (rb_bufs b) \<and> (\<forall>n \<in> set (rb_lens b). n \<le> rb_max_record_size b)"

lemma batch_inv_new [inv_intros]: "record_batch_new cap m = Some b \<Longrightarrow> batch_inv b"
  by (auto simp: record_batch_new_def batch_inv_def split: if_splits)

lemma batch_inv_reset [inv_intros]: "batch_inv b \<Longrightarrow> batch_inv (batch_reset b)"
  by (simp add: batch_inv_def batch_reset_def)

lemma batch_inv_truncate [inv_intros]: "batch_inv b \<Longrightarrow> batch_inv (batch_truncate n b)"
  by (simp add: batch_inv_def batch_truncate_def)

lemma set_list_update_subset: "x \<in> set (xs[i := y]) \<Longrightarrow> x = y \<or> x \<in> set xs"
  using set_update_subset_insert [of xs i y] by auto

lemma batch_inv_push [inv_intros]:
  assumes "batch_inv b"
  shows "batch_inv (snd (batch_push data meta b))"
proof (cases "rb_count b < length (rb_bufs b)")
  case True
  then have "rb_bufs b ! rb_count b \<in> set (rb_bufs b)" by simp
  then have "length (rb_bufs b ! rb_count b) = rb_max_record_size b"
    using assms by (simp add: batch_inv_def)
  then show ?thesis
    using assms True
    by (auto simp: batch_inv_def batch_push_def dest!: set_list_update_subset)
next
  case False
  then show ?thesis using assms by (simp add: batch_push_def)
qed

lemma batch_slot_length:
  assumes "batch_inv b" "rb_count b < length (rb_bufs b)"
  shows "length (rb_bufs b ! rb_count b) = rb_max_record_size b"
  using assms by (simp add: batch_inv_def)

lemma length_batch_records [simp]: "length (batch_records b) = rb_count b"
  by (simp add: batch_records_def)

lemma batch_records_reset [simp]: "batch_records (batch_reset b) = []"
  by (simp add: batch_records_def batch_reset_def)

lemma batch_records_truncate: "batch_records (batch_truncate n b) = take n (batch_records b)"
  by (simp add: batch_records_def batch_truncate_def take_map)

lemma batch_capacity_simps [simp]:
  "batch_capacity (batch_reset b) = batch_capacity b"
  "batch_capacity (snd (batch_push data meta b)) = batch_capacity b"
  by (simp_all add: batch_capacity_def batch_reset_def batch_push_def)

text \<open>The three outcomes of a push, decided by room and size alone.\<close>

lemma batch_push_cases:
  assumes "batch_inv b"
  shows "fst (batch_push data meta b) =
      (if batch_len b \<ge> batch_capacity b then PushFull
       else if length data > rb_max_record_size b then PushOversized else PushOk)"
    and "batch_records (snd (batch_push data meta b)) =
      batch_records b @ (if fst (batch_push data meta b) = PushOk then [(data, meta)] else [])"
proof -
  show f: "fst (batch_push data meta b) =
      (if batch_len b \<ge> batch_capacity b then PushFull
       else if length data > rb_max_record_size b then PushOversized else PushOk)"
    using batch_slot_length [OF assms]
    by (auto simp: batch_push_def batch_len_def batch_capacity_def)
  show "batch_records (snd (batch_push data meta b)) =
      batch_records b @ (if fst (batch_push data meta b) = PushOk then [(data, meta)] else [])"
  proof (cases "fst (batch_push data meta b) = PushOk")
    case True
    then have c: "rb_count b < length (rb_bufs b)" "length data \<le> length (rb_bufs b ! rb_count b)"
      by (auto simp: batch_push_def split: if_splits)
    have l: "length (rb_lens b) = length (rb_bufs b)" "length (rb_meta b) = length (rb_bufs b)"
      using assms by (simp_all add: batch_inv_def)
    have "take (length data) (write_at 0 data (rb_bufs b ! rb_count b)) = data"
      using read_write_same [of 0 data "rb_bufs b ! rb_count b"] c by (simp add: read_at_def)
    with c l True show ?thesis
      by (auto simp: batch_push_def batch_records_def)
  next
    case False
    then show ?thesis by (auto simp: batch_push_def batch_records_def split: if_splits)
  qed
qed

lemma batch_try_push_snd: "snd (batch_try_push data meta b) = snd (batch_push data meta b)"
  by (simp add: batch_try_push_def split_beta split: push_result.split)

lemma batch_try_push_ok_iff: "fst (batch_try_push data meta b) = Inr () \<longleftrightarrow> fst (batch_push data meta b) = PushOk"
  by (simp add: batch_try_push_def split_beta split: push_result.split)

lemma batch_push_keeps [simp]:
  "rb_max_record_size (snd (batch_push data meta b)) = rb_max_record_size b"
  by (simp add: batch_push_def)

section \<open>Properties\<close>

text \<open>
  Pushing a record has exactly three outcomes, decided by room and size: full leaves the
  batch alone, oversized only counts a parse error, and otherwise the batch holds the record
  after the ones it had, byte for byte. \<open>try_push\<close> reports them as a source and a decode error.
\<close>

theorem batch_push_outcome:
  assumes "batch_inv b"
  shows "fst (batch_push data meta b) =
      (if batch_len b = batch_capacity b then PushFull
       else if length data > rb_max_record_size b then PushOversized else PushOk)
    \<and> batch_records (snd (batch_push data meta b)) =
      batch_records b @ (if fst (batch_push data meta b) = PushOk then [(data, meta)] else [])
    \<and> batch_inv (snd (batch_push data meta b))
    \<and> (case fst (batch_push data meta b) of
        PushOk \<Rightarrow> fst (batch_try_push data meta b) = Inr ()
      | PushFull \<Rightarrow> snd (batch_push data meta b) = b
          \<and> (\<exists>e. fst (batch_try_push data meta b) = Inl e \<and> err_kind e = Source)
      | PushOversized \<Rightarrow> rb_parse_errors (snd (batch_push data meta b)) = rb_parse_errors b + 1
          \<and> (\<exists>e. fst (batch_try_push data meta b) = Inl e \<and> err_kind e = Decode))"
proof -
  have le: "batch_len b \<le> batch_capacity b"
    using assms by (simp add: batch_inv_def batch_len_def batch_capacity_def)
  note c = batch_push_cases [OF assms, of data meta]
  have t: "fst (batch_try_push data meta b) =
      (case fst (batch_push data meta b) of PushOk \<Rightarrow> Inr ()
       | PushFull \<Rightarrow> Inl (error_new Source ''record batch is full'')
       | PushOversized \<Rightarrow> Inl (error_new Decode (''record length '' @ nat_dec (length data)
             @ '' exceeds max_record_size '' @ nat_dec (rb_max_record_size b))))"
    using batch_push_keeps [of data meta b]
    by (auto simp: batch_try_push_def split_beta split: push_result.split)
  have st: "fst (batch_push data meta b) = PushFull \<Longrightarrow> snd (batch_push data meta b) = b"
    "fst (batch_push data meta b) = PushOversized \<Longrightarrow>
      rb_parse_errors (snd (batch_push data meta b)) = rb_parse_errors b + 1"
    by (auto simp: batch_push_def split: if_splits)
  show ?thesis
    using c le t st batch_inv_push [OF assms] by (auto split: push_result.split)
qed

definition example_batch :: record_batch where
  "example_batch = \<lparr>rb_bufs = [[0, 0], [0, 0]], rb_lens = [0, 0],
     rb_meta = [record_meta_default, record_meta_default], rb_count = 0, rb_max_record_size = 2,
     rb_records_read = 0, rb_parse_errors = 0\<rparr>"

lemma batch_push_outcome_witness:
  "batch_records (snd (batch_push [7] record_meta_default example_batch)) = [([7], record_meta_default)]
    \<and> fst (batch_push [1, 2, 3] record_meta_default example_batch) = PushOversized"
proof -
  have i: "batch_inv example_batch"
    by (rule batch_inv_new [of 2 2]) (simp add: example_batch_def record_batch_new_def numeral_2_eq_2)
  show ?thesis
    using batch_push_outcome [OF i, of "[7]" record_meta_default]
      batch_push_outcome [OF i, of "[1, 2, 3]" record_meta_default]
    by (simp add: example_batch_def batch_len_def batch_capacity_def batch_records_def)
qed


end
