(* ===== verification/Float64.thy ===== *)
theory Float64
  imports Prelude Complex_Main
begin

text \<open>
  The IEEE 754 binary64 arithmetic of Rust's \<open>f64\<close>, as far as the sources use it: finite values
  are exact rationals, an operation computes exactly and rounds to nearest, ties to even, with
  53 significant bits and the smallest exponent -1074; too large results are infinite. The sign
  of zero and the payload of a NaN are not kept (nothing in the sources observes them).
  \<open>f32\<close> values occur only as inputs that are widened to \<open>f64\<close>, which is exact.
\<close>

datatype f64 = Fin rat | PosInf | NegInf | NaN

definition pow2 :: "int \<Rightarrow> rat" where
  "pow2 s = (if 0 \<le> s then 2 ^ nat s else 1 / 2 ^ nat (- s))"

text \<open>The number of binary digits, and the exponent of the leading one of a positive rational.\<close>

function bit_length :: "int \<Rightarrow> int" where
  "bit_length n = (if n \<le> 0 then 0 else bit_length (n div 2) + 1)"
  by pat_completeness auto
termination
  by (relation "measure nat") auto

declare bit_length.simps [simp del]

definition exponent_of :: "rat \<Rightarrow> int" where
  "exponent_of q =
     (let (n, d) = quotient_of q;
          e = bit_length n - bit_length d
      in if pow2 e \<le> q then e else e - 1)"

definition round_half_even :: "rat \<Rightarrow> int" where
  "round_half_even q =
     (let f = \<lfloor>q\<rfloor>; r = q - of_int f in
      if r < 1 / 2 then f else if r > 1 / 2 then f + 1 else if even f then f else f + 1)"

definition max_finite :: rat where
  "max_finite = (2 ^ 53 - 1) * 2 ^ 971"

definition round_pos :: "rat \<Rightarrow> rat" where
  "round_pos q =
     (let s = max (exponent_of q - 52) (- 1074)
      in of_int (round_half_even (q / pow2 s)) * pow2 s)"

definition round64 :: "rat \<Rightarrow> f64" where
  "round64 q =
     (if q = 0 then Fin 0
      else let r = round_pos \<bar>q\<bar> in
        if r > max_finite then (if q > 0 then PosInf else NegInf)
        else Fin (if q > 0 then r else - r))"

section \<open>Operations\<close>

fun f64_neg :: "f64 \<Rightarrow> f64" where
  "f64_neg (Fin a) = Fin (- a)"
| "f64_neg PosInf = NegInf"
| "f64_neg NegInf = PosInf"
| "f64_neg NaN = NaN"

fun f64_add :: "f64 \<Rightarrow> f64 \<Rightarrow> f64" where
  "f64_add (Fin a) (Fin b) = round64 (a + b)"
| "f64_add NaN b = NaN"
| "f64_add a NaN = NaN"
| "f64_add PosInf NegInf = NaN"
| "f64_add NegInf PosInf = NaN"
| "f64_add PosInf b = PosInf"
| "f64_add NegInf b = NegInf"
| "f64_add a PosInf = PosInf"
| "f64_add a NegInf = NegInf"

definition f64_sub :: "f64 \<Rightarrow> f64 \<Rightarrow> f64" where
  "f64_sub a b = f64_add a (f64_neg b)"

definition f64_inf :: "bool \<Rightarrow> f64" where
  "f64_inf neg = (if neg then NegInf else PosInf)"

fun f64_mul :: "f64 \<Rightarrow> f64 \<Rightarrow> f64" where
  "f64_mul (Fin a) (Fin b) = round64 (a * b)"
| "f64_mul NaN b = NaN"
| "f64_mul a NaN = NaN"
| "f64_mul (Fin a) b = (if a = 0 then NaN else f64_inf ((a < 0) \<noteq> (b = NegInf)))"
| "f64_mul a (Fin b) = (if b = 0 then NaN else f64_inf ((b < 0) \<noteq> (a = NegInf)))"
| "f64_mul a b = f64_inf (a \<noteq> b)"

text \<open>Division, for a finite positive divisor (the only use in the sources).\<close>

fun f64_div_pos :: "f64 \<Rightarrow> rat \<Rightarrow> f64" where
  "f64_div_pos (Fin a) b = round64 (a / b)"
| "f64_div_pos x b = x"

fun f64_less :: "f64 \<Rightarrow> f64 \<Rightarrow> bool" where
  "f64_less (Fin a) (Fin b) = (a < b)"
| "f64_less NegInf b = (b \<noteq> NegInf \<and> b \<noteq> NaN)"
| "f64_less (Fin a) b = (b = PosInf)"
| "f64_less a b = False"

fun f64_eq :: "f64 \<Rightarrow> f64 \<Rightarrow> bool" where
  "f64_eq (Fin a) (Fin b) = (a = b)"
| "f64_eq PosInf b = (b = PosInf)"
| "f64_eq NegInf b = (b = NegInf)"
| "f64_eq a b = False"

definition f64_le :: "f64 \<Rightarrow> f64 \<Rightarrow> bool" where
  "f64_le a b = (f64_less a b \<or> f64_eq a b)"

fun is_finite :: "f64 \<Rightarrow> bool" where
  "is_finite (Fin a) = True"
| "is_finite x = False"

fun f64_abs :: "f64 \<Rightarrow> f64" where
  "f64_abs (Fin a) = Fin \<bar>a\<bar>"
| "f64_abs NegInf = PosInf"
| "f64_abs x = x"

text \<open>\<open>n as f64\<close> of an unsigned integer, and the saturating cast \<open>x as u64\<close>.\<close>

definition f64_of_nat :: "nat \<Rightarrow> f64" where
  "f64_of_nat n = round64 (of_nat n)"

fun f64_to_u64 :: "f64 \<Rightarrow> nat" where
  "f64_to_u64 (Fin a) = (if a \<le> 0 then 0 else min (nat \<lfloor>a\<rfloor>) (2 ^ 64 - 1))"
| "f64_to_u64 PosInf = 2 ^ 64 - 1"
| "f64_to_u64 _ = 0"

text \<open>\<open>round\<close> (half away from zero), \<open>max\<close> (which drops a NaN) and \<open>clamp\<close> (which keeps it).\<close>

fun f64_round :: "f64 \<Rightarrow> f64" where
  "f64_round (Fin a) = Fin (of_int (if a \<ge> 0 then \<lfloor>a + 1 / 2\<rfloor> else - \<lfloor>1 / 2 - a\<rfloor>))"
| "f64_round x = x"

definition f64_max :: "f64 \<Rightarrow> f64 \<Rightarrow> f64" where
  "f64_max a b = (if a = NaN then b else if b = NaN then a else if f64_less a b then b else a)"

definition f64_clamp :: "f64 \<Rightarrow> f64 \<Rightarrow> f64 \<Rightarrow> f64" where
  "f64_clamp x lo hi = (if f64_less x lo then lo else if f64_less hi x then hi else x)"

definition f64_epsilon :: rat where "f64_epsilon = 1 / 2 ^ 52"

section \<open>Exact cases\<close>

lemma pow2_pos [simp]: "0 < pow2 s"
  by (simp add: pow2_def)

lemma pow2_nonzero [simp]: "pow2 s \<noteq> 0"
  using pow2_pos [of s] by linarith

lemma pow2_of_nat: "pow2 (int n) = 2 ^ n"
  by (simp add: pow2_def)

lemma pow2_minus: "pow2 (- s) = 1 / pow2 s"
  by (simp add: pow2_def)

lemma pow2_add: "pow2 (a + b) = pow2 a * pow2 b"
  by (auto simp add: pow2_def power_add [symmetric] nat_add_distrib [symmetric] divide_simps)

lemma pow2_mono: "a \<le> b \<Longrightarrow> pow2 a \<le> pow2 b"
proof -
  assume "a \<le> b"
  then have "pow2 b = pow2 a * pow2 (b - a)" by (simp add: pow2_add [symmetric])
  moreover have "1 \<le> pow2 (b - a)" using \<open>a \<le> b\<close> by (simp add: pow2_def)
  ultimately show ?thesis
    using mult_left_mono [of 1 "pow2 (b - a)" "pow2 a"] pow2_pos [of a] by simp
qed

lemma pow2_less_iff: "pow2 a < pow2 b \<Longrightarrow> a < b"
  using pow2_mono [of b a] by linarith

lemma bit_length_nonneg: "0 \<le> bit_length n"
  by (induction n rule: bit_length.induct) (simp add: bit_length.simps)

lemma bit_length_pos: "0 < n \<Longrightarrow> 0 < bit_length n"
  using bit_length_nonneg [of "n div 2"] by (simp add: bit_length.simps [of n])

lemma bit_length_int_bounds:
  "0 < n \<Longrightarrow> 2 ^ nat (bit_length n - 1) \<le> n \<and> n < 2 ^ nat (bit_length n)"
proof (induction n rule: bit_length.induct)
  case (1 n)
  show ?case
  proof (cases "n = 1")
    case True
    then show ?thesis by (simp add: bit_length.simps [of 1] bit_length.simps [of 0])
  next
    case False
    let ?k = "bit_length (n div 2)"
    from False 1 have h: "2 ^ nat (?k - 1) \<le> n div 2" "n div 2 < 2 ^ nat ?k" and pos: "0 < n div 2" by auto
    have b: "bit_length n = ?k + 1" using 1(2) by (simp add: bit_length.simps [of n])
    have k: "0 < ?k" using bit_length_pos [OF pos] .
    then have "nat ?k = Suc (nat (?k - 1))" "nat (?k + 1) = Suc (nat ?k)" by simp_all
    then have e: "(2 :: int) ^ nat ?k = 2 * 2 ^ nat (?k - 1)" "(2 :: int) ^ nat (?k + 1) = 2 * 2 ^ nat ?k"
      by simp_all
    have "2 * (n div 2) \<le> n" "n \<le> 2 * (n div 2) + 1" by presburger+
    then show ?thesis using h e b by simp
  qed
qed

lemma bit_length_bounds:
  assumes "0 < n"
  shows "pow2 (bit_length n - 1) \<le> of_int n" "of_int n < pow2 (bit_length n)"
proof -
  note b = bit_length_int_bounds [OF assms] and p = bit_length_pos [OF assms]
  have "(of_int (2 ^ nat (bit_length n - 1)) :: rat) \<le> of_int n"
    using b by (simp only: of_int_le_iff)
  then show "pow2 (bit_length n - 1) \<le> of_int n" using p by (simp add: pow2_def)
  have "(of_int n :: rat) < of_int (2 ^ nat (bit_length n))"
    using b by (simp only: of_int_less_iff)
  then show "of_int n < pow2 (bit_length n)" using p by (simp add: pow2_def)
qed

lemma exponent_of_upper:
  assumes "0 < q"
  shows "pow2 (exponent_of q) \<le> q"
proof -
  obtain n d where nd: "quotient_of q = (n, d)" by fastforce
  have q: "q = of_int n / of_int d" using nd by (rule quotient_of_div)
  have d: "0 < d" using nd by (rule quotient_of_denom_pos)
  have n: "0 < n" using assms d q by (simp add: zero_less_divide_iff)
  let ?bn = "bit_length n" and ?bd = "bit_length d"
  have "pow2 (?bn - 1) \<le> of_int n" "of_int d < pow2 ?bd"
    using bit_length_bounds [OF n] bit_length_bounds [OF d] by auto
  then have "pow2 (?bn - 1) / pow2 ?bd \<le> of_int n / of_int d"
    using d n by (intro frac_le) (auto intro: less_imp_le)
  moreover have "pow2 (?bn - 1) / pow2 ?bd = pow2 (?bn - ?bd - 1)"
    using pow2_add [of "?bn - ?bd - 1" ?bd] by simp
  ultimately have "pow2 (?bn - ?bd - 1) \<le> q" using q by simp
  then show ?thesis by (simp add: exponent_of_def nd Let_def)
qed

lemma round_half_even_int [simp]: "round_half_even (of_int m) = m"
  by (simp add: round_half_even_def)

text \<open>A value with at most 53 significant bits and no bit below the smallest one is exact.\<close>

lemma round_pos_exact:
  assumes "0 < q" "q = of_int m * pow2 t" "m < 2 ^ 53" "- 1074 \<le> t"
  shows "round_pos q = q"
proof -
  define s where "s = max (exponent_of q - 52) (- 1074)"
  have "(of_int m :: rat) < of_int (2 ^ 53)" using assms(3) by (simp only: of_int_less_iff)
  then have "of_int m * pow2 t < of_int (2 ^ 53) * pow2 t"
    using pow2_pos [of t] by (rule mult_strict_right_mono)
  moreover have "pow2 53 = of_int (2 ^ 53)" by (simp add: pow2_def)
  ultimately have "q < pow2 53 * pow2 t" unfolding assms(2) by (simp only:)
  then have "q < pow2 (53 + t)" by (simp only: pow2_add)
  then have "exponent_of q < 53 + t"
    using exponent_of_upper [OF assms(1)] pow2_less_iff by (metis le_less_trans)
  then have "s \<le> t" using assms(4) by (simp add: s_def)
  then have "pow2 t = pow2 (t - s) * pow2 s" by (simp add: pow2_add [symmetric])
  then have "q / pow2 s = of_int (m * 2 ^ nat (t - s))"
    using \<open>s \<le> t\<close> by (simp add: assms(2) pow2_def [of "t - s"])
  then have "round_pos q = of_int (m * 2 ^ nat (t - s)) * pow2 s"
    unfolding round_pos_def s_def [symmetric] Let_def by (simp only: round_half_even_int)
  also have "\<dots> = q" using \<open>s \<le> t\<close> by (simp add: assms(2) pow2_def [of "t - s"] pow2_add [symmetric]
      flip: \<open>pow2 t = pow2 (t - s) * pow2 s\<close>) (simp add: \<open>pow2 t = pow2 (t - s) * pow2 s\<close> pow2_def [of "t - s"])
  finally show ?thesis .
qed

lemma max_finite_large: "(2 :: rat) ^ 64 \<le> max_finite"
  by (simp add: max_finite_def)

lemma round64_exact:
  assumes "0 < q" "q = of_int m * pow2 t" "m < 2 ^ 53" "- 1074 \<le> t" "q \<le> max_finite"
  shows "round64 q = Fin q"
  using assms round_pos_exact [OF assms(1-4)] by (simp add: round64_def Let_def)

lemma round64_nat:
  assumes "n < 2 ^ 53"
  shows "round64 (of_nat n) = Fin (of_nat n)"
proof (cases "n = 0")
  case True
  then show ?thesis by (simp add: round64_def)
next
  case False
  have "(of_nat n :: rat) \<le> of_nat (2 ^ 53)" using assms by (simp only: of_nat_le_iff)
  also have "\<dots> \<le> max_finite" using max_finite_large by simp
  finally have m: "(of_nat n :: rat) \<le> max_finite" .
  show ?thesis
    by (rule round64_exact [of _ "int n" 0]) (use assms False m in \<open>simp_all add: pow2_def\<close>)
qed

end
