(* ===== verification/Replay.thy ===== *)
theory Replay
  imports Core Float64
begin

text \<open>
  The replay engine of \<open>crates/flyby-storage/src/replay.rs\<close>: the modes with their validation
  and the timing state machine. Instants and durations are nanoseconds; the monotonic clock's
  reading at the start of \<open>poll\<close> is an argument.
\<close>

datatype replay_mode =
    FullSpeed
  | OriginalTiming
  | TimeScaled f64
  | Burst nat nat
  | SingleStep

fun replay_mode_validate :: "replay_mode \<Rightarrow> unit result" where
  "replay_mode_validate (TimeScaled factor) =
     (if \<not> is_finite factor \<or> f64_le factor (Fin 0)
      then Inl (config_error ''TimeScaled factor must be finite and > 0'') else Inr ())"
| "replay_mode_validate (Burst n gap) =
     (if n = 0
      then Inl (config_error (''Burst count must be '' @ [CHR 0xE2, CHR 0x89, CHR 0xA5] @ '' 1''))
      else Inr ())"
| "replay_mode_validate _ = Inr ()"

record replay_engine =
  re_mode :: replay_mode
  re_start :: "nat option"
  re_first_ts :: "nat option"
  re_burst_count :: nat
  re_burst_resume :: "nat option"
  re_armed :: bool

definition replay_new_unchecked :: "replay_mode \<Rightarrow> replay_engine" where
  "replay_new_unchecked m =
     \<lparr>re_mode = m, re_start = None, re_first_ts = None, re_burst_count = 0,
      re_burst_resume = None, re_armed = True\<rparr>"

definition replay_new :: "replay_mode \<Rightarrow> replay_engine result" where
  "replay_new m =
     (case replay_mode_validate m of Inl e \<Rightarrow> Inl e | Inr _ \<Rightarrow> Inr (replay_new_unchecked m))"

definition replay_advance :: "replay_engine \<Rightarrow> replay_engine" where
  "replay_advance e = (case re_mode e of SingleStep \<Rightarrow> e\<lparr>re_armed := True\<rparr> | _ \<Rightarrow> e)"

definition get_or_insert :: "'a option \<Rightarrow> 'a \<Rightarrow> 'a" where
  "get_or_insert v x = (case v of Some y \<Rightarrow> y | None \<Rightarrow> x)"

text \<open>The scaled gap: \<open>None\<close> where the code gives up on the product and emits at once.\<close>

definition scaled_gap :: "f64 \<Rightarrow> nat \<Rightarrow> nat option" where
  "scaled_gap factor delta =
     (if f64_less (f64_abs (f64_sub factor (Fin 1))) (Fin f64_epsilon) then Some delta
      else
        (let scaled = f64_mul (f64_of_nat delta) factor in
         if \<not> is_finite scaled \<or> f64_less scaled (Fin 0) then None
         else if f64_le (f64_of_nat (2 ^ 64 - 1)) scaled then Some (2 ^ 64 - 1)
         else Some (f64_to_u64 scaled)))"

definition original_timing_ready :: "nat \<Rightarrow> nat \<Rightarrow> f64 \<Rightarrow> replay_engine \<Rightarrow> bool \<times> replay_engine" where
  "original_timing_ready now ts_ns factor e =
     (let start = get_or_insert (re_start e) now;
          first_ts = get_or_insert (re_first_ts e) ts_ns;
          e1 = e\<lparr>re_start := Some start, re_first_ts := Some first_ts\<rparr> in
      if ts_ns \<le> first_ts then (True, e1)
      else case scaled_gap factor (ts_ns - first_ts) of
          None \<Rightarrow> (True, e1)
        | Some scaled_ns \<Rightarrow> (now \<ge> start + scaled_ns, e1))"

definition burst_ready :: "nat \<Rightarrow> nat \<Rightarrow> nat \<Rightarrow> replay_engine \<Rightarrow> bool \<times> replay_engine" where
  "burst_ready now burst_count gap e =
     (let (blocked, e1) =
        (case re_burst_resume e of
           Some resume \<Rightarrow>
             if now < resume then (True, e)
             else (False, e\<lparr>re_burst_resume := None, re_burst_count := 0\<rparr>)
         | None \<Rightarrow> (False, e)) in
      if blocked then (False, e1)
      else
        (let e2 = e1\<lparr>re_burst_count := re_burst_count e1 + 1\<rparr> in
         (True, if re_burst_count e2 \<ge> burst_count
                then e2\<lparr>re_burst_resume := Some (now + gap), re_burst_count := 0\<rparr> else e2)))"

definition replay_poll :: "nat \<Rightarrow> nat \<Rightarrow> replay_engine \<Rightarrow> bool \<times> replay_engine" where
  "replay_poll now ts_ns e =
     (case re_mode e of
        FullSpeed \<Rightarrow> (True, e)
      | SingleStep \<Rightarrow> if \<not> re_armed e then (False, e) else (True, e\<lparr>re_armed := False\<rparr>)
      | OriginalTiming \<Rightarrow> original_timing_ready now ts_ns (Fin 1) e
      | TimeScaled factor \<Rightarrow> original_timing_ready now ts_ns factor e
      | Burst n gap \<Rightarrow> burst_ready now n gap e)"

section \<open>Runs of polls\<close>

text \<open>Polls at the given clock readings and timestamps, with the decisions in order.\<close>

fun replay_polls :: "(nat \<times> nat) list \<Rightarrow> replay_engine \<Rightarrow> bool list \<times> replay_engine" where
  "replay_polls [] e = ([], e)"
| "replay_polls ((now, ts) # ps) e =
     (let (b, e1) = replay_poll now ts e; (bs, e2) = replay_polls ps e1 in (b # bs, e2))"

lemma replay_poll_mode [simp]: "re_mode (snd (replay_poll now ts e)) = re_mode e"
  by (auto simp: replay_poll_def original_timing_ready_def burst_ready_def Let_def
      split: replay_mode.splits option.splits)

lemma scaled_gap_one: "scaled_gap (Fin 1) d = Some d"
proof -
  have "f64_sub (Fin 1) (Fin 1) = Fin 0" by (simp add: f64_sub_def round64_def)
  then show ?thesis by (simp add: scaled_gap_def f64_epsilon_def)
qed

text \<open>Once the engine has a start and a first timestamp, they stay.\<close>

definition timing_started :: "nat \<Rightarrow> nat \<Rightarrow> replay_engine \<Rightarrow> bool" where
  "timing_started t0 ts0 e \<longleftrightarrow> re_start e = Some t0 \<and> re_first_ts e = Some ts0"

lemma original_timing_state:
  "snd (original_timing_ready now ts f e) =
     e\<lparr>re_start := Some (get_or_insert (re_start e) now), re_first_ts := Some (get_or_insert (re_first_ts e) ts)\<rparr>"
  by (simp add: original_timing_ready_def Let_def split: option.split)

lemma original_timing_decision:
  assumes "timing_started t0 ts0 e" "re_mode e = OriginalTiming"
  shows "replay_poll now ts e = (ts \<le> ts0 \<or> now \<ge> t0 + (ts - ts0), e)"
proof -
  have "e\<lparr>re_start := Some t0, re_first_ts := Some ts0\<rparr> = e"
    using assms(1) by (cases e) (simp add: timing_started_def)
  then show ?thesis
    using assms by (auto simp: replay_poll_def original_timing_ready_def timing_started_def get_or_insert_def
        scaled_gap_one Let_def)
qed

section \<open>Bursts\<close>

text \<open>
  In a burst of \<open>n\<close> with a positive gap: of the polls after one that opened a pause, those
  before its end are refused, and the engine never lets more than \<open>n\<close> through between pauses.
\<close>

definition burst_inv :: "nat \<Rightarrow> replay_engine \<Rightarrow> bool" where
  "burst_inv n e \<longleftrightarrow> re_burst_count e < n \<and> (re_burst_resume e \<noteq> None \<longrightarrow> re_burst_count e = 0)"

lemma burst_inv_new: "0 < n \<Longrightarrow> burst_inv n (replay_new_unchecked m)"
  by (simp add: burst_inv_def replay_new_unchecked_def)

lemma burst_ready_inv:
  assumes "burst_inv n e"
  shows "burst_inv n (snd (burst_ready now n gap e))"
  using assms by (auto simp: burst_inv_def burst_ready_def Let_def split: option.splits)

lemma burst_ready_refuses_iff:
  "fst (burst_ready now n gap e) \<longleftrightarrow> (\<forall>r. re_burst_resume e = Some r \<longrightarrow> r \<le> now)"
  by (auto simp: burst_ready_def Let_def split: option.splits)

text \<open>How many emissions are left before the next pause.\<close>

definition burst_left :: "nat \<Rightarrow> replay_engine \<Rightarrow> nat" where
  "burst_left n e = n - re_burst_count e"

lemma burst_ready_counts:
  assumes "burst_inv n e" "re_burst_resume e = None"
  shows "fst (burst_ready now n gap e)"
    and "burst_left n e = 1 \<Longrightarrow> re_burst_resume (snd (burst_ready now n gap e)) = Some (now + gap)"
    and "burst_left n e > 1 \<Longrightarrow> re_burst_resume (snd (burst_ready now n gap e)) = None
      \<and> burst_left n (snd (burst_ready now n gap e)) = burst_left n e - 1"
  using assms by (auto simp: burst_inv_def burst_ready_def burst_left_def Let_def)

text \<open>From the start of a burst, polls at any readings: \<open>n\<close> are accepted, then the pause begins.\<close>

lemma burst_polls_left:
  assumes "burst_inv n e" "re_burst_resume e = None" "re_mode e = Burst n gap" "length ps \<le> burst_left n e"
  shows "fst (replay_polls ps e) = replicate (length ps) True
    \<and> (length ps = burst_left n e \<longrightarrow> ps \<noteq> [] \<longrightarrow>
        re_burst_resume (snd (replay_polls ps e)) = Some (fst (last ps) + gap))"
  using assms
proof (induction ps arbitrary: e)
  case Nil
  then show ?case by simp
next
  case (Cons p ps)
  obtain now ts where p: "p = (now, ts)" by fastforce
  let ?e1 = "snd (burst_ready now n gap e)"
  note r = burst_ready_counts [OF Cons.prems(1,2), of now gap]
  have poll: "replay_poll now ts e = burst_ready now n gap e"
    using Cons.prems(3) by (simp add: replay_poll_def)
  have inv1: "burst_inv n ?e1" using burst_ready_inv [OF Cons.prems(1)] .
  have mode1: "re_mode ?e1 = Burst n gap"
    using replay_poll_mode [of now ts e] Cons.prems(3) by (simp add: poll)
  show ?case
  proof (cases "burst_left n e = 1")
    case True
    then have "ps = []" using Cons.prems(4) by simp
    then show ?thesis using r(1,2) True p poll by (simp add: split_beta)
  next
    case False
    moreover have "burst_left n e \<noteq> 0" using Cons.prems(1) by (simp add: burst_inv_def burst_left_def)
    ultimately have "burst_left n e > 1" by linarith
    with r(3) have n1: "re_burst_resume ?e1 = None" "burst_left n ?e1 = burst_left n e - 1" by auto
    have "length ps \<le> burst_left n ?e1" using Cons.prems(4) n1(2) by simp
    from Cons.IH [OF inv1 n1(1) mode1 this] show ?thesis
      using r(1) p poll n1 \<open>burst_left n e > 1\<close> by (auto simp: split_beta)
  qed
qed

section \<open>Properties\<close>

text \<open>Polls of an engine that has started keep it as it is.\<close>

lemma original_timing_polls:
  assumes "timing_started t0 ts0 e" "re_mode e = OriginalTiming"
  shows "fst (replay_polls ps e) = map (\<lambda>(now, ts). ts \<le> ts0 \<or> t0 + (ts - ts0) \<le> now) ps"
  by (induction ps) (auto simp: original_timing_decision [OF assms] split_beta)

text \<open>
  Original timing: the first record is emitted at once, and every later poll is granted
  exactly when at least the recorded gap to the first record has passed since the first poll
  (records stamped no later than the first are granted at once).
\<close>

theorem replay_original_timing:
  "fst (replay_polls ((t0, ts0) # ps) (replay_new_unchecked OriginalTiming)) =
     True # map (\<lambda>(now, ts). ts \<le> ts0 \<or> t0 + (ts - ts0) \<le> now) ps"
proof -
  let ?e = "(replay_new_unchecked OriginalTiming)\<lparr>re_start := Some t0, re_first_ts := Some ts0\<rparr>"
  have "replay_poll t0 ts0 (replay_new_unchecked OriginalTiming) = (True, ?e)"
    by (simp add: replay_poll_def replay_new_unchecked_def original_timing_ready_def get_or_insert_def)
  moreover have "fst (replay_polls ps ?e) = map (\<lambda>(now, ts). ts \<le> ts0 \<or> t0 + (ts - ts0) \<le> now) ps"
    by (rule original_timing_polls) (simp_all add: timing_started_def replay_new_unchecked_def)
  ultimately show ?thesis by (simp add: split_beta)
qed

text \<open>
  Burst mode: from the start exactly \<open>n\<close> polls are granted, whenever they come; then a poll
  is granted again exactly when the gap has passed since the last of them.
\<close>

theorem replay_burst:
  assumes "0 < n" "length ps = n"
  shows "fst (replay_polls ps (replay_new_unchecked (Burst n gap))) = replicate n True
    \<and> fst (replay_poll now ts (snd (replay_polls ps (replay_new_unchecked (Burst n gap)))))
      = (fst (last ps) + gap \<le> now)"
proof -
  let ?e = "replay_new_unchecked (Burst n gap)"
  have e: "burst_inv n ?e" "re_burst_resume ?e = None" "re_mode ?e = Burst n gap" "length ps \<le> burst_left n ?e"
    "burst_left n ?e = n"
    using assms burst_inv_new [of n] by (simp_all add: burst_left_def replay_new_unchecked_def)
  have mode: "re_mode (snd (replay_polls qs x)) = re_mode x" for qs x
    by (induction qs arbitrary: x) (auto simp: split_beta)
  have "ps \<noteq> []" using assms by auto
  then show ?thesis
    using burst_polls_left [OF e(1-4)] e assms mode [of ps ?e]
    by (auto simp: replay_poll_def burst_ready_refuses_iff)
qed

lemma replay_burst_witness:
  "fst (replay_polls [(10, 0), (20, 0)] (replay_new_unchecked (Burst 2 5))) = [True, True]
   \<and> \<not> fst (replay_poll 24 0 (snd (replay_polls [(10, 0), (20, 0)] (replay_new_unchecked (Burst 2 5)))))
   \<and> fst (replay_poll 25 0 (snd (replay_polls [(10, 0), (20, 0)] (replay_new_unchecked (Burst 2 5)))))"
  using replay_burst [of 2 "[(10, 0), (20, 0)]" 5 24 0] replay_burst [of 2 "[(10, 0), (20, 0)]" 5 25 0]
  by (simp add: numeral_2_eq_2)

lemma single_step_polls:
  assumes "re_mode e = SingleStep"
  shows "fst (replay_polls ps e) = (if ps = [] then [] else re_armed e # replicate (length ps - 1) False)
    \<and> snd (replay_polls ps e) = (if ps = [] then e else e\<lparr>re_armed := False\<rparr>)"
  using assms
proof (induction ps arbitrary: e)
  case Nil
  then show ?case by simp
next
  case (Cons p ps)
  obtain now ts where p: "p = (now, ts)" by fastforce
  have "replay_poll now ts e = (re_armed e, e\<lparr>re_armed := False\<rparr>)"
    using Cons.prems by (cases e) (simp add: replay_poll_def)
  then show ?case
    using Cons.IH [of "e\<lparr>re_armed := False\<rparr>"] Cons.prems p
    by (cases ps) (simp_all add: split_beta)
qed

text \<open>
  Single step: of any run of polls only the first is granted, and \<open>advance\<close> arms exactly one
  more, however often it is called.
\<close>

theorem replay_single_step:
  "fst (replay_polls (p # ps) (replay_new_unchecked SingleStep)) = True # replicate (length ps) False
   \<and> fst (replay_polls (q # qs) ((replay_advance ^^ Suc k) (snd (replay_polls (p # ps) (replay_new_unchecked SingleStep)))))
      = True # replicate (length qs) False"
proof -
  let ?e = "replay_new_unchecked SingleStep"
  have m: "re_mode ?e = SingleStep" by (simp add: replay_new_unchecked_def)
  have adv: "(replay_advance ^^ Suc k) (e\<lparr>re_armed := False\<rparr>) = e\<lparr>re_armed := True\<rparr>"
    if "re_mode e = SingleStep" for e k
    using that by (induction k) (simp_all add: replay_advance_def)
  show ?thesis
    using single_step_polls [OF m, of "p # ps"]
      single_step_polls [of "?e\<lparr>re_armed := True\<rparr>" "q # qs"] m adv [OF m]
    by (simp add: replay_new_unchecked_def del: funpow.simps)
qed

end
