(* ===== verification/Storage_Config.thy ===== *)
theory Storage_Config
  imports Record_Batch Replay
begin

text \<open>
  Configuration of the storage backends (\<open>crates/flyby-storage/src/config.rs\<close>) and the
  storage metric keys (\<open>metrics.rs\<close>). A path is its text; a duration is nanoseconds.
\<close>

datatype eof_policy = Stop | Loop | Follow nat

record file_config =
  fc_path :: string
  fc_batch_size :: nat
  fc_max_record_size :: nat
  fc_replay :: replay_mode
  fc_eof_policy :: eof_policy

definition file_config_default :: file_config where
  "file_config_default =
     \<lparr>fc_path = ''input.bin'', fc_batch_size = 256, fc_max_record_size = 4096,
      fc_replay = FullSpeed, fc_eof_policy = Stop\<rparr>"

text \<open>\<open>new_batch\<close> raises both sizes to at least one, so the batch constructor cannot panic.\<close>

definition file_config_new_batch :: "file_config \<Rightarrow> record_batch option" where
  "file_config_new_batch c = record_batch_new (max (fc_batch_size c) 1) (max (fc_max_record_size c) 1)"

definition file_config_validate :: "file_config \<Rightarrow> unit result" where
  "file_config_validate c =
     (if fc_batch_size c = 0 then Inl (config_error ''batch_size must be > 0'')
      else if fc_max_record_size c = 0 then Inl (config_error ''max_record_size must be > 0'')
      else if fc_path c = [] then Inl (config_error ''path must not be empty'')
      else Inr ())"

datatype storage_metric_key =
    BytesRead | RecordsRead | ParseErrors | EofReached | LoopCount
  | ReplayLagNs | ReadLatencyNs | IoUringSqFull | IoUringCqOverflow

fun storage_metric_name :: "storage_metric_key \<Rightarrow> string" where
  "storage_metric_name BytesRead = ''storage.bytes_read''"
| "storage_metric_name RecordsRead = ''storage.records_read''"
| "storage_metric_name ParseErrors = ''storage.parse_errors''"
| "storage_metric_name EofReached = ''storage.eof_reached''"
| "storage_metric_name LoopCount = ''storage.loop_count''"
| "storage_metric_name ReplayLagNs = ''storage.replay_lag_ns''"
| "storage_metric_name ReadLatencyNs = ''storage.read_latency_ns''"
| "storage_metric_name IoUringSqFull = ''storage.io_uring.sq_full''"
| "storage_metric_name IoUringCqOverflow = ''storage.io_uring.cq_overflow''"

section \<open>The io_uring and SPDK backends\<close>

text \<open>Both are stubs in the sources: every operation reports that it is not implemented.\<close>

record io_uring_config =
  iu_queue_depth :: u32
  iu_registered_buffers :: bool
  iu_o_direct :: bool
  iu_inflight :: u32

definition io_uring_config_default :: io_uring_config where
  "io_uring_config_default =
     \<lparr>iu_queue_depth = 256, iu_registered_buffers = False, iu_o_direct = False, iu_inflight = 4\<rparr>"

record spdk_config =
  sp_pci_addr :: string
  sp_namespace_id :: u32
  sp_queue_pairs :: u32
  sp_hugepage_mb :: nat

definition spdk_config_default :: spdk_config where
  "spdk_config_default =
     \<lparr>sp_pci_addr = ''0000:00:1f.2'', sp_namespace_id = 1, sp_queue_pairs = 1, sp_hugepage_mb = 1024\<rparr>"

section \<open>The io_uring and SPDK stubs\<close>

definition io_uring_init :: "file_config \<Rightarrow> io_uring_config \<Rightarrow> unit result" where
  "io_uring_init fc c = Inl (error_new NotImplemented
     (''io_uring backend: feature '' @ [CHR 0x27] @ ''io_uring'' @ [CHR 0x27] @ '' is enabled but the backend is not yet ''
        @ ''implemented; use FileSource for now''))"

definition io_uring_poll :: "file_config \<Rightarrow> io_uring_config \<Rightarrow> record_batch \<Rightarrow> nat result \<times> record_batch" where
  "io_uring_poll fc c batch = (Inl (error_new NotImplemented ''io_uring backend: not yet implemented''), batch)"

definition spdk_init :: "spdk_config \<Rightarrow> unit result" where
  "spdk_init c = Inl (error_new NotImplemented
     ''SPDK backend: not yet implemented (deferred after io_uring; see ADR-0006)'')"

definition spdk_poll :: "spdk_config \<Rightarrow> record_batch \<Rightarrow> nat result \<times> record_batch" where
  "spdk_poll c batch = (Inl (error_new NotImplemented ''SPDK backend: not yet implemented''), batch)"

section \<open>Batches\<close>

lemma new_batch_some:
  "\<exists>b. file_config_new_batch c = Some b \<and> batch_inv b \<and> batch_records b = []
     \<and> batch_capacity b = max (fc_batch_size c) 1 \<and> rb_max_record_size b = max (fc_max_record_size c) 1"
  by (simp add: file_config_new_batch_def record_batch_new_def batch_inv_def batch_records_def batch_capacity_def)

end
