(* ===== verification/Framing.thy ===== *)
theory Framing
  imports Core
begin

text \<open>
  The framing strategies of \<open>crates/flyby-storage/src/framing.rs\<close>. A framer is a function
  from its state and a buffer to the length of the next record, \<open>None\<close> when more data is
  needed, or an error (\<open>Frame::next_record_len\<close>, which takes \<open>&mut self\<close>). The built-in framers
  leave their state alone; a custom closure may not.

  The locale \<open>frame_contract\<close> states what the trait promises and what a reader that grows its
  buffer needs besides: a decision once made stays when more bytes arrive. The three built-in
  framers provide it.
\<close>

type_synonym 'f framer = "'f \<Rightarrow> bytes \<Rightarrow> nat option result \<times> 'f"

datatype prefix_width = U8 | U16Be | U32Be

datatype fixed_length = FixedLength (record_len: nat)
datatype length_prefixed = LengthPrefixed (width: prefix_width) (max_payload: nat)
datatype delimiter = Delimiter (delim_byte: u8) (max_len: nat)

text \<open>The constructors with their assertions: \<open>None\<close> is a panic.\<close>

definition fixed_length_new :: "nat \<Rightarrow> fixed_length option" where
  "fixed_length_new n = (if n > 0 then Some (FixedLength n) else None)"

definition delimiter_new :: "u8 \<Rightarrow> nat \<Rightarrow> delimiter option" where
  "delimiter_new b n = (if n > 0 then Some (Delimiter b n) else None)"

definition next_record_len_fixed :: "fixed_length framer" where
  "next_record_len_fixed f buf =
     ((if length buf \<ge> record_len f then Inr (Some (record_len f)) else Inr None), f)"

fun byte_count :: "prefix_width \<Rightarrow> nat" where
  "byte_count U8 = 1"
| "byte_count U16Be = 2"
| "byte_count U32Be = 4"

fun prefix_read :: "prefix_width \<Rightarrow> bytes \<Rightarrow> u64" where
  "prefix_read U8 buf = ucast (buf ! 0)"
| "prefix_read U16Be buf = ucast (of_be_bytes (take 2 buf) :: u16)"
| "prefix_read U32Be buf = ucast (of_be_bytes (take 4 buf) :: u32)"

definition next_record_len_prefixed :: "length_prefixed framer" where
  "next_record_len_prefixed f buf =
     ((let header = byte_count (width f) in
       if length buf < header then Inr None
       else let payload_len = unat (prefix_read (width f) (take header buf)) in
         if payload_len > max_payload f
         then Inl (error_new Decode (''framing: payload length '' @ nat_dec payload_len
                     @ '' exceeds max '' @ nat_dec (max_payload f)))
         else let total = header + payload_len in
           if length buf \<ge> total then Inr (Some total) else Inr None), f)"

text \<open>\<open>iter().position\<close>: the index of the first element with the property.\<close>

fun position :: "('a \<Rightarrow> bool) \<Rightarrow> 'a list \<Rightarrow> nat option" where
  "position P [] = None"
| "position P (x # xs) = (if P x then Some 0 else map_option Suc (position P xs))"

definition next_record_len_delim :: "delimiter framer" where
  "next_record_len_delim f buf =
     ((let scan_len = min (length buf) (max_len f) in
       case position (\<lambda>b. b = delim_byte f) (take scan_len buf) of
         Some pos \<Rightarrow> Inr (Some (pos + 1))
       | None \<Rightarrow>
           if length buf \<ge> max_len f
           then Inl (error_new Decode (''framing: no delimiter found within ''
                       @ nat_dec (max_len f) @ '' bytes''))
           else Inr None), f)"

text \<open>\<open>Custom\<close> calls the closure, whose captured state is the framer's state.\<close>

definition next_record_len_custom :: "'f framer \<Rightarrow> 'f framer" where
  "next_record_len_custom closure f buf = closure f buf"

section \<open>The contract\<close>

locale frame_contract =
  fixes next_len :: "'f framer" and ok :: "'f \<Rightarrow> bool"
  assumes pure: "snd (next_len f buf) = f"
    and positive: "ok f \<Longrightarrow> fst (next_len f buf) = Inr (Some n) \<Longrightarrow> 0 < n"
    and within: "ok f \<Longrightarrow> fst (next_len f buf) = Inr (Some n) \<Longrightarrow> n \<le> length buf"
    and stable_some: "ok f \<Longrightarrow> fst (next_len f buf) = Inr (Some n) \<Longrightarrow>
          fst (next_len f (buf @ rest)) = Inr (Some n)"
    and stable_error: "ok f \<Longrightarrow> fst (next_len f buf) = Inl e \<Longrightarrow> fst (next_len f (buf @ rest)) = Inl e"
    and empty_needs_more: "ok f \<Longrightarrow> fst (next_len f []) = Inr None"
begin

text \<open>Deciding on a prefix agrees with deciding on everything that follows.\<close>

lemma prefix_agrees:
  assumes "ok f" "fst (next_len f buf) \<noteq> Inr None"
  shows "fst (next_len f (buf @ rest)) = fst (next_len f buf)"
proof (cases "fst (next_len f buf)")
  case (Inl e)
  then show ?thesis using stable_error [OF assms(1)] by simp
next
  case (Inr r)
  with assms(2) obtain n where "r = Some n" by (cases r) auto
  with Inr show ?thesis using stable_some [OF assms(1)] by simp
qed

text \<open>A record is cut out of the front of the buffer: its length depends on its bytes alone.\<close>

lemma longer_prefix_same:
  assumes "ok f" "fst (next_len f buf) = Inr (Some n)" "fst (next_len f (take m buf)) = Inr (Some n')"
  shows "n' = n"
  using stable_some [OF assms(1,3), of "drop m buf"] assms(2) by simp

end

lemma prefix_read_append:
  "byte_count w \<le> length buf \<Longrightarrow> prefix_read w (take (byte_count w) (buf @ rest)) = prefix_read w (take (byte_count w) buf)"
  by (cases w) simp_all

lemma position_Some_bounds: "position P xs = Some i \<Longrightarrow> i < length xs \<and> P (xs ! i) \<and> (\<forall>j < i. \<not> P (xs ! j))"
proof (induction xs arbitrary: i)
  case Nil
  then show ?case by simp
next
  case (Cons x xs)
  then show ?case by (auto simp: nth_Cons split: if_splits nat.splits)
qed

lemma position_append: "position P xs = Some i \<Longrightarrow> position P (xs @ ys) = Some i"
  by (induction xs arbitrary: i) (auto split: if_splits)

lemma position_None_iff: "position P xs = None \<longleftrightarrow> (\<forall>x \<in> set xs. \<not> P x)"
  by (induction xs) auto

interpretation fixed: frame_contract next_record_len_fixed "\<lambda>f. 0 < record_len f"
  by unfold_locales (auto simp: next_record_len_fixed_def split: if_splits)

lemma byte_count_pos [simp]: "0 < byte_count w"
  by (cases w) simp_all

interpretation prefixed: frame_contract next_record_len_prefixed "\<lambda>f. True"
proof unfold_locales
  fix f buf n rest e
  show "snd (next_record_len_prefixed f buf) = f"
    by (simp add: next_record_len_prefixed_def)
  show "fst (next_record_len_prefixed f []) = Inr None"
    by (simp add: next_record_len_prefixed_def Let_def)
  show "fst (next_record_len_prefixed f (buf @ rest)) = Inl e"
    if "fst (next_record_len_prefixed f buf) = Inl e"
    using that prefix_read_append [of "width f" buf rest]
    by (auto simp: next_record_len_prefixed_def Let_def split: if_splits)
  assume s: "fst (next_record_len_prefixed f buf) = Inr (Some n)"
  then show "0 < n" "n \<le> length buf"
    by (auto simp: next_record_len_prefixed_def Let_def split: if_splits)
  show "fst (next_record_len_prefixed f (buf @ rest)) = Inr (Some n)"
    using s prefix_read_append [of "width f" buf rest]
    by (auto simp: next_record_len_prefixed_def Let_def split: if_splits)
qed

lemma delim_scan_append:
  "length buf \<le> n \<Longrightarrow> take (min (length (buf @ rest)) n) (buf @ rest)
     = take (min (length buf) n) buf @ take (n - length buf) rest"
  by (simp add: min_def)

interpretation delim: frame_contract next_record_len_delim "\<lambda>f. 0 < max_len f"
proof unfold_locales
  fix f buf n rest e
  assume pos: "0 < max_len f"
  show "fst (next_record_len_delim f []) = Inr None"
    using pos by (simp add: next_record_len_delim_def Let_def)
  show "fst (next_record_len_delim f (buf @ rest)) = Inl e"
    if "fst (next_record_len_delim f buf) = Inl e"
    using that by (auto simp: next_record_len_delim_def Let_def split: if_splits option.splits)
  assume s: "fst (next_record_len_delim f buf) = Inr (Some n)"
  then obtain p where p: "position (\<lambda>b. b = delim_byte f) (take (min (length buf) (max_len f)) buf) = Some p"
    "n = Suc p"
    by (auto simp: next_record_len_delim_def Let_def split: if_splits option.splits)
  from position_Some_bounds [OF p(1)] p(2) show "0 < n" "n \<le> length buf" by auto
  have "position (\<lambda>b. b = delim_byte f) (take (min (length (buf @ rest)) (max_len f)) (buf @ rest)) = Some p"
  proof (cases "length buf \<le> max_len f")
    case True
    from position_append [OF p(1)] show ?thesis by (simp only: delim_scan_append [OF True])
  next
    case False
    then show ?thesis using p(1) by simp
  qed
  then show "fst (next_record_len_delim f (buf @ rest)) = Inr (Some n)"
    by (simp add: next_record_len_delim_def Let_def p(2))
next
  fix f buf
  show "snd (next_record_len_delim f buf) = f" by (simp add: next_record_len_delim_def)
qed

end
