(* ===== verification/File_Source.thy ===== *)
theory File_Source
  imports Storage_Config Framing Stage_Lifecycle
begin

text \<open>
  The sequential file reader of \<open>crates/flyby-storage/src/file.rs\<close>: \<open>FileSource\<close> with its
  read buffer, the end-of-file policies and \<open>poll_batch\<close>. The framer is a parameter.

  The operating system's file is a record: the bytes, the read position, and what the
  environment decides for each read: how short the \<open>k\<close>-th read falls (a read returns at least
  one byte before the end) and whether it fails.
\<close>

record os_file =
  fl_data :: bytes
  fl_pos :: nat
  fl_reads :: nat
  fl_short :: "nat \<Rightarrow> nat"
  fl_fail :: "nat \<Rightarrow> (io_kind \<times> string) option"
  fl_seek_fail :: "(io_kind \<times> string) option"

definition file_read :: "nat \<Rightarrow> os_file \<Rightarrow> bytes result \<times> os_file" where
  "file_read want f =
     (case fl_fail f (fl_reads f) of
        Some (k, m) \<Rightarrow> (Inl (error_from_io k m), f\<lparr>fl_reads := fl_reads f + 1\<rparr>)
      | None \<Rightarrow>
          (let got = take (min want (Suc (fl_short f (fl_reads f)))) (drop (fl_pos f) (fl_data f))
           in (Inr got, f\<lparr>fl_pos := fl_pos f + length got, fl_reads := fl_reads f + 1\<rparr>)))"

definition file_seek_start :: "os_file \<Rightarrow> unit result \<times> os_file" where
  "file_seek_start f =
     (case fl_seek_fail f of
        Some (k, m) \<Rightarrow> (Inl (error_from_io k m), f)
      | None \<Rightarrow> (Inr (), f\<lparr>fl_pos := 0\<rparr>))"

definition READ_CHUNK :: nat where "READ_CHUNK = 64 * 1024"

record 'f file_source =
  fs_config :: file_config
  fs_framer :: 'f
  fs_file :: "os_file option"
  fs_buf :: bytes
  fs_off :: nat
  fs_index :: nat
  fs_bytes_read :: nat
  fs_loops :: nat
  fs_exhausted :: bool
  fs_initialized :: bool
  fs_follow_next :: "nat option"
  fs_since_rewind :: nat
  fs_metrics :: "sample list"

definition file_source_new :: "file_config \<Rightarrow> 'f \<Rightarrow> 'f file_source" where
  "file_source_new config framer =
     \<lparr>fs_config = config, fs_framer = framer, fs_file = None, fs_buf = [], fs_off = 0,
      fs_index = 0, fs_bytes_read = 0, fs_loops = 0, fs_exhausted = False,
      fs_initialized = False, fs_follow_next = None, fs_since_rewind = 0, fs_metrics = []\<rparr>"

definition fs_count :: "storage_metric_key \<Rightarrow> nat \<Rightarrow> 'f file_source \<Rightarrow> 'f file_source" where
  "fs_count k n s = s\<lparr>fs_metrics := record_counter (storage_metric_name k) n (fs_metrics s)\<rparr>"

text \<open>
  The buffer is first extended by a chunk of zeros, then read into and truncated to what the
  read delivered. When the read fails, the early return leaves the zeros in the buffer.
\<close>

definition fill_buf :: "'f file_source \<Rightarrow> bool result \<times> 'f file_source" where
  "fill_buf s =
     (case fs_file s of
        None \<Rightarrow> (Inl (lifecycle_error ''FileSource: not initialized''), s)
      | Some file \<Rightarrow>
          (let prev_len = length (fs_buf s);
               s1 = s\<lparr>fs_buf := fs_buf s @ replicate READ_CHUNK 0\<rparr> in
           case file_read READ_CHUNK file of
             (Inl e, file1) \<Rightarrow> (Inl e, s1\<lparr>fs_file := Some file1\<rparr>)
           | (Inr got, file1) \<Rightarrow>
               (let n = length got;
                    s2 = s1\<lparr>fs_file := Some file1,
                           fs_buf := take (prev_len + n) (write_at prev_len got (fs_buf s1)),
                           fs_bytes_read := fs_bytes_read s1 + n\<rparr>;
                    s3 = (if n > 0 then fs_count BytesRead n s2 else s2)
                in (Inr (n > 0), s3))))"

definition handle_eof ::
  "nat \<Rightarrow> bool \<Rightarrow> 'f file_source \<Rightarrow> bool result \<times> bool \<times> 'f file_source"
where
  "handle_eof now rewound s =
     (case fc_eof_policy (fs_config s) of
        Stop \<Rightarrow> (Inr False, rewound, fs_count EofReached 1 (s\<lparr>fs_buf := [], fs_exhausted := True\<rparr>))
      | Loop \<Rightarrow>
          if rewound then (Inr False, rewound, s)
          else if fs_since_rewind s = 0 \<and> fs_buf s = []
          then (Inl (error_new Decode ''FileSource: EofPolicy::Loop with no complete records in file''),
                rewound, s)
          else if fs_since_rewind s = 0
          then (Inl (error_new Decode (''FileSource: EofPolicy::Loop cannot frame any complete record ''
                  @ ''(file shorter than one frame or missing delimiter)'')), rewound, s)
          else
            (case fs_file s of
               None \<Rightarrow> (Inl (lifecycle_error ''FileSource: not initialized''), rewound, s)
             | Some file \<Rightarrow>
                 (let s1 = s\<lparr>fs_buf := []\<rparr> in
                  case file_seek_start file of
                    (Inl e, file1) \<Rightarrow> (Inl e, rewound, s1\<lparr>fs_file := Some file1\<rparr>)
                  | (Inr _, file1) \<Rightarrow>
                      (Inr True, True,
                       fs_count LoopCount 1
                         (s1\<lparr>fs_file := Some file1, fs_off := 0, fs_loops := fs_loops s1 + 1,
                            fs_since_rewind := 0\<rparr>))))
      | Follow interval \<Rightarrow> (Inr False, rewound, s\<lparr>fs_follow_next := Some (now + interval)\<rparr>))"

definition consume_record ::
  "nat \<Rightarrow> 'f file_source \<Rightarrow> record_batch \<Rightarrow> unit result \<times> 'f file_source \<times> record_batch"
where
  "consume_record len s batch =
     (if len = 0
      then (Inl (error_new Decode ''framing: zero-length record is not allowed''), s, batch)
      else if len > length (fs_buf s)
      then (Inl (error_new Decode (''framing: record length '' @ nat_dec len
              @ '' exceeds buffered bytes '' @ nat_dec (length (fs_buf s)))), s, batch)
      else if len > rb_max_record_size batch
      then (Inl (error_new Decode (''record length '' @ nat_dec len
              @ '' exceeds max_record_size '' @ nat_dec (rb_max_record_size batch))), s, batch)
      else
        (let meta = \<lparr>file_offset = fs_off s, timestamp_ns = 0, record_index = fs_index s\<rparr> in
         case batch_try_push (take len (fs_buf s)) meta batch of
           (Inl e, batch1) \<Rightarrow> (Inl e, s, batch1)
         | (Inr _, batch1) \<Rightarrow>
             (Inr (),
              fs_count RecordsRead 1
                (s\<lparr>fs_buf := drop len (fs_buf s), fs_off := fs_off s + len,
                   fs_index := fs_index s + 1, fs_since_rewind := fs_since_rewind s + 1\<rparr>),
              batch1)))"

section \<open>Polling\<close>

datatype frame_exit = NeedData | BatchFull

lemma consume_record_shrinks:
  "consume_record len s batch = (Inr u, s1, batch1) \<Longrightarrow> length (fs_buf s1) < length (fs_buf s)"
  by (auto simp: consume_record_def Let_def fs_count_def split: if_splits prod.splits sum.splits)

text \<open>
  The body of the inner loop over what is buffered: \<open>Some\<close> exit, or \<open>None\<close> to go round again.
\<close>

definition frame_step ::
  "'f framer \<Rightarrow> 'f file_source \<Rightarrow> record_batch
    \<Rightarrow> frame_exit result option \<times> 'f file_source \<times> record_batch"
where
  "frame_step next_len s batch =
     (if fs_buf s = [] then (Some (Inr NeedData), s, batch)
      else
        (let (decision, framer1) = next_len (fs_framer s) (fs_buf s); s0 = s\<lparr>fs_framer := framer1\<rparr> in
         case decision of
           Inl e \<Rightarrow> (Some (Inl e), s0, batch)
         | Inr None \<Rightarrow> (Some (Inr NeedData), s0, batch)
         | Inr (Some len) \<Rightarrow>
             (case consume_record len s0 batch of
                (Inl e, s1, batch1) \<Rightarrow> (Some (Inl e), s1, batch1)
              | (Inr _, s1, batch1) \<Rightarrow>
                  if batch_len batch1 \<ge> batch_capacity batch1 then (Some (Inr BatchFull), s1, batch1)
                  else (None, s1, batch1))))"

lemma frame_step_shrinks:
  assumes "frame_step next_len s batch = (None, s1, batch1)"
  shows "length (fs_buf s1) < length (fs_buf s)"
proof -
  obtain d f1 where d: "next_len (fs_framer s) (fs_buf s) = (d, f1)" by fastforce
  with assms obtain len where "consume_record len (s\<lparr>fs_framer := f1\<rparr>) batch = (Inr (), s1, batch1)"
    by (auto simp: frame_step_def Let_def split: if_splits sum.splits option.splits prod.splits)
  from consume_record_shrinks [OF this] show ?thesis by simp
qed

function frame_loop ::
  "'f framer \<Rightarrow> 'f file_source \<Rightarrow> record_batch \<Rightarrow> frame_exit result \<times> 'f file_source \<times> record_batch"
where
  "frame_loop next_len s batch =
     (case frame_step next_len s batch of
        (Some r, s1, batch1) \<Rightarrow> (r, s1, batch1)
      | (None, s1, batch1) \<Rightarrow> frame_loop next_len s1 batch1)"
  by pat_completeness auto
termination
  by (relation "measure (\<lambda>(_, s, _). length (fs_buf s))") (auto dest!: frame_step_shrinks [OF sym])

declare frame_loop.simps [simp del]

lemma frame_step_file: "fs_file (fst (snd (frame_step next_len s b))) = fs_file s"
  by (auto simp: frame_step_def consume_record_def Let_def fs_count_def
      split: prod.splits sum.splits option.splits)

lemma frame_loop_file: "fs_file (fst (snd (frame_loop next_len s b))) = fs_file s"
proof (induction next_len s b rule: frame_loop.induct)
  case (1 next_len s b)
  obtain r s1 b1 where st: "frame_step next_len s b = (r, s1, b1)" by (metis prod_cases3)
  then have "fs_file s1 = fs_file s" using frame_step_file [of next_len s b] by simp
  then show ?case
    using 1 [OF st [symmetric] _ refl] st by (cases r) (simp_all add: frame_loop.simps [of next_len s])
qed

text \<open>
  The body of the outer loop, guard included. \<open>now\<close> is the clock when the end of the file is
  handled; the flag is \<open>rewound_this_poll\<close>.
\<close>

definition poll_step ::
  "'f framer \<Rightarrow> nat \<Rightarrow> bool \<Rightarrow> 'f file_source \<Rightarrow> record_batch
    \<Rightarrow> unit result option \<times> bool \<times> 'f file_source \<times> record_batch"
where
  "poll_step next_len now rewound s batch =
     (if \<not> batch_len batch < batch_capacity batch then (Some (Inr ()), rewound, s, batch)
      else case frame_loop next_len s batch of
          (Inl e, s1, batch1) \<Rightarrow> (Some (Inl e), rewound, s1, batch1)
        | (Inr BatchFull, s1, batch1) \<Rightarrow> (Some (Inr ()), rewound, s1, batch1)
        | (Inr NeedData, s1, batch1) \<Rightarrow>
            (case fill_buf s1 of
               (Inl e, s2) \<Rightarrow> (Some (Inl e), rewound, s2, batch1)
             | (Inr True, s2) \<Rightarrow> (None, rewound, s2, batch1)
             | (Inr False, s2) \<Rightarrow>
                 (case handle_eof now rewound s2 of
                    (Inl e, rewound1, s3) \<Rightarrow> (Some (Inl e), rewound1, s3, batch1)
                  | (Inr True, rewound1, s3) \<Rightarrow> (None, rewound1, s3, batch1)
                  | (Inr False, rewound1, s3) \<Rightarrow> (Some (Inr ()), rewound1, s3, batch1))))"

text \<open>Bytes the file still holds behind the read position.\<close>

definition bytes_ahead :: "'f file_source \<Rightarrow> nat" where
  "bytes_ahead s = (case fs_file s of None \<Rightarrow> 0 | Some f \<Rightarrow> length (fl_data f) - fl_pos f)"

lemma fill_buf_ahead:
  "fill_buf s = (Inr True, s1) \<Longrightarrow> bytes_ahead s1 < bytes_ahead s"
  by (auto simp: fill_buf_def file_read_def bytes_ahead_def Let_def fs_count_def READ_CHUNK_def
      split: option.splits if_splits)

lemma handle_eof_again: "handle_eof now rewound s = (Inr True, r1, s1) \<Longrightarrow> \<not> rewound \<and> r1"
  by (auto simp: handle_eof_def Let_def split: eof_policy.splits if_splits option.splits prod.splits sum.splits)

lemma poll_step_again:
  assumes "poll_step next_len now rewound s batch = (None, r1, s1, batch1)"
  shows "(r1, rewound) \<in> {(True, False)} \<or> r1 = rewound \<and> bytes_ahead s1 < bytes_ahead s"
proof -
  obtain s0 where f: "frame_loop next_len s batch = (Inr NeedData, s0, batch1)"
    and rest: "(\<exists>s2. fill_buf s0 = (Inr False, s2) \<and> handle_eof now rewound s2 = (Inr True, r1, s1))
      \<or> r1 = rewound \<and> fill_buf s0 = (Inr True, s1)"
    using assms
    by (auto simp: poll_step_def split: if_splits prod.splits sum.splits frame_exit.splits bool.splits)
  have "bytes_ahead s0 = bytes_ahead s"
    using frame_loop_file [of next_len s batch] f by (simp add: bytes_ahead_def)
  with rest show ?thesis using fill_buf_ahead [of s0 s1] handle_eof_again [of now rewound] by fastforce
qed

function poll_loop ::
  "'f framer \<Rightarrow> nat \<Rightarrow> bool \<Rightarrow> 'f file_source \<Rightarrow> record_batch
    \<Rightarrow> unit result \<times> 'f file_source \<times> record_batch"
where
  "poll_loop next_len now rewound s batch =
     (case poll_step next_len now rewound s batch of
        (Some r, _, s1, batch1) \<Rightarrow> (r, s1, batch1)
      | (None, rewound1, s1, batch1) \<Rightarrow> poll_loop next_len now rewound1 s1 batch1)"
  by pat_completeness auto
termination
  by (relation "measures [\<lambda>(_, _, r, _, _). of_bool (\<not> r), \<lambda>(_, _, _, s, _). bytes_ahead s]")
    (auto dest!: poll_step_again [OF sym])

declare poll_loop.simps [simp del]

definition poll_batch ::
  "'f framer \<Rightarrow> nat \<Rightarrow> nat \<Rightarrow> 'f file_source \<Rightarrow> record_batch \<Rightarrow> nat result \<times> 'f file_source \<times> record_batch"
where
  "poll_batch next_len now now_eof s batch =
     (if \<not> fs_initialized s
      then (Inl (lifecycle_error ''FileSource: call init() before poll_batch()''), s, batch)
      else if fs_exhausted s then (Inr 0, s, batch)
      else
        (case fs_follow_next s of
           Some due \<Rightarrow>
             if now < due then (Inr 0, s, batch)
             else
               (let (r, s1, batch1) = poll_loop next_len now_eof False (s\<lparr>fs_follow_next := None\<rparr>) batch in
                (map_sum id (\<lambda>_. batch_len batch1 - batch_len batch) r, s1, batch1))
         | None \<Rightarrow>
             (let (r, s1, batch1) = poll_loop next_len now_eof False s batch in
              (map_sum id (\<lambda>_. batch_len batch1 - batch_len batch) r, s1, batch1))))"

section \<open>Lifecycle\<close>

text \<open>
  Opening the file is a parameter: the file, or an io error. The message quotes the path (the
  escapes of Rust's debug format are not modelled).
\<close>

definition file_source_init ::
  "(string \<Rightarrow> (io_kind \<times> string) + os_file) \<Rightarrow> 'f file_source \<Rightarrow> unit result \<times> 'f file_source"
where
  "file_source_init open_file s =
     (case open_file (fc_path (fs_config s)) of
        Inl (k, m) \<Rightarrow>
          (Inl (error_with_source Io (''FileSource: cannot open '' @ CHR 0x22 # fc_path (fs_config s) @ [CHR 0x22]) m), s)
      | Inr file \<Rightarrow>
          (Inr (),
           s\<lparr>fs_file := Some file, fs_buf := [], fs_off := 0, fs_index := 0, fs_bytes_read := 0,
             fs_loops := 0, fs_exhausted := False, fs_initialized := True, fs_follow_next := None,
             fs_since_rewind := 0\<rparr>))"

definition file_source_shutdown :: "'f file_source \<Rightarrow> unit result \<times> 'f file_source" where
  "file_source_shutdown s =
     (Inr (), s\<lparr>fs_file := None, fs_buf := [], fs_initialized := False, fs_follow_next := None\<rparr>)"

definition default_follow_interval :: nat where
  "default_follow_interval = 100 * 10 ^ 6"

section \<open>The contract of the lifecycle\<close>

text \<open>
  A use is a poll, with the two readings of the clock it may take. Opening the file is what the
  environment supplies to \<open>init\<close>. A framer whose errors are of kind \<open>Lifecycle\<close> could make a poll of
  an initialised source look refused; the built-in ones are quiet.
\<close>

definition file_source_stage ::
  "'f framer \<Rightarrow> (string \<Rightarrow> (io_kind \<times> string) + os_file, nat \<times> nat \<times> record_batch, 'f file_source) stage_ops"
where
  "file_source_stage next_len =
     \<lparr>so_init = (\<lambda>open_file s. Some (file_source_init open_file s)),
      so_use = (\<lambda>(now, now_eof, b) s.
        let (r, s1, _) = poll_batch next_len now now_eof s b in Some (answer r, s1)),
      so_shutdown = file_source_shutdown\<rparr>"

definition quiet_framer :: "'f framer \<Rightarrow> bool" where
  "quiet_framer next_len \<longleftrightarrow> (\<forall>f buf. \<not> is_refused (answer (fst (next_len f buf))))"

lemma quiet_builtin:
  "quiet_framer next_record_len_fixed" "quiet_framer next_record_len_prefixed" "quiet_framer next_record_len_delim"
  by (simp_all add: quiet_framer_def next_record_len_fixed_def next_record_len_prefixed_def next_record_len_delim_def
      Let_def split: option.split)

text \<open>An initialised source has its file open.\<close>

definition file_open :: "'f file_source \<Rightarrow> bool" where
  "file_open s \<longleftrightarrow> (fs_initialized s \<longrightarrow> fs_file s \<noteq> None)"

definition same_stage :: "'f file_source \<Rightarrow> 'f file_source \<Rightarrow> bool" where
  "same_stage s s' \<longleftrightarrow> fs_initialized s' = fs_initialized s \<and> (fs_file s' = None) = (fs_file s = None)"

lemma same_stage_trans: "same_stage s s' \<Longrightarrow> same_stage s' s'' \<Longrightarrow> same_stage s s''"
  by (simp add: same_stage_def)

lemma consume_record_stage:
  "consume_record n s b = (r, s', b') \<Longrightarrow> same_stage s s' \<and> \<not> is_refused r"
  by (auto simp: consume_record_def same_stage_def batch_try_push_def Let_def fs_count_def
      split: if_splits prod.splits sum.splits push_result.splits)

lemma frame_step_stage:
  assumes "quiet_framer next_len" "frame_step next_len s b = (r, s', b')"
  shows "same_stage s s' \<and> (\<forall>x. r = Some x \<longrightarrow> \<not> is_refused (answer x))"
proof (cases "fs_buf s = []")
  case True
  then show ?thesis using assms(2) by (auto simp: frame_step_def same_stage_def)
next
  case False
  obtain d f1 where d: "next_len (fs_framer s) (fs_buf s) = (d, f1)" by (rule prod.exhaust)
  have q: "\<not> is_refused (answer d)"
    using assms(1) d unfolding quiet_framer_def by (metis fst_conv)
  let ?s0 = "s\<lparr>fs_framer := f1\<rparr>"
  have s0: "same_stage s ?s0" by (simp add: same_stage_def)
  consider e where "d = Inl e" | "d = Inr None" | n where "d = Inr (Some n)" by (cases d) auto
  then show ?thesis
  proof cases
    case (3 n)
    obtain x s1 b1 where c: "consume_record n ?s0 b = (x, s1, b1)" by (rule prod_cases3)
    then show ?thesis
      using assms(2) d False 3 consume_record_stage [OF c] same_stage_trans [OF s0, of s1]
      by (cases x) (auto simp: frame_step_def split: if_splits)
  qed (use assms(2) d q False s0 in \<open>auto simp: frame_step_def\<close>)
qed

lemma frame_loop_stage:
  assumes "quiet_framer next_len" "frame_loop next_len s b = (r, s', b')"
  shows "same_stage s s' \<and> \<not> is_refused (answer r)"
  using assms
proof (induction next_len s b rule: frame_loop.induct)
  case (1 next_len s b)
  obtain x s1 b1 where st: "frame_step next_len s b = (x, s1, b1)" by (metis prod_cases3)
  note stage = frame_step_stage [OF 1(2) st]
  show ?case
  proof (cases x)
    case None
    then have "frame_loop next_len s1 b1 = (r, s', b')" using 1(3) st by (simp add: frame_loop.simps [of next_len s b])
    from 1(1) [OF st [symmetric] None refl 1(2) this] show ?thesis using stage same_stage_trans by blast
  next
    case (Some y)
    then show ?thesis using 1(3) st stage by (simp add: frame_loop.simps [of next_len s b])
  qed
qed

lemma error_from_io_kind [simp]: "err_kind (error_from_io k m) \<noteq> Lifecycle"
  by (cases k) (simp_all add: error_from_io_def error_with_source_def)

lemma file_read_error: "file_read n f = (Inl e, f') \<Longrightarrow> err_kind e \<noteq> Lifecycle"
  by (auto simp: file_read_def Let_def split: option.splits)

lemma file_seek_error: "file_seek_start f = (Inl e, f') \<Longrightarrow> err_kind e \<noteq> Lifecycle"
  by (auto simp: file_seek_start_def split: option.splits)

lemma fill_buf_stage:
  "fill_buf s = (r, s') \<Longrightarrow> fs_file s \<noteq> None \<Longrightarrow> same_stage s s' \<and> \<not> is_refused (answer r)"
  by (auto simp: fill_buf_def same_stage_def Let_def fs_count_def dest: file_read_error
      split: option.splits prod.splits sum.splits if_splits)

lemma handle_eof_stage:
  "handle_eof now rw s = (r, rw', s') \<Longrightarrow> fs_file s \<noteq> None \<Longrightarrow>
     same_stage s s' \<and> \<not> is_refused (answer r)"
  by (auto simp: handle_eof_def same_stage_def Let_def fs_count_def dest: file_seek_error
      split: eof_policy.splits option.splits prod.splits sum.splits if_splits)

lemma same_stage_file: "same_stage s s' \<Longrightarrow> fs_file s \<noteq> None \<Longrightarrow> fs_file s' \<noteq> None"
  by (simp add: same_stage_def)

lemma poll_step_stage:
  assumes "quiet_framer next_len" "poll_step next_len now rw s b = (r, rw', s', b')" "fs_file s \<noteq> None"
  shows "same_stage s s' \<and> (\<forall>x. r = Some x \<longrightarrow> \<not> is_refused x)"
proof (cases "batch_len b < batch_capacity b")
  case False
  then show ?thesis using assms(2) by (auto simp: poll_step_def same_stage_def)
next
  case True
  obtain x s1 b1 where l: "frame_loop next_len s b = (x, s1, b1)" by (rule prod_cases3)
  note s1 = frame_loop_stage [OF assms(1) l]
  obtain y s2 where f: "fill_buf s1 = (y, s2)" by (rule prod.exhaust)
  obtain z rw3 s3 where h: "handle_eof now rw s2 = (z, rw3, s3)" by (rule prod_cases3)
  have opened: "fs_file s1 \<noteq> None" using s1 same_stage_file assms(3) by blast
  have s2: "same_stage s s2" "\<not> is_refused (answer y)" "fs_file s2 \<noteq> None"
    using s1 fill_buf_stage [OF f opened] opened same_stage_trans same_stage_file by blast+
  have s3: "same_stage s s3" "\<not> is_refused (answer z)"
    using s2 handle_eof_stage [OF h s2(3)] same_stage_trans by blast+
  consider e where "x = Inl e" | "x = Inr BatchFull" | e where "x = Inr NeedData" "y = Inl e"
    | "x = Inr NeedData" "y = Inr True" | e where "x = Inr NeedData" "y = Inr False" "z = Inl e"
    | q where "x = Inr NeedData" "y = Inr False" "z = Inr q"
    by (metis (full_types) frame_exit.exhaust sum.exhaust)
  then show ?thesis
  proof cases
    case (6 q)
    then show ?thesis using assms(2) True l f h s3 by (cases q) (auto simp: poll_step_def)
  qed (use assms(2) True l f h s1 s2 s3 in \<open>auto simp: poll_step_def\<close>)
qed

lemma poll_loop_stage:
  assumes "quiet_framer next_len" "poll_loop next_len now rw s b = (r, s', b')" "fs_file s \<noteq> None"
  shows "same_stage s s' \<and> \<not> is_refused r"
  using assms
proof (induction next_len now rw s b rule: poll_loop.induct)
  case (1 next_len now rw s b)
  obtain x rw1 s1 b1 where st: "poll_step next_len now rw s b = (x, rw1, s1, b1)" by (metis prod_cases4)
  note stage = poll_step_stage [OF 1(2) st 1(4)]
  show ?case
  proof (cases x)
    case None
    then have l: "poll_loop next_len now rw1 s1 b1 = (r, s', b')"
      using 1(3) st by (simp add: poll_loop.simps [of next_len now rw s b])
    have "fs_file s1 \<noteq> None" using stage 1(4) same_stage_file by blast
    from 1(1) [OF st [symmetric] None refl refl 1(2) l this] show ?thesis using stage same_stage_trans by blast
  next
    case (Some y)
    then show ?thesis using 1(3) st stage by (simp add: poll_loop.simps [of next_len now rw s b])
  qed
qed

lemma poll_batch_stage:
  assumes "quiet_framer next_len" "poll_batch next_len now now_eof s b = (r, s', b')" "file_open s"
  shows "file_open s' \<and> fs_initialized s' = fs_initialized s
    \<and> (fs_initialized s \<longrightarrow> \<not> is_refused (answer r))"
proof -
  have loop: "file_open y' \<and> fs_initialized y' \<and> \<not> is_refused x"
    if "poll_loop next_len now_eof False y b = (x, y', b2)" "fs_initialized y" "fs_file y \<noteq> None" for x y y' b2
    using poll_loop_stage [OF assms(1) that(1,3)] that(2,3) by (simp add: same_stage_def file_open_def)
  show ?thesis
  proof (cases "fs_initialized s \<and> \<not> fs_exhausted s")
    case False
    then show ?thesis using assms(2,3) by (auto simp: poll_batch_def split: if_splits)
  next
    case True
    then have opened: "fs_file s \<noteq> None" using assms(3) by (simp add: file_open_def)
    show ?thesis
    proof (cases "fs_follow_next s")
      case None
      obtain x s1 b1 where l: "poll_loop next_len now_eof False s b = (x, s1, b1)" by (rule prod_cases3)
      then show ?thesis using assms(2) True None loop [OF l _ opened] by (auto simp: poll_batch_def)
    next
      case (Some due)
      obtain x s1 b1 where l: "poll_loop next_len now_eof False (s\<lparr>fs_follow_next := None\<rparr>) b = (x, s1, b1)"
        by (rule prod_cases3)
      then show ?thesis using assms True Some loop [OF l] opened
        by (cases "now < due") (auto simp: poll_batch_def)
    qed
  qed
qed

lemma file_source_owned:
  assumes "quiet_framer next_len"
  shows "owned_stage (file_source_stage next_len) fs_initialized file_open"
proof unfold_locales
  fix s s' :: "'a file_source" and r :: "unit result" and open_file a
  show "file_open s' \<and> fs_initialized s' = (fs_initialized s \<or> r = Inr ())"
    if "file_open s" "so_init (file_source_stage next_len) open_file s = Some (r, s')"
    using that by (auto simp: file_source_stage_def file_source_init_def file_open_def split: sum.splits prod.splits)
  obtain now now_eof :: nat and b :: record_batch where a: "a = (now, now_eof, b)" by (rule prod_cases3)
  obtain x s1 b1 where p: "poll_batch next_len now now_eof s b = (x, s1, b1)" by (rule prod_cases3)
  show "file_open s' \<and> fs_initialized s' = fs_initialized s"
    if "file_open s" "so_use (file_source_stage next_len) a s = Some (r, s')"
    using that p poll_batch_stage [OF assms p] by (simp add: file_source_stage_def a)
  show "\<exists>e. so_use (file_source_stage next_len) a s = Some (Inl e, s) \<and> err_kind e = Lifecycle"
    if "\<not> fs_initialized s"
    using that by (simp add: file_source_stage_def a poll_batch_def)
  show "\<not> is_refused r"
    if "file_open s" "fs_initialized s" "so_use (file_source_stage next_len) a s = Some (r, s')"
    using that p poll_batch_stage [OF assms p] by (auto simp: file_source_stage_def a)
qed (simp_all add: file_source_stage_def file_source_shutdown_def file_open_def)

interpretation fixed_lc: owned_stage "file_source_stage next_record_len_fixed" fs_initialized file_open
  by (rule file_source_owned [OF quiet_builtin(1)])

interpretation prefixed_lc: owned_stage "file_source_stage next_record_len_prefixed" fs_initialized file_open
  by (rule file_source_owned [OF quiet_builtin(2)])

interpretation delim_lc: owned_stage "file_source_stage next_record_len_delim" fs_initialized file_open
  by (rule file_source_owned [OF quiet_builtin(3)])

end
