(* ===== verification/File_Frames.thy ===== *)
theory File_Frames
  imports File_Source
begin

text \<open>
  What the file reader delivers (\<open>crates/flyby-storage/src/file.rs\<close>), against a reference that cuts
  the whole stream into frames at once (\<open>split_frames\<close>). The lemmas are proved inside the contract
  of framers (locale \<open>frame_contract\<close>); every built-in framer provides it (theory \<open>Framing\<close>).
\<close>

section \<open>The reference: cutting the whole stream into frames\<close>

function split_frames :: "'f framer \<Rightarrow> 'f \<Rightarrow> bytes \<Rightarrow> bytes list" where
  "split_frames next_len f bs =
     (case fst (next_len f bs) of
        Inr (Some n) \<Rightarrow>
          if 0 < n \<and> n \<le> length bs then take n bs # split_frames next_len f (drop n bs) else []
      | _ \<Rightarrow> [])"
  by pat_completeness auto
termination by (relation "measure (\<lambda>(_, _, bs). length bs)") auto

declare split_frames.simps [simp del]

context frame_contract
begin

lemma split_frames_stop: "fst (next_len f bs) = Inr None \<Longrightarrow> split_frames next_len f bs = []"
  by (simp add: split_frames.simps)

lemma split_frames_empty [simp]: "ok f \<Longrightarrow> split_frames next_len f [] = []"
  by (simp add: split_frames_stop empty_needs_more)

lemma split_frames_cut:
  assumes "ok f" "fst (next_len f bs) = Inr (Some n)"
  shows "split_frames next_len f (bs @ rest) = take n bs # split_frames next_len f (drop n bs @ rest)"
  using stable_some [OF assms, of rest] positive [OF assms] within [OF assms]
  by (subst split_frames.simps) simp

end

section \<open>What a poll emits\<close>

definition source_data :: "'f file_source \<Rightarrow> bytes" where
  "source_data s = (case fs_file s of None \<Rightarrow> [] | Some f \<Rightarrow> fl_data f)"

definition source_pos :: "'f file_source \<Rightarrow> nat" where
  "source_pos s = (case fs_file s of None \<Rightarrow> 0 | Some f \<Rightarrow> fl_pos f)"

text \<open>The buffer holds the bytes of the file from its offset to the read position.\<close>

definition source_inv :: "'f file_source \<Rightarrow> bool" where
  "source_inv s \<longleftrightarrow> fs_file s \<noteq> None \<and> fs_off s \<le> source_pos s \<and> source_pos s \<le> length (source_data s)
     \<and> fs_buf s = drop (fs_off s) (take (source_pos s) (source_data s))"

definition emits ::
  "'f file_source \<Rightarrow> record_batch \<Rightarrow> (bytes \<times> record_meta) list \<Rightarrow> 'f file_source \<Rightarrow> record_batch \<Rightarrow> bool"
where
  "emits s b ms s' b' \<longleftrightarrow>
     batch_records b' = batch_records b @ ms \<and> batch_inv b' \<and> batch_capacity b' = batch_capacity b
     \<and> fs_index s' = fs_index s + length ms \<and> map (\<lambda>(_, m). record_index m) ms = [fs_index s..<fs_index s']
     \<and> fs_config s' = fs_config s \<and> fs_framer s' = fs_framer s \<and> source_data s' = source_data s
     \<and> fs_initialized s' = fs_initialized s
     \<and> (fc_eof_policy (fs_config s) = Stop \<longrightarrow> fs_follow_next s' = fs_follow_next s)
     \<and> list_all (\<lambda>(r, m). read_at (file_offset m) (length r) (source_data s) = r) ms"

lemma emits_refl: "batch_inv b \<Longrightarrow> emits s b [] s b"
  by (simp add: emits_def)

lemma upt_append_nat: "a \<le> b \<Longrightarrow> b \<le> c \<Longrightarrow> [a..<b] @ [b..<c] = [a..<c::nat]"
  by (metis le_add_diff_inverse upt_add_eq_append)

lemma emits_trans:
  assumes "emits s b ms s1 b1" "emits s1 b1 ns s2 b2"
  shows "emits s b (ms @ ns) s2 b2"
  using assms by (auto simp: emits_def upt_append_nat)

lemma emits_len: "emits s b ms s' b' \<Longrightarrow> batch_len b' = batch_len b + length ms"
  using length_batch_records [of b'] length_batch_records [of b] by (auto simp: emits_def batch_len_def)

lemma consume_record_batch:
  assumes "consume_record len s b = (Inr u, s1, b1)" "batch_inv b"
  shows "batch_records b1 = batch_records b
      @ [(take len (fs_buf s), \<lparr>file_offset = fs_off s, timestamp_ns = 0, record_index = fs_index s\<rparr>)]"
    "batch_inv b1" "batch_capacity b1 = batch_capacity b"
proof -
  let ?m = "\<lparr>file_offset = fs_off s, timestamp_ns = 0, record_index = fs_index s\<rparr>"
  let ?r = "take len (fs_buf s)"
  have push: "batch_try_push ?r ?m b = (Inr (), b1)"
    using assms(1) by (auto simp: consume_record_def Let_def split: if_splits prod.splits sum.splits)
  have "fst (batch_push ?r ?m b) = PushOk" using batch_try_push_ok_iff [of ?r ?m b] push by simp
  moreover have "b1 = snd (batch_push ?r ?m b)" using batch_try_push_snd [of ?r ?m b] push by simp
  ultimately show "batch_records b1 = batch_records b @ [(?r, ?m)]" "batch_inv b1"
    "batch_capacity b1 = batch_capacity b"
    using batch_push_cases(2) [OF assms(2), of ?r ?m] batch_inv_push [OF assms(2)] by simp_all
qed

lemma consume_record_emits:
  assumes c: "consume_record len s b = (Inr u, s1, b1)" and inv: "source_inv s" "batch_inv b"
  shows "emits s b [(take len (fs_buf s), \<lparr>file_offset = fs_off s, timestamp_ns = 0, record_index = fs_index s\<rparr>)] s1 b1
    \<and> source_inv s1 \<and> fs_buf s1 = drop len (fs_buf s) \<and> 0 < len \<and> len \<le> length (fs_buf s)
    \<and> fs_file s1 = fs_file s \<and> fs_loops s1 = fs_loops s \<and> fs_exhausted s1 = fs_exhausted s
    \<and> fs_since_rewind s1 = Suc (fs_since_rewind s)"
proof -
  let ?m = "\<lparr>file_offset = fs_off s, timestamp_ns = 0, record_index = fs_index s\<rparr>"
  let ?r = "take len (fs_buf s)"
  have len: "0 < len" "len \<le> length (fs_buf s)"
    and s1: "s1 = fs_count RecordsRead 1 (s\<lparr>fs_buf := drop len (fs_buf s), fs_off := fs_off s + len,
                   fs_index := fs_index s + 1, fs_since_rewind := fs_since_rewind s + 1\<rparr>)"
    using c by (auto simp: consume_record_def Let_def split: if_splits prod.splits sum.splits)
  note recs = consume_record_batch [OF c inv(2)]
  have sl: "read_at (fs_off s) (length ?r) (source_data s) = ?r"
    using inv(1) len by (auto simp: source_inv_def read_at_def take_drop min_def)
  have "source_data s1 = source_data s" "source_pos s1 = source_pos s"
    by (simp_all add: s1 fs_count_def source_data_def source_pos_def)
  then show ?thesis
    using recs sl len inv(1) by (auto simp: emits_def s1 fs_count_def source_inv_def add.commute [of len])
qed

context frame_contract
begin

lemma frame_loop_emits:
  assumes "frame_loop next_len s b = (Inr r, s', b')" "source_inv s" "batch_inv b"
    "batch_len b < batch_capacity b" "ok (fs_framer s)"
  shows "\<exists>ms. emits s b ms s' b' \<and> source_inv s' \<and> fs_file s' = fs_file s \<and> fs_loops s' = fs_loops s
    \<and> fs_exhausted s' = fs_exhausted s \<and> fs_since_rewind s' = fs_since_rewind s + length ms
    \<and> (ms = [] \<longrightarrow> fs_off s' = fs_off s)
    \<and> (\<forall>y. split_frames next_len (fs_framer s) (fs_buf s @ y)
          = map fst ms @ split_frames next_len (fs_framer s) (fs_buf s' @ y))
    \<and> (case r of NeedData \<Rightarrow> batch_len b' < batch_capacity b \<and> fst (next_len (fs_framer s) (fs_buf s')) = Inr None
        | BatchFull \<Rightarrow> batch_len b' = batch_capacity b)"
  using assms
proof (induction "length (fs_buf s)" arbitrary: s b rule: less_induct)
  case less
  obtain d f1 where d: "next_len (fs_framer s) (fs_buf s) = (d, f1)" by fastforce
  then have f1: "f1 = fs_framer s" using pure [of "fs_framer s" "fs_buf s"] by simp
  have upd: "s\<lparr>fs_framer := fs_framer s\<rparr> = s" by simp
  show ?case
  proof (cases "fs_buf s = [] \<or> d = Inr None")
    case True
    then have "frame_loop next_len s b = (Inr NeedData, s, b)"
      using d f1 by (subst frame_loop.simps) (auto simp: frame_step_def)
    moreover have "fst (next_len (fs_framer s) (fs_buf s)) = Inr None"
      using True d empty_needs_more [OF less.prems(5)] by auto
    ultimately show ?thesis
      using less.prems emits_refl [OF less.prems(3)] by (intro exI [of _ "[]"]) auto
  next
    case F: False
    have step: "frame_step next_len s b =
      (case d of Inl e \<Rightarrow> (Some (Inl e), s, b)
       | Inr None \<Rightarrow> (Some (Inr NeedData), s, b)
       | Inr (Some len) \<Rightarrow>
           (case consume_record len s b of (Inl e, s1, b1) \<Rightarrow> (Some (Inl e), s1, b1)
            | (Inr _, s1, b1) \<Rightarrow> if batch_len b1 \<ge> batch_capacity b1 then (Some (Inr BatchFull), s1, b1)
                 else (None, s1, b1)))"
      using F d f1 by (simp add: frame_step_def)
    from less.prems(1) obtain len s1 b1 u where len: "d = Inr (Some len)" and c: "consume_record len s b = (Inr u, s1, b1)"
      using F by (subst (asm) frame_loop.simps) (auto simp: step split: sum.splits option.splits prod.splits if_splits)
    note ce = consume_record_emits [OF c less.prems(2,3)]
    have cut: "split_frames next_len (fs_framer s) (fs_buf s @ y)
        = take len (fs_buf s) # split_frames next_len (fs_framer s) (fs_buf s1 @ y)" for y
      using split_frames_cut [OF less.prems(5)] d len ce by simp
    have fr: "fs_framer s1 = fs_framer s" "batch_capacity b1 = batch_capacity b" "batch_inv b1"
      using ce by (auto simp: emits_def)
    let ?m = "(take len (fs_buf s), \<lparr>file_offset = fs_off s, timestamp_ns = 0, record_index = fs_index s\<rparr>)"
    show ?thesis
    proof (cases "batch_len b1 \<ge> batch_capacity b1")
      case True
      then have "frame_loop next_len s b = (Inr BatchFull, s1, b1)"
        by (subst frame_loop.simps) (simp add: step len c)
      then have "r = BatchFull" "s' = s1" "b' = b1" using less.prems(1) by simp_all
      moreover have "batch_len b1 = batch_capacity b"
        using emits_len [OF conjunct1 [OF ce]] less.prems(4) True fr by simp
      ultimately show ?thesis using ce cut by (intro exI [of _ "[?m]"]) simp
    next
      case False
      then have eq: "frame_loop next_len s b = frame_loop next_len s1 b1"
        by (subst frame_loop.simps) (simp add: step len c)
      have "length (fs_buf s1) < length (fs_buf s)" using ce by auto
      from less.hyps [OF this, of b1] obtain ms where
        ms: "emits s1 b1 ms s' b' \<and> source_inv s' \<and> fs_file s' = fs_file s1 \<and> fs_loops s' = fs_loops s1
          \<and> fs_exhausted s' = fs_exhausted s1 \<and> fs_since_rewind s' = fs_since_rewind s1 + length ms
          \<and> (ms = [] \<longrightarrow> fs_off s' = fs_off s1)
          \<and> (\<forall>y. split_frames next_len (fs_framer s1) (fs_buf s1 @ y)
              = map fst ms @ split_frames next_len (fs_framer s1) (fs_buf s' @ y))
          \<and> (case r of NeedData \<Rightarrow> batch_len b' < batch_capacity b1 \<and> fst (next_len (fs_framer s1) (fs_buf s')) = Inr None
              | BatchFull \<Rightarrow> batch_len b' = batch_capacity b1)"
        using less.prems(1,5) eq ce fr False by auto
      from emits_trans [OF conjunct1 [OF ce] conjunct1 [OF ms]] ms ce cut fr show ?thesis
        by (intro exI [of _ "[?m] @ ms"]) (simp split: frame_exit.splits)
    qed
  qed
qed

end

section \<open>Polls against the reference\<close>

lemma source_stream:
  assumes "source_inv s"
  shows "fs_buf s @ drop (source_pos s) (source_data s) = drop (fs_off s) (source_data s)"
proof -
  have "source_data s = take (source_pos s) (source_data s) @ drop (source_pos s) (source_data s)" by simp
  then have "drop (fs_off s) (source_data s)
      = drop (fs_off s) (take (source_pos s) (source_data s)) @ drop (source_pos s) (source_data s)"
    using assms by (metis (no_types) source_inv_def drop_append length_take min.absorb2 diff_is_0_eq drop0)
  then show ?thesis using assms by (simp add: source_inv_def)
qed

lemma fill_buf_result:
  assumes "fill_buf s = (Inr mr, s1)" "source_inv s"
  shows "source_inv s1 \<and> source_data s1 = source_data s
    \<and> fs_config s1 = fs_config s \<and> fs_framer s1 = fs_framer s \<and> fs_off s1 = fs_off s
    \<and> fs_index s1 = fs_index s \<and> fs_loops s1 = fs_loops s \<and> fs_exhausted s1 = fs_exhausted s
    \<and> fs_since_rewind s1 = fs_since_rewind s \<and> fs_initialized s1 = fs_initialized s
    \<and> fs_follow_next s1 = fs_follow_next s
    \<and> (\<not> mr \<longrightarrow> fs_buf s1 = fs_buf s \<and> source_pos s1 = length (source_data s1))"
proof -
  obtain f where f: "fs_file s = Some f" using assms(2) by (auto simp: source_inv_def)
  obtain got f1 where r: "file_read READ_CHUNK f = (Inr got, f1)" and mr: "mr = (length got > 0)"
    using assms(1) f by (auto simp: fill_buf_def Let_def split: prod.splits sum.splits)
  have pos: "fl_pos f \<le> length (fl_data f)" and off: "fs_off s \<le> fl_pos f"
    and buf: "fs_buf s = drop (fs_off s) (take (fl_pos f) (fl_data f))"
    using assms(2) f by (simp_all add: source_inv_def source_data_def source_pos_def)
  have got: "got = take (min READ_CHUNK (Suc (fl_short f (fl_reads f)))) (drop (fl_pos f) (fl_data f))"
    and f1: "fl_data f1 = fl_data f" "fl_pos f1 = fl_pos f + length got"
    using r by (auto simp: file_read_def Let_def split: option.splits prod.splits)
  have chunk: "length got \<le> READ_CHUNK" by (simp add: got)
  have "take (length (fs_buf s) + length got) (write_at (length (fs_buf s)) got (fs_buf s @ replicate READ_CHUNK 0))
      = fs_buf s @ got"
    by (simp add: write_at_def)
  moreover have "fs_buf s @ got = drop (fs_off s) (take (fl_pos f + length got) (fl_data f))"
    using pos off by (simp add: buf got take_add min_def)
  ultimately have s1: "fs_buf s1 = drop (fs_off s) (take (fl_pos f + length got) (fl_data f))"
    "fs_file s1 = Some f1" "fs_off s1 = fs_off s" "fs_config s1 = fs_config s" "fs_framer s1 = fs_framer s"
    "fs_index s1 = fs_index s" "fs_loops s1 = fs_loops s" "fs_exhausted s1 = fs_exhausted s"
    "fs_since_rewind s1 = fs_since_rewind s" "fs_initialized s1 = fs_initialized s"
    "fs_follow_next s1 = fs_follow_next s"
    using assms(1) f r by (auto simp: fill_buf_def Let_def fs_count_def split: if_splits)
  have "fl_pos f + length got \<le> length (fl_data f)" using pos by (simp add: got)
  then have inv: "source_inv s1" using s1 f1 off
    by (simp add: source_inv_def source_data_def source_pos_def)
  have none: "fl_pos f = length (fl_data f) \<and> fs_buf s1 = fs_buf s" if "\<not> mr"
  proof -
    have "got = []" using that mr by simp
    then show ?thesis using pos s1(1) buf by (simp add: got READ_CHUNK_def)
  qed
  show ?thesis
    using inv s1 f1 f none mr by (auto simp: source_data_def source_pos_def)
qed

text \<open>
  The frames a source still has to deliver in a poll that may rewind up to loop count \<open>L\<close>;
  \<open>x\<close> is what is appended to the file later, which only the follow policy reads.
\<close>

definition frames_ahead :: "'f framer \<Rightarrow> nat \<Rightarrow> bytes \<Rightarrow> 'f file_source \<Rightarrow> bytes list" where
  "frames_ahead next_len L x s =
     (let policy = fc_eof_policy (fs_config s) in
      (if fs_exhausted s then []
       else split_frames next_len (fs_framer s)
              (drop (fs_off s) (source_data s) @ (case policy of Follow _ \<Rightarrow> x | _ \<Rightarrow> [])))
      @ (if policy = Loop \<and> fs_loops s < L then split_frames next_len (fs_framer s) (source_data s) else []))"

lemma eof_result:
  assumes "handle_eof now rewound s = (Inr mr, r1, s1)" "source_inv s" "\<not> fs_exhausted s"
  shows "fs_config s1 = fs_config s \<and> fs_framer s1 = fs_framer s \<and> source_data s1 = source_data s
    \<and> fs_index s1 = fs_index s \<and> fs_initialized s1 = fs_initialized s
    \<and> (fc_eof_policy (fs_config s) = Stop \<longrightarrow> fs_follow_next s1 = fs_follow_next s)
    \<and> (mr \<longrightarrow> source_inv s1 \<and> fs_off s1 = 0 \<and> fs_loops s1 = Suc (fs_loops s) \<and> \<not> rewound \<and> r1
          \<and> \<not> fs_exhausted s1 \<and> fc_eof_policy (fs_config s) = Loop)
    \<and> (\<not> mr \<longrightarrow> fs_loops s1 = fs_loops s \<and> r1 = rewound \<and> fs_off s1 = fs_off s
          \<and> fs_exhausted s1 = (fc_eof_policy (fs_config s) = Stop)
          \<and> (fc_eof_policy (fs_config s) = Loop \<longrightarrow> rewound)
          \<and> (\<not> fs_exhausted s1 \<longrightarrow> source_inv s1))"
  using assms
  by (auto simp: handle_eof_def fs_count_def Let_def source_inv_def source_data_def source_pos_def
      file_seek_start_def split: eof_policy.splits if_splits option.splits prod.splits sum.splits)

context frame_contract
begin

lemma poll_step_emits:
  assumes st: "poll_step next_len now rewound s b = (ex, r1, s1, b1)" and ex: "ex = None \<or> ex = Some (Inr ())"
    and inv: "source_inv s" "batch_inv b" "ok (fs_framer s)" "\<not> fs_exhausted s"
    and L: "fs_loops s + of_bool (\<not> rewound) = L"
  shows "\<exists>ms. emits s b ms s1 b1
    \<and> (\<forall>x. frames_ahead next_len L x s = map fst ms @ frames_ahead next_len L x s1)
    \<and> (\<not> fs_exhausted s1 \<longrightarrow> source_inv s1)
    \<and> (if ex = None then \<not> fs_exhausted s1 \<and> fs_loops s1 + of_bool (\<not> r1) = L
       else fs_loops s1 \<le> L \<and> (batch_len b1 < batch_capacity b \<longrightarrow> frames_ahead next_len L [] s1 = []
          \<and> (fc_eof_policy (fs_config s) = Stop \<longrightarrow> fs_exhausted s1)))"
proof (cases "batch_len b < batch_capacity b")
  case False
  then show ?thesis
    using st emits_refl [OF inv(2)] inv L by (intro exI [of _ "[]"]) (auto simp: poll_step_def)
next
  case True
  obtain res s2 b2 where fl: "frame_loop next_len s b = (res, s2, b2)" by (metis prod_cases3)
  then obtain r where r: "res = Inr r"
    using st ex True by (cases res) (auto simp: poll_step_def)
  from frame_loop_emits [OF fl [unfolded r] inv(1,2) True inv(3)] obtain ms where
    e: "emits s b ms s2 b2" and i2: "source_inv s2" and same: "fs_file s2 = fs_file s" "fs_loops s2 = fs_loops s"
      "fs_exhausted s2 = fs_exhausted s"
    and sp: "\<And>y. split_frames next_len (fs_framer s) (fs_buf s @ y)
          = map fst ms @ split_frames next_len (fs_framer s) (fs_buf s2 @ y)"
    and r_cases: "case r of NeedData \<Rightarrow> batch_len b2 < batch_capacity b \<and> fst (next_len (fs_framer s) (fs_buf s2)) = Inr None
        | BatchFull \<Rightarrow> batch_len b2 = batch_capacity b"
    by blast
  have pres: "fs_framer s2 = fs_framer s" "fs_config s2 = fs_config s" "source_data s2 = source_data s"
    "source_pos s2 = source_pos s" "batch_inv b2" "batch_capacity b2 = batch_capacity b"
    using e same by (auto simp: emits_def source_pos_def)
  have ahead2: "frames_ahead next_len L x s = map fst ms @ frames_ahead next_len L x s2" for x
    using sp [of "drop (source_pos s) (source_data s) @ (case fc_eof_policy (fs_config s) of Follow _ \<Rightarrow> x | _ \<Rightarrow> [])"]
      source_stream [OF inv(1)] source_stream [OF i2] inv(4) same pres
    by (simp add: frames_ahead_def Let_def flip: append_assoc)
  show ?thesis
  proof (cases r)
    case BatchFull
    then have "ex = Some (Inr ())" "r1 = rewound" "s1 = s2" "b1 = b2"
      using st True fl r by (auto simp: poll_step_def)
    then show ?thesis using e i2 ahead2 r_cases same L BatchFull by auto
  next
    case NeedData
    obtain got s3 where fb: "fill_buf s2 = (got, s3)" by fastforce
    then obtain mr where mr: "got = Inr mr"
      using st ex True fl r NeedData by (cases got) (auto simp: poll_step_def)
    note f3 = fill_buf_result [OF fb [unfolded mr] i2]
    have e3: "emits s b ms s3 b2" using e f3 by (auto simp: emits_def)
    have ahead3: "frames_ahead next_len L x s3 = frames_ahead next_len L x s2" for x
      using f3 by (simp add: frames_ahead_def Let_def)
    show ?thesis
    proof (cases mr)
      case True
      then have "ex = None" "r1 = rewound" "s1 = s3" "b1 = b2"
        using st \<open>batch_len b < batch_capacity b\<close> fl r NeedData fb mr by (auto simp: poll_step_def)
      then show ?thesis using e3 f3 ahead2 ahead3 same inv(4) L by auto
    next
      case False
      obtain again r4 s4 where eof: "handle_eof now rewound s3 = (again, r4, s4)" by (metis prod_cases3)
      then obtain ag where ag: "again = Inr ag"
        using st ex True fl r NeedData fb mr False by (cases again) (auto simp: poll_step_def)
      have st4: "ex = (if ag then None else Some (Inr ()))" "r1 = r4" "s1 = s4" "b1 = b2"
        using st True fl r NeedData fb mr False eof ag by (auto simp: poll_step_def split: bool.splits)
      have ne3: "\<not> fs_exhausted s3" using f3 same inv(4) by simp
      note e4 = eof_result [OF eof [unfolded ag] conjunct1 [OF f3] ne3]
      have em: "emits s b ms s4 b2" using e3 e4 by (auto simp: emits_def)
      have "drop (fs_off s3) (source_data s3) = fs_buf s3"
        using source_stream [of s3] f3 False by simp
      then have none: "split_frames next_len (fs_framer s3) (drop (fs_off s3) (source_data s3)) = []"
        using r_cases NeedData f3 pres False split_frames_stop by simp
      have len: "batch_len b2 < batch_capacity b" using r_cases NeedData by simp
      have ahead4: "frames_ahead next_len L x s3 = frames_ahead next_len L x s4" for x
        using e4 none f3 same L ne3
        by (cases "fc_eof_policy (fs_config s3)"; cases ag) (auto simp: frames_ahead_def Let_def)
      have fin: "\<not> ag \<Longrightarrow> frames_ahead next_len L [] s4 = []"
        using e4 none f3 same L pres ne3
        by (cases "fc_eof_policy (fs_config s3)") (auto simp: frames_ahead_def Let_def)
      show ?thesis
        using em ahead2 ahead3 ahead4 e4 st4 f3 same inv(4) L fin len pres(2)
        by (intro exI [of _ ms]) (cases ag; auto)
    qed
  qed
qed

lemma poll_loop_emits:
  assumes "poll_loop next_len now rewound s b = (Inr u, s', b')" "source_inv s" "batch_inv b" "ok (fs_framer s)"
    "\<not> fs_exhausted s" "fs_loops s + of_bool (\<not> rewound) = L"
  shows "\<exists>ms. emits s b ms s' b'
    \<and> (\<forall>x. frames_ahead next_len L x s = map fst ms @ frames_ahead next_len L x s')
    \<and> (\<not> fs_exhausted s' \<longrightarrow> source_inv s') \<and> fs_loops s' \<le> L
    \<and> (batch_len b' < batch_capacity b \<longrightarrow> frames_ahead next_len L [] s' = []
          \<and> (fc_eof_policy (fs_config s) = Stop \<longrightarrow> fs_exhausted s'))"
  using assms
proof (induction nl \<equiv> next_len now rewound s b rule: poll_loop.induct)
  case (1 now rewound s b)
  obtain ex r1 s1 b1 where st: "poll_step next_len now rewound s b = (ex, r1, s1, b1)" by (metis prod_cases4)
  have ex: "ex = None \<or> ex = Some (Inr ())"
  proof (cases ex)
    case (Some r)
    then have "r = Inr u" using 1(2) st by (simp add: poll_loop.simps [of next_len now rewound])
    then show ?thesis using Some by simp
  qed simp
  from poll_step_emits [OF st ex 1(3-7)] obtain ms where
    e: "emits s b ms s1 b1" and a: "\<And>x. frames_ahead next_len L x s = map fst ms @ frames_ahead next_len L x s1"
    and i: "\<not> fs_exhausted s1 \<longrightarrow> source_inv s1"
    and c: "if ex = None then \<not> fs_exhausted s1 \<and> fs_loops s1 + of_bool (\<not> r1) = L
       else fs_loops s1 \<le> L \<and> (batch_len b1 < batch_capacity b \<longrightarrow> frames_ahead next_len L [] s1 = []
          \<and> (fc_eof_policy (fs_config s) = Stop \<longrightarrow> fs_exhausted s1))"
    by blast
  show ?case
  proof (cases ex)
    case (Some r)
    then have "s' = s1" "b' = b1" using 1(2) st by (simp_all add: poll_loop.simps [of next_len now rewound])
    then show ?thesis using e a i c Some by (intro exI [of _ ms]) auto
  next
    case None
    then have "poll_loop next_len now r1 s1 b1 = (Inr u, s', b')"
      using 1(2) st by (simp add: poll_loop.simps [of next_len now rewound])
    moreover have "batch_inv b1" "ok (fs_framer s1)" "batch_capacity b1 = batch_capacity b"
      using e 1(5) by (auto simp: emits_def)
    ultimately obtain ns where ns: "emits s1 b1 ns s' b'"
      "\<And>x. frames_ahead next_len L x s1 = map fst ns @ frames_ahead next_len L x s'"
      "\<not> fs_exhausted s' \<longrightarrow> source_inv s'" "fs_loops s' \<le> L"
      "batch_len b' < batch_capacity b \<longrightarrow> frames_ahead next_len L [] s' = []
          \<and> (fc_eof_policy (fs_config s) = Stop \<longrightarrow> fs_exhausted s')"
      using 1(1) [OF st [symmetric, unfolded None] refl refl refl] i c None e by (auto simp: emits_def)
    show ?thesis
      using emits_trans [OF e ns(1)] a ns(2-) by (intro exI [of _ "ms @ ns"]) auto
  qed
qed

end

section \<open>When a poll succeeds\<close>

text \<open>A stream the framer accepts all through, with no record longer than the limit.\<close>

function well_framed :: "'f framer \<Rightarrow> 'f \<Rightarrow> nat \<Rightarrow> bytes \<Rightarrow> bool" where
  "well_framed next_len f limit bs =
     (case fst (next_len f bs) of
        Inl _ \<Rightarrow> False
      | Inr None \<Rightarrow> True
      | Inr (Some n) \<Rightarrow>
          if 0 < n \<and> n \<le> length bs \<and> n \<le> limit then well_framed next_len f limit (drop n bs) else False)"
  by pat_completeness auto
termination by (relation "measure (\<lambda>(_, _, _, bs). length bs)") auto

declare well_framed.simps [simp del]

definition no_faults :: "'f file_source \<Rightarrow> bool" where
  "no_faults s \<longleftrightarrow> (\<exists>f. fs_file s = Some f \<and> (\<forall>k. fl_fail f k = None) \<and> fl_seek_fail f = None)"

text \<open>
  A source that can be polled without an error. Under the loop policy the file has a record, and
  either one was emitted since the last rewind or the pass is still at its start.
\<close>

definition readable :: "'f framer \<Rightarrow> nat \<Rightarrow> 'f file_source \<Rightarrow> bool" where
  "readable next_len limit s \<longleftrightarrow>
     source_inv s \<and> no_faults s \<and> \<not> fs_exhausted s
     \<and> well_framed next_len (fs_framer s) limit (drop (fs_off s) (source_data s))
     \<and> (fc_eof_policy (fs_config s) = Loop \<longrightarrow>
          well_framed next_len (fs_framer s) limit (source_data s)
          \<and> split_frames next_len (fs_framer s) (source_data s) \<noteq> []
          \<and> (0 < fs_since_rewind s \<or> fs_off s = 0))"

lemma no_faults_same_file: "fs_file s' = fs_file s \<Longrightarrow> no_faults s' = no_faults s"
  by (simp add: no_faults_def)

lemma emits_max:
  "consume_record len s b = (Inr u, s1, b1) \<Longrightarrow> rb_max_record_size b1 = rb_max_record_size b"
  by (auto simp: consume_record_def batch_try_push_def Let_def batch_push_def
      split: if_splits prod.splits sum.splits push_result.splits)

lemma consume_record_succeeds:
  assumes "batch_inv b" "batch_len b < batch_capacity b" "0 < n" "n \<le> length (fs_buf s)" "n \<le> rb_max_record_size b"
  shows "\<exists>s1 b1. consume_record n s b = (Inr (), s1, b1)"
proof -
  have "fst (batch_push (take n (fs_buf s)) m b) = PushOk" for m
    using batch_push_cases(1) [OF assms(1), of "take n (fs_buf s)" m] assms by simp
  then have "fst (batch_try_push (take n (fs_buf s)) m b) = Inr ()" for m
    using batch_try_push_ok_iff by blast
  then show ?thesis using assms by (auto simp: consume_record_def Let_def split_beta)
qed

lemma handle_eof_succeeds:
  assumes "no_faults s" "fc_eof_policy (fs_config s) = Loop \<Longrightarrow> 0 < fs_since_rewind s"
  shows "\<exists>again r1 s1. handle_eof now rewound s = (Inr again, r1, s1) \<and> no_faults s1
    \<and> fs_since_rewind s1 = (if again then 0 else fs_since_rewind s)"
proof -
  obtain f where f: "fs_file s = Some f" "\<forall>k. fl_fail f k = None" "fl_seek_fail f = None"
    using assms(1) by (auto simp: no_faults_def)
  show ?thesis
  proof (cases "fc_eof_policy (fs_config s)")
    case Loop
    then have "0 < fs_since_rewind s" by (rule assms(2))
    with Loop f show ?thesis
      by (cases rewound) (auto simp: handle_eof_def no_faults_def file_seek_start_def fs_count_def Let_def)
  qed (use f in \<open>auto simp: handle_eof_def no_faults_def fs_count_def\<close>)
qed

context frame_contract
begin

lemma well_framed_decision:
  assumes "ok f" "well_framed next_len f limit (bs @ rest)"
  shows "case fst (next_len f bs) of Inl _ \<Rightarrow> False | Inr None \<Rightarrow> True
    | Inr (Some n) \<Rightarrow> n \<le> limit \<and> well_framed next_len f limit (drop n bs @ rest)"
proof (cases "fst (next_len f bs)")
  case (Inl e)
  from stable_error [OF assms(1) Inl, of rest] assms(2) show ?thesis
    by (simp add: well_framed.simps [of next_len f limit "bs @ rest"])
next
  case (Inr r)
  then show ?thesis
    using stable_some [OF assms(1), of bs _ rest] within [OF assms(1), of bs] assms(2)
    by (cases r) (auto simp: well_framed.simps [of next_len f limit "bs @ rest"] split: if_splits)
qed

lemma frame_loop_succeeds:
  assumes "source_inv s" "batch_inv b" "batch_len b < batch_capacity b" "ok (fs_framer s)"
    "well_framed next_len (fs_framer s) (rb_max_record_size b) (fs_buf s @ y)"
  shows "\<exists>r s' b'. frame_loop next_len s b = (Inr r, s', b')
    \<and> well_framed next_len (fs_framer s) (rb_max_record_size b) (fs_buf s' @ y)
    \<and> rb_max_record_size b' = rb_max_record_size b \<and> fs_framer s' = fs_framer s"
  using assms
proof (induction "length (fs_buf s)" arbitrary: s b rule: less_induct)
  case less
  obtain d f1 where d: "next_len (fs_framer s) (fs_buf s) = (d, f1)" by fastforce
  then have f1: "f1 = fs_framer s" using pure [of "fs_framer s" "fs_buf s"] by simp
  have upd: "s\<lparr>fs_framer := fs_framer s\<rparr> = s" by simp
  note wf = well_framed_decision [OF less.prems(4,5)]
  show ?case
  proof (cases "fs_buf s = [] \<or> d = Inr None")
    case True
    then have "frame_loop next_len s b = (Inr NeedData, s, b)"
      using d f1 by (subst frame_loop.simps) (auto simp: frame_step_def)
    then show ?thesis using less.prems by simp
  next
    case False
    then obtain n where n: "d = Inr (Some n)" "n \<le> rb_max_record_size b"
      "well_framed next_len (fs_framer s) (rb_max_record_size b) (drop n (fs_buf s) @ y)"
      using wf d by (auto split: sum.splits option.splits)
    have "0 < n" "n \<le> length (fs_buf s)"
      using positive [OF less.prems(4), of "fs_buf s" n] within [OF less.prems(4), of "fs_buf s" n] d n(1)
      by simp_all
    then obtain s1 b1 where c: "consume_record n s b = (Inr (), s1, b1)"
      using consume_record_succeeds [OF less.prems(2,3) _ _ n(2)] by blast
    note ce = consume_record_emits [OF c less.prems(1,2)] and mx = emits_max [OF c]
    have e: "fs_framer s1 = fs_framer s" "batch_inv b1" using ce by (auto simp: emits_def)
    show ?thesis
    proof (cases "batch_len b1 \<ge> batch_capacity b1")
      case True
      then have "frame_loop next_len s b = (Inr BatchFull, s1, b1)"
        using False d f1 n c by (subst frame_loop.simps) (simp add: frame_step_def)
      then show ?thesis using n ce e mx by simp
    next
      case F: False
      then have eq: "frame_loop next_len s b = frame_loop next_len s1 b1"
        using False d f1 n c by (subst frame_loop.simps) (simp add: frame_step_def)
      have "length (fs_buf s1) < length (fs_buf s)" using ce by auto
      from less.hyps [OF this, of b1] show ?thesis
        using ce e mx n F less.prems(4) eq by simp
    qed
  qed
qed

lemma poll_step_succeeds:
  assumes rd: "readable next_len (rb_max_record_size b) s" and b: "batch_inv b" and okf: "ok (fs_framer s)"
    and st: "poll_step next_len now rewound s b = (ex, r1, s1, b1)"
  shows "(ex = None \<or> ex = Some (Inr ())) \<and> rb_max_record_size b1 = rb_max_record_size b
    \<and> (\<not> fs_exhausted s1 \<longrightarrow> readable next_len (rb_max_record_size b) s1)"
proof (cases "batch_len b < batch_capacity b")
  case False
  then show ?thesis using st rd by (auto simp: poll_step_def)
next
  case True
  have inv: "source_inv s" and nf: "no_faults s" and nex: "\<not> fs_exhausted s"
    and wf: "well_framed next_len (fs_framer s) (rb_max_record_size b) (drop (fs_off s) (source_data s))"
    and lp: "fc_eof_policy (fs_config s) = Loop \<longrightarrow>
          well_framed next_len (fs_framer s) (rb_max_record_size b) (source_data s)
          \<and> split_frames next_len (fs_framer s) (source_data s) \<noteq> []
          \<and> (0 < fs_since_rewind s \<or> fs_off s = 0)"
    using rd by (auto simp: readable_def)
  let ?y = "drop (source_pos s) (source_data s)"
  from frame_loop_succeeds [OF inv b True okf, of ?y] wf source_stream [OF inv] obtain r s2 b2 where
    fl: "frame_loop next_len s b = (Inr r, s2, b2)"
    and wf2: "well_framed next_len (fs_framer s) (rb_max_record_size b) (fs_buf s2 @ ?y)"
    and mx: "rb_max_record_size b2 = rb_max_record_size b"
    by auto
  from frame_loop_emits [OF fl inv b True okf] obtain ms where
    e: "emits s b ms s2 b2" and i2: "source_inv s2" and same: "fs_file s2 = fs_file s" "fs_loops s2 = fs_loops s"
      "fs_exhausted s2 = fs_exhausted s" "fs_since_rewind s2 = fs_since_rewind s + length ms"
    and off: "ms = [] \<longrightarrow> fs_off s2 = fs_off s"
    and sp: "split_frames next_len (fs_framer s) (fs_buf s @ ?y)
          = map fst ms @ split_frames next_len (fs_framer s) (fs_buf s2 @ ?y)"
    and rc: "case r of NeedData \<Rightarrow> batch_len b2 < batch_capacity b \<and> fst (next_len (fs_framer s) (fs_buf s2)) = Inr None
        | BatchFull \<Rightarrow> batch_len b2 = batch_capacity b"
    by blast
  have pres: "fs_framer s2 = fs_framer s" "fs_config s2 = fs_config s" "source_data s2 = source_data s"
    "source_pos s2 = source_pos s" "batch_inv b2" "no_faults s2"
    using e same no_faults_same_file [OF same(1)] nf by (auto simp: emits_def source_pos_def)
  have since2: "fc_eof_policy (fs_config s) = Loop \<Longrightarrow> 0 < fs_since_rewind s2 \<or> fs_off s2 = 0"
    using lp same(4) off by (cases ms) auto
  have rd2: "readable next_len (rb_max_record_size b) s2"
    using wf2 source_stream [OF i2] pres i2 nex same lp since2 by (auto simp: readable_def)
  show ?thesis
  proof (cases r)
    case BatchFull
    then show ?thesis using st True fl rd2 mx by (auto simp: poll_step_def)
  next
    case NeedData
    obtain got s3 where fb: "fill_buf s2 = (got, s3)" by fastforce
    obtain mr where mr: "got = Inr mr" and nf3: "no_faults s3"
      using fb pres(6) by (auto simp: no_faults_def fill_buf_def file_read_def fs_count_def Let_def)
    note f3 = fill_buf_result [OF fb [unfolded mr] i2]
    have rd3: "readable next_len (rb_max_record_size b) s3"
      using rd2 f3 nf3 by (simp add: readable_def)
    show ?thesis
    proof (cases mr)
      case True
      then show ?thesis
        using st \<open>batch_len b < batch_capacity b\<close> fl NeedData fb mr rd3 mx by (auto simp: poll_step_def)
    next
      case False
      have "drop (fs_off s3) (source_data s3) = fs_buf s3"
        using source_stream [of s3] f3 False by simp
      then have none: "split_frames next_len (fs_framer s3) (drop (fs_off s3) (source_data s3)) = []"
        using rc NeedData f3 pres False split_frames_stop by simp
      have since3: "fc_eof_policy (fs_config s3) = Loop \<Longrightarrow> 0 < fs_since_rewind s3"
        using rd3 none by (auto simp: readable_def)
      obtain ag r4 s4 where eof: "handle_eof now rewound s3 = (Inr ag, r4, s4)"
        and nf4: "no_faults s4"
        and since4: "fs_since_rewind s4 = (if ag then 0 else fs_since_rewind s3)"
        using handle_eof_succeeds [OF nf3 since3] by blast
      have "\<not> fs_exhausted s3" using rd3 by (simp add: readable_def)
      note e4 = eof_result [OF eof conjunct1 [OF f3] this]
      have rd4: "readable next_len (rb_max_record_size b) s4" if "\<not> fs_exhausted s4"
        using that e4 rd3 nf4 since4 by (cases ag) (auto simp: readable_def)
      show ?thesis
        using st True fl NeedData fb mr False eof rd4 mx by (cases ag) (auto simp: poll_step_def)
    qed
  qed
qed

lemma poll_loop_succeeds:
  assumes "readable next_len (rb_max_record_size b) s" "batch_inv b" "ok (fs_framer s)"
    "fs_loops s + of_bool (\<not> rewound) = L"
  shows "\<exists>s' b'. poll_loop next_len now rewound s b = (Inr (), s', b')
    \<and> (\<not> fs_exhausted s' \<longrightarrow> readable next_len (rb_max_record_size b) s')
    \<and> rb_max_record_size b' = rb_max_record_size b"
  using assms
proof (induction nl \<equiv> next_len now rewound s b rule: poll_loop.induct)
  case (1 now rewound s b)
  obtain ex r1 s1 b1 where st: "poll_step next_len now rewound s b = (ex, r1, s1, b1)" by (metis prod_cases4)
  note ps = poll_step_succeeds [OF 1(2-4) st]
  show ?case
  proof (cases ex)
    case (Some r)
    then show ?thesis using ps st by (auto simp: poll_loop.simps [of next_len now rewound])
  next
    case None
    have "source_inv s" "\<not> fs_exhausted s" using 1(2) by (simp_all add: readable_def)
    from poll_step_emits [OF st conjunct1 [OF ps] this(1) 1(3,4) this(2) 1(5)] None obtain ms where
      e: "emits s b ms s1 b1" and n: "\<not> fs_exhausted s1" "fs_loops s1 + of_bool (\<not> r1) = L" by auto
    have e1: "batch_inv b1" "ok (fs_framer s1)" using e 1(4) by (auto simp: emits_def)
    have "poll_loop next_len now rewound s b = poll_loop next_len now r1 s1 b1"
      using st None by (simp add: poll_loop.simps [of next_len now rewound])
    then show ?thesis
      using 1(1) [OF st [symmetric, unfolded None] refl refl refl] ps n e1 by auto
  qed
qed

end

section \<open>Properties\<close>

lemma poll_batch_ready:
  assumes "fs_initialized s" "\<not> fs_exhausted s" "case fs_follow_next s of None \<Rightarrow> True | Some due \<Rightarrow> due \<le> now"
  shows "poll_batch next_len now now_eof s b =
    (let (r, s1, b1) = poll_loop next_len now_eof False (s\<lparr>fs_follow_next := None\<rparr>) b
     in (map_sum id (\<lambda>_. batch_len b1 - batch_len b) r, s1, b1))"
proof (cases "fs_follow_next s")
  case None
  then have "s\<lparr>fs_follow_next := None\<rparr> = s" by simp
  from assms None show ?thesis by (simp add: poll_batch_def \<open>s\<lparr>fs_follow_next := None\<rparr> = s\<close>)
next
  case (Some due)
  then show ?thesis using assms by (simp add: poll_batch_def)
qed

lemma readable_follow [simp]:
  "readable next_len m (s\<lparr>fs_follow_next := v\<rparr>) = readable next_len m s"
  by (simp add: readable_def source_inv_def source_pos_def source_data_def no_faults_def)

lemma frames_ahead_follow [simp]:
  "frames_ahead next_len L x (s\<lparr>fs_follow_next := v\<rparr>) = frames_ahead next_len L x s"
  by (simp add: frames_ahead_def source_data_def Let_def)

lemma emits_follow:
  "emits (s\<lparr>fs_follow_next := None\<rparr>) b ms s' b' \<Longrightarrow> fs_follow_next s = None \<or> fc_eof_policy (fs_config s) \<noteq> Stop
    \<Longrightarrow> emits s b ms s' b'"
  by (auto simp: emits_def source_data_def)

context frame_contract
begin

lemma poll_batch_result:
  assumes "ok (fs_framer s)" "readable next_len (rb_max_record_size b) s" "batch_inv b" "fs_initialized s"
    "case fs_follow_next s of None \<Rightarrow> True | Some due \<Rightarrow> due \<le> now \<and> fc_eof_policy (fs_config s) \<noteq> Stop"
  shows "\<exists>ms s' b'. poll_batch next_len now now_eof s b = (Inr (length ms), s', b') \<and> emits s b ms s' b'
    \<and> (\<forall>x. frames_ahead next_len (Suc (fs_loops s)) x s
          = map fst ms @ frames_ahead next_len (Suc (fs_loops s)) x s')
    \<and> (batch_len b' < batch_capacity b \<longrightarrow> frames_ahead next_len (Suc (fs_loops s)) [] s' = []
          \<and> (fc_eof_policy (fs_config s) = Stop \<longrightarrow> fs_exhausted s'))
    \<and> (\<not> fs_exhausted s' \<longrightarrow> readable next_len (rb_max_record_size b) s')
    \<and> rb_max_record_size b' = rb_max_record_size b"
proof -
  let ?s = "s\<lparr>fs_follow_next := None\<rparr>"
  have rd: "readable next_len (rb_max_record_size b) ?s" using assms(2) by simp
  have L: "fs_loops ?s + of_bool (\<not> False) = Suc (fs_loops s)" by simp
  have okf: "ok (fs_framer ?s)" using assms(1) by simp
  obtain s' b' where p: "poll_loop next_len now_eof False ?s b = (Inr (), s', b')"
    and r: "\<not> fs_exhausted s' \<longrightarrow> readable next_len (rb_max_record_size b) s'"
      "rb_max_record_size b' = rb_max_record_size b"
    using poll_loop_succeeds [OF rd assms(3) okf L] by blast
  have "source_inv ?s" "\<not> fs_exhausted ?s" using rd unfolding readable_def by blast+
  from poll_loop_emits [OF p this(1) assms(3) okf this(2) L] obtain ms where
    e: "emits ?s b ms s' b'"
    and a: "\<And>x. frames_ahead next_len (Suc (fs_loops s)) x ?s
          = map fst ms @ frames_ahead next_len (Suc (fs_loops s)) x s'"
    and d: "batch_len b' < batch_capacity b \<longrightarrow> frames_ahead next_len (Suc (fs_loops s)) [] s' = []
          \<and> (fc_eof_policy (fs_config ?s) = Stop \<longrightarrow> fs_exhausted s')" by blast
  have "\<not> fs_exhausted s" using assms(2) by (simp add: readable_def)
  moreover have "case fs_follow_next s of None \<Rightarrow> True | Some due \<Rightarrow> due \<le> now"
    using assms(5) by (auto split: option.splits)
  ultimately have "poll_batch next_len now now_eof s b = (Inr (length ms), s', b')"
    using poll_batch_ready [OF assms(4)] p emits_len [OF e] by simp
  moreover have "emits s b ms s' b'"
    using emits_follow [OF e] assms(5) by (auto split: option.splits)
  ultimately show ?thesis using a d r
    by (intro exI [of _ ms] exI [of _ s'] exI [of _ b']) simp
qed

end

text \<open>A caller's polling loop, with a reset batch and the clock readings of each poll.\<close>

fun polls :: "'f framer \<Rightarrow> (nat \<times> nat) list \<Rightarrow> 'f file_source \<Rightarrow> record_batch \<Rightarrow> bytes list \<times> 'f file_source"
where
  "polls next_len [] s b = ([], s)"
| "polls next_len ((now, now_eof) # ts) s b =
     (case poll_batch next_len now now_eof s (batch_reset b) of
        (Inl _, s1, b1) \<Rightarrow> ([], s1)
      | (Inr _, s1, b1) \<Rightarrow>
          (let (out, s2) = polls next_len ts s1 b1 in (map fst (batch_records b1) @ out, s2)))"

lemma poll_exhausted: "fs_exhausted s \<Longrightarrow> fs_initialized s \<Longrightarrow> poll_batch next_len now now_eof s b = (Inr 0, s, b)"
  by (simp add: poll_batch_def)

lemma polls_exhausted:
  assumes "fs_exhausted s" "fs_initialized s"
  shows "polls next_len ts s b = ([], s)"
proof (induction ts arbitrary: b)
  case (Cons t ts)
  then show ?case using assms by (cases t) (simp add: poll_exhausted)
qed simp

context frame_contract
begin

lemma polls_stop:
  assumes "ok (fs_framer s)" "readable next_len (rb_max_record_size b) s" "batch_inv b" "fs_initialized s"
    "fc_eof_policy (fs_config s) = Stop" "fs_follow_next s = None" "0 < batch_capacity b"
    "length (frames_ahead next_len (Suc (fs_loops s)) [] s) < length ts"
  shows "fst (polls next_len ts s b) = frames_ahead next_len (Suc (fs_loops s)) [] s
    \<and> fs_exhausted (snd (polls next_len ts s b))"
  using assms
proof (induction ts arbitrary: s b)
  case Nil
  then show ?case by simp
next
  case (Cons t ts)
  obtain now now_eof where t: "t = (now, now_eof)" by fastforce
  have b0: "batch_inv (batch_reset b)" "rb_max_record_size (batch_reset b) = rb_max_record_size b"
    "batch_len (batch_reset b) = 0"
    using batch_inv_reset [OF Cons.prems(3)] by (simp_all add: batch_reset_def batch_len_def)
  have "readable next_len (rb_max_record_size (batch_reset b)) s"
    "case fs_follow_next s of None \<Rightarrow> True | Some due \<Rightarrow> due \<le> now \<and> fc_eof_policy (fs_config s) \<noteq> Stop"
    using Cons.prems b0 by simp_all
  from poll_batch_result [OF Cons.prems(1) this(1) b0(1) Cons.prems(4) this(2), of now_eof] obtain ms s' b' where
    p: "poll_batch next_len now now_eof s (batch_reset b) = (Inr (length ms), s', b')"
    and e: "emits s (batch_reset b) ms s' b'"
    and a: "frames_ahead next_len (Suc (fs_loops s)) [] s = map fst ms @ frames_ahead next_len (Suc (fs_loops s)) [] s'"
    and d: "batch_len b' < batch_capacity b \<longrightarrow> fs_exhausted s'"
    and r: "\<not> fs_exhausted s' \<longrightarrow> readable next_len (rb_max_record_size b) s'"
      "rb_max_record_size b' = rb_max_record_size b"
    using Cons.prems(5) b0 by auto
  have e': "batch_records b' = ms" "batch_inv b'" "batch_capacity b' = batch_capacity b"
    "fs_config s' = fs_config s" "fs_framer s' = fs_framer s" "fs_initialized s'" "fs_follow_next s' = None"
    "batch_len b' = length ms"
    using e Cons.prems emits_len [OF e] b0 by (auto simp: emits_def)
  have nl: "frames_ahead next_len L x s' = frames_ahead next_len L' x s'" for L L' x
    using e'(4) Cons.prems(5) by (simp add: frames_ahead_def)
  show ?case
  proof (cases "fs_exhausted s'")
    case True
    then have "frames_ahead next_len (Suc (fs_loops s)) [] s' = []"
      using e'(4) Cons.prems(5) by (simp add: frames_ahead_def)
    then show ?thesis using p a e'(1) polls_exhausted [OF True e'(6)] t True by simp
  next
    case False
    then have "1 \<le> length ms" using d e'(8) Cons.prems(7) by (cases ms) auto
    then have "length (frames_ahead next_len (Suc (fs_loops s')) [] s') < length ts"
      unfolding One_nat_def using Cons.prems(8) a nl [of "Suc (fs_loops s)" "[]" "Suc (fs_loops s')"] by simp
    from Cons.IH [OF _ _ e'(2) e'(6) _ e'(7) _ this] show ?thesis
      using p a e' r False t Cons.prems nl [of "Suc (fs_loops s)" "[]" "Suc (fs_loops s')"]
      by (simp add: split_beta)
  qed
qed

end


text \<open>
  (C9) A poll of a healthy source succeeds and emits exactly the next frames of the stream as the
  reference cuts it, whatever the size of the reads, the batch and what is buffered: record
  indices are consecutive, every record is the slice of the file at its offset, what the poll
  leaves is what the reference has left (also when the file grows later under the follow
  policy), and a batch that is not full means that nothing complete is left.
\<close>

theorem poll_batch_frames:
  assumes "frame_contract next_len ok" "ok (fs_framer s)" "readable next_len (rb_max_record_size b) s"
    "batch_inv b" "fs_initialized s"
    "case fs_follow_next s of None \<Rightarrow> True | Some due \<Rightarrow> due \<le> now \<and> fc_eof_policy (fs_config s) \<noteq> Stop"
  shows "\<exists>ms s' b'. poll_batch next_len now now_eof s b = (Inr (length ms), s', b') \<and> emits s b ms s' b'
    \<and> (\<forall>x. frames_ahead next_len (Suc (fs_loops s)) x s
          = map fst ms @ frames_ahead next_len (Suc (fs_loops s)) x s')
    \<and> (batch_len b' < batch_capacity b \<longrightarrow> frames_ahead next_len (Suc (fs_loops s)) [] s' = []
          \<and> (fc_eof_policy (fs_config s) = Stop \<longrightarrow> fs_exhausted s'))"
  using frame_contract.poll_batch_result [OF assms, of now_eof] by blast

definition example_file :: os_file where
  "example_file = \<lparr>fl_data = [97, 10, 98, 99, 10, 100], fl_pos = 0, fl_reads = 0, fl_short = (\<lambda>_. 0),
     fl_fail = (\<lambda>_. None), fl_seek_fail = None\<rparr>"

definition example_config :: file_config where
  "example_config = file_config_default\<lparr>fc_batch_size := 2, fc_max_record_size := 8\<rparr>"

definition example_framer :: delimiter where "example_framer = Delimiter 10 8"

definition example_source :: "delimiter file_source" where
  "example_source = snd (file_source_init (\<lambda>_. Inr example_file) (file_source_new example_config example_framer))"

lemma example_frames:
  "split_frames next_record_len_delim example_framer [97, 10, 98, 99, 10, 100] = [[97, 10], [98, 99, 10]]"
  "well_framed next_record_len_delim example_framer 8 [97, 10, 98, 99, 10, 100]"
  by (simp_all add: split_frames.simps well_framed.simps next_record_len_delim_def example_framer_def)

definition file_example_batch :: record_batch where
  "file_example_batch = the (file_config_new_batch example_config)"

lemma file_example_batch_facts:
  "file_config_new_batch example_config = Some file_example_batch" "batch_inv file_example_batch"
  "batch_records file_example_batch = []" "batch_capacity file_example_batch = 2"
  "rb_max_record_size file_example_batch = 8" "batch_len file_example_batch = 0"
proof -
  obtain b where b: "file_config_new_batch example_config = Some b" "batch_inv b" "batch_records b = []"
    "batch_capacity b = 2" "rb_max_record_size b = 8"
    using new_batch_some [of example_config] by (auto simp: example_config_def)
  have "file_example_batch = b" using b(1) by (simp add: file_example_batch_def)
  then show "file_config_new_batch example_config = Some file_example_batch" "batch_inv file_example_batch"
    "batch_records file_example_batch = []" "batch_capacity file_example_batch = 2"
    "rb_max_record_size file_example_batch = 8" "batch_len file_example_batch = 0"
    using b length_batch_records [of b] by (simp_all add: batch_len_def)
qed

lemma example_source_ready:
  "readable next_record_len_delim (rb_max_record_size file_example_batch) example_source"
  "fs_initialized example_source" "fs_framer example_source = example_framer" "fs_follow_next example_source = None"
  by (simp_all add: readable_def source_inv_def no_faults_def source_data_def source_pos_def example_source_def
      file_source_init_def file_source_new_def example_file_def example_frames file_example_batch_facts
      example_config_def file_config_default_def)

lemma poll_batch_frames_witness:
  "\<exists>s' b'. poll_batch next_record_len_delim 0 0 example_source file_example_batch = (Inr 2, s', b')
     \<and> map fst (batch_records b') = [[97, 10], [98, 99, 10]]"
proof -
  have ahead: "frames_ahead next_record_len_delim L [] example_source = [[97, 10], [98, 99, 10]]" for L
    by (simp add: frames_ahead_def example_source_def file_source_init_def file_source_new_def source_data_def
        example_file_def example_config_def file_config_default_def example_frames)
  have "0 < max_len (fs_framer example_source)"
    by (simp add: example_source_ready example_framer_def)
  from poll_batch_frames [OF delim.frame_contract_axioms this example_source_ready(1) file_example_batch_facts(2)
      example_source_ready(2), of 0 0] obtain ms s' b' where
    p: "poll_batch next_record_len_delim 0 0 example_source file_example_batch = (Inr (length ms), s', b')"
    and e: "emits example_source file_example_batch ms s' b'"
    and a: "\<forall>x. frames_ahead next_record_len_delim (Suc (fs_loops example_source)) x example_source
          = map fst ms @ frames_ahead next_record_len_delim (Suc (fs_loops example_source)) x s'"
    and d: "batch_len b' < 2 \<longrightarrow> frames_ahead next_record_len_delim (Suc (fs_loops example_source)) [] s' = []"
    by (auto simp: example_source_ready file_example_batch_facts)
  have len: "batch_len b' = length ms" "batch_records b' = ms"
    using e emits_len [OF e] file_example_batch_facts by (simp_all add: emits_def)
  have cut: "[[97, 10], [98, 99, 10]] = map fst ms @ frames_ahead next_record_len_delim (Suc (fs_loops example_source)) [] s'"
    using a [rule_format, of "[]"] ahead by simp
  have "length ms \<le> batch_capacity b'"
    using e len by (simp add: emits_def batch_inv_def batch_len_def batch_capacity_def)
  then have "length ms \<le> 2" using e file_example_batch_facts by (simp add: emits_def)
  with cut d len have "map fst ms = [[97, 10], [98, 99, 10]]"
    by (cases "length ms = 2") (auto simp: append_eq_conv_conj dest: arg_cong [where f = length])
  moreover from this have "length ms = 2" using length_map [of fst ms] by simp
  ultimately show ?thesis using p len by auto
qed

text \<open>
  (C10) Under the stop policy the caller's polling loop reads the whole file: after opening it,
  polling more often than there are frames delivers exactly the frames of the reference, each
  once and in order, and ends exhausted. It needs a file that reads without error and that the
  framer accepts within the size limit, nothing about the sizes of reads and batches.
\<close>

theorem file_source_reads_all:
  assumes "frame_contract next_len ok" "ok framer" "open_file (fc_path c) = Inr file"
    "fl_pos file = 0" "\<forall>k. fl_fail file k = None" "fl_seek_fail file = None" "fc_eof_policy c = Stop"
    "well_framed next_len framer (max (fc_max_record_size c) 1) (fl_data file)"
    "file_config_new_batch c = Some b"
    "length (split_frames next_len framer (fl_data file)) < length ts"
  shows "\<exists>s. file_source_init open_file (file_source_new c framer) = (Inr (), s)
    \<and> fst (polls next_len ts s b) = split_frames next_len framer (fl_data file)
    \<and> fs_exhausted (snd (polls next_len ts s b))"
proof -
  define s where "s = snd (file_source_init open_file (file_source_new c framer))"
  have s: "file_source_init open_file (file_source_new c framer) = (Inr (), s)"
    and f: "fs_file s = Some file" "fs_framer s = framer" "fs_config s = c" "fs_off s = 0" "fs_buf s = []"
      "\<not> fs_exhausted s" "fs_initialized s" "fs_follow_next s = None"
    using assms(3) by (auto simp: s_def file_source_init_def file_source_new_def)
  have b: "batch_inv b" "0 < batch_capacity b" "rb_max_record_size b = max (fc_max_record_size c) 1"
    using new_batch_some [of c] assms(9) by auto
  have rd: "readable next_len (rb_max_record_size b) s"
    using assms(4-8) f b(3)
    by (simp add: readable_def source_inv_def no_faults_def source_data_def source_pos_def)
  have ahead: "frames_ahead next_len L [] s = split_frames next_len framer (fl_data file)" for L
    using f assms(7) by (simp add: frames_ahead_def source_data_def)
  have "ok (fs_framer s)" using assms(2) f by simp
  from frame_contract.polls_stop [OF assms(1) this rd b(1) f(7) _ f(8) b(2), of ts] ahead assms(7,10) f(3) s show ?thesis by simp
qed

lemma file_source_reads_all_witness:
  "\<exists>s. fst (polls next_record_len_delim [(0, 0), (0, 0), (0, 0)] s file_example_batch) = [[97, 10], [98, 99, 10]]"
proof -
  have "(\<lambda>_. Inr example_file) (fc_path example_config) = (Inr example_file :: (io_kind \<times> string) + os_file)"
    "0 < max_len example_framer" "fc_max_record_size example_config = 8" "fc_eof_policy example_config = Stop"
    by (simp_all add: example_framer_def example_config_def file_config_default_def)
  from file_source_reads_all [OF delim.frame_contract_axioms this(2,1) _ _ _ this(4) _ file_example_batch_facts(1),
      of "[(0, 0), (0, 0), (0, 0)]"] this show ?thesis
    by (auto simp: example_file_def example_frames)
qed

text \<open>
  (C11) A failed read corrupts the stream: the chunk of zeros by which the buffer was extended
  stays in it, so that the next poll (a retry, since an interrupted or blocked read is reported
  as back pressure) emits a record of zeros which the file does not hold.
\<close>

theorem failed_read_forges_record:
  assumes "fs_file s = Some f" "fl_fail f (fl_reads f) = Some (k, m)" "fs_buf s = []"
    "fs_framer s = FixedLength n" "0 < n" "n \<le> READ_CHUNK" "n \<le> rb_max_record_size b"
    "batch_inv b" "batch_records b = []" "batch_capacity b = 1"
    "fs_initialized s" "\<not> fs_exhausted s" "fs_follow_next s = None"
  shows "\<exists>s1 s2 b2. poll_batch next_record_len_fixed t t s b = (Inl (error_from_io k m), s1, b)
    \<and> poll_batch next_record_len_fixed t' t' s1 b = (Inr 1, s2, b2)
    \<and> map fst (batch_records b2) = [replicate n 0]"
proof -
  define s1 where "s1 = s\<lparr>fs_buf := replicate READ_CHUNK 0, fs_file := Some (f\<lparr>fl_reads := fl_reads f + 1\<rparr>)\<rparr>"
  have len: "batch_len b = 0" using assms(9) length_batch_records [of b] by (simp add: batch_len_def)
  have fl: "frame_loop next_record_len_fixed s b = (Inr NeedData, s, b)"
    using assms(3) by (subst frame_loop.simps) (simp add: frame_step_def)
  have "fill_buf s = (Inl (error_from_io k m), s1)"
    using assms(1-3) by (simp add: fill_buf_def file_read_def s1_def Let_def)
  then have "poll_loop next_record_len_fixed t False s b = (Inl (error_from_io k m), s1, b)"
    using fl len assms(10) by (subst poll_loop.simps) (simp add: poll_step_def)
  then have p1: "poll_batch next_record_len_fixed t t s b = (Inl (error_from_io k m), s1, b)"
    using assms(11-13) by (simp add: poll_batch_def)
  have ne: "replicate READ_CHUNK (0 :: 8 word) \<noteq> []" by (simp add: READ_CHUNK_def)
  have buf: "fs_buf s1 = replicate READ_CHUNK 0" "fs_framer s1 = FixedLength n" "fs_initialized s1"
    "\<not> fs_exhausted s1" "fs_follow_next s1 = None"
    using assms by (simp_all add: s1_def)
  from consume_record_succeeds [of b n s1] obtain s2 b2 where
    c: "consume_record n s1 b = (Inr (), s2, b2)" using assms len buf by auto
  then have b2: "batch_records b2 = batch_records b @ [(take n (fs_buf s1), \<lparr>file_offset = fs_off s1,
      timestamp_ns = 0, record_index = fs_index s1\<rparr>)]" "batch_capacity b2 = batch_capacity b"
    using consume_record_batch [OF c assms(8)] by simp_all
  have l2: "batch_len b2 = 1" using b2(1) length_batch_records [of b2] assms(9) by (simp add: batch_len_def)
  have upd: "s1\<lparr>fs_framer := FixedLength n\<rparr> = s1" using buf(2) by simp
  have "frame_loop next_record_len_fixed s1 b = (Inr BatchFull, s2, b2)"
    using buf ne c b2 l2 assms(6,10)
    by (subst frame_loop.simps) (simp add: frame_step_def next_record_len_fixed_def upd)
  then have "poll_loop next_record_len_fixed t' False s1 b = (Inr (), s2, b2)"
    using len assms(10) by (subst poll_loop.simps) (simp add: poll_step_def)
  then have "poll_batch next_record_len_fixed t' t' s1 b = (Inr 1, s2, b2)"
    using buf l2 len by (simp add: poll_batch_def)
  moreover have "map fst (batch_records b2) = [replicate n 0]"
    using b2 assms(6,9) buf(1) by (simp add: min_def)
  ultimately show ?thesis using p1 by (intro exI [of _ s1] exI [of _ s2] exI [of _ b2]) simp
qed


lemma failed_read_forges_record_witness:
  "\<exists>s s1 s2 b b1 b2. source_data s = [1, 2] \<and> isl (fst (poll_batch next_record_len_fixed 0 0 s b))
     \<and> poll_batch next_record_len_fixed 0 0 s b = (Inl (error_from_io Interrupted ''EINTR''), s1, b1)
     \<and> poll_batch next_record_len_fixed 0 0 s1 b1 = (Inr 1, s2, b2) \<and> map fst (batch_records b2) = [[0, 0]]"
proof -
  define f where "f = example_file\<lparr>fl_data := [1, 2], fl_fail := (\<lambda>k. if k = 0 then Some (Interrupted, ''EINTR'') else None)\<rparr>"
  define s where "s = snd (file_source_init (\<lambda>_. Inr f) (file_source_new example_config (FixedLength 2)))"
  obtain b where b: "record_batch_new 1 8 = Some b" "batch_inv b" "batch_capacity b = 1" "rb_max_record_size b = 8"
    "batch_records b = []"
    by (auto simp: record_batch_new_def batch_inv_def batch_capacity_def batch_records_def)
  have s: "fs_file s = Some f" "fs_buf s = []" "fs_framer s = FixedLength 2" "fs_initialized s" "\<not> fs_exhausted s"
    "fs_follow_next s = None" "source_data s = [1, 2]"
    by (simp_all add: s_def file_source_init_def file_source_new_def source_data_def f_def)
  have "fl_fail f (fl_reads f) = Some (Interrupted, ''EINTR'')" by (simp add: f_def example_file_def)
  from failed_read_forges_record [OF s(1) this s(2,3) _ _ _ b(2,5,3) s(4-6), of 0 0] show ?thesis
    using s(7) b(4) by (force simp: READ_CHUNK_def numeral_2_eq_2)
qed

end
