(* ===== verification/Net_Batch.thy ===== *)
theory Net_Batch
  imports Core
begin

text \<open>
  The reusable packet batch of \<open>crates/flyby-net/src/batch.rs\<close>. Unlike the record batch of the
  storage crate it stores an oversized frame truncated to the slot, and keeps the true length
  in the metadata. Cumulative counts are numbers, except \<open>dropped\<close>, which saturates at 64 bits.
\<close>

record packet_meta =
  pm_timestamp_ns :: u64
  pm_queue_id :: u16
  pm_original_len :: u32

definition packet_meta_default :: packet_meta where
  "packet_meta_default = \<lparr>pm_timestamp_ns = 0, pm_queue_id = 0, pm_original_len = 0\<rparr>"

datatype net_push_result = PktOk | PktTruncated | PktFull

record raw_batch =
  nb_bufs :: "bytes list"
  nb_lens :: "nat list"
  nb_meta :: "packet_meta list"
  nb_count :: nat
  nb_max_frame_size :: nat
  nb_received :: nat
  nb_dropped :: u64
  nb_truncated :: nat

text \<open>\<open>new\<close> panics on a zero capacity or frame size.\<close>

definition raw_batch_new :: "nat \<Rightarrow> nat \<Rightarrow> raw_batch option" where
  "raw_batch_new cap max_frame_size =
     (if cap > 0 \<and> max_frame_size > 0
      then Some \<lparr>nb_bufs = replicate cap (replicate max_frame_size 0), nb_lens = replicate cap 0,
             nb_meta = replicate cap packet_meta_default, nb_count = 0,
             nb_max_frame_size = max_frame_size, nb_received = 0, nb_dropped = 0, nb_truncated = 0\<rparr>
      else None)"

definition net_reset :: "raw_batch \<Rightarrow> raw_batch" where
  "net_reset b = b\<lparr>nb_count := 0\<rparr>"

definition net_capacity :: "raw_batch \<Rightarrow> nat" where
  "net_capacity b = length (nb_bufs b)"

definition net_len :: "raw_batch \<Rightarrow> nat" where
  "net_len b = nb_count b"

definition net_is_empty :: "raw_batch \<Rightarrow> bool" where
  "net_is_empty b = (nb_count b = 0)"

definition net_record_drop :: "raw_batch \<Rightarrow> raw_batch" where
  "net_record_drop b = b\<lparr>nb_dropped := saturating_add (nb_dropped b) 1\<rparr>"

definition net_packets :: "raw_batch \<Rightarrow> (bytes \<times> packet_meta) list" where
  "net_packets b = map (\<lambda>i. (take (nb_lens b ! i) (nb_bufs b ! i), nb_meta b ! i)) [0..<nb_count b]"

definition net_packet_mut :: "raw_batch \<Rightarrow> nat \<Rightarrow> (bytes \<times> packet_meta) option" where
  "net_packet_mut b index =
     (if index \<ge> nb_count b then None
      else Some (take (nb_lens b ! index) (nb_bufs b ! index), nb_meta b ! index))"

text \<open>What the batch is after the bytes handed out by \<open>packet_mut\<close> have been overwritten.\<close>

definition net_set_packet :: "nat \<Rightarrow> bytes \<Rightarrow> raw_batch \<Rightarrow> raw_batch" where
  "net_set_packet index data b =
     b\<lparr>nb_bufs := (nb_bufs b)[index := write_at 0 data (nb_bufs b ! index)]\<rparr>"

definition net_truncate :: "nat \<Rightarrow> raw_batch \<Rightarrow> raw_batch" where
  "net_truncate new_len b = (if new_len < nb_count b then b\<lparr>nb_count := new_len\<rparr> else b)"

text \<open>The metadata as stored: the original length is raised to the true one.\<close>

definition stored_meta :: "bytes \<Rightarrow> packet_meta \<Rightarrow> packet_meta" where
  "stored_meta data meta =
     (if pm_original_len meta = 0 \<or> unat (pm_original_len meta) < length data
      then meta\<lparr>pm_original_len := of_nat (min (length data) (2 ^ 32 - 1))\<rparr> else meta)"

definition net_push :: "bytes \<Rightarrow> packet_meta \<Rightarrow> raw_batch \<Rightarrow> net_push_result \<times> raw_batch" where
  "net_push data meta b =
     (if nb_count b \<ge> length (nb_bufs b) then (PktFull, b)
      else
        (let slot = nb_bufs b ! nb_count b;
             true_len = length data;
             copy_len = min true_len (length slot);
             b1 = b\<lparr>nb_bufs := (nb_bufs b)[nb_count b := write_at 0 (take copy_len data) slot],
                    nb_lens := (nb_lens b)[nb_count b := copy_len],
                    nb_meta := (nb_meta b)[nb_count b := stored_meta data meta],
                    nb_count := nb_count b + 1, nb_received := nb_received b + 1\<rparr> in
         if copy_len < true_len then (PktTruncated, b1\<lparr>nb_truncated := nb_truncated b1 + 1\<rparr>)
         else (PktOk, b1)))"

section \<open>Invariant and abstraction\<close>

definition net_inv :: "raw_batch \<Rightarrow> bool" where
  "net_inv b \<longleftrightarrow>
     length (nb_lens b) = length (nb_bufs b) \<and> length (nb_meta b) = length (nb_bufs b)
     \<and> list_all (\<lambda>buf. length buf = nb_max_frame_size b) (nb_bufs b)
     \<and> nb_count b \<le> length (nb_bufs b) \<and> list_all (\<lambda>n. n \<le> nb_max_frame_size b) (nb_lens b)"

lemma net_inv_new [inv_intros]: "raw_batch_new cap m = Some b \<Longrightarrow> net_inv b"
  by (auto simp: raw_batch_new_def net_inv_def list_all_iff split: if_splits)

lemma raw_batch_new_some:
  "0 < cap \<Longrightarrow> 0 < m \<Longrightarrow> \<exists>b. raw_batch_new cap m = Some b \<and> net_inv b \<and> net_packets b = []
     \<and> net_capacity b = cap \<and> nb_max_frame_size b = m"
  by (simp add: raw_batch_new_def net_inv_def net_packets_def net_capacity_def list_all_iff)

lemma net_inv_reset [inv_intros]: "net_inv b \<Longrightarrow> net_inv (net_reset b)"
  by (simp add: net_inv_def net_reset_def)

lemma net_inv_truncate [inv_intros]: "net_inv b \<Longrightarrow> net_inv (net_truncate n b)"
  by (simp add: net_inv_def net_truncate_def)

lemma net_inv_record_drop [inv_intros]: "net_inv b \<Longrightarrow> net_inv (net_record_drop b)"
  by (simp add: net_inv_def net_record_drop_def)

lemma length_net_packets [simp]: "length (net_packets b) = nb_count b"
  by (simp add: net_packets_def)

lemma net_slot_length:
  "net_inv b \<Longrightarrow> nb_count b < length (nb_bufs b) \<Longrightarrow> length (nb_bufs b ! nb_count b) = nb_max_frame_size b"
  by (simp add: net_inv_def list_all_length)

lemma net_packets_simps [simp]:
  "net_packets (net_reset b) = []"
  "net_packets (net_record_drop b) = net_packets b"
  "net_packets (net_truncate n b) = take n (net_packets b)"
  by (simp_all add: net_packets_def net_reset_def net_record_drop_def net_truncate_def take_map)

lemma net_capacity_simps [simp]:
  "net_capacity (net_reset b) = net_capacity b"
  "net_capacity (net_record_drop b) = net_capacity b"
  "net_capacity (snd (net_push data meta b)) = net_capacity b"
  "nb_max_frame_size (net_reset b) = nb_max_frame_size b"
  "nb_max_frame_size (net_record_drop b) = nb_max_frame_size b"
  "nb_max_frame_size (snd (net_push data meta b)) = nb_max_frame_size b"
  "nb_dropped (net_reset b) = nb_dropped b"
  "nb_dropped (snd (net_push data meta b)) = nb_dropped b"
  by (simp_all add: net_capacity_def net_reset_def net_record_drop_def net_push_def Let_def)

lemma net_inv_push [inv_intros]:
  assumes "net_inv b"
  shows "net_inv (snd (net_push data meta b))"
proof (cases "nb_count b < length (nb_bufs b)")
  case True
  then have "length (nb_bufs b ! nb_count b) = nb_max_frame_size b" using assms by (rule net_slot_length [rotated])
  then show ?thesis
    using assms True
    by (auto simp: net_inv_def net_push_def Let_def list_all_length nth_list_update)
qed (use assms in \<open>simp add: net_push_def\<close>)

lemma net_push_cases:
  assumes "net_inv b"
  shows "fst (net_push data meta b) =
      (if net_len b = net_capacity b then PktFull
       else if length data > nb_max_frame_size b then PktTruncated else PktOk)"
    and "net_packets (snd (net_push data meta b)) =
      net_packets b @ (if net_len b = net_capacity b then []
                       else [(take (nb_max_frame_size b) data, stored_meta data meta)])"
proof -
  have le: "nb_count b \<le> length (nb_bufs b)" using assms by (simp add: net_inv_def)
  show "fst (net_push data meta b) =
      (if net_len b = net_capacity b then PktFull
       else if length data > nb_max_frame_size b then PktTruncated else PktOk)"
    using net_slot_length [OF assms] le
    by (auto simp: net_push_def net_len_def net_capacity_def Let_def min_def)
  show "net_packets (snd (net_push data meta b)) =
      net_packets b @ (if net_len b = net_capacity b then []
                       else [(take (nb_max_frame_size b) data, stored_meta data meta)])"
  proof (cases "nb_count b < length (nb_bufs b)")
    case True
    note slot = net_slot_length [OF assms True]
    let ?n = "min (length data) (nb_max_frame_size b)"
    have w: "take (length xs) (write_at 0 xs ys) = xs" for xs ys :: bytes by (simp add: write_at_def)
    have full: "write_at 0 (take (nb_max_frame_size b) data) (nb_bufs b ! nb_count b) = take (nb_max_frame_size b) data"
      if "nb_max_frame_size b < length data" using that slot by (simp add: write_at_def)
    have l: "length (nb_lens b) = length (nb_bufs b)" "length (nb_meta b) = length (nb_bufs b)"
      using assms by (simp_all add: net_inv_def)
    show ?thesis
      using True l slot w [of data] full
      by (cases "nb_max_frame_size b < length data")
        (auto simp: net_push_def net_packets_def net_len_def net_capacity_def Let_def min_def)
  next
    case False
    then show ?thesis using le by (simp add: net_push_def net_len_def net_capacity_def)
  qed
qed

lemma net_push_count:
  "nb_count (snd (net_push data meta b)) = (if nb_count b < length (nb_bufs b) then Suc (nb_count b) else nb_count b)"
  by (simp add: net_push_def Let_def)

section \<open>Properties\<close>

text \<open>
  A packet pushed into a batch with room is always stored, cut to the slot size, and the cut is
  reported and visible in the metadata: the stored original length is the true length (unless
  the caller announced a larger one, or beyond 32 bits); a full batch is left as it was.
\<close>

theorem net_push_outcome:
  assumes "net_inv b" "length data < 2 ^ 32"
  shows "if net_len b = net_capacity b then net_push data meta b = (PktFull, b)
    else fst (net_push data meta b) = (if length data > nb_max_frame_size b then PktTruncated else PktOk)
      \<and> (\<exists>m. net_packets (snd (net_push data meta b))
              = net_packets b @ [(take (nb_max_frame_size b) data, m)]
            \<and> unat (pm_original_len m) = max (unat (pm_original_len meta)) (length data)
            \<and> pm_timestamp_ns m = pm_timestamp_ns meta \<and> pm_queue_id m = pm_queue_id meta)
      \<and> net_inv (snd (net_push data meta b))"
proof (cases "net_len b = net_capacity b")
  case True
  then show ?thesis by (simp add: net_push_def net_len_def net_capacity_def)
next
  case False
  have "unat (of_nat (min (length data) (2 ^ 32 - 1)) :: u32) = length data"
    using assms(2) by (simp add: unat_of_nat)
  then have "unat (pm_original_len (stored_meta data meta)) = max (unat (pm_original_len meta)) (length data)"
    by (auto simp: stored_meta_def max_def)
  moreover have "pm_timestamp_ns (stored_meta data meta) = pm_timestamp_ns meta"
    "pm_queue_id (stored_meta data meta) = pm_queue_id meta"
    by (simp_all add: stored_meta_def)
  ultimately show ?thesis
    using False net_push_cases [OF assms(1), of data meta] net_inv_push [OF assms(1)] by auto
qed

lemma net_push_outcome_witness:
  "\<exists>b. raw_batch_new 1 2 = Some b \<and> fst (net_push [1, 2, 3] packet_meta_default b) = PktTruncated"
proof -
  obtain b where b: "raw_batch_new 1 2 = Some b" "net_inv b" "net_packets b = []" "net_capacity b = 1"
    "nb_max_frame_size b = 2"
    using raw_batch_new_some [of 1 2] by auto
  have "net_len b \<noteq> net_capacity b" using b(3,4) length_net_packets [of b] by (simp add: net_len_def)
  with net_push_outcome [OF b(2), of "[1, 2, 3]" packet_meta_default] b show ?thesis by auto
qed

end
