(* ===== verification/Net_Config.thy ===== *)
theory Net_Config
  imports Core Float64
begin

text \<open>
  Configuration of the network backends (\<open>crates/flyby-net/src/config.rs\<close>), the metric keys
  (\<open>metrics.rs\<close>), the back-pressure policies (\<open>source.rs\<close>) and the AF_XDP and DPDK stubs
  (\<open>af_xdp.rs\<close>, \<open>dpdk.rs\<close>). An \<open>f32\<close> rate is its value widened to \<open>f64\<close>, which is exact.
\<close>

datatype xdp_mode = Copy | ZeroCopy | Auto

definition may_zero_copy :: "xdp_mode \<Rightarrow> bool" where
  "may_zero_copy m = (case m of ZeroCopy \<Rightarrow> True | Auto \<Rightarrow> True | Copy \<Rightarrow> False)"

record xdp_config =
  xc_program :: string
  xc_filter_udp_port :: u16
  xc_attach_mode :: string

definition xdp_config_default :: xdp_config where
  "xdp_config_default = \<lparr>xc_program = ''redirect'', xc_filter_udp_port = 0, xc_attach_mode = ''native''\<rparr>"

record umem_config =
  um_frame_size :: usize
  um_frame_count :: usize

definition umem_config_default :: umem_config where
  "umem_config_default = \<lparr>um_frame_size = 2048, um_frame_count = 4096\<rparr>"

definition umem_validate :: "umem_config \<Rightarrow> unit result" where
  "umem_validate c =
     (if um_frame_size c = 0 \<or> \<not> is_power_of_two (um_frame_size c)
      then Inl (config_error ''umem frame_size must be a non-zero power of two'')
      else if um_frame_count c = 0 \<or> \<not> is_power_of_two (um_frame_count c)
      then Inl (config_error ''umem frame_count must be a non-zero power of two'')
      else Inr ())"

record af_xdp_config =
  ax_interface :: string
  ax_queue_id :: u32
  ax_mode :: xdp_mode
  ax_poll_budget :: nat
  ax_xdp :: xdp_config
  ax_umem :: umem_config

definition af_xdp_config_default :: af_xdp_config where
  "af_xdp_config_default =
     \<lparr>ax_interface = ''eth0'', ax_queue_id = 0, ax_mode = Copy, ax_poll_budget = 64,
      ax_xdp = xdp_config_default, ax_umem = umem_config_default\<rparr>"

definition af_xdp_validate :: "af_xdp_config \<Rightarrow> unit result" where
  "af_xdp_validate c =
     (if ax_interface c = [] then Inl (config_error ''interface must not be empty'')
      else if ax_poll_budget c = 0 then Inl (config_error ''poll_budget must be > 0'')
      else case umem_validate (ax_umem c) of Inl e \<Rightarrow> Inl e | Inr _ \<Rightarrow> Inr ())"

record dpdk_config =
  dp_pci_addr :: string
  dp_core_mask :: string
  dp_hugepage_count :: nat
  dp_rx_queue_id :: u16
  dp_burst_size :: u16

definition dpdk_config_default :: dpdk_config where
  "dpdk_config_default =
     \<lparr>dp_pci_addr = [], dp_core_mask = ''0x1'', dp_hugepage_count = 512, dp_rx_queue_id = 0,
      dp_burst_size = 32\<rparr>"

definition dpdk_validate :: "dpdk_config \<Rightarrow> unit result" where
  "dpdk_validate c =
     (if dp_pci_addr c = [] then Inl (config_error ''pci_addr must not be empty'')
      else if dp_burst_size c = 0 then Inl (config_error ''burst_size must be > 0'')
      else Inr ())"

record sim_net_config =
  sn_payload_size :: nat
  sn_batch_size :: nat
  sn_idle_rate :: f64
  sn_drop_rate :: f64
  sn_udp_dst_port :: u16

definition sim_net_config_default :: sim_net_config where
  "sim_net_config_default =
     \<lparr>sn_payload_size = 8, sn_batch_size = 32, sn_idle_rate = Fin 0, sn_drop_rate = Fin 0,
      sn_udp_dst_port = 9000\<rparr>"

text \<open>\<open>(0.0..1.0).contains(&r)\<close>: at least zero and below one; never for a NaN.\<close>

definition unit_range :: "f64 \<Rightarrow> bool" where
  "unit_range r = (f64_le (Fin 0) r \<and> f64_less r (Fin 1))"

definition sim_net_validate :: "sim_net_config \<Rightarrow> unit result" where
  "sim_net_validate c =
     (if sn_batch_size c = 0 then Inl (config_error ''batch_size must be > 0'')
      else if \<not> unit_range (sn_idle_rate c) then Inl (config_error ''idle_rate must be in [0.0, 1.0)'')
      else if \<not> unit_range (sn_drop_rate c) then Inl (config_error ''drop_rate must be in [0.0, 1.0)'')
      else Inr ())"

section \<open>Metric keys and policies\<close>

datatype net_metric_key =
    PacketsReceived | PacketsDropped | BytesReceived | BatchesPolled | BatchSize
  | RxRingOccupancy | FillRingStarvation | ParseFailures | SinkWriteFailures

fun net_metric_kind :: "net_metric_key \<Rightarrow> metric_kind" where
  "net_metric_kind RxRingOccupancy = Gauge"
| "net_metric_kind BatchSize = Histogram"
| "net_metric_kind _ = Counter"

fun net_metric_name :: "net_metric_key \<Rightarrow> string" where
  "net_metric_name PacketsReceived = ''net.packets_received''"
| "net_metric_name PacketsDropped = ''net.packets_dropped''"
| "net_metric_name BytesReceived = ''net.bytes_received''"
| "net_metric_name BatchesPolled = ''net.batches_polled''"
| "net_metric_name BatchSize = ''net.batch_size''"
| "net_metric_name RxRingOccupancy = ''net.rx_ring_occupancy''"
| "net_metric_name FillRingStarvation = ''net.fill_ring_starvation''"
| "net_metric_name ParseFailures = ''net.parse_failures''"
| "net_metric_name SinkWriteFailures = ''net.sink_write_failures''"

datatype net_backpressure_policy = DropNewest | DropOldest | Block | Overflow

section \<open>Stub backends\<close>

text \<open>The AF_XDP and DPDK sources hold their configuration and refuse every operation.\<close>

definition af_xdp_init :: "af_xdp_config \<Rightarrow> unit result" where
  "af_xdp_init c = Inl (error_new NotImplemented
     (''AF_XDP backend is not yet implemented. see crates/flyby-net/src/af_xdp.rs ''
      @ ''for design documentation and operational requirements.''))"

definition af_xdp_poll :: "af_xdp_config \<Rightarrow> 'b \<Rightarrow> nat result \<times> 'b" where
  "af_xdp_poll c batch = (Inl (error_new NotImplemented ''AF_XDP backend is not yet implemented''), batch)"

definition dpdk_init :: "dpdk_config \<Rightarrow> unit result" where
  "dpdk_init c = Inl (error_new NotImplemented
     (''DPDK backend is not yet implemented. See ADR-002 (af_xdp before dpdk) and ''
      @ ''crates/flyby-net/src/dpdk.rs for the design description and operational requirements.''))"

definition dpdk_poll :: "dpdk_config \<Rightarrow> 'b \<Rightarrow> nat result \<times> 'b" where
  "dpdk_poll c batch = (Inl (error_new NotImplemented ''DPDK backend is not yet implemented''), batch)"

lemma unit_range_cases:
  "unit_range r \<longleftrightarrow> (\<exists>q. r = Fin q \<and> 0 \<le> q \<and> q < 1)"
  by (cases r) (auto simp: unit_range_def f64_le_def)

end
