(* ===== verification/Net_Sim.thy ===== *)
theory Net_Sim
  imports Net_Batch Net_Config Stage_Lifecycle
begin

text \<open>
  The simulated packet source of \<open>crates/flyby-net/src/sim.rs\<close>: the SplitMix64 stream, the
  idle and drop decisions, the packet template and \<open>poll_batch\<close> with its accounting.
\<close>

definition ETH_HEADER :: nat where "ETH_HEADER = 14"
definition IP_HEADER :: nat where "IP_HEADER = 20"
definition UDP_HEADER :: nat where "UDP_HEADER = 8"
definition NET_HEADER :: nat where "NET_HEADER = ETH_HEADER + IP_HEADER + UDP_HEADER"

lemma NET_HEADER_42 [simp]: "NET_HEADER = 42"
  by (simp add: NET_HEADER_def ETH_HEADER_def IP_HEADER_def UDP_HEADER_def)

unbundle bit_operations_syntax

definition mix64 :: "u64 \<Rightarrow> u64" where
  "mix64 z0 =
     (let z1 = z0 + 0x9E3779B97F4A7C15;
          z2 = (z1 XOR drop_bit 30 z1) * 0xBF58476D1CE4E5B9;
          z3 = (z2 XOR drop_bit 27 z2) * 0x94D049BB133111EB
      in z3 XOR drop_bit 31 z3)"

record net_sim =
  ns_config :: sim_net_config
  ns_sequence :: u64
  ns_rng :: u64
  ns_template :: bytes
  ns_scratch :: bytes
  ns_initialized :: bool
  ns_metrics :: "sample list"

definition frame_size :: "sim_net_config \<Rightarrow> nat" where
  "frame_size c = NET_HEADER + sn_payload_size c"

text \<open>The header writes, in the order of the code, on a buffer of at least 42 bytes.\<close>

definition header_writes :: "u16 \<Rightarrow> nat \<Rightarrow> (nat \<times> bytes) list" where
  "header_writes udp_dst_port fsize =
       [(0, [0xFF, 0xFF, 0xFF, 0xFF, 0xFF, 0xFF]),
        (6, [0x02, 0x00, 0x00, 0x00, 0x00, 0x01]),
        (12, be_bytes 2 (0x0800 :: u16)),
        (14, [0x45]),
        (15, [0x00]),
        (16, be_bytes 2 (of_nat (fsize - ETH_HEADER) :: u16)),
        (18, [0x00, 0x00]),
        (20, [0x00, 0x00]),
        (22, [64]),
        (23, [17]),
        (24, [0x00, 0x00]),
        (26, [192, 168, 1, 1]),
        (30, [192, 168, 1, 2]),
        (34, be_bytes 2 (12345 :: u16)),
        (36, be_bytes 2 udp_dst_port),
        (38, be_bytes 2 (of_nat (UDP_HEADER + (fsize - NET_HEADER)) :: u16)),
        (40, [0x00, 0x00])]"

definition fill_static_headers :: "bytes \<Rightarrow> u16 \<Rightarrow> nat \<Rightarrow> bytes" where
  "fill_static_headers buf udp_dst_port fsize =
     fold (\<lambda>(off, bs). write_at off bs) (header_writes udp_dst_port fsize) buf"

definition net_sim_new_unchecked :: "sim_net_config \<Rightarrow> net_sim" where
  "net_sim_new_unchecked c =
     (let fsize = NET_HEADER + sn_payload_size c in
      \<lparr>ns_config = c, ns_sequence = 0, ns_rng = 0xC0FFEE,
       ns_template = fill_static_headers (replicate fsize 0) (sn_udp_dst_port c) fsize,
       ns_scratch = [], ns_initialized = False, ns_metrics = []\<rparr>)"

definition net_sim_try_new :: "sim_net_config \<Rightarrow> net_sim result" where
  "net_sim_try_new c =
     (case sim_net_validate c of Inl e \<Rightarrow> Inl e | Inr _ \<Rightarrow> Inr (net_sim_new_unchecked c))"

text \<open>\<open>new\<close> panics on an invalid configuration.\<close>

definition net_sim_new :: "sim_net_config \<Rightarrow> net_sim option" where
  "net_sim_new c =
     (case sim_net_validate c of Inl _ \<Rightarrow> None | Inr _ \<Rightarrow> Some (net_sim_new_unchecked c))"

definition set_batch_size :: "nat \<Rightarrow> net_sim \<Rightarrow> net_sim" where
  "set_batch_size n s = s\<lparr>ns_config := (ns_config s)\<lparr>sn_batch_size := max n 1\<rparr>\<rparr>"

definition write_sequence :: "bytes \<Rightarrow> u64 \<Rightarrow> bytes" where
  "write_sequence packet sequence =
     (if length packet \<ge> NET_HEADER + 8 then write_at NET_HEADER (be_bytes 8 sequence) packet else packet)"

definition next_u32 :: "net_sim \<Rightarrow> u32 \<times> net_sim" where
  "next_u32 s = (let r = mix64 (ns_rng s) in (ucast (drop_bit 32 r), s\<lparr>ns_rng := r\<rparr>))"

definition rate_threshold :: "f64 \<Rightarrow> nat" where
  "rate_threshold rate = f64_to_u64 (f64_mul rate (f64_add (f64_of_nat (2 ^ 32 - 1)) (Fin 1)))"

definition rate_hit :: "f64 \<Rightarrow> net_sim \<Rightarrow> bool \<times> net_sim" where
  "rate_hit rate s =
     (if f64_le rate (Fin 0) then (False, s)
      else (let (x, s1) = next_u32 s in (unat x < rate_threshold rate, s1)))"

definition net_sim_init :: "net_sim \<Rightarrow> unit result \<times> net_sim" where
  "net_sim_init s =
     (case sim_net_validate (ns_config s) of
        Inl e \<Rightarrow> (Inl e, s)
      | Inr _ \<Rightarrow> (Inr (), s\<lparr>ns_initialized := True, ns_sequence := 0, ns_rng := 0xC0FFEE\<rparr>))"

definition net_sim_shutdown :: "net_sim \<Rightarrow> unit result \<times> net_sim" where
  "net_sim_shutdown s = (Inr (), s\<lparr>ns_initialized := False\<rparr>)"

section \<open>Polling\<close>

text \<open>The loop's variables: source, batch, \<open>produced\<close>, \<open>dropped_this\<close> and \<open>bytes\<close>.\<close>

type_synonym sim_vars = "net_sim \<times> raw_batch \<times> nat \<times> nat \<times> nat"

definition bump_sequence :: "net_sim \<Rightarrow> net_sim" where
  "bump_sequence s = s\<lparr>ns_sequence := ns_sequence s + 1\<rparr>"

definition sim_attempt :: "sim_vars \<Rightarrow> sim_vars" where
  "sim_attempt v =
     (let (s, b, produced, dropped_this, byte_total) = v;
          (drop_hit, s1) = rate_hit (sn_drop_rate (ns_config s)) s in
      if drop_hit then (bump_sequence s1, net_record_drop b, produced, dropped_this + 1, byte_total)
      else if produced \<ge> net_capacity b
      then (bump_sequence s1, net_record_drop b, produced, dropped_this + 1, byte_total)
      else
        (let s2 = s1\<lparr>ns_template := write_sequence (ns_template s1) (ns_sequence s1)\<rparr>;
             frame_len = frame_size (ns_config s2);
             meta = \<lparr>pm_timestamp_ns = saturating_mul (ns_sequence s2) 1000, pm_queue_id = 0,
                     pm_original_len = of_nat (min frame_len (2 ^ 32 - 1))\<rparr> in
         case net_push (ns_template s2) meta b of
           (PktFull, b1) \<Rightarrow> (bump_sequence s2, net_record_drop b1, produced, dropped_this + 1, byte_total)
         | (_, b1) \<Rightarrow> (bump_sequence s2, b1, produced + 1, dropped_this, byte_total + frame_len)))"

definition ns_record :: "net_metric_key \<Rightarrow> nat \<Rightarrow> net_sim \<Rightarrow> net_sim" where
  "ns_record k n s = s\<lparr>ns_metrics := (case net_metric_kind k of
       Counter \<Rightarrow> record_counter (net_metric_name k) n (ns_metrics s)
     | Gauge \<Rightarrow> record_gauge (net_metric_name k) n (ns_metrics s)
     | Histogram \<Rightarrow> record_histogram (net_metric_name k) n (ns_metrics s))\<rparr>"

definition sim_poll_batch :: "net_sim \<Rightarrow> raw_batch \<Rightarrow> nat result \<times> net_sim \<times> raw_batch" where
  "sim_poll_batch s batch =
     (if \<not> ns_initialized s
      then (Inl (lifecycle_error ''SimulatedNetSource not initialised''), s, batch)
      else
        (let b0 = net_reset batch;
             (idle, s1) = rate_hit (sn_idle_rate (ns_config s)) (ns_record BatchesPolled 1 s) in
         if idle then (Inr 0, s1, b0)
         else
           (let intended = sn_batch_size (ns_config s1);
                (s2, b2, produced, dropped_this, byte_total) =
                  (sim_attempt ^^ intended) (s1, b0, 0, 0, 0);
                s3 = (if produced > 0
                      then ns_record BatchSize produced
                             (ns_record BytesReceived byte_total (ns_record PacketsReceived produced s2))
                      else s2);
                s4 = (if dropped_this > 0 then ns_record PacketsDropped dropped_this s3 else s3)
            in (Inr (net_len b2), s4, b2))))"

text \<open>The one-packet shim of \<open>Source::poll\<close>: a fresh one-slot batch for each call (its constructor
  cannot panic: both sizes are positive).\<close>

definition sim_poll :: "net_sim \<Rightarrow> bytes option result \<times> net_sim" where
  "sim_poll s =
     (if \<not> ns_initialized s then (Inl (lifecycle_error ''SimulatedNetSource not initialised''), s)
      else
        (case raw_batch_new 1 (max (frame_size (ns_config s)) 1) of
           None \<Rightarrow> (Inr None, s)
         | Some batch \<Rightarrow>
             (case sim_poll_batch s batch of
                (Inl e, s1, _) \<Rightarrow> (Inl e, s1)
              | (Inr n, s1, b1) \<Rightarrow>
                  if n = 0 then (Inr None, s1)
                  else (let data = fst (hd (net_packets b1)) in (Inr (Some data), s1\<lparr>ns_scratch := data\<rparr>)))))"

section \<open>Rates\<close>

lemma rate_scale: "f64_add (f64_of_nat (2 ^ 32 - 1)) (Fin 1) = Fin (2 ^ 32)"
proof -
  have "f64_of_nat (2 ^ 32 - 1) = Fin (of_nat (2 ^ 32 - 1))"
    unfolding f64_of_nat_def by (rule round64_nat) simp
  moreover have "round64 (of_nat (2 ^ 32)) = Fin (of_nat (2 ^ 32))" by (rule round64_nat) simp
  ultimately show ?thesis by simp
qed

lemma rate_hit_frame:
  "ns_config (snd (rate_hit r s)) = ns_config s" "ns_sequence (snd (rate_hit r s)) = ns_sequence s"
  "ns_template (snd (rate_hit r s)) = ns_template s" "ns_initialized (snd (rate_hit r s)) = ns_initialized s"
  by (simp_all add: rate_hit_def next_u32_def Let_def)

lemma ns_record_frame [simp]:
  "ns_config (ns_record k n s) = ns_config s" "ns_sequence (ns_record k n s) = ns_sequence s"
  "ns_template (ns_record k n s) = ns_template s" "ns_initialized (ns_record k n s) = ns_initialized s"
  by (simp_all add: ns_record_def)

text \<open>An exact product: the rate is a 24-bit significand, as every \<open>f32\<close> is.\<close>

definition f32_unit :: "rat \<Rightarrow> bool" where
  "f32_unit q \<longleftrightarrow> 0 \<le> q \<and> q < 1 \<and> (\<exists>m t. q = of_int m * pow2 t \<and> m < 2 ^ 24 \<and> - 149 \<le> t)"

lemma rate_threshold_exact:
  assumes "f32_unit q"
  shows "rate_threshold (Fin q) = nat \<lfloor>q * 2 ^ 32\<rfloor>"
proof (cases "q = 0")
  case True
  then show ?thesis unfolding rate_threshold_def rate_scale by (simp add: round64_def)
next
  case False
  obtain m t where q: "0 \<le> q" "q < 1" "q = of_int m * pow2 t" "m < 2 ^ 24" "- 149 \<le> t"
    using assms by (auto simp: f32_unit_def)
  have "pow2 32 = 2 ^ 32" using pow2_of_nat [of 32] by simp
  then have e: "q * 2 ^ 32 = of_int m * pow2 (t + 32)" using q(3) pow2_add [of t 32] by simp
  have le: "q * 2 ^ 32 < 2 ^ 32" using q(2) by simp
  then have "q * 2 ^ 32 \<le> max_finite" by (simp add: max_finite_def)
  then have "round64 (q * 2 ^ 32) = Fin (q * 2 ^ 32)"
    using round64_exact [OF _ e] False q(1,4,5) by simp
  moreover have "nat \<lfloor>q * 2 ^ 32\<rfloor> \<le> 2 ^ 64 - 1"
  proof -
    have "\<lfloor>q * 2 ^ 32\<rfloor> \<le> \<lfloor>(2 :: rat) ^ 32\<rfloor>" using le by (intro floor_mono) simp
    also have "\<dots> = 2 ^ 32" by simp
    finally have "nat \<lfloor>q * 2 ^ 32\<rfloor> \<le> nat (2 ^ 32)" by (rule nat_mono)
    also have "\<dots> \<le> 2 ^ 64 - 1" by simp
    finally show ?thesis .
  qed
  ultimately show ?thesis using False q(1) unfolding rate_threshold_def rate_scale by simp
qed


section \<open>Accounting\<close>

definition sim_frame :: "sim_net_config \<Rightarrow> u64 \<Rightarrow> bytes" where
  "sim_frame c q = write_sequence (ns_template (net_sim_new_unchecked c)) q"

definition template_ok :: "net_sim \<Rightarrow> bool" where
  "template_ok s \<longleftrightarrow> length (ns_template s) = frame_size (ns_config s)
     \<and> (\<forall>q. write_sequence (ns_template s) q = sim_frame (ns_config s) q)"

lemma length_fill_static_headers [simp]:
  assumes "42 \<le> length buf"
  shows "length (fill_static_headers buf p n) = length buf"
  unfolding fill_static_headers_def
  by (rule length_fold_writes) (use assms in \<open>simp add: header_writes_def\<close>)

lemma length_write_sequence [simp]: "length (write_sequence p q) = length p"
  by (simp add: write_sequence_def length_write_at)

lemma write_sequence_twice [simp]: "write_sequence (write_sequence p q) r = write_sequence p r"
  by (simp add: write_sequence_def length_write_at) (simp add: write_at_def)

lemma template_ok_new: "template_ok (net_sim_new_unchecked c)"
  by (simp add: template_ok_def sim_frame_def net_sim_new_unchecked_def frame_size_def Let_def)

lemma template_ok_frame:
  "template_ok s \<Longrightarrow> ns_config s' = ns_config s \<Longrightarrow> ns_template s' = ns_template s \<Longrightarrow> template_ok s'"
  by (simp add: template_ok_def)

lemma template_ok_record [simp]: "template_ok (ns_record k n s) = template_ok s"
  by (simp add: template_ok_def)

lemma length_sim_frame [simp]: "length (sim_frame c q) = frame_size c"
  using template_ok_new [of c] by (simp add: sim_frame_def template_ok_def net_sim_new_unchecked_def Let_def)

text \<open>The packet of the \<open>j\<close>-th attempt of a poll.\<close>

definition sim_entry :: "sim_net_config \<Rightarrow> u64 \<Rightarrow> nat \<Rightarrow> nat \<Rightarrow> bytes \<times> packet_meta" where
  "sim_entry c seq0 limit j =
     (let q = seq0 + of_nat j in
      (take limit (sim_frame c q),
       \<lparr>pm_timestamp_ns = saturating_mul q 1000, pm_queue_id = 0,
        pm_original_len = of_nat (min (frame_size c) (2 ^ 32 - 1))\<rparr>))"

lemma stored_meta_same:
  "pm_original_len m = of_nat (min (length data) (2 ^ 32 - 1)) \<Longrightarrow> stored_meta data m = m"
  by (cases m) (simp add: stored_meta_def)

definition sim_progress :: "net_sim \<Rightarrow> raw_batch \<Rightarrow> nat \<Rightarrow> nat list \<Rightarrow> sim_vars \<Rightarrow> bool" where
  "sim_progress s b k js v \<longleftrightarrow>
     (case v of (s', b', p, d, n) \<Rightarrow>
        net_packets b' = map (sim_entry (ns_config s) (ns_sequence s) (nb_max_frame_size b)) js
        \<and> p = length js \<and> p + d = k \<and> n = p * frame_size (ns_config s)
        \<and> ns_sequence s' = ns_sequence s + of_nat k \<and> ns_config s' = ns_config s
        \<and> ns_initialized s' = ns_initialized s
        \<and> template_ok s' \<and> net_inv b' \<and> net_capacity b' = net_capacity b
        \<and> nb_max_frame_size b' = nb_max_frame_size b
        \<and> unat (nb_dropped b') = min (2 ^ 64 - 1) (unat (nb_dropped b) + d))"

lemma net_record_drop_count:
  "unat (nb_dropped (net_record_drop b)) = min (2 ^ 64 - 1) (Suc (unat (nb_dropped b)))"
  by (simp add: net_record_drop_def unat_saturating_add)

lemma sim_attempt_step:
  assumes pr: "sim_progress s b k js v" and cap: "length js \<le> net_capacity b"
    and js: "sorted_wrt (<) js" "\<forall>j \<in> set js. j < k"
    and all: "sn_drop_rate (ns_config s) = Fin 0 \<longrightarrow> js = [0..<min k (net_capacity b)]"
  shows "\<exists>js'. sim_progress s b (Suc k) js' (sim_attempt v) \<and> sorted_wrt (<) js'
    \<and> (\<forall>j \<in> set js'. j < Suc k) \<and> length js' \<le> net_capacity b
    \<and> (sn_drop_rate (ns_config s) = Fin 0 \<longrightarrow> js' = [0..<min (Suc k) (net_capacity b)])"
proof -
  obtain s1 b1 p d n where v: "v = (s1, b1, p, d, n)" by (metis prod_cases5)
  obtain hit s2 where h: "rate_hit (sn_drop_rate (ns_config s1)) s1 = (hit, s2)" by fastforce
  have s2: "ns_config s2 = ns_config s1" "ns_sequence s2 = ns_sequence s1" "ns_template s2 = ns_template s1"
    "ns_initialized s2 = ns_initialized s1"
    using rate_hit_frame [of "sn_drop_rate (ns_config s1)" s1] h by simp_all
  have old: "net_packets b1 = map (sim_entry (ns_config s) (ns_sequence s) (nb_max_frame_size b)) js"
    "p = length js" "p + d = k" "n = p * frame_size (ns_config s)" "ns_sequence s1 = ns_sequence s + of_nat k"
    "ns_config s1 = ns_config s" "ns_initialized s1 = ns_initialized s" "template_ok s1" "net_inv b1"
    "net_capacity b1 = net_capacity b" "nb_max_frame_size b1 = nb_max_frame_size b"
    "unat (nb_dropped b1) = min (2 ^ 64 - 1) (unat (nb_dropped b) + d)"
    using pr by (simp_all add: sim_progress_def v)
  show ?thesis
  proof (cases "hit \<or> p \<ge> net_capacity b1")
    case True
    then have a: "sim_attempt v = (bump_sequence s2, net_record_drop b1, p, Suc d, n)"
      by (auto simp: sim_attempt_def v h)
    have "template_ok (bump_sequence s2)"
      by (rule template_ok_frame [OF old(8)]) (simp_all add: bump_sequence_def s2)
    then have "sim_progress s b (Suc k) js (sim_attempt v)"
      using old s2 net_inv_record_drop [OF old(9)] net_record_drop_count [of b1]
      by (simp add: a sim_progress_def bump_sequence_def algebra_simps)
    moreover have "js = [0..<min (Suc k) (net_capacity b)]" if "sn_drop_rate (ns_config s) = Fin 0"
    proof -
      have "\<not> hit" using h that old(6) by (auto simp: rate_hit_def f64_le_def)
      then have "net_capacity b \<le> min k (net_capacity b)"
        using True old(2,10) all [rule_format, OF that] by simp
      then show ?thesis using all that by (simp add: min_def split: if_splits)
    qed
    ultimately show ?thesis using js cap by (intro exI [of _ js]) auto
  next
    case False
    let ?q = "ns_sequence s + of_nat k"
    let ?m = "\<lparr>pm_timestamp_ns = saturating_mul ?q 1000, pm_queue_id = 0,
                     pm_original_len = of_nat (min (frame_size (ns_config s)) (2 ^ 32 - 1))\<rparr> :: packet_meta"
    let ?s3 = "s2\<lparr>ns_template := sim_frame (ns_config s) ?q\<rparr>"
    have w: "write_sequence (ns_template s2) (ns_sequence s2) = sim_frame (ns_config s) ?q"
      using old s2 by (simp add: template_ok_def)
    have "net_len b1 \<noteq> net_capacity b1"
      using False old(1,2) length_net_packets [of b1] by (simp add: net_len_def)
    then have push: "fst (net_push (sim_frame (ns_config s) ?q) ?m b1) \<noteq> PktFull"
      "net_packets (snd (net_push (sim_frame (ns_config s) ?q) ?m b1))
        = net_packets b1 @ [sim_entry (ns_config s) (ns_sequence s) (nb_max_frame_size b) k]"
      using net_push_cases [OF old(9), of "sim_frame (ns_config s) ?q" ?m] old(11)
      by (auto simp: sim_entry_def Let_def stored_meta_same)
    obtain r b2 where r: "net_push (sim_frame (ns_config s) ?q) ?m b1 = (r, b2)" by fastforce
    have a: "sim_attempt v = (bump_sequence ?s3, b2, Suc p, d, n + frame_size (ns_config s))"
      using False h s2 w r push(1) old(5,6)
      by (cases r) (simp_all add: sim_attempt_def v Let_def)
    have t: "template_ok (bump_sequence ?s3)"
      using old(6,8) s2(1) by (simp add: template_ok_def bump_sequence_def) (simp add: sim_frame_def)
    have "sim_progress s b (Suc k) (js @ [k]) (sim_attempt v)"
      using old s2 t r push net_inv_push [OF old(9), of "sim_frame (ns_config s) ?q" ?m]
        net_capacity_simps(3,6,8) [of "sim_frame (ns_config s) ?q" ?m b1]
      by (simp add: a sim_progress_def bump_sequence_def algebra_simps)
    moreover have "sorted_wrt (<) (js @ [k])" using js by (simp add: sorted_wrt_append)
    moreover have "js @ [k] = [0..<min (Suc k) (net_capacity b)]" if "sn_drop_rate (ns_config s) = Fin 0"
      using all [rule_format, OF that] False old(2,10) by (simp add: min_def split: if_splits)
    ultimately show ?thesis
      using js False old(2,10) by (intro exI [of _ "js @ [k]"]) auto
  qed
qed

lemma sim_attempts:
  assumes "template_ok s" "net_inv b" "net_packets b = []"
  shows "\<exists>js. sim_progress s b k js ((sim_attempt ^^ k) (s, b, 0, 0, 0)) \<and> sorted_wrt (<) js
    \<and> (\<forall>j \<in> set js. j < k) \<and> length js \<le> net_capacity b
    \<and> (sn_drop_rate (ns_config s) = Fin 0 \<longrightarrow> js = [0..<min k (net_capacity b)])"
proof (induction k)
  case 0
  have "unat (nb_dropped b) \<le> 2 ^ 64 - 1" using unat_u64_less [of "nb_dropped b"] by simp
  then show ?case using assms by (intro exI [of _ "[]"]) (simp add: sim_progress_def)
next
  case (Suc k)
  then obtain js where js: "sim_progress s b k js ((sim_attempt ^^ k) (s, b, 0, 0, 0))" "sorted_wrt (<) js"
    "\<forall>j \<in> set js. j < k" "length js \<le> net_capacity b"
    "sn_drop_rate (ns_config s) = Fin 0 \<longrightarrow> js = [0..<min k (net_capacity b)]" by blast
  from sim_attempt_step [OF js(1,4,2,3,5)] show ?case by simp
qed


text \<open>A poll of an initialised source that neither idles nor drops: as many frames as fit, in sequence.\<close>

lemma sim_poll_full:
  assumes "template_ok s" "net_inv b" "ns_initialized s"
    and rates: "sn_idle_rate (ns_config s) = Fin 0" "sn_drop_rate (ns_config s) = Fin 0"
  defines "n \<equiv> sn_batch_size (ns_config s)"
  shows "\<exists>s' b'. sim_poll_batch s b = (Inr (net_len b'), s', b') \<and> template_ok s' \<and> net_inv b' \<and> ns_initialized s'
    \<and> ns_config s' = ns_config s \<and> ns_sequence s' = ns_sequence s + of_nat n
    \<and> net_capacity b' = net_capacity b \<and> nb_max_frame_size b' = nb_max_frame_size b
    \<and> net_packets b' = map (sim_entry (ns_config s) (ns_sequence s) (nb_max_frame_size b)) [0..<min n (net_capacity b)]"
proof -
  let ?s0 = "ns_record BatchesPolled 1 s"
  have s0: "template_ok ?s0" "ns_config ?s0 = ns_config s" "ns_sequence ?s0 = ns_sequence s" "ns_initialized ?s0"
    using assms(1,3) by simp_all
  have hit: "rate_hit (sn_idle_rate (ns_config ?s0)) ?s0 = (False, ?s0)"
    using rates by (simp add: rate_hit_def f64_le_def)
  obtain s2 b2 p d m where v: "(sim_attempt ^^ n) (?s0, net_reset b, 0, 0, 0) = (s2, b2, p, d, m)"
    by (metis prod_cases5)
  from sim_attempts [OF s0(1) net_inv_reset [OF assms(2)] net_packets_simps(1), of n] obtain js where
    "sim_progress ?s0 (net_reset b) n js (s2, b2, p, d, m)" "js = [0..<min n (net_capacity b)]"
    using v rates s0(2) by auto
  then have pr: "net_packets b2 = map (sim_entry (ns_config s) (ns_sequence s) (nb_max_frame_size b)) [0..<min n (net_capacity b)]"
    "ns_sequence s2 = ns_sequence s + of_nat n" "ns_config s2 = ns_config s" "ns_initialized s2" "template_ok s2"
    "net_inv b2" "net_capacity b2 = net_capacity b" "nb_max_frame_size b2 = nb_max_frame_size b"
    using s0 by (simp_all add: sim_progress_def)
  obtain s3 where "sim_poll_batch s b = (Inr (net_len b2), s3, b2)" "ns_config s3 = ns_config s2"
    "ns_sequence s3 = ns_sequence s2" "ns_initialized s3 = ns_initialized s2" "template_ok s3"
    using assms(3) hit v pr(5) s0(2) by (auto simp: sim_poll_batch_def Let_def n_def)
  then show ?thesis using pr by metis
qed

section \<open>Lifecycle\<close>

text \<open>The source as a stage; a use is a poll.\<close>

definition net_sim_stage :: "(unit, raw_batch, net_sim) stage_ops" where
  "net_sim_stage =
     \<lparr>so_init = (\<lambda>_ s. Some (net_sim_init s)),
      so_use = (\<lambda>b s. let (r, s1, _) = sim_poll_batch s b in Some (answer r, s1)),
      so_shutdown = net_sim_shutdown\<rparr>"

lemma bump_sequence_frame [simp]:
  "ns_config (bump_sequence s) = ns_config s" "ns_initialized (bump_sequence s) = ns_initialized s"
  by (simp_all add: bump_sequence_def)

lemma sim_attempt_initialized:
  "ns_initialized (fst (sim_attempt v)) = ns_initialized (fst v)" "ns_config (fst (sim_attempt v)) = ns_config (fst v)"
proof (atomize(full), cases v)
  case (fields s b p d n)
  then show "ns_initialized (fst (sim_attempt v)) = ns_initialized (fst v) \<and> ns_config (fst (sim_attempt v)) = ns_config (fst v)"
    using rate_hit_frame(1,4) [of "sn_drop_rate (ns_config s)" s]
    by (auto simp: sim_attempt_def Let_def split_beta split: net_push_result.split)
qed

lemma sim_attempts_initialized:
  "ns_initialized (fst ((sim_attempt ^^ k) v)) = ns_initialized (fst v)"
  "ns_config (fst ((sim_attempt ^^ k) v)) = ns_config (fst v)"
  by (induction k) (simp_all add: sim_attempt_initialized)

lemma sim_poll_initialized:
  "ns_initialized (fst (snd (sim_poll_batch s b))) = ns_initialized s"
  "ns_config (fst (snd (sim_poll_batch s b))) = ns_config s"
  using rate_hit_frame(1,4) [of "sn_idle_rate (ns_config s)" "ns_record BatchesPolled 1 s"] sim_attempts_initialized
  by (simp_all add: sim_poll_batch_def Let_def split_beta)

lemma sim_poll_ok: "ns_initialized s \<Longrightarrow> \<exists>n s' b'. sim_poll_batch s b = (Inr n, s', b')"
  by (simp add: sim_poll_batch_def Let_def split_beta)

text \<open>An initialised source has a configuration that \<open>init\<close> accepts, so a second \<open>init\<close> cannot fail.\<close>

definition sim_valid :: "net_sim \<Rightarrow> bool" where
  "sim_valid s \<longleftrightarrow> (ns_initialized s \<longrightarrow> sim_net_validate (ns_config s) = Inr ())"

interpretation net_sim_lc: steady_stage net_sim_stage ns_initialized sim_valid
proof unfold_locales
  fix s s' :: net_sim and r :: "unit result" and e :: unit and b :: raw_batch
  show "sim_valid s' \<and> ns_initialized s' = (ns_initialized s \<or> r = Inr ())"
    if "sim_valid s" "so_init net_sim_stage e s = Some (r, s')"
    using that by (auto simp: net_sim_stage_def net_sim_init_def sim_valid_def split: sum.splits)
  show "sim_valid s' \<and> ns_initialized s' = ns_initialized s" if "sim_valid s" "so_use net_sim_stage b s = Some (r, s')"
    using that sim_poll_initialized [of s b] by (auto simp: net_sim_stage_def split_beta sim_valid_def)
  show "r = Inr ()" if "sim_valid s" "ns_initialized s" "so_init net_sim_stage e s = Some (r, s')"
    using that by (auto simp: net_sim_stage_def net_sim_init_def sim_valid_def)
  show "\<exists>e. so_use net_sim_stage b s = Some (Inl e, s) \<and> err_kind e = Lifecycle" if "\<not> ns_initialized s"
    using that by (simp add: net_sim_stage_def sim_poll_batch_def)
  show "\<not> is_refused r" if "ns_initialized s" "so_use net_sim_stage b s = Some (r, s')"
    using that sim_poll_ok [of s b] by (auto simp: net_sim_stage_def)
qed (simp_all add: net_sim_stage_def net_sim_shutdown_def sim_valid_def)

section \<open>Properties\<close>

lemma rate_hit_record [simp]:
  "fst (rate_hit r (ns_record k n s)) = fst (rate_hit r s)"
  by (simp add: rate_hit_def next_u32_def ns_record_def Let_def)

lemma net_dropped_reset: "net_packets (net_reset b) = []" "net_inv b \<Longrightarrow> net_inv (net_reset b)"
  by (simp_all add: net_inv_reset)

text \<open>The attempts of one poll on an emptied batch: the attempts that succeeded, and the state they lead to.\<close>

lemma poll_attempts:
  assumes "template_ok s1" "net_inv b"
  defines "n \<equiv> sn_batch_size (ns_config s1)"
  shows "\<exists>js s2 b2 p d m. (sim_attempt ^^ n) (s1, net_reset b, 0, 0, 0) = (s2, b2, p, d, m)
    \<and> sorted_wrt (<) js \<and> (\<forall>j \<in> set js. j < n) \<and> length js \<le> net_capacity b
    \<and> (sn_drop_rate (ns_config s1) = Fin 0 \<longrightarrow> js = [0..<min n (net_capacity b)])
    \<and> net_packets b2 = map (sim_entry (ns_config s1) (ns_sequence s1) (nb_max_frame_size b)) js
    \<and> p = length js \<and> ns_sequence s2 = ns_sequence s1 + of_nat n \<and> ns_config s2 = ns_config s1
    \<and> template_ok s2 \<and> net_inv b2
    \<and> unat (nb_dropped b2) = min (2 ^ 64 - 1) (unat (nb_dropped b) + (n - length js))"
proof -
  from sim_attempts [OF assms(1) net_inv_reset [OF assms(2)] net_packets_simps(1), of n] obtain js where
    js: "sim_progress s1 (net_reset b) n js ((sim_attempt ^^ n) (s1, net_reset b, 0, 0, 0))"
    "sorted_wrt (<) js" "\<forall>j \<in> set js. j < n" "length js \<le> net_capacity b"
    "sn_drop_rate (ns_config s1) = Fin 0 \<longrightarrow> js = [0..<min n (net_capacity b)]"
    by auto
  obtain s2 b2 p d m where v: "(sim_attempt ^^ n) (s1, net_reset b, 0, 0, 0) = (s2, b2, p, d, m)"
    by (metis prod_cases5)
  have pr: "net_packets b2 = map (sim_entry (ns_config s1) (ns_sequence s1) (nb_max_frame_size b)) js"
    "p = length js" "d = n - length js" "ns_sequence s2 = ns_sequence s1 + of_nat n" "ns_config s2 = ns_config s1"
    "template_ok s2" "net_inv b2" "unat (nb_dropped b2) = min (2 ^ 64 - 1) (unat (nb_dropped b) + d)"
    using js(1) by (auto simp: v sim_progress_def)
  have drops: "unat (nb_dropped b2) = min (2 ^ 64 - 1) (unat (nb_dropped b) + (n - length js))"
    using pr(3,8) by (simp only:)
  show ?thesis by (intro exI conjI) (fact v js pr drops)+
qed

text \<open>
  (C12) Every packet of a poll is accounted for. A poll that the idle rate hits resets the batch, keeping
  its drop counter, and leaves the source as the random draw and the count of the poll leave it: the
  sequence does not move. Any other poll makes exactly the configured number of attempts, advances
  the sequence by it (modulo \<open>2 ^ 64\<close>), and each attempt is either a packet of the batch or counted as
  dropped. The packets are in strictly increasing order of their sequence numbers, each the frame of
  its number cut to the batch's frame size: the whole frame where it fits, and the metadata keep the
  length of the whole frame. With drop rate zero nothing is dropped while there is room.
\<close>

theorem sim_poll_accounting:
  assumes "template_ok s" "net_inv b" "ns_initialized s"
  shows "\<exists>s' b'. sim_poll_batch s b = (Inr (net_len b'), s', b') \<and> template_ok s' \<and> net_inv b'
    \<and> ns_config s' = ns_config s
    \<and> (if fst (rate_hit (sn_idle_rate (ns_config s)) s)
       then b' = net_reset b \<and> net_packets b' = [] \<and> nb_dropped b' = nb_dropped b
         \<and> s' = snd (rate_hit (sn_idle_rate (ns_config s)) (ns_record BatchesPolled 1 s))
         \<and> ns_sequence s' = ns_sequence s
       else \<exists>js. sorted_wrt (<) js \<and> (\<forall>j \<in> set js. j < sn_batch_size (ns_config s))
           \<and> net_packets b' = map (sim_entry (ns_config s) (ns_sequence s) (nb_max_frame_size b)) js
           \<and> (frame_size (ns_config s) \<le> nb_max_frame_size b \<longrightarrow>
                map fst (net_packets b') = map (\<lambda>j. sim_frame (ns_config s) (ns_sequence s + of_nat j)) js)
           \<and> length js \<le> net_capacity b
           \<and> ns_sequence s' = ns_sequence s + of_nat (sn_batch_size (ns_config s))
           \<and> unat (nb_dropped b')
              = min (2 ^ 64 - 1) (unat (nb_dropped b) + (sn_batch_size (ns_config s) - length js))
           \<and> (sn_drop_rate (ns_config s) = Fin 0 \<longrightarrow>
                js = [0..<min (sn_batch_size (ns_config s)) (net_capacity b)]))"
proof -
  let ?s0 = "ns_record BatchesPolled 1 s"
  obtain idle s1 where i: "rate_hit (sn_idle_rate (ns_config s)) ?s0 = (idle, s1)" by fastforce
  have s1: "ns_config s1 = ns_config s" "ns_sequence s1 = ns_sequence s" "ns_template s1 = ns_template s"
    using rate_hit_frame [of "sn_idle_rate (ns_config s)" ?s0] i by simp_all
  have idle: "idle = fst (rate_hit (sn_idle_rate (ns_config s)) s)"
    using rate_hit_record [of "sn_idle_rate (ns_config s)" BatchesPolled 1 s] arg_cong [OF i, of fst] by simp
  have t1: "template_ok s1" by (rule template_ok_frame [OF assms(1)]) (simp_all add: s1)
  show ?thesis
  proof (cases idle)
    case True
    then have "sim_poll_batch s b = (Inr (net_len (net_reset b)), s1, net_reset b)"
      using assms(3) i by (simp add: sim_poll_batch_def net_len_def net_reset_def)
    then show ?thesis
      using t1 s1 True idle net_inv_reset [OF assms(2)] arg_cong [OF i, of snd]
      by (intro exI [of _ s1] exI [of _ "net_reset b"]) simp
  next
    case False
    let ?n = "sn_batch_size (ns_config s)"
    from poll_attempts [OF t1 assms(2), unfolded s1] obtain js s2 b2 p d m where
      v: "(sim_attempt ^^ ?n) (s1, net_reset b, 0, 0, 0) = (s2, b2, p, d, m)"
      and js: "sorted_wrt (<) js" "\<forall>j \<in> set js. j < ?n" "length js \<le> net_capacity b"
        "sn_drop_rate (ns_config s) = Fin 0 \<longrightarrow> js = [0..<min ?n (net_capacity b)]"
      and pr: "net_packets b2 = map (sim_entry (ns_config s) (ns_sequence s) (nb_max_frame_size b)) js"
        "p = length js" "ns_sequence s2 = ns_sequence s + of_nat ?n" "ns_config s2 = ns_config s"
        "template_ok s2" "net_inv b2" "unat (nb_dropped b2) = min (2 ^ 64 - 1) (unat (nb_dropped b) + (?n - length js))"
      by blast
    obtain s3 where s3: "sim_poll_batch s b = (Inr (net_len b2), s3, b2)" "ns_config s3 = ns_config s2"
      "ns_sequence s3 = ns_sequence s2" "template_ok s3"
      using assms(3) i False v s1 pr(5) by (auto simp: sim_poll_batch_def Let_def)
    have seq: "ns_sequence s3 = ns_sequence s + of_nat ?n" "ns_config s3 = ns_config s"
      using s3(2,3) pr(3,4) by simp_all
    have whole: "frame_size (ns_config s) \<le> nb_max_frame_size b \<longrightarrow>
        map fst (net_packets b2) = map (\<lambda>j. sim_frame (ns_config s) (ns_sequence s + of_nat j)) js"
      by (simp add: pr(1) sim_entry_def Let_def)
    have ex: "\<exists>js. sorted_wrt (<) js \<and> (\<forall>j \<in> set js. j < ?n)
           \<and> net_packets b2 = map (sim_entry (ns_config s) (ns_sequence s) (nb_max_frame_size b)) js
           \<and> (frame_size (ns_config s) \<le> nb_max_frame_size b \<longrightarrow>
                map fst (net_packets b2) = map (\<lambda>j. sim_frame (ns_config s) (ns_sequence s + of_nat j)) js)
           \<and> length js \<le> net_capacity b \<and> ns_sequence s3 = ns_sequence s + of_nat ?n
           \<and> unat (nb_dropped b2) = min (2 ^ 64 - 1) (unat (nb_dropped b) + (?n - length js))
           \<and> (sn_drop_rate (ns_config s) = Fin 0 \<longrightarrow> js = [0..<min ?n (net_capacity b)])"
      by (intro exI [of _ js] conjI) (fact js pr seq whole)+
    have no: "fst (rate_hit (sn_idle_rate (ns_config s)) s) = False" using False idle by simp
    show ?thesis unfolding no if_False
      by (intro exI [of _ s3] exI [of _ b2] conjI) (fact s3 pr seq ex)+
  qed
qed

definition example_sim :: net_sim where
  "example_sim = snd (net_sim_init (net_sim_new_unchecked (sim_net_config_default\<lparr>sn_batch_size := 2\<rparr>)))"

lemma example_sim_facts:
  "template_ok example_sim" "ns_initialized example_sim" "sn_drop_rate (ns_config example_sim) = Fin 0"
  "sn_idle_rate (ns_config example_sim) = Fin 0" "sn_batch_size (ns_config example_sim) = 2"
proof -
  have "sim_net_validate (sim_net_config_default\<lparr>sn_batch_size := 2\<rparr>) = Inr ()"
    by (simp add: sim_net_validate_def sim_net_config_default_def unit_range_cases)
  then have e: "example_sim = (net_sim_new_unchecked (sim_net_config_default\<lparr>sn_batch_size := 2\<rparr>))
      \<lparr>ns_initialized := True, ns_sequence := 0, ns_rng := 0xC0FFEE\<rparr>"
    by (simp add: example_sim_def net_sim_init_def net_sim_new_unchecked_def Let_def)
  show "template_ok example_sim"
    by (rule template_ok_frame [OF template_ok_new [of "sim_net_config_default\<lparr>sn_batch_size := 2\<rparr>"]]) (simp_all add: e)
  show "ns_initialized example_sim" "sn_drop_rate (ns_config example_sim) = Fin 0"
    "sn_idle_rate (ns_config example_sim) = Fin 0" "sn_batch_size (ns_config example_sim) = 2"
    by (simp_all add: e net_sim_new_unchecked_def sim_net_config_default_def Let_def)
qed

lemma sim_poll_accounting_witness:
  "\<exists>b s' b'. raw_batch_new 4 64 = Some b \<and> sim_poll_batch example_sim b = (Inr 2, s', b')"
proof -
  obtain b where b: "raw_batch_new 4 64 = Some b" "net_inv b" "net_capacity b = 4"
    using raw_batch_new_some [of 4 64] by auto
  have idle: "\<not> fst (rate_hit (sn_idle_rate (ns_config example_sim)) example_sim)"
    by (simp add: example_sim_facts rate_hit_def f64_le_def)
  from sim_poll_accounting [OF example_sim_facts(1) b(2) example_sim_facts(2)] obtain s' b' js where
    p: "sim_poll_batch example_sim b = (Inr (net_len b'), s', b')"
    and k: "net_packets b' = map (sim_entry (ns_config example_sim) (ns_sequence example_sim) (nb_max_frame_size b)) js"
    and js: "js = [0..<min 2 (net_capacity b)]"
    using idle example_sim_facts by (auto split: if_splits)
  have "net_len b' = 2"
    using arg_cong [OF k, of length] js b(3) by (simp add: net_len_def)
  with p b(1) show ?thesis by auto
qed

text \<open>Reading a field through the writes that follow it.\<close>

lemma read_field:
  assumes "list_all (\<lambda>(off', bs'). off' + length bs' \<le> length mem \<and> (off + n \<le> off' \<or> off' + length bs' \<le> off)) ws"
  shows "read_at off n (fold (\<lambda>(off, bs). write_at off bs) ws mem) = read_at off n mem"
  using assms
proof (induction ws arbitrary: mem)
  case (Cons w ws)
  obtain o1 b1 where w: "w = (o1, b1)" by fastforce
  have fits: "o1 + length b1 \<le> length mem" and apart: "off + n \<le> o1 \<or> o1 + length b1 \<le> off"
    using Cons.prems w by auto
  have "read_at off n (fold (\<lambda>(off, bs). write_at off bs) ws (write_at o1 b1 mem)) = read_at off n (write_at o1 b1 mem)"
    by (rule Cons.IH) (use Cons.prems w fits in \<open>simp add: length_write_at\<close>)
  also have "\<dots> = read_at off n mem" using read_write_disjoint [OF fits] apart by simp
  finally show ?case by (simp add: w)
qed simp

lemma read_written:
  assumes "i < length ws" "ws ! i = (off, bs)" "list_all (\<lambda>(o', b'). o' + length b' \<le> length mem) ws"
    "list_all (\<lambda>(o', b'). off + length bs \<le> o' \<or> o' + length b' \<le> off) (drop (Suc i) ws)"
  shows "read_at off (length bs) (fold (\<lambda>(off, bs). write_at off bs) ws mem) = bs"
proof -
  let ?w = "\<lambda>(off, bs). write_at off bs" and ?pre = "take i ws" and ?post = "drop (Suc i) ws"
  have ws: "ws = ?pre @ (off, bs) # ?post" using id_take_nth_drop [OF assms(1)] assms(2) by simp
  define m1 where "m1 = fold ?w ?pre mem"
  have "list_all (\<lambda>(o', b'). o' + length b' \<le> length mem) (?pre @ (off, bs) # ?post)"
    using assms(3) by (subst (asm) ws)
  then have in1: "list_all (\<lambda>(o', b'). o' + length b' \<le> length mem) ?pre" "off + length bs \<le> length mem"
    "list_all (\<lambda>(o', b'). o' + length b' \<le> length mem) ?post" by auto
  have len: "length m1 = length mem" unfolding m1_def by (rule length_fold_writes [OF in1(1)])
  have "read_at off (length bs) (fold ?w ?post (write_at off bs m1)) = read_at off (length bs) (write_at off bs m1)"
    by (rule read_field)
      (use in1(2,3) assms(4) len in \<open>auto simp: list_all_iff split_beta\<close>)
  also have "\<dots> = bs" using in1(2) len by (simp add: read_write_same)
  finally show ?thesis by (subst ws) (simp add: m1_def)
qed

lemma static_fields:
  assumes "42 \<le> length buf"
  shows "read_at 12 2 (fill_static_headers buf p n) = be_bytes 2 (0x0800 :: u16)"
    "read_at 14 1 (fill_static_headers buf p n) = [0x45]"
    "read_at 16 2 (fill_static_headers buf p n) = be_bytes 2 (of_nat (n - 14) :: u16)"
    "read_at 23 1 (fill_static_headers buf p n) = [17]"
    "read_at 36 2 (fill_static_headers buf p n) = be_bytes 2 p"
    "read_at 38 2 (fill_static_headers buf p n) = be_bytes 2 (of_nat (8 + (n - 42)) :: u16)"
proof -
  have inside: "list_all (\<lambda>(o', b'). o' + length b' \<le> length buf) (header_writes p n)"
    using assms by (simp add: header_writes_def)
  have field: "read_at off (length bs) (fill_static_headers buf p n) = bs"
    if "i < 17" "header_writes p n ! i = (off, bs)"
      "list_all (\<lambda>(o', b'). off + length bs \<le> o' \<or> o' + length b' \<le> off) (drop (Suc i) (header_writes p n))"
    for i off bs
    unfolding fill_static_headers_def
    by (rule read_written [OF _ that(2) inside that(3)]) (use that(1) in \<open>simp add: header_writes_def\<close>)
  show "read_at 12 2 (fill_static_headers buf p n) = be_bytes 2 (0x0800 :: u16)"
    using field [of 2] by (simp add: header_writes_def)
  show "read_at 14 1 (fill_static_headers buf p n) = [0x45]"
    using field [of 3] by (simp add: header_writes_def)
  show "read_at 16 2 (fill_static_headers buf p n) = be_bytes 2 (of_nat (n - 14) :: u16)"
    using field [of 5] by (simp add: header_writes_def ETH_HEADER_def)
  show "read_at 23 1 (fill_static_headers buf p n) = [17]"
    using field [of 9] by (simp add: header_writes_def)
  show "read_at 36 2 (fill_static_headers buf p n) = be_bytes 2 p"
    using field [of 14] by (simp add: header_writes_def)
  show "read_at 38 2 (fill_static_headers buf p n) = be_bytes 2 (of_nat (8 + (n - 42)) :: u16)"
    using field [of 15] by (simp add: header_writes_def UDP_HEADER_def)
qed

text \<open>
  The frames: when the payload can hold it, the eight bytes behind the headers are the
  sequence number, and the fixed fields (EtherType, IPv4 version and protocol, total length, UDP
  port and length) are those of a UDP packet to the configured port.
\<close>

theorem sim_frame_contents:
  assumes "8 \<le> sn_payload_size c"
  shows "of_be_bytes (read_at NET_HEADER 8 (sim_frame c q)) = q
    \<and> length (sim_frame c q) = frame_size c
    \<and> read_at 12 2 (sim_frame c q) = be_bytes 2 (0x0800 :: u16)
    \<and> read_at 14 1 (sim_frame c q) = [0x45] \<and> read_at 23 1 (sim_frame c q) = [17]
    \<and> read_at 16 2 (sim_frame c q) = be_bytes 2 (of_nat (28 + sn_payload_size c) :: u16)
    \<and> read_at 36 2 (sim_frame c q) = be_bytes 2 (sn_udp_dst_port c)
    \<and> read_at 38 2 (sim_frame c q) = be_bytes 2 (of_nat (8 + sn_payload_size c) :: u16)"
proof -
  let ?t = "fill_static_headers (replicate (42 + sn_payload_size c) 0) (sn_udp_dst_port c) (42 + sn_payload_size c)"
  have f: "sim_frame c q = write_at 42 (be_bytes 8 q) ?t"
    using assms by (simp add: sim_frame_def net_sim_new_unchecked_def write_sequence_def Let_def)
  have len: "length ?t = 42 + sn_payload_size c" by simp
  have keep: "read_at off k (write_at 42 (be_bytes 8 q) ?t) = read_at off k ?t" if "off + k \<le> 42" for off k
    using that assms by (intro read_write_disjoint) (simp_all add: len)
  have seq: "read_at 42 8 (write_at 42 (be_bytes 8 q) ?t) = be_bytes 8 q"
    using read_write_same [of 42 "be_bytes 8 q" ?t] assms by (simp add: len)
  have lf: "length (write_at 42 (be_bytes 8 q) ?t) = 42 + sn_payload_size c"
    using assms by (simp add: length_write_at)
  show ?thesis
    using lf static_fields [of "replicate (42 + sn_payload_size c) 0" "sn_udp_dst_port c" "42 + sn_payload_size c"] seq
    by (simp add: f keep of_be_bytes_be_bytes len frame_size_def)
qed

lemma sim_frame_contents_witness:
  "of_be_bytes (read_at 42 8 (sim_frame sim_net_config_default 77)) = (77 :: u64)"
  using sim_frame_contents [of sim_net_config_default 77] by (simp add: sim_net_config_default_def)

text \<open>
  The decision of a rate is exact: for a rate in \<open>[0, 1)\<close> with an \<open>f32\<close> significand, an event
  happens when the next 32-bit number of the stream is below the rate times \<open>2 ^ 32\<close>, rounded
  down; a rate of zero never fires and leaves the stream where it is.
\<close>

theorem rate_hit_exact:
  assumes "f32_unit q"
  shows "rate_hit (Fin q) s =
    (if q = 0 then (False, s)
     else (int (unat (fst (next_u32 s))) < \<lfloor>q * 2 ^ 32\<rfloor>, snd (next_u32 s)))"
proof (cases "q = 0")
  case True
  then show ?thesis by (simp add: rate_hit_def f64_le_def)
next
  case False
  have pos: "0 \<le> q" using assms by (simp add: f32_unit_def)
  then have "0 \<le> \<lfloor>q * 2 ^ 32\<rfloor>" by simp
  then have "(unat x < nat \<lfloor>q * 2 ^ 32\<rfloor>) = (int (unat x) < \<lfloor>q * 2 ^ 32\<rfloor>)" for x :: u32
    by linarith
  then show ?thesis
    using False pos rate_threshold_exact [OF assms] by (simp add: rate_hit_def f64_le_def split_beta)
qed

lemma rate_hit_exact_witness:
  "rate_hit (Fin (1 / 2)) example_sim
     = (int (unat (fst (next_u32 example_sim))) < 2 ^ 31, snd (next_u32 example_sim))"
proof -
  have "f32_unit (1 / 2)"
    unfolding f32_unit_def by (intro conjI exI [of _ 1] exI [of _ "- 1"]) (simp_all add: pow2_def)
  from rate_hit_exact [OF this, of example_sim] show ?thesis by simp
qed

end
