(* ===== verification/Spsc_Ring.thy ===== *)
theory Spsc_Ring
  imports Core
begin

text \<open>
  The SPSC ring control of \<open>crates/flyby-memory/src/ring.rs\<close>: two wrapping 64-bit sequence
  counters and the two-phase push/pop protocol. The counters live in the mapped region
  (theory \<open>Region\<close>); here a ring is the values seen by one operation.

  \<open>ring_inv\<close> is what the constructor establishes and every operation keeps: the capacity is a
  power of two, the mask is the capacity minus one, and the distance of the counters never
  exceeds the capacity.  The counters may wrap; the distance does not.
\<close>

record spsc_ring =
  ring_head :: u64
  ring_tail :: u64
  ring_capacity :: usize
  ring_mask :: u64

text \<open>\<open>SpscRing::new\<close> on zero-initialised counters (its safety precondition).\<close>

definition ring_new :: "usize \<Rightarrow> spsc_ring" where
  "ring_new cap = \<lparr>ring_head = 0, ring_tail = 0, ring_capacity = cap, ring_mask = cap - 1\<rparr>"

definition try_push :: "spsc_ring \<Rightarrow> usize option" where
  "try_push r = (if ring_head r - ring_tail r = ring_capacity r then None else Some (ring_head r AND ring_mask r))"

definition commit_push :: "spsc_ring \<Rightarrow> spsc_ring" where
  "commit_push r = r\<lparr>ring_head := ring_head r + 1\<rparr>"

definition try_pop :: "spsc_ring \<Rightarrow> usize option" where
  "try_pop r = (if ring_tail r = ring_head r then None else Some (ring_tail r AND ring_mask r))"

definition commit_pop :: "spsc_ring \<Rightarrow> spsc_ring" where
  "commit_pop r = r\<lparr>ring_tail := ring_tail r + 1\<rparr>"

definition ring_len :: "spsc_ring \<Rightarrow> usize" where
  "ring_len r = ring_head r - ring_tail r"

definition ring_is_empty :: "spsc_ring \<Rightarrow> bool" where
  "ring_is_empty r = (ring_len r = 0)"

definition ring_is_full :: "spsc_ring \<Rightarrow> bool" where
  "ring_is_full r = (ring_len r = ring_capacity r)"

section \<open>Invariant\<close>

definition ring_inv :: "spsc_ring \<Rightarrow> bool" where
  "ring_inv r \<longleftrightarrow> is_power_of_two (ring_capacity r) \<and> ring_mask r = ring_capacity r - 1
     \<and> unat (ring_head r - ring_tail r) \<le> unat (ring_capacity r)"

lemma ring_invE:
  assumes "ring_inv r"
  obtains k where "k < 64" "ring_capacity r = 2 ^ k" "ring_mask r = 2 ^ k - 1" "unat (ring_capacity r) = 2 ^ k"
    "unat (ring_head r - ring_tail r) \<le> 2 ^ k"
  using assms unat_exp [where 'a = 64] by (auto simp: ring_inv_def is_power_of_two_iff)

lemma ring_inv_new [inv_intros]: "is_power_of_two cap \<Longrightarrow> ring_inv (ring_new cap)"
  by (simp add: ring_inv_def ring_new_def)

text \<open>The counters' distance as a number of occupied slots.\<close>

definition occupied :: "spsc_ring \<Rightarrow> nat" where
  "occupied r = unat (ring_head r - ring_tail r)"

lemma occupied_le: "ring_inv r \<Longrightarrow> occupied r \<le> unat (ring_capacity r)"
  by (simp add: ring_inv_def occupied_def)

lemma try_push_None_iff: "try_push r = None \<longleftrightarrow> occupied r = unat (ring_capacity r)"
  by (simp add: try_push_def occupied_def word_unat_eq_iff)

lemma try_pop_None_iff: "try_pop r = None \<longleftrightarrow> occupied r = 0"
  by (auto simp: try_pop_def occupied_def unat_eq_zero)

lemma occupied_commit_push:
  assumes "ring_inv r" "try_push r \<noteq> None"
  shows "occupied (commit_push r) = Suc (occupied r)"
proof -
  obtain k where k: "k < 64" "unat (ring_capacity r) = 2 ^ k" "occupied r \<le> 2 ^ k"
    using assms(1) by (auto elim: ring_invE simp: occupied_def)
  with assms(2) have "occupied r < 2 ^ k" by (simp add: try_push_None_iff)
  moreover have "(2::nat) ^ k < 2 ^ 64" using k(1) by (simp only: power_strict_increasing_iff)
  ultimately have "unat (ring_head r - ring_tail r) + unat (1 :: u64) < 2 ^ 64"
    by (simp add: occupied_def)
  then have "unat (ring_head r - ring_tail r + 1) = Suc (unat (ring_head r - ring_tail r))"
    using unat_add_exact [of "ring_head r - ring_tail r" 1] by simp
  then show ?thesis by (simp add: occupied_def commit_push_def add_diff_eq diff_add_eq)
qed

lemma occupied_commit_pop:
  assumes "try_pop r \<noteq> None"
  shows "occupied (commit_pop r) = occupied r - 1"
proof -
  have "ring_head r - ring_tail r \<noteq> 0" using assms by (auto simp: try_pop_def)
  then have "unat (ring_head r - ring_tail r - 1) = unat (ring_head r - ring_tail r) - 1"
    by (simp add: unat_minus_one)
  then show ?thesis by (simp add: occupied_def commit_pop_def diff_diff_eq)
qed

lemma ring_inv_commit_push [inv_intros]:
  assumes "ring_inv r" "try_push r \<noteq> None"
  shows "ring_inv (commit_push r)"
proof -
  have "Suc (occupied r) \<le> unat (ring_capacity r)"
    using assms occupied_le [of r] by (simp add: try_push_None_iff)
  then show ?thesis
    using assms occupied_commit_push [OF assms]
    by (simp add: ring_inv_def occupied_def commit_push_def)
qed

lemma ring_inv_commit_pop [inv_intros]:
  assumes "ring_inv r" "try_pop r \<noteq> None"
  shows "ring_inv (commit_pop r)"
proof -
  have "occupied (commit_pop r) \<le> unat (ring_capacity r)"
    using occupied_commit_pop [OF assms(2)] occupied_le [OF assms(1)] by simp
  then show ?thesis
    using assms(1) by (simp add: ring_inv_def occupied_def commit_pop_def)
qed

section \<open>Slot indices\<close>

text \<open>The slot of the element \<open>i\<close> places after the oldest one.\<close>

definition slot_at :: "spsc_ring \<Rightarrow> nat \<Rightarrow> nat" where
  "slot_at r i = (unat (ring_tail r) + i) mod unat (ring_capacity r)"

lemma slot_at_less: "ring_inv r \<Longrightarrow> slot_at r i < unat (ring_capacity r)"
  by (auto elim!: ring_invE simp: slot_at_def)

lemma add_mod_inj_below:
  fixes a i j n :: nat
  assumes "i < n" "j < n" "(a + i) mod n = (a + j) mod n"
  shows "i = j"
proof -
  have "i mod n = j mod n"
    using assms(3) by (simp add: nat_mod_eq_iff)
  then show ?thesis using assms(1,2) by simp
qed

lemma slot_at_inj:
  assumes "ring_inv r" "i < unat (ring_capacity r)" "j < unat (ring_capacity r)" "slot_at r i = slot_at r j"
  shows "i = j"
  using assms(2-) add_mod_inj_below unfolding slot_at_def by blast

lemma try_push_index:
  assumes "ring_inv r" "try_push r = Some i"
  shows "unat i = slot_at r (occupied r)"
proof -
  obtain k where k: "k < 64" "unat (ring_capacity r) = 2 ^ k" "ring_mask r = 2 ^ k - 1"
    using assms(1) by (rule ring_invE)
  have "unat i = unat (ring_head r) mod 2 ^ k"
    using assms(2) k unat_and_mask [where 'a = 64 and k = k] by (auto simp: try_push_def split: if_splits)
  also have "\<dots> = unat (ring_tail r + (ring_head r - ring_tail r)) mod 2 ^ k" by simp
  also have "\<dots> = (unat (ring_tail r) + occupied r) mod 2 ^ k"
    unfolding occupied_def by (rule unat_add_mod_exp) (simp add: k)
  finally show ?thesis by (simp add: slot_at_def k)
qed

lemma try_pop_index:
  assumes "ring_inv r" "try_pop r = Some i"
  shows "unat i = slot_at r 0"
proof -
  obtain k where k: "k < 64" "unat (ring_capacity r) = 2 ^ k" "ring_mask r = 2 ^ k - 1"
    using assms(1) by (rule ring_invE)
  then show ?thesis
    using assms(2) unat_and_mask [where 'a = 64 and k = k]
    by (auto simp: try_pop_def slot_at_def split: if_splits)
qed

lemma slot_at_commit_push [simp]: "slot_at (commit_push r) i = slot_at r i"
  by (simp add: slot_at_def commit_push_def)

lemma slot_at_commit_pop:
  assumes "ring_inv r"
  shows "slot_at (commit_pop r) i = slot_at r (Suc i)"
proof -
  obtain k where k: "k < 64" "unat (ring_capacity r) = 2 ^ k"
    using assms by (rule ring_invE)
  have "unat (ring_tail r + 1) mod 2 ^ k = (unat (ring_tail r) + 1) mod 2 ^ k"
    using unat_add_mod_exp [of k "ring_tail r" 1] k by simp
  then have "(unat (ring_tail r + 1) + i) mod 2 ^ k = (unat (ring_tail r) + 1 + i) mod 2 ^ k"
    by (metis mod_add_left_eq)
  then show ?thesis by (simp add: slot_at_def commit_pop_def k)
qed

end
