(* ===== verification/Slot.thy ===== *)
theory Slot
  imports Core
begin

text \<open>
  The slot format of \<open>crates/flyby-memory/src/slot.rs\<close>: the size computation, the 32-byte
  header, and \<open>encode\<close> / \<open>decode\<close> on byte slices. The header is copied as raw memory
  (\<open>copy_nonoverlapping\<close> of a \<open>repr(C)\<close> struct without padding), so the bytes depend on the
  byte order of the machine, which is the first argument of the functions.
\<close>

definition SLOT_MAGIC :: u32 where "SLOT_MAGIC = 0xFB570001"
definition CACHE_LINE :: usize where "CACHE_LINE = 64"
definition HEADER_SIZE :: nat where "HEADER_SIZE = 32"
definition FLAG_VALID :: u16 where "FLAG_VALID = 0x0001"
definition FLAG_SUSPECT :: u16 where "FLAG_SUSPECT = 0x0002"

section \<open>Slot size\<close>

definition slot_size :: "usize \<Rightarrow> usize result" where
  "slot_size max_payload =
     (case checked_add (of_nat HEADER_SIZE) max_payload of
        None \<Rightarrow> Inl (config_error ''slot_size overflow: max_payload too large'')
      | Some raw \<Rightarrow>
          (case checked_add raw (CACHE_LINE - 1) of
             None \<Rightarrow> Inl (config_error ''slot_size overflow while aligning'')
           | Some padded \<Rightarrow> Inr (padded AND NOT (CACHE_LINE - 1))))"

text \<open>
  The const helper panics on overflow (\<open>None\<close>). Its sum is evaluated from the left: the whole cache line is
  added before the one is taken away, so it overflows one payload length earlier than \<open>slot_size\<close>.
\<close>

definition slot_size_const :: "usize \<Rightarrow> usize option" where
  "slot_size_const max_payload =
     (case checked_add (of_nat HEADER_SIZE) max_payload of
        None \<Rightarrow> None
      | Some raw \<Rightarrow>
          (case checked_add raw CACHE_LINE of
             None \<Rightarrow> None
           | Some padded \<Rightarrow> Some ((padded - 1) AND NOT (CACHE_LINE - 1))))"

lemma align_down_64:
  fixes w :: u64
  shows "unat (w AND NOT 63) = unat w div 64 * 64"
proof -
  have "w AND NOT 63 = w AND NOT (Bit_Operations.mask 6)"
    by (simp add: mask_eq_exp_minus_1)
  also have "\<dots> = push_bit 6 (drop_bit 6 w)"
    by (rule bit_word_eqI)
      (auto simp: bit_and_iff bit_not_iff bit_mask_iff bit_push_bit_iff bit_drop_bit_eq)
  finally have "unat (w AND NOT 63) = unat (push_bit 6 (drop_bit 6 w))" by simp
  also have "\<dots> = take_bit 64 (push_bit 6 (drop_bit 6 (unat w)))"
    by (simp add: unsigned_push_bit_eq unat_drop_bit_eq)
  also have "\<dots> = (unat w div 64 * 64) mod 2 ^ 64"
    by (simp add: take_bit_eq_mod push_bit_eq_mult drop_bit_eq_div)
  also have "\<dots> = unat w div 64 * 64"
  proof (rule mod_less)
    have "unat w div 64 * 64 \<le> unat w" by simp
    also have "unat w < 2 ^ 64" using unsigned_less [of w] by simp
    finally show "unat w div 64 * 64 < 2 ^ 64" .
  qed
  finally show ?thesis .
qed

text \<open>The size as arithmetic: round \<open>32 + max_payload\<close> up to a multiple of 64.\<close>

definition slot_size_spec :: "nat \<Rightarrow> nat" where
  "slot_size_spec n = (n + 32 + 63) div 64 * 64"

lemma aligned_size:
  assumes "unat p + 95 < 2 ^ 64"
  shows "(32 + p + 63 :: u64) AND NOT 63 = of_nat (slot_size_spec (unat p))"
proof -
  have "unat (32 + p + 63) = unat p + 95"
  proof -
    have "32 + p + 63 = 95 + p" by simp
    then show ?thesis using unat_add_exact [of 95 p] assms by simp
  qed
  then have "unat ((32 + p + 63) AND NOT 63) = slot_size_spec (unat p)"
    unfolding align_down_64 by (simp add: slot_size_spec_def)
  then have "of_nat (slot_size_spec (unat p)) = of_nat (unat ((32 + p + 63) AND NOT 63))"
    by (simp only:)
  also have "\<dots> = (32 + p + 63) AND NOT 63" by (simp only: of_nat_unat ucast_id)
  finally show ?thesis by (rule sym)
qed

lemma checked_add_header:
  "checked_add (of_nat HEADER_SIZE) p = (if unat p + 32 < 2 ^ 64 then Some (32 + p :: u64) else None)"
  by (simp add: checked_add_def HEADER_SIZE_def)

lemma checked_add_align:
  assumes "unat p + 32 < 2 ^ 64"
  shows "checked_add (32 + p :: u64) 63 = (if unat p + 95 < 2 ^ 64 then Some (32 + p + 63) else None)"
proof -
  have "unat (32 + p) = unat p + 32"
    using unat_add_exact [of 32 p] assms by simp
  then show ?thesis by (simp add: checked_add_def)
qed

lemma slot_size_cases:
  "slot_size p =
     (if 2 ^ 64 \<le> unat p + 32 then Inl (config_error ''slot_size overflow: max_payload too large'')
      else if 2 ^ 64 \<le> unat p + 95 then Inl (config_error ''slot_size overflow while aligning'')
      else Inr (of_nat (slot_size_spec (unat p))))"
proof -
  consider "2 ^ 64 \<le> unat p + 32" | "unat p + 32 < 2 ^ 64" "2 ^ 64 \<le> unat p + 95"
    | "unat p + 95 < 2 ^ 64" by linarith
  then show ?thesis
  proof cases
    case 1
    then show ?thesis by (simp add: slot_size_def checked_add_header)
  next
    case 2
    then show ?thesis
      by (simp add: slot_size_def checked_add_header checked_add_align CACHE_LINE_def)
  next
    case 3
    then have "unat p + 32 < 2 ^ 64" by linarith
    with 3 show ?thesis
      using aligned_size [OF 3]
      by (simp add: slot_size_def checked_add_header checked_add_align CACHE_LINE_def)
  qed
qed

lemma slot_size_const_cases:
  "slot_size_const p = (if unat p + 96 < 2 ^ 64 then Some (of_nat (slot_size_spec (unat p))) else None)"
proof (cases "unat p + 32 < 2 ^ 64")
  case True
  then have "unat (32 + p) = unat p + 32" using unat_add_exact [of 32 p] by simp
  then have "checked_add (32 + p :: u64) 64 = (if unat p + 96 < 2 ^ 64 then Some (32 + p + 64) else None)"
    by (simp add: checked_add_def)
  moreover have "32 + p + 64 - 1 = 32 + p + 63" by simp
  ultimately show ?thesis using True aligned_size [of p]
    by (simp add: slot_size_const_def checked_add_header CACHE_LINE_def)
next
  case False
  then show ?thesis by (simp add: slot_size_const_def checked_add_header)
qed

section \<open>The slot header\<close>

record slot_header =
  sh_magic :: u32
  sh_schema_id :: u16
  sh_flags :: u16
  sh_sequence :: u64
  sh_timestamp :: u64
  sh_payload_len :: u32
  sh_reserved :: u32

definition slot_header_new :: "u16 \<Rightarrow> u16 \<Rightarrow> u64 \<Rightarrow> u64 \<Rightarrow> u32 \<Rightarrow> slot_header" where
  "slot_header_new schema flags sequence ts len =
     \<lparr>sh_magic = SLOT_MAGIC, sh_schema_id = schema, sh_flags = flags, sh_sequence = sequence,
      sh_timestamp = ts, sh_payload_len = len, sh_reserved = 0\<rparr>"

definition slot_is_valid :: "slot_header \<Rightarrow> bool" where
  "slot_is_valid h = (sh_magic h = SLOT_MAGIC \<and> (sh_flags h AND FLAG_VALID) \<noteq> 0)"

text \<open>
  The 32 bytes of the struct: \<open>repr(C)\<close> lays the fields out in order at offsets 0, 4, 6, 8,
  16, 24 and 28, each aligned without padding.
\<close>

definition header_bytes :: "endian \<Rightarrow> slot_header \<Rightarrow> bytes" where
  "header_bytes e h =
     ne_bytes e 4 (sh_magic h) @ ne_bytes e 2 (sh_schema_id h) @ ne_bytes e 2 (sh_flags h)
     @ ne_bytes e 8 (sh_sequence h) @ ne_bytes e 8 (sh_timestamp h)
     @ ne_bytes e 4 (sh_payload_len h) @ ne_bytes e 4 (sh_reserved h)"

definition header_of_bytes :: "endian \<Rightarrow> bytes \<Rightarrow> slot_header" where
  "header_of_bytes e bs =
     \<lparr>sh_magic = of_ne_bytes e (take 4 bs),
      sh_schema_id = of_ne_bytes e (take 2 (drop 4 bs)),
      sh_flags = of_ne_bytes e (take 2 (drop 6 bs)),
      sh_sequence = of_ne_bytes e (take 8 (drop 8 bs)),
      sh_timestamp = of_ne_bytes e (take 8 (drop 16 bs)),
      sh_payload_len = of_ne_bytes e (take 4 (drop 24 bs)),
      sh_reserved = of_ne_bytes e (take 4 (drop 28 bs))\<rparr>"

lemma length_header_bytes [simp]: "length (header_bytes e h) = 32"
  by (simp add: header_bytes_def)

lemma header_of_bytes_header_bytes [simp]:
  "header_of_bytes e (header_bytes e h @ rest) = h"
  by (cases h) (simp add: header_of_bytes_def header_bytes_def of_ne_bytes_ne_bytes)

text \<open>
  \<open>encode\<close> returns the destination as it leaves it: untouched on error, and otherwise with the
  header and the payload at its front and every byte behind them as before.
\<close>

definition slot_encode :: "endian \<Rightarrow> slot_header \<Rightarrow> bytes \<Rightarrow> bytes \<Rightarrow> unit result \<times> bytes" where
  "slot_encode e header payload dst =
     (let needed = HEADER_SIZE + length payload in
      if length dst < needed
      then (Inl (error_new Encode ''destination buffer too small for slot''), dst)
      else (Inr (), header_bytes e header @ payload @ drop needed dst))"

definition slot_decode :: "endian \<Rightarrow> bytes \<Rightarrow> (slot_header \<times> bytes) result" where
  "slot_decode e src =
     (if length src < HEADER_SIZE
      then Inl (error_new Decode ''buffer too small for slot header'')
      else let header = header_of_bytes e (take HEADER_SIZE src) in
        if sh_magic header \<noteq> SLOT_MAGIC then Inl (error_new Decode ''invalid slot magic'')
        else let payload_end = HEADER_SIZE + unat (sh_payload_len header) in
          if length src < payload_end
          then Inl (error_new Decode ''buffer too small for slot payload'')
          else Inr (header, take (unat (sh_payload_len header)) (drop HEADER_SIZE src)))"

section \<open>Lemmas on the codec\<close>

lemma slot_encode_ok_iff:
  "fst (slot_encode e h p dst) = Inr () \<longleftrightarrow> 32 + length p \<le> length dst"
  by (simp add: slot_encode_def HEADER_SIZE_def Let_def)

lemma slot_encode_result:
  assumes "32 + length p \<le> length dst"
  shows "slot_encode e h p dst = (Inr (), header_bytes e h @ p @ drop (32 + length p) dst)"
  using assms by (simp add: slot_encode_def HEADER_SIZE_def Let_def)

lemma slot_encode_length [simp]: "length (snd (slot_encode e h p dst)) = length dst"
  by (simp add: slot_encode_def HEADER_SIZE_def Let_def)

lemma slot_decode_encoded:
  assumes "sh_magic h = SLOT_MAGIC" "unat (sh_payload_len h) = length p"
  shows "slot_decode e (header_bytes e h @ p @ rest) = Inr (h, p)"
proof -
  have "take 32 (header_bytes e h @ p @ rest) = header_bytes e h" by simp
  moreover have "header_of_bytes e (header_bytes e h) = h"
    using header_of_bytes_header_bytes [of e h "[]"] by simp
  ultimately show ?thesis
    using assms by (simp add: slot_decode_def HEADER_SIZE_def Let_def)
qed

lemma slot_decode_ok:
  assumes "slot_decode e src = Inr (h, p)"
  shows "h = header_of_bytes e (take 32 src)" "sh_magic h = SLOT_MAGIC"
    "length p = unat (sh_payload_len h)" "p = take (length p) (drop 32 src)"
    "32 + length p \<le> length src"
  using assms by (auto simp: slot_decode_def HEADER_SIZE_def Let_def min_def split: if_splits)

lemma header_is_valid_new [simp]:
  "slot_is_valid (slot_header_new sc fl sq ts n) \<longleftrightarrow> fl AND FLAG_VALID \<noteq> 0"
  by (simp add: slot_is_valid_def slot_header_new_def)

end
