(* ===== verification/Region.thy ===== *)
theory Region
  imports Spsc_Ring Slot
begin

text \<open>
  The memory-mapped region of \<open>crates/flyby-memory/src/region.rs\<close>. The whole mapping is one
  byte list: the 64-byte header at offset 0, the producer's counter at 64, the consumer's at
  128 and the slots from 192 on. The ring reads and writes its counters in those bytes, so
  that slots and counters stay apart is something to prove (\<open>region_inv\<close> and the lemmas on
  \<open>slot_write\<close> and \<open>store_head\<close>), not something the model builds in.

  \<open>mmap\<close> is a parameter: it fails with an OS error or returns a zero-filled mapping of the
  requested length (the documented behaviour of \<open>MAP_ANON\<close>).
\<close>

definition REGION_MAGIC :: u64 where "REGION_MAGIC = 0x464C59425F524701"
definition REGION_VERSION :: u16 where "REGION_VERSION = 1"
definition PRODUCER_OFFSET :: nat where "PRODUCER_OFFSET = 64"
definition CONSUMER_OFFSET :: nat where "CONSUMER_OFFSET = 128"
definition SLOTS_OFFSET :: nat where "SLOTS_OFFSET = 192"

lemmas offset_defs = PRODUCER_OFFSET_def CONSUMER_OFFSET_def SLOTS_OFFSET_def

record region =
  rg_endian :: endian
  rg_mem :: bytes
  rg_slot_count :: usize
  rg_slot_size :: usize
  rg_ring_capacity :: usize
  rg_ring_mask :: u64

definition u32_max :: usize where "u32_max = 0xFFFFFFFF"

definition validate_params :: "usize \<Rightarrow> usize \<Rightarrow> unit result" where
  "validate_params scount ssize =
     (if scount = 0 \<or> \<not> is_power_of_two scount
      then Inl (config_error ''slot_count must be a non-zero power of two'')
      else if scount > u32_max
      then Inl (config_error ''slot_count exceeds u32::MAX'')
      else if unat ssize < HEADER_SIZE
      then Inl (config_error ''slot_size must be at least HEADER_SIZE (32)'')
      else if ssize > u32_max
      then Inl (config_error ''slot_size exceeds u32::MAX'')
      else if ssize mod CACHE_LINE \<noteq> 0
      then Inl (config_error ''slot_size must be a multiple of CACHE_LINE (64)'')
      else case Option.bind (checked_mul scount ssize)
                  (\<lambda>n. checked_add n (of_nat SLOTS_OFFSET)) of
             None \<Rightarrow> Inl (config_error ''region size overflows usize'')
           | Some _ \<Rightarrow> Inr ())"

text \<open>The 64 header bytes, in the field order of the \<open>repr(C)\<close> struct.\<close>

definition region_header_bytes :: "endian \<Rightarrow> usize \<Rightarrow> usize \<Rightarrow> bytes" where
  "region_header_bytes e scount ssize =
     ne_bytes e 8 REGION_MAGIC @ ne_bytes e 2 REGION_VERSION @ ne_bytes e 2 (0 :: u16)
     @ ne_bytes e 4 (0 :: u32) @ ne_bytes e 4 (ucast scount :: u32)
     @ ne_bytes e 4 (ucast ssize :: u32) @ replicate 8 0 @ ne_bytes e 16 (0 :: 128 word)
     @ replicate 16 0"

definition anonymous ::
  "endian \<Rightarrow> (nat \<Rightarrow> (io_kind \<times> string) option) \<Rightarrow> usize \<Rightarrow> usize \<Rightarrow> region result"
where
  "anonymous e mmap scount ssize =
     (case validate_params scount ssize of
        Inl err \<Rightarrow> Inl err
      | Inr _ \<Rightarrow>
          (let len = unat (of_nat SLOTS_OFFSET + scount * ssize) in
           case mmap len of
             Some (kind, msg) \<Rightarrow> Inl (error_from_io kind msg)
           | None \<Rightarrow>
               Inr \<lparr>rg_endian = e,
                    rg_mem = write_at 0 (region_header_bytes e scount ssize) (replicate len 0),
                    rg_slot_count = scount, rg_slot_size = ssize,
                    rg_ring_capacity = scount, rg_ring_mask = scount - 1\<rparr>))"

section \<open>Counters and slots in the mapping\<close>

definition load_u64 :: "region \<Rightarrow> nat \<Rightarrow> u64" where
  "load_u64 r off = of_ne_bytes (rg_endian r) (read_at off 8 (rg_mem r))"

definition store_u64 :: "region \<Rightarrow> nat \<Rightarrow> u64 \<Rightarrow> region" where
  "store_u64 r off v = r\<lparr>rg_mem := write_at off (ne_bytes (rg_endian r) 8 v) (rg_mem r)\<rparr>"

text \<open>The ring control the region holds: pointers to its two counters, capacity and mask.\<close>

definition region_ring :: "region \<Rightarrow> spsc_ring" where
  "region_ring r =
     \<lparr>ring_head = load_u64 r PRODUCER_OFFSET, ring_tail = load_u64 r CONSUMER_OFFSET,
      ring_capacity = rg_ring_capacity r, ring_mask = rg_ring_mask r\<rparr>"

definition slot_offset :: "region \<Rightarrow> nat \<Rightarrow> nat" where
  "slot_offset r index = SLOTS_OFFSET + index * unat (rg_slot_size r)"

definition slot_ref :: "region \<Rightarrow> nat \<Rightarrow> bytes" where
  "slot_ref r index = read_at (slot_offset r index) (unat (rg_slot_size r)) (rg_mem r)"

text \<open>What is left in the mapping after a closure has worked on \<open>slot_mut(index)\<close>.\<close>

definition slot_write :: "region \<Rightarrow> nat \<Rightarrow> bytes \<Rightarrow> region" where
  "slot_write r index buf = r\<lparr>rg_mem := write_at (slot_offset r index) buf (rg_mem r)\<rparr>"

definition region_push :: "(bytes \<Rightarrow> unit result \<times> bytes) \<Rightarrow> region \<Rightarrow> bool result \<times> region" where
  "region_push fill r =
     (case try_push (region_ring r) of
        None \<Rightarrow> (Inr False, r)
      | Some idx \<Rightarrow>
          (let (res, buf) = fill (slot_ref r (unat idx)); r1 = slot_write r (unat idx) buf in
           case res of
             Inl e \<Rightarrow> (Inl e, r1)
           | Inr _ \<Rightarrow> (Inr True, store_u64 r1 PRODUCER_OFFSET (ring_head (commit_push (region_ring r1))))))"

text \<open>
  \<open>pop\<close> hands the slot to a closure and then releases it; the model returns what the closure
  sees. The code's boolean is whether there is a slot.
\<close>

definition region_pop :: "region \<Rightarrow> bytes option \<times> region" where
  "region_pop r =
     (case try_pop (region_ring r) of
        None \<Rightarrow> (None, r)
      | Some idx \<Rightarrow>
          (Some (slot_ref r (unat idx)),
           store_u64 r CONSUMER_OFFSET (ring_tail (commit_pop (region_ring r)))))"

definition region_len :: "region \<Rightarrow> usize" where
  "region_len r = ring_len (region_ring r)"

definition region_is_empty :: "region \<Rightarrow> bool" where
  "region_is_empty r = ring_is_empty (region_ring r)"

definition region_is_full :: "region \<Rightarrow> bool" where
  "region_is_full r = ring_is_full (region_ring r)"

section \<open>Invariant\<close>

definition region_inv :: "region \<Rightarrow> bool" where
  "region_inv r \<longleftrightarrow>
     length (rg_mem r) = 192 + unat (rg_slot_count r) * unat (rg_slot_size r)
     \<and> rg_ring_capacity r = rg_slot_count r \<and> 32 \<le> unat (rg_slot_size r)
     \<and> ring_inv (region_ring r)"

text \<open>The queue of slot images, oldest first.\<close>

definition region_contents :: "region \<Rightarrow> bytes list" where
  "region_contents r =
     map (\<lambda>i. slot_ref r (slot_at (region_ring r) i)) [0..<occupied (region_ring r)]"

lemma region_inv_ring: "region_inv r \<Longrightarrow> ring_inv (region_ring r)"
  by (simp add: region_inv_def)

lemma region_ring_sel [simp]:
  "ring_capacity (region_ring r) = rg_ring_capacity r"
  "ring_mask (region_ring r) = rg_ring_mask r"
  "ring_head (region_ring r) = load_u64 r PRODUCER_OFFSET"
  "ring_tail (region_ring r) = load_u64 r CONSUMER_OFFSET"
  by (simp_all add: region_ring_def)

lemma length_region_contents [simp]: "length (region_contents r) = occupied (region_ring r)"
  by (simp add: region_contents_def)

lemma slot_in_mapping:
  assumes "region_inv r" "i < unat (rg_slot_count r)"
  shows "slot_offset r i + unat (rg_slot_size r) \<le> length (rg_mem r)" "192 \<le> slot_offset r i"
proof -
  have "Suc i * unat (rg_slot_size r) \<le> unat (rg_slot_count r) * unat (rg_slot_size r)"
    using assms(2) by (intro mult_le_mono1) simp
  then show "slot_offset r i + unat (rg_slot_size r) \<le> length (rg_mem r)"
    using assms(1) by (simp add: region_inv_def slot_offset_def offset_defs)
qed (simp add: slot_offset_def offset_defs)

lemma slots_apart:
  assumes "i \<noteq> j"
  shows "slot_offset r i + unat (rg_slot_size r) \<le> slot_offset r j
    \<or> slot_offset r j + unat (rg_slot_size r) \<le> slot_offset r i"
proof -
  have step: "a * n + n \<le> b * n" if "a < b" for a b n :: nat
    using mult_le_mono1 [of "Suc a" b n] that by simp
  show ?thesis
    using assms step [of i j] step [of j i] unfolding slot_offset_def neq_iff by force
qed

text \<open>Writing a slot leaves the counters and every other slot alone.\<close>

lemma slot_write_frame:
  assumes "region_inv r" "i < unat (rg_slot_count r)" "length buf = unat (rg_slot_size r)"
  shows "region_ring (slot_write r i buf) = region_ring r"
    and "slot_ref (slot_write r i buf) i = buf"
    and "j \<noteq> i \<Longrightarrow> slot_ref (slot_write r i buf) j = slot_ref r j"
    and "region_inv (slot_write r i buf)"
proof -
  note b = slot_in_mapping [OF assms(1,2)]
  show ring: "region_ring (slot_write r i buf) = region_ring r"
    using b assms(3)
    by (simp add: region_ring_def load_u64_def slot_write_def offset_defs read_write_disjoint)
  show "slot_ref (slot_write r i buf) i = buf"
    using b assms(3) by (simp add: slot_ref_def slot_write_def slot_offset_def read_write_same)
  show "slot_ref (slot_write r i buf) j = slot_ref r j" if "j \<noteq> i"
    using b assms(3) slots_apart [OF that, of r]
    by (simp add: slot_ref_def slot_write_def slot_offset_def read_write_disjoint)
  show "region_inv (slot_write r i buf)"
    using assms b ring by (simp add: region_inv_def slot_write_def)
qed

text \<open>Storing a counter leaves the other counter and every slot alone.\<close>

lemma store_counter_frame:
  assumes "region_inv r" "off = PRODUCER_OFFSET \<or> off = CONSUMER_OFFSET"
  shows "slot_ref (store_u64 r off v) i = slot_ref r i"
    and "length (rg_mem (store_u64 r off v)) = length (rg_mem r)"
    and "load_u64 (store_u64 r off v) off = v"
    and "off' = PRODUCER_OFFSET \<or> off' = CONSUMER_OFFSET \<Longrightarrow> off' \<noteq> off \<Longrightarrow>
      load_u64 (store_u64 r off v) off' = load_u64 r off'"
  using assms
  by (auto simp: store_u64_def load_u64_def region_inv_def slot_ref_def slot_offset_def
      offset_defs read_write_disjoint read_write_same of_ne_bytes_ne_bytes)

lemma store_u64_sel [simp]:
  "rg_slot_count (store_u64 r off v) = rg_slot_count r"
  "rg_slot_size (store_u64 r off v) = rg_slot_size r"
  "rg_endian (store_u64 r off v) = rg_endian r"
  "rg_ring_capacity (store_u64 r off v) = rg_ring_capacity r"
  "rg_ring_mask (store_u64 r off v) = rg_ring_mask r"
  by (simp_all add: store_u64_def)

lemma slot_write_sel [simp]:
  "rg_slot_count (slot_write r i b) = rg_slot_count r"
  "rg_slot_size (slot_write r i b) = rg_slot_size r"
  "rg_endian (slot_write r i b) = rg_endian r"
  "rg_ring_capacity (slot_write r i b) = rg_ring_capacity r"
  "rg_ring_mask (slot_write r i b) = rg_ring_mask r"
  by (simp_all add: slot_write_def)

lemma region_ring_store_head:
  assumes "region_inv r"
  shows "region_ring (store_u64 r PRODUCER_OFFSET (ring_head (commit_push (region_ring r))))
    = commit_push (region_ring r)"
  using store_counter_frame(3,4) [OF assms]
  by (simp add: region_ring_def commit_push_def offset_defs)

lemma region_ring_store_tail:
  assumes "region_inv r"
  shows "region_ring (store_u64 r CONSUMER_OFFSET (ring_tail (commit_pop (region_ring r))))
    = commit_pop (region_ring r)"
  using store_counter_frame(3,4) [OF assms]
  by (simp add: region_ring_def commit_pop_def offset_defs)

section \<open>Operations on the queue of slots\<close>

lemma store_u64_inv:
  assumes "region_inv r" "off = PRODUCER_OFFSET \<or> off = CONSUMER_OFFSET"
    "ring_inv (region_ring (store_u64 r off v))"
  shows "region_inv (store_u64 r off v)"
  using assms store_counter_frame(2) [OF assms(1,2)] by (simp add: region_inv_def)

lemma region_push_full:
  assumes "occupied (region_ring r) = unat (rg_ring_capacity r)"
  shows "region_push fill r = (Inr False, r)"
  using assms try_push_None_iff [of "region_ring r"] by (simp add: region_push_def)

text \<open>Creating a region succeeds exactly on valid geometry, and gives an empty queue.\<close>

lemma read_zeros: "read_at a n (replicate m 0) = replicate (min n (m - a)) 0"
  by (simp add: read_at_def)

lemma le_bytes_zero: "le_bytes n (0 :: 'a::len word) = replicate n 0"
  by (induction n) auto

lemma of_ne_bytes_zeros: "of_ne_bytes e (replicate 8 0) = (0 :: u64)"
  using of_ne_bytes_ne_bytes [of 8 e "0 :: u64"]
  by (cases e) (simp_all add: be_bytes_def le_bytes_zero)

lemma length_region_header_bytes [simp]: "length (region_header_bytes e c s) = 64"
  by (simp add: region_header_bytes_def)

lemma validate_params_ok:
  assumes "validate_params c s = Inr u"
  shows "is_power_of_two c" "32 \<le> unat s" "unat s mod 64 = 0" "unat c \<le> 0xFFFFFFFF" "unat s \<le> 0xFFFFFFFF"
    "unat (192 + c * s) = 192 + unat c * unat s"
proof -
  have v: "is_power_of_two c" "\<not> u32_max < c" "32 \<le> unat s" "\<not> u32_max < s" "s mod 64 = 0"
    "Option.bind (checked_mul c s) (\<lambda>n. checked_add n 192) \<noteq> None"
    using assms
    by (auto simp: validate_params_def HEADER_SIZE_def CACHE_LINE_def SLOTS_OFFSET_def
        split: if_splits option.splits)
  show "is_power_of_two c" "32 \<le> unat s" by fact+
  show "unat c \<le> 0xFFFFFFFF" "unat s \<le> 0xFFFFFFFF"
    using v(2,4) by (simp_all add: u32_max_def not_less word_le_nat_alt)
  have "unat (s mod 64) = unat s mod 64" by (simp add: unat_mod)
  then show "unat s mod 64 = 0" using v(5) by simp
  have "unat c * unat s < 2 ^ 64" "unat (c * s) + 192 < 2 ^ 64"
    using v(6) by (auto simp: checked_mul_def checked_add_def split: if_splits)
  then show "unat (192 + c * s) = 192 + unat c * unat s"
    using unat_mult_exact [of c s] unat_add_exact [of 192 "c * s"] by simp
qed

lemma anonymous_ok:
  assumes "anonymous e mmap c s = Inr r"
  shows "region_inv r" "region_contents r = []" "rg_ring_capacity r = c" "rg_slot_count r = c"
    "rg_slot_size r = s" "rg_endian r = e"
proof -
  obtain u where v: "validate_params c s = Inr u"
    using assms by (auto simp: anonymous_def split: sum.splits)
  note g = validate_params_ok [OF v]
  let ?n = "192 + unat c * unat s"
  have r: "r = \<lparr>rg_endian = e, rg_mem = write_at 0 (region_header_bytes e c s) (replicate ?n 0),
      rg_slot_count = c, rg_slot_size = s, rg_ring_capacity = c, rg_ring_mask = c - 1\<rparr>"
    using assms v g(6)
    by (auto simp: anonymous_def Let_def SLOTS_OFFSET_def split: option.splits)
  have mem: "load_u64 r off = 0" if "off = 64 \<or> off = 128" for off
    using that by (auto simp: r load_u64_def read_write_disjoint read_zeros of_ne_bytes_zeros)
  have ring: "region_ring r = ring_new c"
    by (simp add: region_ring_def ring_new_def mem offset_defs) (simp add: r)
  show "region_inv r"
    using g(2) ring_inv_new [OF g(1)] ring by (simp add: region_inv_def) (simp add: r)
  show "region_contents r = []"
    by (simp add: region_contents_def ring occupied_def ring_new_def)
  show "rg_ring_capacity r = c" "rg_slot_count r = c" "rg_slot_size r = s" "rg_endian r = e"
    by (simp_all add: r)
qed

text \<open>
  A push into a ring with room: the claimed slot is the one after the newest element; a failing
  closure leaves the queue as it was, a succeeding one appends the slot it filled.
\<close>

lemma region_push_room:
  assumes inv: "region_inv r" and room: "occupied (region_ring r) < unat (rg_ring_capacity r)"
    and len: "\<And>b. length (snd (fill b)) = length b"
  defines "old \<equiv> slot_ref r (slot_at (region_ring r) (occupied (region_ring r)))"
  shows "fst (region_push fill r) = (case fst (fill old) of Inl e \<Rightarrow> Inl e | Inr _ \<Rightarrow> Inr True)"
    and "region_contents (snd (region_push fill r)) =
      region_contents r @ (case fst (fill old) of Inl e \<Rightarrow> [] | Inr _ \<Rightarrow> [snd (fill old)])"
    and "region_inv (snd (region_push fill r))"
    and "rg_ring_capacity (snd (region_push fill r)) = rg_ring_capacity r"
    and "rg_slot_count (snd (region_push fill r)) = rg_slot_count r"
    and "rg_slot_size (snd (region_push fill r)) = rg_slot_size r"
    and "rg_endian (snd (region_push fill r)) = rg_endian r"
    and "length old = unat (rg_slot_size r)"
proof -
  let ?ring = "region_ring r"
  obtain idx where idx: "try_push ?ring = Some idx"
    using room try_push_None_iff [of ?ring] by (cases "try_push ?ring") auto
  define i where "i = unat idx"
  have ring: "ring_inv ?ring" using inv by (rule region_inv_ring)
  have i: "i = slot_at ?ring (occupied ?ring)" using try_push_index [OF ring idx] by (simp add: i_def)
  have ilt: "i < unat (rg_slot_count r)"
    using slot_at_less [OF ring] i inv by (simp add: region_inv_def)
  have old: "old = slot_ref r i" by (simp add: old_def i)
  obtain res buf where f: "fill old = (res, buf)" by fastforce
  show lenold: "length old = unat (rg_slot_size r)"
    using slot_in_mapping [OF inv ilt] by (simp add: old slot_ref_def)
  have buf: "length buf = unat (rg_slot_size r)" using len [of old] f lenold by simp
  let ?r1 = "slot_write r i buf"
  note w = slot_write_frame [OF inv ilt buf]
  let ?r2 = "store_u64 ?r1 PRODUCER_OFFSET (ring_head (commit_push (region_ring ?r1)))"
  have push: "region_push fill r = (case res of Inl e \<Rightarrow> (Inl e, ?r1) | Inr _ \<Rightarrow> (Inr True, ?r2))"
    using idx f old by (simp add: region_push_def i_def Let_def split: sum.split)
  have r2: "region_ring ?r2 = commit_push ?ring"
    using region_ring_store_head [OF w(4)] w(1) by simp
  have inv2: "region_inv ?r2"
    by (rule store_u64_inv [OF w(4)]) (use r2 ring_inv_commit_push [OF ring] idx in auto)
  have apart: "slot_at ?ring k \<noteq> i" if "k < occupied ?ring" for k
    using slot_at_inj [OF ring, of k "occupied ?ring"] that room i by auto
  have c1: "region_contents ?r1 = region_contents r"
    using w(1,3) apart by (simp add: region_contents_def)
  have refs: "slot_ref ?r2 k = slot_ref ?r1 k" for k
    using store_counter_frame(1) [OF w(4)] by blast
  have "occupied (region_ring ?r2) = Suc (occupied ?ring)"
    using r2 occupied_commit_push [OF ring] idx by simp
  moreover have "slot_ref ?r2 (slot_at (region_ring ?r2) k) = slot_ref r (slot_at ?ring k)"
    if "k < occupied ?ring" for k
    using refs r2 w(3) apart [OF that] by simp
  moreover have "slot_ref ?r2 (slot_at (region_ring ?r2) (occupied ?ring)) = buf"
    using refs r2 w(2) i by simp
  ultimately have c2: "region_contents ?r2 = region_contents r @ [buf]"
    by (simp add: region_contents_def)
  show "fst (region_push fill r) = (case fst (fill old) of Inl e \<Rightarrow> Inl e | Inr _ \<Rightarrow> Inr True)"
    "region_contents (snd (region_push fill r)) =
      region_contents r @ (case fst (fill old) of Inl e \<Rightarrow> [] | Inr _ \<Rightarrow> [snd (fill old)])"
    "region_inv (snd (region_push fill r))"
    "rg_ring_capacity (snd (region_push fill r)) = rg_ring_capacity r"
    "rg_slot_count (snd (region_push fill r)) = rg_slot_count r"
    "rg_slot_size (snd (region_push fill r)) = rg_slot_size r"
    "rg_endian (snd (region_push fill r)) = rg_endian r"
    using push f c1 c2 inv2 w(4) by (auto split: sum.splits)
qed

lemma region_pop_empty:
  assumes "occupied (region_ring r) = 0"
  shows "region_pop r = (None, r)"
  using assms try_pop_None_iff [of "region_ring r"] by (simp add: region_pop_def)

lemma region_pop_some:
  assumes inv: "region_inv r" and some: "0 < occupied (region_ring r)"
  shows "fst (region_pop r) = Some (hd (region_contents r))"
    and "region_contents (snd (region_pop r)) = tl (region_contents r)"
    and "region_inv (snd (region_pop r))"
    and "rg_ring_capacity (snd (region_pop r)) = rg_ring_capacity r"
    and "rg_slot_count (snd (region_pop r)) = rg_slot_count r"
    and "rg_slot_size (snd (region_pop r)) = rg_slot_size r"
    and "rg_endian (snd (region_pop r)) = rg_endian r"
proof -
  let ?ring = "region_ring r"
  have ring: "ring_inv ?ring" using inv by (rule region_inv_ring)
  obtain idx where idx: "try_pop ?ring = Some idx"
    using some try_pop_None_iff [of ?ring] by (cases "try_pop ?ring") auto
  let ?r1 = "store_u64 r CONSUMER_OFFSET (ring_tail (commit_pop ?ring))"
  have pop: "region_pop r = (Some (slot_ref r (slot_at ?ring 0)), ?r1)"
    using idx try_pop_index [OF ring idx] by (simp add: region_pop_def)
  have r1: "region_ring ?r1 = commit_pop ?ring" by (rule region_ring_store_tail [OF inv])
  have inv1: "region_inv ?r1"
    by (rule store_u64_inv [OF inv]) (use r1 ring_inv_commit_pop [OF ring] idx in auto)
  have occ: "occupied (region_ring ?r1) = occupied ?ring - 1"
    using r1 occupied_commit_pop idx by simp
  have refs: "slot_ref ?r1 k = slot_ref r k" for k
    using store_counter_frame(1) [OF inv] by blast
  have upt: "[0..<occupied ?ring] = 0 # map Suc [0..<occupied ?ring - 1]"
    using some by (simp add: upt_conv_Cons map_Suc_upt)
  have c: "region_contents r = slot_ref r (slot_at ?ring 0) # region_contents ?r1"
    unfolding region_contents_def upt occ
    by (simp add: r1 refs slot_at_commit_pop [OF ring])
  show "fst (region_pop r) = Some (hd (region_contents r))"
    "region_contents (snd (region_pop r)) = tl (region_contents r)"
    "region_inv (snd (region_pop r))"
    "rg_ring_capacity (snd (region_pop r)) = rg_ring_capacity r"
    "rg_slot_count (snd (region_pop r)) = rg_slot_count r"
    "rg_slot_size (snd (region_pop r)) = rg_slot_size r"
    "rg_endian (snd (region_pop r)) = rg_endian r"
    using pop c inv1 by auto
qed

end
