(* ===== verification/Fifo.thy ===== *)
theory Fifo
  imports Prelude
begin

text \<open>
  The contract of a bounded first-in first-out queue, as the sink and the consumers use it.
  Two components provide it: the shared-memory region behind the memory sink (theory
  \<open>Memory_Sink\<close>) and the simulator's virtual ring (theory \<open>Virtual_Ring\<close>). The lemmas on whole
  runs of pushes and pops are proved once, from the laws of single operations.

  \<open>contents\<close> is the abstract queue, \<open>fits\<close> says which elements a slot can hold, and \<open>enq\<close>
  returns whether the element was stored.
\<close>

datatype 'a fifo_op = Enq 'a | Deq

text \<open>A run: the elements accepted, the elements handed out, and the final state.\<close>

fun fifo_run ::
  "('a \<Rightarrow> 's \<Rightarrow> bool \<times> 's) \<Rightarrow> ('s \<Rightarrow> 'a option \<times> 's) \<Rightarrow> 'a fifo_op list \<Rightarrow> 's \<Rightarrow> 'a list \<times> 'a list \<times> 's"
where
  "fifo_run enq deq [] s = ([], [], s)"
| "fifo_run enq deq (Enq x # ops) s =
     (let (ok, s1) = enq x s; (acc, out, s2) = fifo_run enq deq ops s1
      in (if ok then x # acc else acc, out, s2))"
| "fifo_run enq deq (Deq # ops) s =
     (let (r, s1) = deq s; (acc, out, s2) = fifo_run enq deq ops s1
      in (acc, (case r of None \<Rightarrow> out | Some x \<Rightarrow> x # out), s2))"

locale bounded_fifo =
  fixes inv :: "'s \<Rightarrow> bool"
    and contents :: "'s \<Rightarrow> 'a list"
    and cap :: "'s \<Rightarrow> nat"
    and fits :: "'s \<Rightarrow> 'a \<Rightarrow> bool"
    and enq :: "'a \<Rightarrow> 's \<Rightarrow> bool \<times> 's"
    and deq :: "'s \<Rightarrow> 'a option \<times> 's"
  assumes bounded: "inv s \<Longrightarrow> length (contents s) \<le> cap s"
    and enq_accepts: "inv s \<Longrightarrow> fits s x \<Longrightarrow> fst (enq x s) \<longleftrightarrow> length (contents s) < cap s"
    and enq_contents: "inv s \<Longrightarrow> fits s x \<Longrightarrow>
          contents (snd (enq x s)) = contents s @ (if fst (enq x s) then [x] else [])"
    and enq_keeps: "inv s \<Longrightarrow> fits s x \<Longrightarrow>
          inv (snd (enq x s)) \<and> cap (snd (enq x s)) = cap s \<and> fits (snd (enq x s)) = fits s"
    and deq_result: "inv s \<Longrightarrow> fst (deq s) = (case contents s of [] \<Rightarrow> None | x # _ \<Rightarrow> Some x)"
    and deq_contents: "inv s \<Longrightarrow> contents (snd (deq s)) = tl (contents s)"
    and deq_keeps: "inv s \<Longrightarrow> inv (snd (deq s)) \<and> cap (snd (deq s)) = cap s \<and> fits (snd (deq s)) = fits s"
begin

lemma enq_full: "inv s \<Longrightarrow> fits s x \<Longrightarrow> length (contents s) = cap s \<Longrightarrow> \<not> fst (enq x s)"
  by (simp add: enq_accepts)

lemma deq_None_iff: "inv s \<Longrightarrow> fst (deq s) = None \<longleftrightarrow> contents s = []"
  by (simp add: deq_result split: list.split)

lemma deq_Some: "inv s \<Longrightarrow> fst (deq s) = Some x \<Longrightarrow> contents s = x # contents (snd (deq s))"
  by (simp add: deq_result deq_contents split: list.splits)

text \<open>Nothing is lost, duplicated or reordered by any sequence of operations.\<close>

lemma run_order:
  assumes "inv s" "\<And>x. Enq x \<in> set ops \<Longrightarrow> fits s x" "fifo_run enq deq ops s = (acc, out, s')"
  shows "contents s @ acc = out @ contents s' \<and> inv s' \<and> cap s' = cap s \<and> fits s' = fits s"
  using assms
proof (induction ops arbitrary: s acc out)
  case Nil
  then show ?case by simp
next
  case (Cons op ops)
  show ?case
  proof (cases op)
    case (Enq x)
    obtain ok s1 where e: "enq x s = (ok, s1)" by fastforce
    obtain acc1 out1 s2 where r: "fifo_run enq deq ops s1 = (acc1, out1, s2)"
      by (metis prod_cases3)
    then have s2: "s2 = s'" using Cons.prems(3) Enq e by simp
    have fx: "fits s x" using Cons.prems(2) Enq by simp
    note keeps = enq_keeps [OF Cons.prems(1) fx]
    have s1: "inv s1" "cap s1 = cap s" "fits s1 = fits s" using keeps e by auto
    have c1: "contents s1 = contents s @ (if ok then [x] else [])"
      using enq_contents [OF Cons.prems(1) fx] e by simp
    have "contents s1 @ acc1 = out1 @ contents s2 \<and> inv s2 \<and> cap s2 = cap s1 \<and> fits s2 = fits s1"
      using Cons.IH [OF s1(1), of acc1 out1] Cons.prems(2) s1(3) r s2 by simp
    then show ?thesis using Cons.prems(3) Enq e r c1 s1 by (auto split: if_splits)
  next
    case Deq
    obtain d s1 where e: "deq s = (d, s1)" by fastforce
    obtain acc1 out1 s2 where r: "fifo_run enq deq ops s1 = (acc1, out1, s2)"
      by (metis prod_cases3)
    then have s2: "s2 = s'" using Cons.prems(3) Deq e by simp
    have s1: "inv s1" "cap s1 = cap s" "fits s1 = fits s" using deq_keeps [OF Cons.prems(1)] e by auto
    have c: "d = None \<and> contents s = [] \<and> contents s1 = [] \<or> (\<exists>x. d = Some x \<and> contents s = x # contents s1)"
      using deq_result [OF Cons.prems(1)] deq_contents [OF Cons.prems(1)] e
      by (auto split: list.splits)
    have "contents s1 @ acc1 = out1 @ contents s2 \<and> inv s2 \<and> cap s2 = cap s1 \<and> fits s2 = fits s1"
      using Cons.IH [OF s1(1), of acc1 out1] Cons.prems(2) s1(3) r s2 by simp
    then show ?thesis using Cons.prems(3) Deq e r c s1 by auto
  qed
qed

text \<open>A run of pushes alone accepts exactly what there is room for, in order.\<close>

lemma run_enq_accepts:
  assumes "inv s" "\<And>x. x \<in> set xs \<Longrightarrow> fits s x"
  shows "fst (fifo_run enq deq (map Enq xs) s) = take (cap s - length (contents s)) xs"
  using assms
proof (induction xs arbitrary: s)
  case Nil
  then show ?case by simp
next
  case (Cons x xs)
  obtain ok s1 where e: "enq x s = (ok, s1)" by fastforce
  have fx: "fits s x" using Cons.prems(2) by simp
  have s1: "inv s1" "cap s1 = cap s" "fits s1 = fits s"
    using enq_keeps [OF Cons.prems(1) fx] e by auto
  have ok: "ok \<longleftrightarrow> length (contents s) < cap s"
    and c1: "contents s1 = contents s @ (if ok then [x] else [])"
    using enq_accepts [OF Cons.prems(1) fx] enq_contents [OF Cons.prems(1) fx] e by auto
  have IH: "fst (fifo_run enq deq (map Enq xs) s1) = take (cap s1 - length (contents s1)) xs"
    by (rule Cons.IH [OF s1(1)]) (use Cons.prems(2) s1(3) in auto)
  show ?case
  proof (cases ok)
    case True
    then have "cap s - length (contents s) = Suc (cap s1 - length (contents s1))"
      using ok c1 s1(2) by simp
    then show ?thesis using True IH e by (simp add: split_beta)
  next
    case False
    then have "cap s - length (contents s) = 0" "cap s1 - length (contents s1) = 0"
      using ok c1 s1(2) by simp_all
    then show ?thesis using False IH e by (simp add: split_beta)
  qed
qed

text \<open>As many pops as there are elements hand out exactly the contents and empty the queue.\<close>

lemma run_deq_all:
  assumes "inv s" "length (contents s) \<le> n"
  shows "fst (snd (fifo_run enq deq (replicate n Deq) s)) = contents s
    \<and> contents (snd (snd (fifo_run enq deq (replicate n Deq) s))) = []"
  using assms
proof (induction n arbitrary: s)
  case 0
  then show ?case by simp
next
  case (Suc n)
  obtain d s1 where e: "deq s = (d, s1)" by fastforce
  have s1: "inv s1" and c1: "contents s1 = tl (contents s)"
    and d: "d = (case contents s of [] \<Rightarrow> None | x # _ \<Rightarrow> Some x)"
    using deq_keeps [OF Suc.prems(1)] deq_contents [OF Suc.prems(1)] deq_result [OF Suc.prems(1)] e
    by auto
  have "length (contents s1) \<le> n" using Suc.prems(2) c1 by simp
  from Suc.IH [OF s1 this] show ?case
    using e c1 d by (cases "contents s") (auto simp: split_beta)
qed

end

end
