(* ===== verification/Memory_Sink.thy ===== *)
theory Memory_Sink
  imports Region Fifo
begin

text \<open>
  The shared-memory sink of \<open>crates/flyby-memory/src/lib.rs\<close>: \<open>SharedMemorySink\<close> with its
  constructor, \<open>write\<close>, \<open>pop\<close> and the lifecycle, over the region of theory \<open>Region\<close>. A
  message implementation is a record of functions (\<open>message_ops\<close>); \<open>StubMessage\<close> of the
  sources is one instance. The region with encoded slots provides the \<open>bounded_fifo\<close> contract.
\<close>

datatype memory_metric_key = MessagesWritten | RingFull | Oversized

fun memory_metric_name :: "memory_metric_key \<Rightarrow> string" where
  "memory_metric_name MessagesWritten = ''memory.messages_written''"
| "memory_metric_name RingFull = ''memory.ring_full''"
| "memory_metric_name Oversized = ''memory.oversized''"

definition STACK_ENCODE_CAP :: nat where "STACK_ENCODE_CAP = 256"

record memory_sink =
  sk_region :: region
  sk_max_payload :: usize
  sk_written :: nat
  sk_metrics :: "sample list"

definition memory_sink_new ::
  "endian \<Rightarrow> (nat \<Rightarrow> (io_kind \<times> string) option) \<Rightarrow> usize \<Rightarrow> usize \<Rightarrow> memory_sink result"
where
  "memory_sink_new e mmap scount max_payload =
     (if max_payload > u32_max then Inl (config_error ''max_payload exceeds u32::MAX'')
      else case slot_size max_payload of
        Inl err \<Rightarrow> Inl err
      | Inr ss \<Rightarrow>
          (case anonymous e mmap scount ss of
             Inl err \<Rightarrow> Inl err
           | Inr region \<Rightarrow>
               Inr \<lparr>sk_region = region, sk_max_payload = max_payload, sk_written = 0,
                    sk_metrics = []\<rparr>))"

section \<open>Writing\<close>

text \<open>The slice handed to \<open>encode_into\<close>: part of a zeroed stack array, or a zeroed vector.\<close>

definition encode_scratch :: "nat \<Rightarrow> bytes" where
  "encode_scratch len =
     (if len \<le> STACK_ENCODE_CAP then take len (replicate STACK_ENCODE_CAP 0) else replicate len 0)"

definition message_header :: "'m message_ops \<Rightarrow> 'm \<Rightarrow> nat \<Rightarrow> slot_header" where
  "message_header ops m payload_len =
     (let meta = metadata_of ops m;
          flags = FLAG_VALID OR (if md_suspect meta then FLAG_SUSPECT else 0)
      in slot_header_new (schema_id ops m) flags (md_sequence meta) (timestamp ops m)
           (of_nat payload_len))"

definition sink_write :: "'m message_ops \<Rightarrow> 'm \<Rightarrow> memory_sink \<Rightarrow> unit result \<times> memory_sink" where
  "sink_write ops m s =
     (let payload_len = encoded_len ops m in
      if payload_len > unat (sk_max_payload s)
      then (Inl (sink_error (''encoded message ('' @ nat_dec payload_len
                   @ '' bytes) exceeds max_payload ('' @ nat_dec (unat (sk_max_payload s))
                   @ '' bytes)'')),
            s\<lparr>sk_metrics := record_counter (memory_metric_name Oversized) 1 (sk_metrics s)\<rparr>)
      else if payload_len > unat u32_max
      then (Inl (sink_error ''encoded message length exceeds u32::MAX''), s)
      else
        (case encode_into ops m (encode_scratch payload_len) of
           (Inl e, _) \<Rightarrow> (Inl e, s)
         | (Inr n, buf) \<Rightarrow>
             if n \<noteq> payload_len
             then (Inl (encode_error ''encode_into length does not match encoded_len''), s)
             else
               (let (pushed, region) =
                  region_push (slot_encode (rg_endian (sk_region s)) (message_header ops m payload_len)
                                 (take n buf))
                    (sk_region s);
                  s1 = s\<lparr>sk_region := region\<rparr> in
                case pushed of
                  Inl e \<Rightarrow> (Inl e, s1)
                | Inr True \<Rightarrow>
                    (Inr (), s1\<lparr>sk_written := sk_written s1 + 1,
                       sk_metrics := record_counter (memory_metric_name MessagesWritten) 1 (sk_metrics s1)\<rparr>)
                | Inr False \<Rightarrow>
                    (Inl (back_pressure_error ''ring buffer full''),
                     s1\<lparr>sk_metrics := record_counter (memory_metric_name RingFull) 1 (sk_metrics s1)\<rparr>))))"

definition sink_pop :: "memory_sink \<Rightarrow> bytes option \<times> memory_sink" where
  "sink_pop s = (let (r, region) = region_pop (sk_region s) in (r, s\<lparr>sk_region := region\<rparr>))"

definition sink_len :: "memory_sink \<Rightarrow> usize" where
  "sink_len s = region_len (sk_region s)"

definition sink_is_empty :: "memory_sink \<Rightarrow> bool" where
  "sink_is_empty s = region_is_empty (sk_region s)"

definition sink_is_full :: "memory_sink \<Rightarrow> bool" where
  "sink_is_full s = region_is_full (sk_region s)"

section \<open>Lifecycle\<close>

text \<open>
  The loop \<open>while region.pop(|_| {}) {}\<close>. On an arbitrary byte image it need not end, so it
  is a partial function; it returns on every region that satisfies the invariant.
\<close>

partial_function (option) drain_region :: "region \<Rightarrow> region option" where
  "drain_region r =
     (case region_pop r of
        (None, r1) \<Rightarrow> Some r1
      | (Some _, r1) \<Rightarrow> drain_region r1)"

definition sink_init :: "memory_sink \<Rightarrow> (unit result \<times> memory_sink) option" where
  "sink_init s =
     map_option (\<lambda>region. (Inr (), s\<lparr>sk_region := region, sk_written := 0\<rparr>)) (drain_region (sk_region s))"

definition sink_shutdown :: "memory_sink \<Rightarrow> unit result \<times> memory_sink" where
  "sink_shutdown s = (Inr (), s)"

section \<open>The stub message\<close>

record stub_message =
  stub_seq :: u64

definition stub_ops :: "stub_message message_ops" where
  "stub_ops =
     \<lparr>schema_id = (\<lambda>_. 1), timestamp = (\<lambda>_. 0),
      metadata_of = (\<lambda>m. \<lparr>md_sequence = stub_seq m, md_suspect = False\<rparr>),
      encoded_len = (\<lambda>_. 8),
      encode_into = (\<lambda>m dst.
        if length dst < 8 then (Inl (encode_error ''buffer too small for StubMessage''), dst)
        else (Inr 8, be_bytes 8 (stub_seq m) @ drop 8 dst))\<rparr>"

text \<open>A Rust slice keeps its length whatever the implementation writes into it.\<close>

definition slice_safe :: "'m message_ops \<Rightarrow> bool" where
  "slice_safe ops \<longleftrightarrow> (\<forall>m dst. length (snd (encode_into ops m dst)) = length dst)"

lemma slice_safe_stub [simp]: "slice_safe stub_ops"
  by (simp add: slice_safe_def stub_ops_def)

lemma length_encode_scratch [simp]: "length (encode_scratch n) = n"
  by (simp add: encode_scratch_def STACK_ENCODE_CAP_def)

section \<open>The region of encoded slots as a bounded queue\<close>

definition slot_fits :: "region \<Rightarrow> slot_header \<times> bytes \<Rightarrow> bool" where
  "slot_fits r = (\<lambda>(h, p). sh_magic h = SLOT_MAGIC \<and> unat (sh_payload_len h) = length p
     \<and> 32 + length p \<le> unat (rg_slot_size r))"

definition decoded :: "endian \<Rightarrow> bytes \<Rightarrow> slot_header \<times> bytes" where
  "decoded e b = (case slot_decode e b of Inl _ \<Rightarrow> undefined | Inr hp \<Rightarrow> hp)"

definition slot_inv :: "region \<Rightarrow> bool" where
  "slot_inv r \<longleftrightarrow> region_inv r \<and> (\<forall>b \<in> set (region_contents r). \<not> isl (slot_decode (rg_endian r) b))"

definition slot_contents :: "region \<Rightarrow> (slot_header \<times> bytes) list" where
  "slot_contents r = map (decoded (rg_endian r)) (region_contents r)"

definition slot_cap :: "region \<Rightarrow> nat" where
  "slot_cap r = unat (rg_ring_capacity r)"

definition slot_enq :: "slot_header \<times> bytes \<Rightarrow> region \<Rightarrow> bool \<times> region" where
  "slot_enq = (\<lambda>(h, p) r.
     (let (res, r1) = region_push (slot_encode (rg_endian r) h p) r in (res = Inr True, r1)))"

definition slot_deq :: "region \<Rightarrow> (slot_header \<times> bytes) option \<times> region" where
  "slot_deq r = (let (b, r1) = region_pop r in (map_option (decoded (rg_endian r)) b, r1))"

lemma length_slot_contents [simp]: "length (slot_contents r) = occupied (region_ring r)"
  by (simp add: slot_contents_def)

lemma slot_inv_region: "slot_inv r \<Longrightarrow> region_inv r"
  by (simp add: slot_inv_def)

lemma occupied_le_cap: "region_inv r \<Longrightarrow> occupied (region_ring r) \<le> slot_cap r"
  using occupied_le [OF region_inv_ring] by (simp add: slot_cap_def)

text \<open>Everything a push of an encoded message does to the region.\<close>

lemma region_push_encoded:
  assumes inv: "slot_inv r" and fits: "slot_fits r (h, p)"
  defines "res \<equiv> region_push (slot_encode (rg_endian r) h p) r"
  shows "fst res = Inr (occupied (region_ring r) < slot_cap r)
    \<and> slot_contents (snd res) =
      slot_contents r @ (if occupied (region_ring r) < slot_cap r then [(h, p)] else [])
    \<and> slot_inv (snd res) \<and> slot_cap (snd res) = slot_cap r \<and> slot_fits (snd res) = slot_fits r
    \<and> rg_endian (snd res) = rg_endian r \<and> rg_slot_size (snd res) = rg_slot_size r"
proof (cases "occupied (region_ring r) < slot_cap r")
  case False
  then have "res = (Inr False, r)"
    using occupied_le_cap [OF slot_inv_region [OF inv]] region_push_full [of r]
    by (simp add: res_def slot_cap_def)
  with False inv show ?thesis by simp
next
  case True
  let ?old = "slot_ref r (slot_at (region_ring r) (occupied (region_ring r)))"
  note push = region_push_room [OF slot_inv_region [OF inv], of "slot_encode (rg_endian r) h p"] True
  have "length ?old = unat (rg_slot_size r)"
    using push by (simp add: slot_cap_def)
  then have "32 + length p \<le> length ?old" using fits by (simp add: slot_fits_def)
  note enc = slot_encode_result [OF this, of "rg_endian r" h]
  have dec: "slot_decode (rg_endian r) (header_bytes (rg_endian r) h @ p @ rest) = Inr (h, p)" for rest
    using slot_decode_encoded fits by (simp add: slot_fits_def)
  have c: "region_contents (snd res) =
      region_contents r @ [header_bytes (rg_endian r) h @ p @ drop (32 + length p) ?old]"
    and f: "fst res = Inr True" and ri: "region_inv (snd res)"
    and sel: "rg_ring_capacity (snd res) = rg_ring_capacity r" "rg_slot_size (snd res) = rg_slot_size r"
      "rg_endian (snd res) = rg_endian r"
    using push enc by (simp_all add: res_def slot_cap_def)
  show ?thesis
    using True f c ri sel inv dec
    by (auto simp: slot_contents_def decoded_def slot_inv_def slot_cap_def slot_fits_def)
qed

lemma region_pop_decoded:
  assumes inv: "slot_inv r"
  shows "fst (slot_deq r) = (case slot_contents r of [] \<Rightarrow> None | x # _ \<Rightarrow> Some x)
    \<and> slot_contents (snd (slot_deq r)) = tl (slot_contents r)
    \<and> slot_inv (snd (slot_deq r)) \<and> slot_cap (snd (slot_deq r)) = slot_cap r
    \<and> slot_fits (snd (slot_deq r)) = slot_fits r"
proof (cases "occupied (region_ring r) = 0")
  case True
  then have "region_contents r = []" by (simp add: region_contents_def)
  with region_pop_empty [OF True] inv show ?thesis
    by (simp add: slot_deq_def slot_contents_def)
next
  case False
  then have pos: "0 < occupied (region_ring r)" by simp
  then obtain b bs where c: "region_contents r = b # bs"
    using length_region_contents [of r] by (cases "region_contents r") auto
  from region_pop_some [OF slot_inv_region [OF inv] pos] c inv show ?thesis
    by (auto simp: slot_deq_def slot_contents_def slot_inv_def slot_cap_def slot_fits_def split_beta)
qed

interpretation mem: bounded_fifo slot_inv slot_contents slot_cap slot_fits slot_enq slot_deq
proof
  fix r :: region and x :: "slot_header \<times> bytes"
  obtain h p where x: "x = (h, p)" by fastforce
  assume inv: "slot_inv r"
  show "length (slot_contents r) \<le> slot_cap r"
    using occupied_le_cap [OF slot_inv_region [OF inv]] by simp
  show "fst (slot_deq r) = (case slot_contents r of [] \<Rightarrow> None | x # _ \<Rightarrow> Some x)"
    "slot_contents (snd (slot_deq r)) = tl (slot_contents r)"
    "slot_inv (snd (slot_deq r)) \<and> slot_cap (snd (slot_deq r)) = slot_cap r
      \<and> slot_fits (snd (slot_deq r)) = slot_fits r"
    using region_pop_decoded [OF inv] by simp_all
  assume "slot_fits r x"
  then have fits: "slot_fits r (h, p)" by (simp add: x)
  show "fst (slot_enq x r) = (length (slot_contents r) < slot_cap r)"
    "slot_contents (snd (slot_enq x r)) = slot_contents r @ (if fst (slot_enq x r) then [x] else [])"
    "slot_inv (snd (slot_enq x r)) \<and> slot_cap (snd (slot_enq x r)) = slot_cap r
      \<and> slot_fits (snd (slot_enq x r)) = slot_fits r"
    using region_push_encoded [OF inv fits] by (simp_all add: slot_enq_def x split_beta)
qed

section \<open>The sink against its abstract specification\<close>

text \<open>
  What the sink promises: a bounded queue of headers and payloads and a count of accepted
  messages. A write is accepted when the message encodes to exactly its announced length
  within the limit and there is room; otherwise nothing but the metrics changes.
\<close>

record abstract_sink =
  aq_items :: "(slot_header \<times> bytes) list"
  aq_room :: nat
  aq_limit :: nat
  aq_count :: nat

definition spec_write :: "'m message_ops \<Rightarrow> 'm \<Rightarrow> abstract_sink \<Rightarrow> error_kind option \<times> abstract_sink" where
  "spec_write ops m a =
     (let len = encoded_len ops m in
      if len > aq_limit a then (Some Sink, a)
      else case encode_into ops m (replicate len 0) of
          (Inl e, _) \<Rightarrow> (Some (err_kind e), a)
        | (Inr n, buf) \<Rightarrow>
            if n \<noteq> len then (Some Encode, a)
            else if length (aq_items a) < aq_room a
            then (None, a\<lparr>aq_items := aq_items a @ [(message_header ops m len, buf)],
                          aq_count := aq_count a + 1\<rparr>)
            else (Some BackPressure, a))"

definition sink_abs :: "memory_sink \<Rightarrow> abstract_sink" where
  "sink_abs s = \<lparr>aq_items = slot_contents (sk_region s), aq_room = slot_cap (sk_region s),
     aq_limit = unat (sk_max_payload s), aq_count = sk_written s\<rparr>"

definition sink_inv :: "memory_sink \<Rightarrow> bool" where
  "sink_inv s \<longleftrightarrow> slot_inv (sk_region s) \<and> unat (sk_max_payload s) + 32 \<le> unat (rg_slot_size (sk_region s))
     \<and> unat (sk_max_payload s) \<le> 0xFFFFFFFF"

definition error_of :: "'a result \<Rightarrow> error_kind option" where
  "error_of r = (case r of Inl e \<Rightarrow> Some (err_kind e) | Inr _ \<Rightarrow> None)"

lemma error_of_simps [simp]: "error_of (Inl e) = Some (err_kind e)" "error_of (Inr x) = None"
  by (simp_all add: error_of_def)

lemma encode_scratch_zeros: "encode_scratch n = replicate n 0"
  by (simp add: encode_scratch_def STACK_ENCODE_CAP_def)

lemma message_header_fits:
  assumes "len \<le> unat (sk_max_payload s)" "sink_inv s" "length buf = len"
  shows "slot_fits (sk_region s) (message_header ops m len, buf)"
proof -
  have "len < 2 ^ 32" using assms by (simp add: sink_inv_def)
  then have "unat (of_nat len :: u32) = len" by (simp add: unat_of_nat)
  then show ?thesis
    using assms by (simp add: slot_fits_def message_header_def Let_def slot_header_new_def sink_inv_def)
qed

lemma sink_write_refines_aux:
  assumes inv: "sink_inv s" and safe: "slice_safe ops"
  shows "error_of (fst (sink_write ops m s)) = fst (spec_write ops m (sink_abs s))
    \<and> sink_abs (snd (sink_write ops m s)) = snd (spec_write ops m (sink_abs s))
    \<and> sink_inv (snd (sink_write ops m s))"
proof -
  let ?len = "encoded_len ops m" and ?r = "sk_region s"
  show ?thesis
  proof (cases "?len \<le> unat (sk_max_payload s)")
    case False
    then show ?thesis
      using inv by (simp add: sink_write_def spec_write_def sink_abs_def sink_inv_def Let_def)
  next
    case small: True
    then have u32: "\<not> unat u32_max < ?len" using inv by (simp add: sink_inv_def u32_max_def)
    obtain res buf where enc: "encode_into ops m (replicate ?len 0) = (res, buf)" by fastforce
    have buf: "length buf = ?len"
      using safe enc by (metis slice_safe_def length_replicate snd_conv)
    show ?thesis
    proof (cases "res = Inr ?len")
      case False
      then show ?thesis
        using small u32 enc inv
        by (cases res) (simp_all add: sink_write_def spec_write_def sink_abs_def encode_scratch_zeros Let_def)
    next
      case True
      have fits: "slot_fits ?r (message_header ops m ?len, buf)"
        using message_header_fits [OF small inv buf] .
      have "slot_inv ?r" using inv by (simp add: sink_inv_def)
      from region_push_encoded [OF this fits] inv show ?thesis
        using small u32 enc True buf
        by (auto simp: sink_write_def spec_write_def sink_abs_def sink_inv_def encode_scratch_zeros
            Let_def split_beta)
    qed
  qed
qed

lemmas sink_write_inv [inv_intros] = sink_write_refines_aux [THEN conjunct2, THEN conjunct2]

section \<open>Construction and reset\<close>

lemma unat_slot_size:
  assumes "slot_size p = Inr ss"
  shows "unat ss = slot_size_spec (unat p)" "unat p + 32 \<le> unat ss"
proof -
  have small: "unat p + 95 < 2 ^ 64" and ss: "ss = of_nat (slot_size_spec (unat p))"
    using assms by (auto simp: slot_size_cases split: if_splits)
  have "slot_size_spec (unat p) \<le> unat p + 95" by (simp add: slot_size_spec_def)
  then have "slot_size_spec (unat p) < 2 ^ 64" using small by linarith
  then show eq: "unat ss = slot_size_spec (unat p)" by (simp add: ss unat_of_nat)
  show "unat p + 32 \<le> unat ss" unfolding eq slot_size_spec_def by linarith
qed

lemma memory_sink_new_inv:
  assumes "memory_sink_new e mmap c p = Inr s"
  shows "sink_inv s" "sink_abs s = \<lparr>aq_items = [], aq_room = unat c, aq_limit = unat p, aq_count = 0\<rparr>"
proof -
  obtain ss r where p: "p \<le> u32_max" and ss: "slot_size p = Inr ss" and r: "anonymous e mmap c ss = Inr r"
    and s: "s = \<lparr>sk_region = r, sk_max_payload = p, sk_written = 0, sk_metrics = []\<rparr>"
    using assms by (auto simp: memory_sink_new_def not_less split: if_splits sum.splits)
  note a = anonymous_ok [OF r]
  have "unat p \<le> 0xFFFFFFFF" using p by (simp add: word_le_nat_alt u32_max_def)
  then show "sink_inv s"
    using unat_slot_size(2) [OF ss] a by (simp add: sink_inv_def s slot_inv_def)
  show "sink_abs s = \<lparr>aq_items = [], aq_room = unat c, aq_limit = unat p, aq_count = 0\<rparr>"
    using a by (simp add: sink_abs_def s slot_contents_def slot_cap_def)
qed

text \<open>The drain loop returns on every well-formed region, after one pop for each slot.\<close>

lemma drain_region_returns:
  assumes "slot_inv r"
  shows "\<exists>r'. drain_region r = Some r' \<and> slot_inv r' \<and> region_contents r' = []
    \<and> slot_cap r' = slot_cap r \<and> rg_slot_size r' = rg_slot_size r"
  using assms
proof (induction "occupied (region_ring r)" arbitrary: r)
  case 0
  then have "region_contents r = []" by (simp add: region_contents_def)
  then show ?case using 0 region_pop_empty [of r] by (simp add: drain_region.simps)
next
  case (Suc n)
  then have pos: "0 < occupied (region_ring r)" by simp
  have rinv: "region_inv r" using Suc.prems by (rule slot_inv_region)
  note pop = region_pop_some [OF rinv pos]
  obtain b r1 where b: "region_pop r = (Some b, r1)"
    using pop(1) by (metis prod.collapse)
  have "length (region_contents r1) = n" using pop(2) b Suc.hyps(2) by simp
  moreover have "slot_inv r1" using region_pop_decoded [OF Suc.prems] b by (simp add: slot_deq_def)
  ultimately obtain r' where "drain_region r1 = Some r'" "slot_inv r'" "region_contents r' = []"
    "slot_cap r' = slot_cap r1" "rg_slot_size r' = rg_slot_size r1"
    using Suc.hyps(1) [of r1] by auto
  then show ?case using b pop by (simp add: drain_region.simps [of r] slot_cap_def)
qed

lemma sink_init_returns:
  assumes "sink_inv s"
  shows "\<exists>s'. sink_init s = Some (Inr (), s') \<and> sink_inv s'
    \<and> sink_abs s' = (sink_abs s)\<lparr>aq_items := [], aq_count := 0\<rparr>"
proof -
  have "slot_inv (sk_region s)" using assms by (simp add: sink_inv_def)
  from drain_region_returns [OF this] assms show ?thesis
    by (auto simp: sink_init_def sink_inv_def sink_abs_def slot_contents_def)
qed

section \<open>Properties\<close>

text \<open>
  (C3) A write to the sink refines the abstract bounded queue: same error kind on every path
  (oversized, failed or short encoding, full ring), same queue and count afterwards, and the
  byte-level invariant of the region is kept.
\<close>

theorem sink_write_refines:
  assumes "sink_inv s" "slice_safe ops"
  shows "error_of (fst (sink_write ops m s)) = fst (spec_write ops m (sink_abs s))
    \<and> sink_abs (snd (sink_write ops m s)) = snd (spec_write ops m (sink_abs s))
    \<and> sink_inv (snd (sink_write ops m s))"
  by (rule sink_write_refines_aux [OF assms])

text \<open>A sink of two slots, for the witnesses.\<close>

definition no_mmap_error :: "nat \<Rightarrow> (io_kind \<times> string) option" where
  "no_mmap_error = (\<lambda>_. None)"

lemma example_slot_size: "slot_size 8 = Inr 64"
  by (simp add: slot_size_cases slot_size_spec_def)

lemma example_params: "validate_params 2 64 = Inr ()"
proof -
  have "is_power_of_two (2 :: usize)" by (auto simp: is_power_of_two_iff intro: exI [of _ 1])
  then show ?thesis
    by (simp add: validate_params_def u32_max_def HEADER_SIZE_def CACHE_LINE_def SLOTS_OFFSET_def
        checked_mul_def checked_add_def)
qed

lemma example_new: "\<exists>s. memory_sink_new Little no_mmap_error 2 8 = Inr s"
  by (simp add: memory_sink_new_def u32_max_def example_slot_size anonymous_def example_params
      no_mmap_error_def Let_def)

definition example_sink :: memory_sink where
  "example_sink = projr (memory_sink_new Little no_mmap_error 2 8)"

lemma example_sink_new: "memory_sink_new Little no_mmap_error 2 8 = Inr example_sink"
  using example_new by (auto simp: example_sink_def)

lemmas example_sink_facts = memory_sink_new_inv [OF example_sink_new]

lemma sink_write_refines_witness:
  "fst (sink_write stub_ops \<lparr>stub_seq = 5\<rparr> example_sink) = Inr ()
   \<and> length (aq_items (sink_abs (snd (sink_write stub_ops \<lparr>stub_seq = 5\<rparr> example_sink)))) = 1"
  using sink_write_refines [OF example_sink_facts(1) slice_safe_stub, of "\<lparr>stub_seq = 5\<rparr>"]
  by (cases "fst (sink_write stub_ops \<lparr>stub_seq = 5\<rparr> example_sink)")
    (auto simp: example_sink_facts(2) spec_write_def stub_ops_def Let_def)

text \<open>
  (C4) Any run of pushes and pops of encoded messages on the region: what was stored before,
  followed by what was accepted, is what came out followed by what is still stored, header and
  payload intact. Nothing is lost, duplicated, reordered or corrupted.
\<close>

theorem region_run_order:
  assumes "slot_inv r" "\<And>x. Enq x \<in> set ops \<Longrightarrow> slot_fits r x"
    "fifo_run slot_enq slot_deq ops r = (accepted, out, r')"
  shows "slot_contents r @ accepted = out @ slot_contents r' \<and> slot_inv r'"
  using mem.run_order [OF assms] by blast

lemma region_run_order_witness:
  defines "r \<equiv> sk_region example_sink"
  defines "x \<equiv> (slot_header_new 1 FLAG_VALID 5 9 2, [10, 11])"
  shows "\<exists>out r'. fifo_run slot_enq slot_deq [Enq x, Deq] r = ([x], out, r') \<and> [x] = out @ slot_contents r'"
proof -
  have inv: "slot_inv r" using example_sink_facts(1) by (simp add: r_def sink_inv_def)
  have "40 \<le> unat (rg_slot_size r)" using example_sink_facts
    by (auto simp: sink_inv_def r_def sink_abs_def)
  then have fits: "slot_fits r x" by (simp add: slot_fits_def x_def slot_header_new_def)
  have c: "slot_contents r = []" "slot_cap r = 2"
    using example_sink_facts(2) by (simp_all add: r_def sink_abs_def)
  have "fst (slot_enq x r)" using mem.enq_accepts [OF inv fits] c by simp
  then obtain out r' where run: "fifo_run slot_enq slot_deq [Enq x, Deq] r = ([x], out, r')"
    by (simp add: split_beta)
  have "slot_contents r @ [x] = out @ slot_contents r' \<and> slot_inv r'"
    by (rule region_run_order [OF inv _ run]) (use fits in auto)
  with run c show ?thesis by auto
qed

text \<open>
  (C5) A slot lies inside the mapping and behind the counters, and filling it changes neither
  the ring counters nor any other slot, whatever the filling closure writes into its slice.
\<close>

theorem slot_write_isolated:
  assumes "region_inv r" "i < unat (rg_slot_count r)" "length buf = unat (rg_slot_size r)"
  shows "slot_offset r i + unat (rg_slot_size r) \<le> length (rg_mem r)
    \<and> CONSUMER_OFFSET + 64 \<le> slot_offset r i
    \<and> region_ring (slot_write r i buf) = region_ring r
    \<and> slot_ref (slot_write r i buf) i = buf
    \<and> (\<forall>j. j \<noteq> i \<longrightarrow> slot_ref (slot_write r i buf) j = slot_ref r j)
    \<and> region_inv (slot_write r i buf)"
  using slot_in_mapping [OF assms(1,2)] slot_write_frame [OF assms] by (simp add: CONSUMER_OFFSET_def)

lemma slot_write_isolated_witness:
  "slot_ref (slot_write (sk_region example_sink) 1 (replicate (unat (rg_slot_size (sk_region example_sink))) 255)) 0
    = slot_ref (sk_region example_sink) 0"
proof -
  have inv: "region_inv (sk_region example_sink)"
    using example_sink_facts(1) by (simp add: sink_inv_def slot_inv_def)
  then have "unat (rg_slot_count (sk_region example_sink)) = 2"
    using example_sink_facts(2) by (simp add: sink_abs_def region_inv_def slot_cap_def)
  with slot_write_isolated [OF inv, of 1 "replicate (unat (rg_slot_size (sk_region example_sink))) 255"]
  show ?thesis by simp
qed

text \<open>
  (C6) Decoding a slot gives back the header and the payload that were encoded, for every
  machine byte order and whatever stale bytes the slot held; encoding fails exactly when the
  slot is too short, and then leaves it as it was.
\<close>

theorem slot_roundtrip:
  assumes "sh_magic h = SLOT_MAGIC" "unat (sh_payload_len h) = length p"
  shows "if HEADER_SIZE + length p \<le> length dst
    then fst (slot_encode e h p dst) = Inr () \<and> slot_decode e (snd (slot_encode e h p dst)) = Inr (h, p)
      \<and> length (snd (slot_encode e h p dst)) = length dst
    else isl (fst (slot_encode e h p dst)) \<and> snd (slot_encode e h p dst) = dst"
proof (cases "HEADER_SIZE + length p \<le> length dst")
  case True
  then show ?thesis
    using slot_decode_encoded [OF assms] slot_encode_result [of p dst] slot_encode_length [of e h p dst]
    by (simp add: HEADER_SIZE_def)
next
  case False
  then show ?thesis by (simp add: slot_encode_def Let_def)
qed

lemma slot_roundtrip_witness:
  "slot_decode Big (snd (slot_encode Big (slot_header_new 7 3 1 2 3) [1, 2, 3] (replicate 64 9)))
    = Inr (slot_header_new 7 3 1 2 3, [1, 2, 3])"
  using slot_roundtrip [of "slot_header_new 7 3 1 2 3" "[1, 2, 3]" "replicate 64 9" Big]
  by (simp add: slot_header_new_def HEADER_SIZE_def)

text \<open>
  (C7) The slot size is the smallest multiple of the cache line that holds header and payload,
  computed without wrap-around; an error is returned exactly when it is not representable
  with its padding, and it is then a configuration error. The const helper gives the same size, except
  for the one payload length at which its intermediate sum overflows although the size exists.
\<close>

theorem slot_size_exact:
  "case slot_size p of
     Inl err \<Rightarrow> 2 ^ 64 \<le> unat p + HEADER_SIZE + 63 \<and> err_kind err = Config \<and> slot_size_const p = None
   | Inr n \<Rightarrow> unat p + HEADER_SIZE + 63 < 2 ^ 64 \<and> unat n mod 64 = 0 \<and> HEADER_SIZE + unat p \<le> unat n
       \<and> unat n < HEADER_SIZE + unat p + 64
       \<and> slot_size_const p = (if unat p = 2 ^ 64 - 96 then None else Some n)"
proof (cases "unat p + 95 < 2 ^ 64")
  case True
  then have ss: "slot_size p = Inr (of_nat (slot_size_spec (unat p)))" by (simp add: slot_size_cases)
  have "(unat p + 96 < 2 ^ 64) = (unat p \<noteq> 2 ^ 64 - 96)" using True by linarith
  then have "slot_size_const p = (if unat p = 2 ^ 64 - 96 then None else Some (of_nat (slot_size_spec (unat p))))"
    unfolding slot_size_const_cases by simp
  moreover have "slot_size_spec (unat p) mod 64 = 0" "slot_size_spec (unat p) < unat p + 96"
    by (simp_all add: slot_size_spec_def)
  ultimately show ?thesis
    using ss unat_slot_size [OF ss] True by (simp add: HEADER_SIZE_def)
next
  case False
  then show ?thesis by (auto simp: slot_size_cases HEADER_SIZE_def slot_size_const_cases)
qed

text \<open>Geometry the constructor accepts.\<close>

definition sink_geometry_ok :: "usize \<Rightarrow> usize \<Rightarrow> bool" where
  "sink_geometry_ok scount p \<longleftrightarrow> p \<le> u32_max
     \<and> (\<exists>ss. slot_size p = Inr ss \<and> validate_params scount ss = Inr ())"

text \<open>
  A sink that is created satisfies the invariant and is an empty queue with the requested
  room and limit; creation succeeds exactly when the slot size exists, the geometry is valid and
  the mapping succeeds, and a failure of the mapping is reported with the kind the io error maps to.
\<close>

theorem memory_sink_new_outcome:
  "case memory_sink_new e mmap scount p of
     Inr s \<Rightarrow> sink_geometry_ok scount p \<and> sink_inv s
       \<and> sink_abs s = \<lparr>aq_items = [], aq_room = unat scount, aq_limit = unat p, aq_count = 0\<rparr>
   | Inl err \<Rightarrow>
       if sink_geometry_ok scount p
       then \<exists>len kind msg. mmap len = Some (kind, msg) \<and> err = error_from_io kind msg
       else err_kind err = Config"
proof (cases "memory_sink_new e mmap scount p")
  case (Inr s)
  then have "sink_geometry_ok scount p"
    by (auto simp: memory_sink_new_def sink_geometry_ok_def anonymous_def not_less split: if_splits sum.splits)
  then show ?thesis using Inr memory_sink_new_inv [OF Inr] by simp
next
  case (Inl err)
  have k: "err_kind x = Config" if "slot_size p = Inl x \<or> validate_params scount ss = Inl x" for x ss
    using that by (auto simp: slot_size_cases validate_params_def split: if_splits option.splits)
  show ?thesis
  proof (cases "sink_geometry_ok scount p")
    case True
    then obtain ss where "p \<le> u32_max" "slot_size p = Inr ss" "validate_params scount ss = Inr ()"
      by (auto simp: sink_geometry_ok_def)
    moreover from this have "\<not> u32_max < p" by (simp add: not_less)
    ultimately show ?thesis using True Inl
      by (auto simp: memory_sink_new_def anonymous_def Let_def split: option.splits) blast
  next
    case False
    then show ?thesis using Inl k
      by (auto simp: memory_sink_new_def sink_geometry_ok_def anonymous_def Let_def not_less
          split: if_splits sum.splits option.splits)
  qed
qed

text \<open>
  \<open>init\<close> returns: its drain loop ends on every well-formed sink, leaving it empty with the
  count at zero and otherwise unchanged.
\<close>

theorem sink_init_drains:
  assumes "sink_inv s"
  shows "\<exists>s'. sink_init s = Some (Inr (), s') \<and> sink_inv s' \<and> sink_len s' = 0
    \<and> sink_abs s' = (sink_abs s)\<lparr>aq_items := [], aq_count := 0\<rparr>"
proof -
  from sink_init_returns [OF assms] obtain s' where
    s': "sink_init s = Some (Inr (), s')" "sink_inv s'" "sink_abs s' = (sink_abs s)\<lparr>aq_items := [], aq_count := 0\<rparr>"
    by blast
  have "slot_contents (sk_region s') = []" using s'(3) by (simp add: sink_abs_def)
  then have "length (slot_contents (sk_region s')) = 0" by simp
  then have "occupied (region_ring (sk_region s')) = 0" by simp
  then have "sink_len s' = 0"
    by (simp add: sink_len_def region_len_def ring_len_def occupied_def unat_eq_0)
  with s' show ?thesis by blast
qed

lemma sink_init_drains_witness: "\<exists>s'. sink_init example_sink = Some (Inr (), s') \<and> sink_len s' = 0"
  using sink_init_drains [OF example_sink_facts(1)] by blast

end
