(* ===== verification/Adapters.thy ===== *)
theory Adapters
  imports Pipeline File_Frames Net_Sim Memory_Sink
begin

text \<open>
  The adapters of \<open>crates/flyby/src/pipeline.rs\<close> that make a network or a storage source the frame
  source of a pipeline: \<open>NetworkBatchSource\<close> and \<open>StorageBatchSource\<close>. The inner source is a
  parameter with its operations; \<open>FileSource\<close> with its clock and the simulated source are two of them.
\<close>

record 'n network_batch_source =
  ns_inner :: 'n
  ns_batch :: raw_batch

definition network_batch_source_new :: "'n \<Rightarrow> nat \<Rightarrow> nat \<Rightarrow> 'n network_batch_source option" where
  "network_batch_source_new inner capacity max_frame_size =
     map_option (\<lambda>b. \<lparr>ns_inner = inner, ns_batch = b\<rparr>) (raw_batch_new capacity max_frame_size)"

definition network_lifecycle ::
  "('n \<Rightarrow> unit result \<times> 'n) \<Rightarrow> 'n network_batch_source \<Rightarrow> unit result \<times> 'n network_batch_source"
where
  "network_lifecycle act a = (let (r, n) = act (ns_inner a) in (r, a\<lparr>ns_inner := n\<rparr>))"

definition network_poll_frames ::
  "('n \<Rightarrow> raw_batch \<Rightarrow> nat result \<times> 'n \<times> raw_batch) \<Rightarrow> 'n network_batch_source
    \<Rightarrow> nat result \<times> bytes list \<times> 'n network_batch_source"
where
  "network_poll_frames poll a =
     (case poll (ns_inner a) (net_reset (ns_batch a)) of
        (Inl e, n, b) \<Rightarrow> (Inl e, [], a\<lparr>ns_inner := n, ns_batch := b\<rparr>)
      | (Inr k, n, b) \<Rightarrow> (Inr k, map fst (net_packets b), a\<lparr>ns_inner := n, ns_batch := b\<rparr>))"

record 'i storage_batch_source =
  sb_inner :: 'i
  sb_batch :: record_batch

definition storage_batch_source_new :: "'i \<Rightarrow> nat \<Rightarrow> nat \<Rightarrow> 'i storage_batch_source option" where
  "storage_batch_source_new inner capacity max_record_size =
     map_option (\<lambda>b. \<lparr>sb_inner = inner, sb_batch = b\<rparr>) (record_batch_new capacity max_record_size)"

definition from_file_config :: "'i \<Rightarrow> file_config \<Rightarrow> 'i storage_batch_source option" where
  "from_file_config inner cfg =
     storage_batch_source_new inner (max (fc_batch_size cfg) 1) (max (fc_max_record_size cfg) 1)"

definition storage_lifecycle ::
  "('i \<Rightarrow> unit result \<times> 'i) \<Rightarrow> 'i storage_batch_source \<Rightarrow> unit result \<times> 'i storage_batch_source"
where
  "storage_lifecycle act a = (let (r, i) = act (sb_inner a) in (r, a\<lparr>sb_inner := i\<rparr>))"

definition storage_poll_frames ::
  "('i \<Rightarrow> record_batch \<Rightarrow> nat result \<times> 'i \<times> record_batch) \<Rightarrow> 'i storage_batch_source
    \<Rightarrow> nat result \<times> bytes list \<times> 'i storage_batch_source"
where
  "storage_poll_frames poll a =
     (case poll (sb_inner a) (batch_reset (sb_batch a)) of
        (Inl e, i, b) \<Rightarrow> (Inl e, [], a\<lparr>sb_inner := i, sb_batch := b\<rparr>)
      | (Inr k, i, b) \<Rightarrow> (Inr k, map fst (batch_records b), a\<lparr>sb_inner := i, sb_batch := b\<rparr>))"

text \<open>A file source with the readings of its clock: each poll takes two.\<close>

definition clocked_poll ::
  "'f framer \<Rightarrow> (nat \<Rightarrow> nat) \<Rightarrow> nat \<times> 'f file_source \<Rightarrow> record_batch
    \<Rightarrow> nat result \<times> (nat \<times> 'f file_source) \<times> record_batch"
where
  "clocked_poll next_len clock ts b =
     (let (t, s) = ts; (r, s1, b1) = poll_batch next_len (clock t) (clock (Suc t)) s b
      in (r, (Suc (Suc t), s1), b1))"

text \<open>
  The stages of a pipeline from a file through a decoder without state and a fixed placement to
  the shared-memory sink. While the thread yields, a reader of the ring may run (\<open>reader\<close>).
\<close>

definition file_to_memory ::
  "'f framer \<Rightarrow> (nat \<Rightarrow> nat) \<Rightarrow> (string \<Rightarrow> (io_kind \<times> string) + os_file) \<Rightarrow> (bytes \<Rightarrow> 'm option)
    \<Rightarrow> 'm message_ops \<Rightarrow> (memory_sink \<Rightarrow> memory_sink)
    \<Rightarrow> ((nat \<times> 'f file_source) storage_batch_source, unit, unit, sink_id, memory_sink, 'm) stages"
where
  "file_to_memory next_len clock open_file dec mops reader =
     \<lparr>st_source_init = storage_lifecycle (\<lambda>(t, s). let (r, s1) = file_source_init open_file s in (r, t, s1)),
      st_source_shutdown = storage_lifecycle (\<lambda>(t, s). let (r, s1) = file_source_shutdown s in (r, t, s1)),
      st_poll_frames = storage_poll_frames (clocked_poll next_len clock),
      st_is_exhausted = (\<lambda>a. fs_exhausted (snd (sb_inner a))),
      st_decode = (\<lambda>d frame. (Inr (dec frame), d)),
      st_process = identity_process,
      st_route = fixed_route,
      st_sink_init = sink_init,
      st_sink_write = sink_write mops,
      st_sink_flush = (\<lambda>k. (Inr (), k)),
      st_sink_shutdown = sink_shutdown,
      st_yield = reader\<rparr>"

end
