(* ===== verification/Pipeline_File.thy ===== *)
theory Pipeline_File
  imports Pipeline_Run Adapters
begin

text \<open>
  The pipeline from a file to shared memory, \<open>file_to_memory\<close> of theory \<open>Adapters\<close>, keeps the contract
  \<open>behaved\<close>: its stages are the \<open>FileSource\<close> behind \<open>StorageBatchSource\<close>, a fixed placement and the
  \<open>SharedMemorySink\<close>. A run delivers every frame of the file.
\<close>

section \<open>The sink\<close>

definition encodable :: "'m message_ops \<Rightarrow> nat \<Rightarrow> 'm \<Rightarrow> bool" where
  "encodable mops limit m \<longleftrightarrow> encoded_len mops m \<le> limit
     \<and> fst (encode_into mops m (replicate (encoded_len mops m) 0)) = Inr (encoded_len mops m)"

definition item :: "'m message_ops \<Rightarrow> 'm \<Rightarrow> slot_header \<times> bytes" where
  "item mops m = (message_header mops m (encoded_len mops m),
     snd (encode_into mops m (replicate (encoded_len mops m) 0)))"

definition has_room :: "'m message_ops \<Rightarrow> 'm list \<Rightarrow> memory_sink \<Rightarrow> bool" where
  "has_room mops ms k \<longleftrightarrow> slice_safe mops \<and> sink_inv k
     \<and> list_all (encodable mops (aq_limit (sink_abs k))) ms
     \<and> length (aq_items (sink_abs k)) + length ms \<le> aq_room (sink_abs k)"

definition put_item :: "'m message_ops \<Rightarrow> 'm \<Rightarrow> memory_sink \<Rightarrow> memory_sink" where
  "put_item mops m k = snd (sink_write mops m k)"

lemma error_of_None: "error_of r = None \<Longrightarrow> r = Inr (() :: unit)"
  by (auto simp: error_of_def split: sum.splits)

lemma sink_write_room:
  assumes "has_room mops (m # ms) k"
  shows "sink_write mops m k = (Inr (), put_item mops m k)" "has_room mops ms (put_item mops m k)"
    "sink_abs (put_item mops m k) = (sink_abs k)\<lparr>aq_items := aq_items (sink_abs k) @ [item mops m],
        aq_count := aq_count (sink_abs k) + 1\<rparr>"
proof -
  have r: "slice_safe mops" "sink_inv k" "encodable mops (aq_limit (sink_abs k)) m"
    "length (aq_items (sink_abs k)) + length (m # ms) \<le> aq_room (sink_abs k)"
    using assms by (simp_all add: has_room_def)
  obtain buf where "encode_into mops m (replicate (encoded_len mops m) 0) = (Inr (encoded_len mops m), buf)"
    using r(3) by (metis encodable_def prod.collapse)
  then have s: "spec_write mops m (sink_abs k)
      = (None, (sink_abs k)\<lparr>aq_items := aq_items (sink_abs k) @ [item mops m], aq_count := aq_count (sink_abs k) + 1\<rparr>)"
    using r(3,4) by (simp add: spec_write_def encodable_def item_def)
  note ref = sink_write_refines_aux [OF r(2,1), of m]
  show "sink_abs (put_item mops m k) = (sink_abs k)\<lparr>aq_items := aq_items (sink_abs k) @ [item mops m],
        aq_count := aq_count (sink_abs k) + 1\<rparr>"
    using ref s by (simp add: put_item_def)
  then show "has_room mops ms (put_item mops m k)"
    using assms ref r by (simp add: has_room_def put_item_def)
  have "fst (sink_write mops m k) = Inr ()" using ref s error_of_None by simp
  then show "sink_write mops m k = (Inr (), put_item mops m k)" by (metis prod.collapse put_item_def)
qed

lemma put_items:
  "has_room mops ms k \<Longrightarrow> sink_abs (fold (put_item mops) ms k)
     = (sink_abs k)\<lparr>aq_items := aq_items (sink_abs k) @ map (item mops) ms, aq_count := aq_count (sink_abs k) + length ms\<rparr>"
proof (induction ms arbitrary: k)
  case (Cons m ms)
  have "has_room mops ms (put_item mops m k)" by (rule sink_write_room(2) [OF Cons.prems])
  from Cons.IH [OF this] sink_write_room(3) [OF Cons.prems] show ?case by simp
qed simp

section \<open>The source\<close>

definition file_ok :: "'f framer \<Rightarrow> ('f \<Rightarrow> bool) \<Rightarrow> nat \<Rightarrow> (nat \<times> 'f file_source) storage_batch_source \<Rightarrow> bool" where
  "file_ok next_len ok w a \<longleftrightarrow>
     (let s = snd (sb_inner a); b = sb_batch a in
      frame_contract next_len ok \<and> ok (fs_framer s) \<and> batch_inv b \<and> 0 < batch_capacity b \<and> batch_capacity b \<le> w
      \<and> fs_initialized s \<and> fc_eof_policy (fs_config s) = Stop \<and> fs_follow_next s = None
      \<and> (fs_exhausted s \<or> readable next_len (rb_max_record_size b) s))"

definition file_stream :: "'f framer \<Rightarrow> (nat \<times> 'f file_source) storage_batch_source \<Rightarrow> bytes list" where
  "file_stream next_len a = frames_ahead next_len 0 [] (snd (sb_inner a))"

definition file_left :: "'f framer \<Rightarrow> (nat \<times> 'f file_source) storage_batch_source \<Rightarrow> nat" where
  "file_left next_len a = (if fs_exhausted (snd (sb_inner a)) then 0 else Suc (length (file_stream next_len a)))"

lemma file_poll:
  assumes "file_ok next_len ok w a" "\<not> fs_exhausted (snd (sb_inner a))"
  shows "\<exists>b a'. storage_poll_frames (clocked_poll next_len clock) a = (Inr (length b), b, a') \<and> file_ok next_len ok w a'
    \<and> file_stream next_len a = b @ file_stream next_len a' \<and> file_left next_len a' < file_left next_len a \<and> length b \<le> w"
proof -
  obtain t s where ts: "sb_inner a = (t, s)" by fastforce
  let ?b = "batch_reset (sb_batch a)"
  have ok: "frame_contract next_len ok" "ok (fs_framer s)" "batch_inv (sb_batch a)" "0 < batch_capacity (sb_batch a)"
    "batch_capacity (sb_batch a) \<le> w" "fs_initialized s" "fc_eof_policy (fs_config s) = Stop" "fs_follow_next s = None"
    "readable next_len (rb_max_record_size (sb_batch a)) s"
    using assms ts by (auto simp: file_ok_def Let_def)
  have b0: "batch_inv ?b" "rb_max_record_size ?b = rb_max_record_size (sb_batch a)" "batch_len ?b = 0"
    "batch_records ?b = []" "batch_capacity ?b = batch_capacity (sb_batch a)"
    using batch_inv_reset [OF ok(3)] by (simp_all add: batch_reset_def batch_len_def batch_records_def batch_capacity_def)
  have rd: "readable next_len (rb_max_record_size ?b) s" using ok(9) b0 by simp
  have "case fs_follow_next s of None \<Rightarrow> True | Some due \<Rightarrow> due \<le> clock t \<and> fc_eof_policy (fs_config s) \<noteq> Stop"
    using ok(8) by simp
  from frame_contract.poll_batch_result [OF ok(1,2) rd b0(1) ok(6) this, of "clock (Suc t)"] obtain ms s' b' where
    p: "poll_batch next_len (clock t) (clock (Suc t)) s ?b = (Inr (length ms), s', b')"
    and e: "emits s ?b ms s' b'"
    and f: "frames_ahead next_len (Suc (fs_loops s)) [] s = map fst ms @ frames_ahead next_len (Suc (fs_loops s)) [] s'"
    and d: "batch_len b' < batch_capacity ?b \<longrightarrow> fs_exhausted s'"
    and r: "\<not> fs_exhausted s' \<longrightarrow> readable next_len (rb_max_record_size ?b) s'"
      "rb_max_record_size b' = rb_max_record_size ?b"
    using ok(7) by auto
  have e': "batch_records b' = ms" "batch_inv b'" "batch_capacity b' = batch_capacity (sb_batch a)"
    "fs_config s' = fs_config s" "fs_framer s' = fs_framer s" "fs_initialized s'" "fs_follow_next s' = None"
    "batch_len b' = length ms"
    using e ok emits_len [OF e] b0 by (auto simp: emits_def)
  let ?a = "a\<lparr>sb_inner := (Suc (Suc t), s'), sb_batch := b'\<rparr>"
  have poll: "storage_poll_frames (clocked_poll next_len clock) a = (Inr (length (map fst ms)), map fst ms, ?a)"
    using p ts e'(1) by (simp add: storage_poll_frames_def clocked_poll_def)
  have stream: "file_stream next_len a = map fst ms @ file_stream next_len ?a"
    using f e'(4) ok(7) ts by (simp add: file_stream_def frames_ahead_def)
  have okk: "file_ok next_len ok w ?a"
    using ok(1,2,4-8) e' r b0 by (simp add: file_ok_def Let_def) blast
  have "length ms \<le> batch_capacity b'"
    using e'(2,8) by (simp add: batch_inv_def batch_len_def batch_capacity_def)
  then have w: "length (map fst ms) \<le> w" using e'(3) ok(5) by simp
  have "file_left next_len ?a < file_left next_len a"
  proof (cases "fs_exhausted s'")
    case True
    then show ?thesis using assms(2) by (simp add: file_left_def)
  next
    case False
    then have "ms \<noteq> []" using d e'(8) ok(4) b0 by auto
    then show ?thesis using False assms(2) stream by (simp add: file_left_def)
  qed
  with poll okk stream w show ?thesis by blast
qed

interpretation file_mem: behaved "file_to_memory next_len clock open_file dec mops reader" dec Some "\<lambda>i m. i"
  "has_room mops" "put_item mops" "file_ok next_len ok" "file_stream next_len" "file_left next_len"
  for next_len :: "'f framer" and clock open_file dec mops reader and ok :: "'f \<Rightarrow> bool"
proof unfold_locales
  fix w :: nat and s :: "(nat \<times> 'f file_source) storage_batch_source"
  show "file_stream next_len s = []"
    if "file_ok next_len ok w s" "st_is_exhausted (file_to_memory next_len clock open_file dec mops reader) s"
    using that by (simp add: file_to_memory_def file_ok_def file_stream_def frames_ahead_def Let_def)
  assume "file_ok next_len ok w s" "\<not> st_is_exhausted (file_to_memory next_len clock open_file dec mops reader) s"
  then show "\<exists>b s'. st_poll_frames (file_to_memory next_len clock open_file dec mops reader) s = (Inr (length b), b, s')
      \<and> file_ok next_len ok w s' \<and> file_stream next_len s = b @ file_stream next_len s'
      \<and> file_left next_len s' < file_left next_len s \<and> length b \<le> w"
    using file_poll [of next_len ok w s clock] by (simp add: file_to_memory_def)
qed (simp_all add: file_to_memory_def identity_process_def fixed_route_def sink_write_room)

section \<open>From the file to shared memory\<close>

lemma traffic_fixed:
  "\<not> sink_id_is_none i \<Longrightarrow> traffic dec Some (\<lambda>m. i) frames = map (Pair (as_u32 i)) (List.map_filter dec frames)"
  by (induction frames) (simp_all add: traffic_def map_filter_def routed_def split: option.splits)

lemma mail_fixed: "mail i (map (Pair i) ms) = ms"
  by (simp add: mail_def comp_def filter_map)

text \<open>A pipeline from a configured file to a new memory sink, before \<open>init\<close>.\<close>

definition file_pipeline ::
  "file_config \<Rightarrow> 'f \<Rightarrow> sink_id \<Rightarrow> memory_sink \<Rightarrow> runtime_config
    \<Rightarrow> ((nat \<times> 'f file_source) storage_batch_source, unit, unit, sink_id, memory_sink) pipeline"
where
  "file_pipeline c framer i k rc =
     snd (register_sink 0 i k
       (with_runtime rc (pipeline_new (the (from_file_config (0, file_source_new c framer) c)) () () i)))"

declare with_runtime_def [simp]

lemma from_file_config_some:
  obtains b where "from_file_config inner c = Some \<lparr>sb_inner = inner, sb_batch = b\<rparr>" "batch_inv b"
    "batch_capacity b = max (fc_batch_size c) 1" "rb_max_record_size b = max (fc_max_record_size c) 1"
  using new_batch_some [of c] that
  by (auto simp: from_file_config_def storage_batch_source_new_def file_config_new_batch_def)

text \<open>Initialising it opens the file and drains the sink.\<close>

lemma file_pipeline_init:
  assumes "frame_contract next_len ok" "ok framer" "open_file (fc_path c) = Inr file" "fl_pos file = 0"
    "\<forall>n. fl_fail file n = None" "fl_seek_fail file = None" "fc_eof_policy c = Stop"
    "well_framed next_len framer (max (fc_max_record_size c) 1) (fl_data file)"
    "\<not> sink_id_is_none i" "sink_inv k"
  shows "\<exists>p2 k2. pipeline_init (file_to_memory next_len clock open_file dec mops reader) (file_pipeline c framer i k rc)
       = Some (Inr (), p2)
     \<and> file_ok next_len ok (max (fc_batch_size c) 1) (pl_source p2)
     \<and> file_stream next_len (pl_source p2) = split_frames next_len framer (fl_data file)
     \<and> pl_sinks p2 = [(as_u32 i, k2)] \<and> sink_inv k2 \<and> sink_abs k2 = (sink_abs k)\<lparr>aq_items := [], aq_count := 0\<rparr>
     \<and> pl_initialized p2 \<and> pl_placement p2 = i \<and> pl_runtime p2 = rc \<and> pl_pending p2 = []
     \<and> pl_messages_out p2 = 0 \<and> pl_messages_dropped p2 = 0"
proof -
  define s0 where "s0 = file_source_new c framer"
  obtain b where b: "from_file_config (0::nat, s0) c = Some \<lparr>sb_inner = (0, s0), sb_batch = b\<rparr>" "batch_inv b"
    "batch_capacity b = max (fc_batch_size c) 1" "rb_max_record_size b = max (fc_max_record_size c) 1"
    by (rule from_file_config_some)
  define s where "s = snd (file_source_init open_file s0)"
  have s: "file_source_init open_file s0 = (Inr (), s)"
    and f: "fs_file s = Some file" "fs_framer s = framer" "fs_config s = c" "fs_off s = 0" "fs_buf s = []"
      "\<not> fs_exhausted s" "fs_initialized s" "fs_follow_next s = None"
    using assms(3) by (auto simp: s_def s0_def file_source_init_def file_source_new_def)
  from sink_init_returns [OF assms(10)] obtain k2 where
    k2: "sink_init k = Some (Inr (), k2)" "sink_inv k2" "sink_abs k2 = (sink_abs k)\<lparr>aq_items := [], aq_count := 0\<rparr>"
    by blast
  have rd: "readable next_len (rb_max_record_size b) s"
    using assms(4-8) f b(4)
    by (simp add: readable_def source_inv_def no_faults_def source_data_def source_pos_def)
  have "file_ok next_len ok (max (fc_batch_size c) 1) \<lparr>sb_inner = (0, s), sb_batch = b\<rparr>"
    using rd assms(1,2,7) f b by (simp add: file_ok_def Let_def)
  moreover have "file_stream next_len \<lparr>sb_inner = (0, s), sb_batch = b\<rparr> = split_frames next_len framer (fl_data file)"
    using f assms(7) by (simp add: file_stream_def frames_ahead_def source_data_def)
  ultimately show ?thesis
    using b(1) s k2 assms(9)
    by (simp add: pipeline_init_def file_pipeline_def register_sink_def pipeline_new_def s0_def [symmetric]
        file_to_memory_def storage_lifecycle_def)
qed

text \<open>
  (C13) A pipeline from a file through a decoder to shared memory delivers the file: \<open>init\<close> succeeds,
  \<open>run\<close> returns, and the sink then holds exactly the decoded messages of all frames of the file, in
  order, each with its header and encoding, none dropped. It needs a readable, well-framed file, a
  frame batch within the runtime's \<open>batch_size\<close>, and a ring with room for all messages.
\<close>

theorem file_pipeline_delivers:
  fixes mops :: "'m message_ops"
  assumes "frame_contract next_len ok" "ok framer" "open_file (fc_path c) = Inr file" "fl_pos file = 0"
    "\<forall>n. fl_fail file n = None" "fl_seek_fail file = None" "fc_eof_policy c = Stop"
    "well_framed next_len framer (max (fc_max_record_size c) 1) (fl_data file)"
    "\<not> sink_id_is_none i" "memory_sink_new e mmap scount limit = Inr k"
    "max (fc_batch_size c) 1 \<le> rc_batch_size rc" "slice_safe mops"
    "messages = List.map_filter dec (split_frames next_len framer (fl_data file))"
    "list_all (encodable mops (unat limit)) messages" "length messages \<le> unat scount"
  shows "\<exists>p2 p3 k3.
       pipeline_init (file_to_memory next_len clock open_file dec mops reader) (file_pipeline c framer i k rc) = Some (Inr (), p2)
     \<and> pipeline_run (file_to_memory next_len clock open_file dec mops reader) p2 = Some (Inr (), p3)
     \<and> pl_sinks p3 = [(as_u32 i, k3)]
     \<and> sink_abs k3 = \<lparr>aq_items = map (item mops) messages, aq_room = unat scount, aq_limit = unat limit,
          aq_count = length messages\<rparr>
     \<and> pl_messages_out p3 = length messages \<and> pl_messages_dropped p3 = 0"
proof -
  let ?ops = "file_to_memory next_len clock open_file dec mops reader"
  note new = memory_sink_new_inv [OF assms(10)]
  from file_pipeline_init [where open_file = open_file and clock = clock and dec = dec and mops = mops
      and reader = reader and rc = rc, OF assms(1-9) new(1)] obtain p2 k2 where
    p2: "pipeline_init ?ops (file_pipeline c framer i k rc) = Some (Inr (), p2)"
      "file_ok next_len ok (max (fc_batch_size c) 1) (pl_source p2)"
      "file_stream next_len (pl_source p2) = split_frames next_len framer (fl_data file)"
      "pl_sinks p2 = [(as_u32 i, k2)]" "sink_inv k2" "sink_abs k2 = (sink_abs k)\<lparr>aq_items := [], aq_count := 0\<rparr>"
      "pl_initialized p2" "pl_placement p2 = i" "pl_runtime p2 = rc" "pl_pending p2 = []"
      "pl_messages_out p2 = 0" "pl_messages_dropped p2 = 0" by blast
  have ahead: "file_mem.ahead next_len p2 = split_frames next_len framer (fl_data file)"
    using p2 by (simp add: file_mem.ahead_def waiting_def)
  have tr: "traffic dec Some (\<lambda>m. i) (split_frames next_len framer (fl_data file)) = map (Pair (as_u32 i)) messages"
    using traffic_fixed [OF assms(9)] by (simp add: assms(13))
  have room: "has_room mops messages k2"
    using assms(12,14,15) p2(5,6) new(2) by (simp add: has_room_def)
  have "file_mem.ready TYPE('m) dec mops i (file_mem.ahead next_len p2) p2"
    unfolding file_mem.ready_def ahead tr using p2 room by (auto simp: mail_fixed)
  from file_mem.run_delivers [OF p2(2) this, of clock open_file reader] p2(9) assms(11) obtain p3 where
    p3: "pipeline_run ?ops p2 = Some (Inr (), p3)"
      "file_mem.advance TYPE('m) dec mops i (split_frames next_len framer (fl_data file)) p2 p3"
    unfolding ahead by auto
  have "pl_sinks p3 = [(as_u32 i, fold (put_item mops) messages k2)]"
    "pl_messages_out p3 = length messages" "pl_messages_dropped p3 = 0"
    using p3(2) p2 by (simp_all add: file_mem.advance_def tr delivered_mail mail_fixed)
  moreover have "sink_abs (fold (put_item mops) messages k2) = \<lparr>aq_items = map (item mops) messages,
      aq_room = unat scount, aq_limit = unat limit, aq_count = length messages\<rparr>"
    using put_items [OF room] p2(6) new(2) by simp
  ultimately show ?thesis using p2(1) p3(1) by blast
qed


text \<open>The example file of theory \<open>File_Frames\<close> into a sink of two slots.\<close>

definition example_decode :: "bytes \<Rightarrow> stub_message option" where
  "example_decode frame = Some \<lparr>stub_seq = of_nat (length frame)\<rparr>"

lemma be_bytes_small: "be_bytes 8 (2 :: u64) = [0, 0, 0, 0, 0, 0, 0, 2]" "be_bytes 8 (3 :: u64) = [0, 0, 0, 0, 0, 0, 0, 3]"
  by code_simp+

lemma file_pipeline_delivers_witness:
  "\<exists>p2 p3 k3. pipeline_run (file_to_memory next_record_len_delim id (\<lambda>_. Inr example_file) example_decode stub_ops id) p2
       = Some (Inr (), p3) \<and> pl_sinks p3 = [(7, k3)]
     \<and> map snd (aq_items (sink_abs k3)) = [[0, 0, 0, 0, 0, 0, 0, 2], [0, 0, 0, 0, 0, 0, 0, 3]]"
proof -
  have ok: "0 < max_len example_framer" by (simp add: example_framer_def)
  have op: "(\<lambda>_. Inr example_file) (fc_path example_config) = (Inr example_file :: (io_kind \<times> string) + os_file)"
    by simp
  have msgs: "[\<lparr>stub_seq = 2\<rparr>, \<lparr>stub_seq = 3\<rparr>]
      = List.map_filter example_decode (split_frames next_record_len_delim example_framer (fl_data example_file))"
    by (simp add: example_file_def example_frames example_decode_def map_filter_def)
  have enc: "list_all (encodable stub_ops (unat (8 :: usize))) ms" for ms
    by (simp add: encodable_def stub_ops_def list_all_iff)
  have fok: "fl_pos example_file = 0" "\<forall>n. fl_fail example_file n = None" "fl_seek_fail example_file = None"
    "fc_eof_policy example_config = Stop"
    "well_framed next_record_len_delim example_framer (max (fc_max_record_size example_config) 1) (fl_data example_file)"
    "\<not> sink_id_is_none (SinkId 7)" "max (fc_batch_size example_config) 1 \<le> rc_batch_size runtime_config_default"
    using example_frames(2)
    by (simp_all add: example_file_def example_config_def file_config_default_def sink_id_is_none_def
        runtime_config_default_def)
  have room: "length [\<lparr>stub_seq = 2\<rparr>, \<lparr>stub_seq = 3\<rparr>] \<le> unat (2 :: usize)" by simp
  from file_pipeline_delivers [where open_file = "\<lambda>_. Inr example_file" and clock = id and reader = id,
      OF delim.frame_contract_axioms ok op fok(1-6) example_sink_new fok(7) slice_safe_stub msgs enc room]
  obtain p2 p3 k3 where
    "pipeline_run (file_to_memory next_record_len_delim id (\<lambda>_. Inr example_file) example_decode stub_ops id) p2
      = Some (Inr (), p3)" "pl_sinks p3 = [(7, k3)]"
    "aq_items (sink_abs k3) = map (item stub_ops) [\<lparr>stub_seq = 2\<rparr>, \<lparr>stub_seq = 3\<rparr>]"
    by auto
  moreover have "map snd (map (item stub_ops) [\<lparr>stub_seq = 2\<rparr>, \<lparr>stub_seq = 3\<rparr>])
      = [[0, 0, 0, 0, 0, 0, 0, 2], [0, 0, 0, 0, 0, 0, 0, 3]]"
    by (simp add: item_def stub_ops_def be_bytes_small)
  ultimately show ?thesis by metis
qed

end
