(* ===== verification/Runtime.thy ===== *)
theory Runtime
  imports Pipeline_File
begin

text \<open>
  The drivers of a pipeline in \<open>crates/flyby/src/runtime\<close>: the single-thread and worker-pool
  schedulers (\<open>scheduler.rs\<close>) and \<open>Runtime\<close> with its phases (\<open>driver.rs\<close>).

  The driven pipeline is any implementation of the trait: its \<open>init\<close>, \<open>step_outcome\<close> and \<open>shutdown\<close>.
  The rest of the world is a record: what the shutdown flag reads before each step, what happens
  to the pipeline's surroundings while the driver sleeps or yields, and the times of the metrics.
\<close>

record 'p driven =
  dv_init :: "'p \<Rightarrow> (unit result \<times> 'p) option"
  dv_step :: "'p \<Rightarrow> (step_outcome result \<times> 'p) option"
  dv_shutdown :: "'p \<Rightarrow> unit result \<times> 'p"

record 'p world =
  wd_stop :: "nat \<Rightarrow> bool"
  wd_pause :: "nat \<Rightarrow> 'p \<Rightarrow> 'p"
  wd_step_ns :: "nat \<Rightarrow> nat"
  wd_elapsed :: nat

definition simple_driven ::
  "('s, 'd, 'p, 'r, 'k, 'm) stages \<Rightarrow> ('s, 'd, 'p, 'r, 'k) pipeline driven"
where
  "simple_driven ops = \<lparr>dv_init = pipeline_init ops, dv_step = step_outcome_of ops, dv_shutdown = pipeline_shutdown ops\<rparr>"

section \<open>The single-thread loop\<close>

text \<open>What the driver does between two steps: sleep, yield or nothing, for a time in nanoseconds.\<close>

definition between_steps :: "'p world \<Rightarrow> runtime_config \<Rightarrow> step_outcome \<Rightarrow> 'p \<Rightarrow> 'p" where
  "between_steps w c out p =
     (case out of
        Idle \<Rightarrow> (case idle_sleep c of None \<Rightarrow> p | Some d \<Rightarrow> wd_pause w d p)
      | BackPressured \<Rightarrow> wd_pause w (backpressure_yield c) p
      | _ \<Rightarrow> p)"

partial_function (option) run_single_thread ::
  "'p driven \<Rightarrow> 'p world \<Rightarrow> runtime_config \<Rightarrow> nat \<Rightarrow> 'p \<Rightarrow> (unit result \<times> 'p) option"
where
  "run_single_thread dv w c n p =
     (if wd_stop w n then Some (Inr (), p)
      else
        (case dv_step dv p of
           None \<Rightarrow> None
         | Some (Inl e, p1) \<Rightarrow> Some (Inl e, p1)
         | Some (Inr Exhausted, p1) \<Rightarrow> Some (Inr (), p1)
         | Some (Inr out, p1) \<Rightarrow> run_single_thread dv w c (n + 1) (between_steps w c out p1)))"

text \<open>
  \<open>request_shutdown\<close> stores \<open>true\<close> in the shared flag. Nothing in the code stores \<open>false\<close> again, so every
  later load reads \<open>true\<close>. \<open>SingleThreadScheduler\<close> is a configuration and such a flag.
\<close>

definition request_shutdown :: "'p world \<Rightarrow> 'p world" where
  "request_shutdown w = w\<lparr>wd_stop := (\<lambda>_. True)\<rparr>"

record single_thread_scheduler =
  ss_config :: runtime_config
  ss_flag :: bool

definition single_thread_with_shutdown :: "runtime_config \<Rightarrow> bool \<Rightarrow> single_thread_scheduler" where
  "single_thread_with_shutdown c flag = \<lparr>ss_config = c, ss_flag = flag\<rparr>"

definition single_thread_new :: "runtime_config \<Rightarrow> single_thread_scheduler" where
  "single_thread_new c = \<lparr>ss_config = c, ss_flag = False\<rparr>"

definition driver_build_scheduler :: "runtime_config \<Rightarrow> single_thread_scheduler" where
  "driver_build_scheduler c = single_thread_new c"

definition scheduler_request_shutdown :: "single_thread_scheduler \<Rightarrow> single_thread_scheduler" where
  "scheduler_request_shutdown s = s\<lparr>ss_flag := True\<rparr>"

definition is_shutdown_requested :: "single_thread_scheduler \<Rightarrow> bool" where
  "is_shutdown_requested s = ss_flag s"

definition single_thread_scheduler_run ::
  "'p driven \<Rightarrow> 'p world \<Rightarrow> single_thread_scheduler \<Rightarrow> 'p \<Rightarrow> (unit result \<times> 'p) option"
where
  "single_thread_scheduler_run dv w s p =
     run_single_thread dv (if ss_flag s then request_shutdown w else w) (ss_config s) 0 p"

text \<open>\<open>run_pipeline\<close>: a fresh flag that nobody else holds.\<close>

definition unstopped :: "'p world \<Rightarrow> 'p world" where
  "unstopped w = w\<lparr>wd_stop := (\<lambda>_. False)\<rparr>"

definition init_run_shutdown ::
  "'p driven \<Rightarrow> 'p world \<Rightarrow> runtime_config \<Rightarrow> 'p \<Rightarrow> (unit result \<times> 'p) option"
where
  "init_run_shutdown dv w c p =
     (case dv_init dv p of
        None \<Rightarrow> None
      | Some (Inl e, p1) \<Rightarrow> Some (Inl e, p1)
      | Some (Inr _, p1) \<Rightarrow>
          (case run_single_thread dv w c 0 p1 of
             None \<Rightarrow> None
           | Some (Inl e, p2) \<Rightarrow> Some (Inl e, p2)
           | Some (Inr _, p2) \<Rightarrow> Some (dv_shutdown dv p2)))"

definition run_pipeline :: "'p driven \<Rightarrow> 'p world \<Rightarrow> runtime_config \<Rightarrow> 'p \<Rightarrow> (unit result \<times> 'p) option" where
  "run_pipeline dv w c p = init_run_shutdown dv (unstopped w) c p"

section \<open>The worker pool\<close>

text \<open>
  One pipeline for each worker. The workers share nothing but the shutdown flag and the list of
  errors: \<open>worlds\<close> is what each of them sees of the rest, \<open>order\<close> the order in which they take the lock
  on the error list, and \<open>spawn\<close> the failures of the operating system to start a thread. \<open>crash\<close> are
  the workers whose closure panics, in the caller's factory or one of its stages: \<open>join\<close> returns their
  panic, which the code ignores.
\<close>

definition worker_pool_new :: "runtime_config \<Rightarrow> runtime_config result" where
  "worker_pool_new c = (case runtime_validate c of Inl e \<Rightarrow> Inl e | Inr _ \<Rightarrow> Inr c)"

definition worker_error :: "nat \<Rightarrow> error \<Rightarrow> string" where
  "worker_error i e = ''worker '' @ nat_dec i @ '': '' @ error_display e"

definition run_worker ::
  "'p driven \<Rightarrow> (nat \<Rightarrow> 'p result) \<Rightarrow> (nat \<Rightarrow> 'p world) \<Rightarrow> runtime_config \<Rightarrow> nat \<Rightarrow> unit result option"
where
  "run_worker dv factory worlds c i =
     (case factory i of
        Inl e \<Rightarrow> Some (Inl e)
      | Inr p \<Rightarrow> map_option fst (init_run_shutdown dv (worlds i) c p))"

definition pool_errors ::
  "(nat \<Rightarrow> unit result option) \<Rightarrow> nat list \<Rightarrow> string list"
where
  "pool_errors result_of order =
     List.map_filter (\<lambda>i. case result_of i of Some (Inl e) \<Rightarrow> Some (worker_error i e) | _ \<Rightarrow> None) order"

definition run_factory ::
  "'p driven \<Rightarrow> (nat \<Rightarrow> 'p result) \<Rightarrow> (nat \<Rightarrow> 'p world) \<Rightarrow> (nat \<Rightarrow> bool) \<Rightarrow> (nat \<Rightarrow> string option) \<Rightarrow> nat list
    \<Rightarrow> runtime_config \<Rightarrow> unit result option"
where
  "run_factory dv factory worlds crash spawn order c =
     (let workers = max (rc_workers c) 1 in
      case find (\<lambda>i. spawn i \<noteq> None) [0..<workers] of
        Some i \<Rightarrow> Some (Inl (lifecycle_error (''failed to spawn worker '' @ nat_dec i @ '': '' @ the (spawn i))))
      | None \<Rightarrow>
          if list_ex (\<lambda>i. \<not> crash i \<and> run_worker dv factory worlds c i = None) [0..<workers] then None
          else
            (case pool_errors (\<lambda>i. if crash i then None else run_worker dv factory worlds c i) order of
               [] \<Rightarrow> Some (Inr ())
             | first # _ \<Rightarrow> Some (Inl (lifecycle_error first))))"

definition run_with_worker_factory ::
  "'p driven \<Rightarrow> (nat \<Rightarrow> 'p result) \<Rightarrow> (nat \<Rightarrow> 'p world) \<Rightarrow> (nat \<Rightarrow> bool) \<Rightarrow> (nat \<Rightarrow> string option) \<Rightarrow> nat list
    \<Rightarrow> runtime_config \<Rightarrow> unit result option"
where
  "run_with_worker_factory dv factory worlds crash spawn order c =
     (case worker_pool_new c of
        Inl e \<Rightarrow> Some (Inl e)
      | Inr c1 \<Rightarrow> run_factory dv factory worlds crash spawn order c1)"

text \<open>A request to the pool, whose flag all workers share: from then on each of them reads \<open>true\<close>.\<close>

definition pool_request_shutdown :: "(nat \<Rightarrow> 'p world) \<Rightarrow> nat \<Rightarrow> 'p world" where
  "pool_request_shutdown worlds = (\<lambda>i. request_shutdown (worlds i))"

definition record_step :: "bool \<Rightarrow> nat \<Rightarrow> nat \<Rightarrow> sample list \<Rightarrow> sample list" where
  "record_step enabled steps duration_ns samples =
     (if \<not> enabled then samples
      else emit_lifecycle True (Step steps)
             (record_histogram (runtime_metric_name StepDurationNs) duration_ns
                (record_counter (runtime_metric_name Steps) 1 samples)))"

section \<open>Phases\<close>

datatype runtime_phase = PhBuilt | PhValidated | PhInitialized | PhRunning | PhDraining | PhShutdown | PhCleanedUp

fun phase_as_u8 :: "runtime_phase \<Rightarrow> nat" where
  "phase_as_u8 PhBuilt = 0"
| "phase_as_u8 PhValidated = 1"
| "phase_as_u8 PhInitialized = 2"
| "phase_as_u8 PhRunning = 3"
| "phase_as_u8 PhDraining = 4"
| "phase_as_u8 PhShutdown = 5"
| "phase_as_u8 PhCleanedUp = 6"

text \<open>The derived order of the phases, which is the order of their ordinals.\<close>

instantiation runtime_phase :: linorder
begin

definition less_eq_runtime_phase :: "runtime_phase \<Rightarrow> runtime_phase \<Rightarrow> bool" where
  "less_eq_runtime_phase a b = (phase_as_u8 a \<le> phase_as_u8 b)"

definition less_runtime_phase :: "runtime_phase \<Rightarrow> runtime_phase \<Rightarrow> bool" where
  "less_runtime_phase a b = (phase_as_u8 a < phase_as_u8 b)"

instance
proof
  fix a b :: runtime_phase
  show "a \<le> b \<Longrightarrow> b \<le> a \<Longrightarrow> a = b"
    by (cases a; cases b) (simp_all add: less_eq_runtime_phase_def)
qed (auto simp: less_eq_runtime_phase_def less_runtime_phase_def)

end

lemmas phase_order_defs = less_eq_runtime_phase_def less_runtime_phase_def

section \<open>The runtime\<close>

record 'p runtime =
  rt_pipeline :: 'p
  rt_config :: runtime_config
  rt_phase :: runtime_phase
  rt_metrics :: "sample list"
  rt_steps :: nat
  rt_elapsed :: nat
  rt_final :: "runtime_phase option"

definition log_event :: "runtime_event \<Rightarrow> 'p runtime \<Rightarrow> 'p runtime" where
  "log_event ev rt = rt\<lparr>rt_metrics := emit_lifecycle (rc_metrics (rt_config rt)) ev (rt_metrics rt)\<rparr>"

definition log_metric :: "(sample list \<Rightarrow> sample list) \<Rightarrow> 'p runtime \<Rightarrow> 'p runtime" where
  "log_metric f rt = (if rc_metrics (rt_config rt) then rt\<lparr>rt_metrics := f (rt_metrics rt)\<rparr> else rt)"

text \<open>The event of the construction goes to the null collector that \<open>build\<close> installs.\<close>

definition runtime_build :: "'p \<Rightarrow> runtime_config \<Rightarrow> 'p runtime result" where
  "runtime_build p c =
     (case runtime_validate c of
        Inl e \<Rightarrow> Inl e
      | Inr _ \<Rightarrow> Inr \<lparr>rt_pipeline = p, rt_config = c, rt_phase = PhBuilt, rt_metrics = [], rt_steps = 0,
                   rt_elapsed = 0, rt_final = None\<rparr>)"

definition set_phase :: "runtime_phase \<Rightarrow> 'p runtime \<Rightarrow> 'p runtime" where
  "set_phase ph rt =
     log_metric (record_gauge (runtime_metric_name Phase) (phase_as_u8 ph)) (rt\<lparr>rt_phase := ph\<rparr>)"

definition validate_phase :: "'p runtime \<Rightarrow> unit result \<times> 'p runtime" where
  "validate_phase rt =
     (case runtime_validate (rt_config rt) of
        Inl e \<Rightarrow> (Inl e, rt)
      | Inr _ \<Rightarrow> (Inr (), log_event Validated (set_phase PhValidated rt)))"

definition initialize :: "'p driven \<Rightarrow> 'p runtime \<Rightarrow> (unit result \<times> 'p runtime) option" where
  "initialize dv rt =
     (case (if rt_phase rt < PhValidated then validate_phase rt else (Inr (), rt)) of
        (Inl e, rt1) \<Rightarrow> Some (Inl e, rt1)
      | (Inr _, rt1) \<Rightarrow>
          (case dv_init dv (rt_pipeline rt1) of
             None \<Rightarrow> None
           | Some (Inl e, p) \<Rightarrow> Some (Inl e, rt1\<lparr>rt_pipeline := p\<rparr>)
           | Some (Inr _, p) \<Rightarrow>
               Some (Inr (), log_event Initialized (set_phase PhInitialized (rt1\<lparr>rt_pipeline := p\<rparr>)))))"

text \<open>What the runtime records and does after a step with an outcome: the end of the loop, or not.\<close>

definition after_step :: "'p world \<Rightarrow> step_outcome \<Rightarrow> 'p runtime \<Rightarrow> bool \<times> 'p runtime" where
  "after_step w out rt0 =
     (let n = rt_steps rt0; rt = rt0\<lparr>rt_steps := n + 1\<rparr>;
          rt1 = log_metric (\<lambda>samples. record_histogram (runtime_metric_name StepDurationNs) (wd_step_ns w n)
                  (record_counter (runtime_metric_name Steps) 1 samples)) rt
      in case out of
           Exhausted \<Rightarrow> (True, log_event Draining (set_phase PhDraining rt1))
         | Idle \<Rightarrow> (False, rt1\<lparr>rt_pipeline := between_steps w (rt_config rt1) Idle (rt_pipeline rt1)\<rparr>)
         | BackPressured \<Rightarrow>
             (let rt2 = log_metric (record_counter (runtime_metric_name BackpressureEvents) 1) rt1
              in (False, rt2\<lparr>rt_pipeline := between_steps w (rt_config rt2) BackPressured (rt_pipeline rt2)\<rparr>))
         | Progress \<Rightarrow> (False, rt1))"

partial_function (option) run_loop ::
  "'p driven \<Rightarrow> 'p world \<Rightarrow> nat \<Rightarrow> 'p runtime \<Rightarrow> (unit result \<times> 'p runtime) option"
where
  "run_loop dv w n rt =
     (if wd_stop w n then Some (Inr (), rt)
      else
        (case dv_step dv (rt_pipeline rt) of
           None \<Rightarrow> None
         | Some (Inl e, p) \<Rightarrow> Some (Inl e, rt\<lparr>rt_pipeline := p\<rparr>)
         | Some (Inr out, p) \<Rightarrow>
             (case after_step w out (rt\<lparr>rt_pipeline := p\<rparr>) of
                (finished, rt1) \<Rightarrow> if finished then Some (Inr (), rt1) else run_loop dv w (n + 1) rt1)))"

definition shutdown_pipeline :: "'p driven \<Rightarrow> 'p runtime \<Rightarrow> unit result \<times> 'p runtime" where
  "shutdown_pipeline dv rt =
     (let rt1 = log_event Shutdown (set_phase PhShutdown rt); (r, p) = dv_shutdown dv (rt_pipeline rt1)
      in (r, rt1\<lparr>rt_pipeline := p\<rparr>))"

definition cleanup :: "'p runtime \<Rightarrow> 'p runtime" where
  "cleanup rt = log_event Cleanup (set_phase PhCleanedUp rt)"

definition start_running :: "'p runtime \<Rightarrow> 'p runtime" where
  "start_running rt =
     log_metric (record_gauge (runtime_metric_name Workers) (rc_workers (rt_config rt)))
       (log_event Started (set_phase PhRunning rt))"

definition run_initialized :: "'p driven \<Rightarrow> 'p world \<Rightarrow> 'p runtime \<Rightarrow> (unit result \<times> 'p runtime) option" where
  "run_initialized dv w rt =
     (case run_loop dv w 0 (start_running rt) of
        None \<Rightarrow> None
      | Some (Inl e, rt1) \<Rightarrow> Some (Inl e, rt1)
      | Some (Inr _, rt1) \<Rightarrow>
          (case shutdown_pipeline dv (rt1\<lparr>rt_elapsed := wd_elapsed w\<rparr>) of
             (Inl e, rt2) \<Rightarrow> Some (Inl e, rt2)
           | (Inr _, rt2) \<Rightarrow> (let rt3 = cleanup rt2 in Some (Inr (), rt3\<lparr>rt_final := Some (rt_phase rt3)\<rparr>))))"

definition runtime_run :: "'p driven \<Rightarrow> 'p world \<Rightarrow> 'p runtime \<Rightarrow> (unit result \<times> 'p runtime) option" where
  "runtime_run dv w rt =
     (if rt_phase rt < PhInitialized
      then
        (case initialize dv rt of
           None \<Rightarrow> None
         | Some (Inl e, rt1) \<Rightarrow> Some (Inl e, rt1)
         | Some (Inr _, rt1) \<Rightarrow> run_initialized dv w rt1)
      else run_initialized dv w rt)"

end
