(* ===== verification/Runtime_Laws.thy ===== *)
theory Runtime_Laws
  imports Runtime
begin

text \<open>
  Laws of the drivers in \<open>crates/flyby/src/runtime\<close>: the loop of \<open>Runtime::run\<close> against
  \<open>run_single_thread\<close> and against \<open>SimplePipeline::run\<close>, cooperative shutdown, the phases a run ends in,
  and the result of the worker pool.
\<close>

section \<open>The loops\<close>

lemma log_frame [simp]:
  "rt_pipeline (log_metric f rt) = rt_pipeline rt" "rt_config (log_metric f rt) = rt_config rt"
  "rt_phase (log_metric f rt) = rt_phase rt" "rt_steps (log_metric f rt) = rt_steps rt"
  "rt_pipeline (log_event ev rt) = rt_pipeline rt" "rt_config (log_event ev rt) = rt_config rt"
  "rt_phase (log_event ev rt) = rt_phase rt" "rt_steps (log_event ev rt) = rt_steps rt"
  "rt_final (log_metric f rt) = rt_final rt" "rt_final (log_event ev rt) = rt_final rt"
  by (simp_all add: log_metric_def log_event_def)

lemma set_phase_frame [simp]:
  "rt_pipeline (set_phase ph rt) = rt_pipeline rt" "rt_config (set_phase ph rt) = rt_config rt"
  "rt_phase (set_phase ph rt) = ph" "rt_steps (set_phase ph rt) = rt_steps rt" "rt_final (set_phase ph rt) = rt_final rt"
  by (simp_all add: set_phase_def)

lemma after_step_result:
  "fst (after_step w out rt) = (out = Exhausted)"
  "rt_pipeline (snd (after_step w out rt)) = between_steps w (rt_config rt) out (rt_pipeline rt)"
  "rt_config (snd (after_step w out rt)) = rt_config rt"
  "rt_phase (snd (after_step w out rt)) = (if out = Exhausted then PhDraining else rt_phase rt)"
  "rt_steps (snd (after_step w out rt)) = rt_steps rt + 1" "rt_final (snd (after_step w out rt)) = rt_final rt"
  by (simp_all add: after_step_def Let_def between_steps_def split: step_outcome.split)

lemma run_loop_unfold:
  "run_loop dv w n rt =
     (if wd_stop w n then Some (Inr (), rt)
      else
        (case dv_step dv (rt_pipeline rt) of
           None \<Rightarrow> None
         | Some (Inl e, p) \<Rightarrow> Some (Inl e, rt\<lparr>rt_pipeline := p\<rparr>)
         | Some (Inr out, p) \<Rightarrow>
             (let rt1 = snd (after_step w out (rt\<lparr>rt_pipeline := p\<rparr>))
              in if out = Exhausted then Some (Inr (), rt1) else run_loop dv w (n + 1) rt1)))"
  by (subst run_loop.simps) (simp add: split_beta after_step_result(1) Let_def split: option.split sum.split)

text \<open>A returned loop of the runtime is a returned single-thread loop, and conversely.\<close>

lemma run_loop_single:
  assumes "run_loop dv w n rt = Some y"
  shows "run_single_thread dv w (rt_config rt) n (rt_pipeline rt) = Some (fst y, rt_pipeline (snd y))
    \<and> rt_config (snd y) = rt_config rt \<and> rt_final (snd y) = rt_final rt
    \<and> (rt_phase (snd y) = rt_phase rt \<or> fst y = Inr () \<and> rt_phase (snd y) = PhDraining)"
proof -
  define P where "P = (\<lambda>(dv :: 'a driven) w n (rt :: 'a runtime) (y :: unit result \<times> 'a runtime).
    run_single_thread dv w (rt_config rt) n (rt_pipeline rt) = Some (fst y, rt_pipeline (snd y))
    \<and> rt_config (snd y) = rt_config rt \<and> rt_final (snd y) = rt_final rt
    \<and> (rt_phase (snd y) = rt_phase rt \<or> fst y = (Inr () :: unit result) \<and> rt_phase (snd y) = PhDraining))"
  have step: "P dv w n rt y"
    if IH: "\<And>dv w n rt y. g dv w n rt = Some y \<Longrightarrow> P dv w n rt y"
      and body: "(if wd_stop w n then Some (Inr (), rt)
      else
        (case dv_step dv (rt_pipeline rt) of
           None \<Rightarrow> None
         | Some (Inl e, p) \<Rightarrow> Some (Inl e, rt\<lparr>rt_pipeline := p\<rparr>)
         | Some (Inr out, p) \<Rightarrow>
             (case after_step w out (rt\<lparr>rt_pipeline := p\<rparr>) of
                (finished, rt1) \<Rightarrow> if finished then Some (Inr (), rt1) else g dv w (n + 1) rt1))) = Some y"
    for g dv w n rt y
  proof (cases "wd_stop w n")
    case True
    then show ?thesis using body by (auto simp: P_def run_single_thread.simps)
  next
    case False
    then obtain r p where s: "dv_step dv (rt_pipeline rt) = Some (r, p)" using body by (auto split: option.splits)
    show ?thesis
    proof (cases r)
      case (Inl e)
      then show ?thesis using body s False by (auto simp: P_def run_single_thread.simps)
    next
      case (Inr out)
      let ?rt1 = "snd (after_step w out (rt\<lparr>rt_pipeline := p\<rparr>))"
      note a = after_step_result [of w out "rt\<lparr>rt_pipeline := p\<rparr>"]
      show ?thesis
      proof (cases "out = Exhausted")
        case True
        then have "y = (Inr (), ?rt1)" using body s False Inr a(1) by (simp add: split_beta)
        then show ?thesis
          using s False Inr True a by (simp add: P_def run_single_thread.simps between_steps_def)
      next
        case ne: False
        then have "g dv w (n + 1) ?rt1 = Some y" using body s False Inr a(1) by (simp add: split_beta)
        from IH [OF this] show ?thesis
          using s False Inr ne a(2-4,6) by (cases out) (auto simp: P_def run_single_thread.simps [of dv w _ n])
      qed
    qed
  qed
  have "P dv w n rt y" by (rule run_loop.raw_induct [where P = P, OF step assms])
  then show ?thesis by (simp add: P_def)
qed

lemma run_loop_returns:
  assumes "run_single_thread dv w c n p = Some y" "c = rt_config rt" "p = rt_pipeline rt"
  shows "run_loop dv w n rt \<noteq> None"
proof -
  define P where "P = (\<lambda>(dv :: 'a driven) w c n p (y :: unit result \<times> 'a).
    \<forall>rt. c = rt_config rt \<longrightarrow> p = rt_pipeline rt \<longrightarrow> run_loop dv w n rt \<noteq> None)"
  have step: "P dv w c n p y"
    if IH: "\<And>dv w c n p y. g dv w c n p = Some y \<Longrightarrow> P dv w c n p y"
      and body: "(if wd_stop w n then Some (Inr (), p)
      else
        (case dv_step dv p of
           None \<Rightarrow> None
         | Some (Inl e, p1) \<Rightarrow> Some (Inl e, p1)
         | Some (Inr Exhausted, p1) \<Rightarrow> Some (Inr (), p1)
         | Some (Inr out, p1) \<Rightarrow> g dv w c (n + 1) (between_steps w c out p1))) = Some y"
    for g dv w c n p y
    unfolding P_def
  proof (intro allI impI)
    fix rt :: "'a runtime"
    assume c: "c = rt_config rt" and p: "p = rt_pipeline rt"
    show "run_loop dv w n rt \<noteq> None"
    proof (cases "wd_stop w n")
      case True
      then show ?thesis by (subst run_loop_unfold) simp
    next
      case False
      then obtain r p1 where s: "dv_step dv p = Some (r, p1)" using body by (auto split: option.splits)
      show ?thesis
      proof (cases "\<exists>out. r = Inr out \<and> out \<noteq> Exhausted")
        case True
        then obtain out where out: "r = Inr out" "out \<noteq> Exhausted" by blast
        then have "g dv w c (n + 1) (between_steps w c out p1) = Some y"
          using body s False by (cases out) auto
        from IH [OF this] have "run_loop dv w (n + 1) (snd (after_step w out (rt\<lparr>rt_pipeline := p1\<rparr>))) \<noteq> None"
          unfolding P_def using c after_step_result(2,3) [of w out "rt\<lparr>rt_pipeline := p1\<rparr>"] by auto
        then show ?thesis using s False out p by (subst run_loop_unfold) (simp add: Let_def)
      next
        case no: False
        then show ?thesis using s False p by (subst run_loop_unfold) (cases r; auto simp: Let_def)
      qed
    qed
  qed
  have "P dv w c n p y" by (rule run_single_thread.raw_induct [where P = P, OF step assms(1)])
  then show ?thesis using assms(2,3) by (simp add: P_def)
qed

lemma run_loop_equals:
  "map_option (\<lambda>(r, rt'). (r, rt_pipeline rt')) (run_loop dv w n rt) = run_single_thread dv w (rt_config rt) n (rt_pipeline rt)"
proof (cases "run_loop dv w n rt")
  case None
  then show ?thesis
    using run_loop_returns [of dv w "rt_config rt" n "rt_pipeline rt" _ rt]
    by (cases "run_single_thread dv w (rt_config rt) n (rt_pipeline rt)") auto
next
  case (Some y)
  then show ?thesis using run_loop_single [OF Some] by (auto simp: split_beta)
qed

text \<open>Nobody stops the loop and nothing happens between two steps.\<close>

definition undisturbed :: "'p world \<Rightarrow> bool" where
  "undisturbed w \<longleftrightarrow> (\<forall>n. \<not> wd_stop w n) \<and> (\<forall>d p. wd_pause w d p = p)"

lemma between_undisturbed: "undisturbed w \<Longrightarrow> between_steps w c out p = p"
  by (simp add: undisturbed_def between_steps_def split: step_outcome.split option.split)

lemma single_thread_run:
  assumes "run_single_thread (simple_driven ops) w c n p = Some y" "undisturbed w"
  shows "pipeline_run ops p = Some y"
proof -
  define P where "P = (\<lambda>dv (w :: ('a, 'b, 'c, 'd, 'e) pipeline world) (c :: runtime_config) (n :: nat) p y.
    dv = simple_driven ops \<longrightarrow> undisturbed w \<longrightarrow> pipeline_run ops p = Some y)"
  have step: "P dv w c n p y"
    if IH: "\<And>dv w c n p y. g dv w c n p = Some y \<Longrightarrow> P dv w c n p y"
      and body: "(if wd_stop w n then Some (Inr (), p)
      else
        (case dv_step dv p of
           None \<Rightarrow> None
         | Some (Inl e, p1) \<Rightarrow> Some (Inl e, p1)
         | Some (Inr Exhausted, p1) \<Rightarrow> Some (Inr (), p1)
         | Some (Inr out, p1) \<Rightarrow> g dv w c (n + 1) (between_steps w c out p1))) = Some y"
    for g dv w c n p y
    unfolding P_def
  proof (intro impI)
    assume dv: "dv = simple_driven ops" and und: "undisturbed w"
    then obtain r p1 where s: "step_outcome_of ops p = Some (r, p1)"
      using body by (auto simp: undisturbed_def simple_driven_def split: option.splits)
    show "pipeline_run ops p = Some y"
    proof (cases "\<exists>out. r = Inr out \<and> out \<noteq> Exhausted")
      case True
      then obtain out where out: "r = Inr out" "out \<noteq> Exhausted" by blast
      then have "g dv w c (n + 1) p1 = Some y"
        using body s dv und between_undisturbed [OF und] by (cases out) (auto simp: undisturbed_def simple_driven_def)
      from IH [OF this] have "pipeline_run ops p1 = Some y" using dv und by (simp add: P_def)
      then show ?thesis using s out by (subst pipeline_run.simps) (cases out; simp)
    next
      case False
      then show ?thesis
        using body s dv und
        by (subst pipeline_run.simps) (auto simp: undisturbed_def simple_driven_def split: sum.splits step_outcome.splits)
    qed
  qed
  have "P (simple_driven ops) w c n p y" by (rule run_single_thread.raw_induct [where P = P, OF step assms(1)])
  then show ?thesis using assms(2) by (simp add: P_def)
qed

lemma run_single_thread_returns:
  assumes "pipeline_run ops p = Some y" "undisturbed w"
  shows "run_single_thread (simple_driven ops) w c n p \<noteq> None"
proof -
  define P where "P = (\<lambda>(o' :: ('a, 'b, 'c, 'd, 'e, 'f) stages) p (y :: unit result \<times> ('a, 'b, 'c, 'd, 'e) pipeline).
    \<forall>n. run_single_thread (simple_driven o') w c n p \<noteq> None)"
  have step: "P o' p y"
    if IH: "\<And>o' p y. g o' p = Some y \<Longrightarrow> P o' p y"
      and body: "(case step_outcome_of o' p of
        None \<Rightarrow> None
      | Some (Inl e, p1) \<Rightarrow> Some (Inl e, p1)
      | Some (Inr Exhausted, p1) \<Rightarrow> Some (Inr (), p1)
      | Some (Inr _, p1) \<Rightarrow> g o' p1) = Some y" for g o' p y
    unfolding P_def
  proof
    fix n
    obtain r p1 where s: "step_outcome_of o' p = Some (r, p1)" using body by (auto split: option.splits)
    have g: "g o' p1 = Some y" if "r = Inr out" "out \<noteq> Exhausted" for out
      using body s that by (cases out) auto
    have rec: "run_single_thread (simple_driven o') w c m p1 \<noteq> None" if "r = Inr out" "out \<noteq> Exhausted" for out m
      using IH [OF g [OF that]] by (simp add: P_def)
    show "run_single_thread (simple_driven o') w c n p \<noteq> None"
      using s rec assms(2) between_undisturbed [OF assms(2)]
      by (subst run_single_thread.simps)
        (auto simp: undisturbed_def simple_driven_def split: sum.splits step_outcome.splits)
  qed
  have "P ops p y" by (rule pipeline_run.raw_induct [where P = P, OF step assms(1)])
  then show ?thesis by (simp add: P_def)
qed

end
