(* ===== verification/Pipeline_Props.thy ===== *)
theory Pipeline_Props
  imports Pipeline_File
begin

text \<open>
  Properties of \<open>SimplePipeline\<close> (\<open>crates/flyby/src/pipeline.rs\<close>) for arbitrary stages: accounting of a
  step, the retry budget, waiting for room that never comes, and shutdown.
\<close>

section \<open>The retry budget\<close>

lemma write_to_events: "write_to ops i msg p = (r, p1) \<Longrightarrow> pl_backpressure_events p1 = pl_backpressure_events p"
  by (auto simp: write_to_def Let_def split: option.splits prod.splits)

lemma overflow_write_events:
  "pl_backpressure_events (snd (overflow_write ops i msg p)) = pl_backpressure_events p"
  by (auto simp: overflow_write_def count_out_def count_dropped_def
      split: option.splits sum.splits prod.splits dest: write_to_events)

lemma refused_events:
  "refused ops i msg n p = (ex, p1) \<Longrightarrow> pl_backpressure_events p1 = pl_backpressure_events p"
  using overflow_write_events [of ops i msg p]
  by (cases "rc_backpressure (pl_runtime p)")
    (auto simp: refused_def count_dropped_def split: option.splits if_splits prod.splits)

lemma write_attempt_events:
  assumes "write_attempt ops i msg n p = (ex, p1)"
  shows "pl_backpressure_events p1 \<le> Suc (pl_backpressure_events p)"
proof -
  obtain w p2 where w: "write_to ops (as_u32 i) msg p = (w, p2)" by fastforce
  note ev = write_to_events [OF w]
  show ?thesis
  proof (cases "\<exists>e. w = Some (Inl e) \<and> err_kind e = BackPressure")
    case False
    then show ?thesis
      using assms w ev by (auto simp: write_attempt_def count_out_def split: option.splits sum.splits if_splits)
  next
    case True
    then show ?thesis
      using assms w ev refused_events [of ops i msg n _ ex p1] by (auto simp: write_attempt_def)
  qed
qed

lemma write_attempt_again:
  assumes "write_attempt ops i msg n p = (None, p1)" "rc_backpressure_retries (pl_runtime p) = Some m"
  shows "n + 1 \<le> m"
proof -
  obtain w p2 where w: "write_to ops (as_u32 i) msg p = (w, p2)" by fastforce
  then have "pl_runtime p2 = pl_runtime p" using write_to_frame [OF w] by (simp add: same_queue_def)
  then show ?thesis
    using assms w
    by (auto simp: write_attempt_def refused_def not_less Let_def
        split: option.splits sum.splits if_splits backpressure_strategy.splits prod.splits)
qed

lemma write_loop_budget:
  assumes "rc_backpressure_retries (pl_runtime p) = Some m" "unat m < 2 ^ 32 - 1" "n \<le> m"
  shows "\<exists>r p'. write_loop ops i msg n p = Some (r, p')
    \<and> pl_backpressure_events p' + unat n \<le> pl_backpressure_events p + unat m + 1"
  using assms
proof (induction "unat m - unat n" arbitrary: n p rule: less_induct)
  case (less n p)
  have n1: "unat (n + 1) = Suc (unat n)"
    using unat_add_exact [of n 1] less.prems(2,3) by (simp add: word_le_nat_alt)
  obtain ex p1 where a: "write_attempt ops i msg n p = (ex, p1)" by fastforce
  note ev = write_attempt_events [OF a]
  show ?case
  proof (cases ex)
    case None
    have le: "n + 1 \<le> m" by (rule write_attempt_again [OF a [unfolded None] less.prems(1)])
    then have "unat m - unat (n + 1) < unat m - unat n" using n1 by (simp add: word_le_nat_alt)
    moreover have "rc_backpressure_retries (pl_runtime p1) = Some m"
      using write_attempt_frame [OF a] less.prems(1) by (simp add: same_queue_def)
    ultimately obtain r p' where "write_loop ops i msg (n + 1) p1 = Some (r, p')"
      "pl_backpressure_events p' + unat (n + 1) \<le> pl_backpressure_events p1 + unat m + 1"
      using less.hyps [OF _ _ less.prems(2) le] by blast
    then show ?thesis using a None ev n1 by (simp add: write_loop.simps [of ops i msg n])
  next
    case (Some r)
    then show ?thesis using a ev less.prems(3) by (simp add: write_loop.simps word_le_nat_alt)
  qed
qed

lemma process_one_frame_returns:
  assumes "rc_backpressure_retries (pl_runtime p) = Some m" "unat m < 2 ^ 32 - 1"
  shows "process_one_frame ops frame p \<noteq> None"
proof -
  obtain d st where d: "st_decode ops (pl_decoder p) frame = (d, st)" by fastforce
  let ?p1 = "p\<lparr>pl_decoder := st\<rparr>"
  have "write_loop ops i msg 0 q \<noteq> None" if "pl_runtime q = pl_runtime p" for i msg q
    using write_loop_budget [of q m 0 ops i msg] assms that by auto
  then show ?thesis
    by (auto simp: process_one_frame_def write_with_backpressure_def Let_def
        split: prod.splits sum.splits option.splits)
qed

lemma drain_pending_returns:
  assumes "rc_backpressure_retries (pl_runtime p) = Some m" "unat m < 2 ^ 32 - 1"
  shows "drain_pending ops p \<noteq> None"
  using assms(1)
proof (induction "length (pl_pending p) - pl_pending_idx p" arbitrary: p rule: less_induct)
  case (less p)
  show ?case
  proof (cases "pl_pending_idx p < length (pl_pending p)")
    case True
    obtain res p1 where r: "process_one_frame ops (pl_pending p ! pl_pending_idx p) p = Some (res, p1)"
      using process_one_frame_returns [OF less.prems assms(2), of ops "pl_pending p ! pl_pending_idx p"] by auto
    note fr = process_one_frame_frame [OF r]
    let ?p2 = "p1\<lparr>pl_pending_idx := pl_pending_idx p1 + 1\<rparr>"
    have "drain_pending ops ?p2 \<noteq> None"
      by (rule less.hyps) (use fr True less.prems in \<open>auto simp: same_queue_def\<close>)
    then show ?thesis using r True
      by (auto simp: drain_pending.simps [of ops p] split: sum.splits frame_result.splits)
  qed (simp add: drain_pending.simps)
qed

text \<open>A step is one stretch of work, or two with a poll of the source in between.\<close>

lemma log_ends_idle: "log_ends (Some Idle) wl = log_ends None wl" "log_ends (Some Exhausted) wl = log_ends None wl"
  by (simp_all add: log_ends_def)

lemma refill_same_work: "refill_pending ops p = (r, p2) \<Longrightarrow> same_work p p2"
  by (cases p) (auto simp: refill_pending_def same_work_def Let_def split: prod.splits sum.splits if_splits)

definition step_log ::
  "('s, 'd, 'p, 'r, 'k, 'm) stages \<Rightarrow> step_outcome \<Rightarrow> (bytes \<times> frame_result) list \<Rightarrow> bytes list
    \<Rightarrow> ('s, 'd, 'p, 'r, 'k) pipeline \<Rightarrow> ('s, 'd, 'p, 'r, 'k) pipeline \<Rightarrow> bool"
where
  "step_log ops out wl fetched p p' \<longleftrightarrow> handled ops p wl p' \<and> log_ends (Some out) wl
     \<and> waiting p @ fetched = used_up wl @ waiting p'
     \<and> (out = BackPressured \<longrightarrow> waiting p' \<noteq> [] \<and> hd (waiting p') = fst (last wl))"

lemma step_log_second:
  assumes "drained ops None l1 p p1" "same_work p1 p2" "drained ops o2 l2 p2 p3"
    "out = (case o2 of None \<Rightarrow> Idle | Some x \<Rightarrow> x)"
  shows "step_log ops out (l1 @ l2) (waiting p2) p p3"
proof -
  have "handled ops p (l1 @ l2) p3"
    using assms(1-3) handled_append handled_same unfolding drained_def by blast
  moreover have "log_ends (Some out) (l1 @ l2)"
    using log_ends_append [of l1 o2 l2] assms(1,3,4) log_ends_idle
    unfolding drained_def by (cases o2) auto
  moreover have "waiting p1 = []" "waiting p = used_up l1" using assms(1) by (auto simp: drained_def)
  moreover have "l2 \<noteq> []" if "out = BackPressured"
    using assms(3,4) that by (auto simp: drained_def log_ends_def split: option.splits)
  ultimately show ?thesis using assms(3,4) by (auto simp: step_log_def drained_def split: option.splits)
qed

lemma step_has_log:
  assumes "step_outcome_of ops p = Some (Inr out, p')"
  shows "\<exists>wl fetched. step_log ops out wl fetched p p'
    \<and> (fetched = [] \<and> pl_source p' = pl_source p
       \<or> fetched = take (rc_batch_size (pl_runtime p)) (fst (snd (st_poll_frames ops (pl_source p))))
         \<and> pl_source p' = snd (snd (st_poll_frames ops (pl_source p))))"
proof -
  let ?polled = "take (rc_batch_size (pl_runtime p)) (fst (snd (st_poll_frames ops (pl_source p))))"
  have init: "pl_initialized p" using assms by (auto simp: step_outcome_of_def split: if_splits)
  obtain r1 p1 where d: "drain_pending ops p = Some (r1, p1)"
    using assms init by (auto simp: step_outcome_of_def split: option.splits)
  obtain o1 where r1: "r1 = Inr o1"
    using assms init d by (cases r1) (auto simp: step_outcome_of_def)
  from drain_pending_log [OF d] r1 obtain l1 where
    l1: "drained ops o1 l1 p p1" and same: "pl_source p1 = pl_source p" "pl_runtime p1 = pl_runtime p" by auto
  show ?thesis
  proof (cases o1)
    case (Some x)
    then have "x = out" "p' = p1" using assms init d r1 by (auto simp: step_outcome_of_def)
    then have "step_log ops out l1 [] p p'" using l1 Some by (auto simp: step_log_def drained_def)
    then show ?thesis using same \<open>p' = p1\<close> by blast
  next
    case None
    note l1 = l1 [unfolded None]
    then have w1: "waiting p1 = []" "waiting p = used_up l1" by (auto simp: drained_def)
    show ?thesis
    proof (cases "st_is_exhausted ops (pl_source p)")
      case True
      then have "out = Exhausted" "p' = p1" using assms init d r1 None same by (auto simp: step_outcome_of_def)
      then have "step_log ops out l1 [] p p'" using l1 log_ends_idle by (auto simp: step_log_def drained_def)
      then show ?thesis using same \<open>p' = p1\<close> by blast
    next
      case more: False
      obtain r2 p2 where f: "refill_pending ops p1 = (r2, p2)" by fastforce
      obtain had where r2: "r2 = Inr had"
        using assms init d r1 None same more f by (cases r2) (auto simp: step_outcome_of_def)
      have p2: "waiting p2 = ?polled" "pl_source p2 = snd (snd (st_poll_frames ops (pl_source p)))"
        using f r2 same by (auto simp: refill_pending_def Let_def waiting_def split: prod.splits sum.splits if_splits)
      note work = refill_same_work [OF f]
      show ?thesis
      proof (cases had)
        case False
        then have p': "p' = p2" and out: "out = Idle \<or> out = Exhausted"
          using assms init d r1 None same more f r2 by (auto simp: step_outcome_of_def split: if_splits)
        have "handled ops p l1 p2"
          using handled_append [of ops p l1 p1 "[]" p2] handled_done [OF work, of ops] l1 by (simp add: drained_def)
        then have "step_log ops out l1 ?polled p p'"
          using l1 out w1 p2 log_ends_idle by (auto simp: step_log_def drained_def p')
        then show ?thesis using p2 p' by blast
      next
        case True
        obtain r3 p3 where g: "drain_pending ops p2 = Some (r3, p3)"
          using assms init d r1 None same more f r2 True by (auto simp: step_outcome_of_def split: option.splits)
        obtain o3 where o3: "r3 = Inr o3" "out = (case o3 of None \<Rightarrow> Idle | Some x \<Rightarrow> x)" "p' = p3"
          using assms init d r1 None same more f r2 True g
          by (auto simp: step_outcome_of_def split: sum.splits option.splits)
        from drain_pending_log [OF g] o3(1) obtain l3 where "drained ops o3 l3 p2 p3" "pl_source p3 = pl_source p2" by auto
        then show ?thesis using step_log_second [OF l1 work _ o3(2)] p2 o3(3) by auto
      qed
    qed
  qed
qed

section \<open>Waiting for room that never comes\<close>

lemma write_loop_stuck:
  assumes stuck: "\<And>n p. Q p \<Longrightarrow> \<exists>p1. write_attempt ops i msg n p = (None, p1) \<and> Q p1" and "Q p"
  shows "write_loop ops i msg n p = None"
proof (rule ccontr)
  assume "write_loop ops i msg n p \<noteq> None"
  then obtain y where y: "write_loop ops i msg n p = Some y" by blast
  have step: "\<not> (o' = ops \<and> i' = i \<and> m' = msg \<and> Q p')"
    if IH: "\<And>o' i' m' n' p' y. g o' i' m' n' p' = Some y \<Longrightarrow> \<not> (o' = ops \<and> i' = i \<and> m' = msg \<and> Q p')"
      and body: "(case write_attempt o' i' m' n' p' of
        (None, p1) \<Rightarrow> g o' i' m' (n' + 1) p1 | (Some r, p1) \<Rightarrow> Some (r, p1)) = Some y" for g o' i' m' n' p' y
  proof
    assume a: "o' = ops \<and> i' = i \<and> m' = msg \<and> Q p'"
    with stuck [of p' n'] obtain p1 where "write_attempt ops i msg n' p' = (None, p1)" "Q p1" by blast
    with IH body a show False by simp
  qed
  have "\<not> (ops = ops \<and> i = i \<and> msg = msg \<and> Q p)"
    by (rule write_loop.raw_induct [where P = "\<lambda>o' i' m' n' p' y. \<not> (o' = ops \<and> i' = i \<and> m' = msg \<and> Q p')", OF step y])
      assumption+
  with \<open>Q p\<close> show False by simp
qed

lemma sink_write_full:
  assumes "sink_inv k" "slice_safe mops" "encodable mops (aq_limit (sink_abs k)) m"
    "length (aq_items (sink_abs k)) = aq_room (sink_abs k)"
  shows "\<exists>e k1. sink_write mops m k = (Inl e, k1) \<and> err_kind e = BackPressure \<and> sink_abs k1 = sink_abs k \<and> sink_inv k1"
proof -
  obtain buf where "encode_into mops m (replicate (encoded_len mops m) 0) = (Inr (encoded_len mops m), buf)"
    using assms(3) by (metis encodable_def prod.collapse)
  then have "spec_write mops m (sink_abs k) = (Some BackPressure, sink_abs k)"
    using assms(3,4) by (simp add: spec_write_def encodable_def)
  then show ?thesis
    using sink_write_refines_aux [OF assms(1,2), of m]
    by (cases "sink_write mops m k") (auto simp: error_of_def split: sum.splits)
qed

text \<open>A pipeline whose only sink is a full ring, under a strategy that waits without a budget.\<close>

definition waits_on_full ::
  "'m message_ops \<Rightarrow> sink_id \<Rightarrow> 'm \<Rightarrow> ('s, 'd, 'p, 'r, memory_sink) pipeline \<Rightarrow> bool"
where
  "waits_on_full mops i m p \<longleftrightarrow> (\<exists>k. pl_sinks p = [(as_u32 i, k)] \<and> sink_inv k
       \<and> encodable mops (aq_limit (sink_abs k)) m \<and> length (aq_items (sink_abs k)) = aq_room (sink_abs k))
     \<and> rc_backpressure (pl_runtime p) \<in> {backpressure_strategy.Block, Spin, AdaptiveBatching}
     \<and> rc_backpressure_retries (pl_runtime p) = None"

lemma waits_on_full_again:
  assumes "waits_on_full mops i m p" "slice_safe mops" "st_sink_write ops = sink_write mops" "st_yield ops = id"
  shows "\<exists>p1. write_attempt ops i m n p = (None, p1) \<and> waits_on_full mops i m p1"
proof -
  from assms(1) obtain k where k: "pl_sinks p = [(as_u32 i, k)]" "sink_inv k"
    "encodable mops (aq_limit (sink_abs k)) m" "length (aq_items (sink_abs k)) = aq_room (sink_abs k)"
    and rc: "rc_backpressure (pl_runtime p) \<in> {backpressure_strategy.Block, Spin, AdaptiveBatching}"
      "rc_backpressure_retries (pl_runtime p) = None"
    by (auto simp: waits_on_full_def)
  from sink_write_full [OF k(2) assms(2) k(3,4)] obtain e k1 where
    w: "sink_write mops m k = (Inl e, k1)" "err_kind e = BackPressure" "sink_abs k1 = sink_abs k" "sink_inv k1"
    by blast
  show ?thesis using k w rc assms(3,4)
    by (auto simp: write_attempt_def write_to_def refused_def waits_on_full_def put_sink_def)
qed

section \<open>Properties\<close>

text \<open>
  (C16) With a retry budget below \<open>u32::MAX\<close> every step returns, whatever the stages do, and one
  frame is refused at most once more than the budget; a budget of \<open>u32::MAX\<close> is never exceeded by
  the wrapping counter, so it is not covered.
\<close>

theorem retry_budget_returns:
  assumes "rc_backpressure_retries (pl_runtime p) = Some m" "unat m < 2 ^ 32 - 1"
  shows "step_outcome_of ops p \<noteq> None
    \<and> (\<exists>r p'. write_with_backpressure ops i msg p = Some (r, p')
        \<and> pl_backpressure_events p' \<le> pl_backpressure_events p + unat m + 1)"
proof
  obtain r1 p1 where d: "drain_pending ops p = Some (r1, p1)"
    using drain_pending_returns [OF assms] by fastforce
  note rt = drain_pending_log [OF d]
  obtain r2 p2 where f: "refill_pending ops p1 = (r2, p2)" by fastforce
  have "pl_runtime p2 = pl_runtime p"
    using f rt by (auto simp: refill_pending_def Let_def split: prod.splits sum.splits if_splits)
  then have "drain_pending ops p2 \<noteq> None" using drain_pending_returns [of p2 m] assms by simp
  then show "step_outcome_of ops p \<noteq> None"
    using d f by (auto simp: step_outcome_of_def split: sum.splits option.splits prod.splits)
  show "\<exists>r p'. write_with_backpressure ops i msg p = Some (r, p')
      \<and> pl_backpressure_events p' \<le> pl_backpressure_events p + unat m + 1"
    using write_loop_budget [OF assms, of 0 ops i msg] by (simp add: write_with_backpressure_def)
qed

lemma retry_budget_returns_witness:
  "\<exists>r p'. write_with_backpressure (file_to_memory next_record_len_delim id (\<lambda>_. Inr example_file) example_decode stub_ops id)
     (SinkId 7) \<lparr>stub_seq = 3\<rparr>
     (file_pipeline example_config example_framer (SinkId 7) example_sink
        (runtime_config_default\<lparr>rc_backpressure_retries := Some 4\<rparr>)) = Some (r, p')"
  using retry_budget_returns [of "file_pipeline example_config example_framer (SinkId 7) example_sink
        (runtime_config_default\<lparr>rc_backpressure_retries := Some 4\<rparr>)" 4
      "file_to_memory next_record_len_delim id (\<lambda>_. Inr example_file) example_decode stub_ops id"
      "SinkId 7" "\<lparr>stub_seq = 3\<rparr>"]
  by (auto simp: file_pipeline_def register_sink_def pipeline_new_def sink_id_is_none_def runtime_config_default_def)

lemma log_ends_counts:
  "log_ends (Some out) wl \<Longrightarrow> results FrWritten wl + results FrDropped wl = of_bool (out = Progress)
     \<and> (out = Progress \<longrightarrow> used_up wl \<noteq> [])"
  by (cases out) (auto simp: log_ends_def)

lemma step_accounts:
  assumes "step_outcome_of ops p = Some (Inr out, p')"
  shows "\<exists>fetched used. waiting p @ fetched = used @ waiting p'
    \<and> fetched \<in> {[], take (rc_batch_size (pl_runtime p)) (fst (snd (st_poll_frames ops (pl_source p))))}
    \<and> pl_messages_out p' + pl_messages_dropped p'
        = pl_messages_out p + pl_messages_dropped p + of_bool (out = Progress)
    \<and> (out = Progress \<longrightarrow> used \<noteq> []) \<and> (out = BackPressured \<longrightarrow> waiting p' \<noteq> [])"
proof -
  from step_has_log [OF assms] obtain wl fetched where
    l: "step_log ops out wl fetched p p'"
      "fetched \<in> {[], take (rc_batch_size (pl_runtime p)) (fst (snd (st_poll_frames ops (pl_source p))))}" by blast
  then show ?thesis
    using handled_counts [of ops p wl p'] log_ends_counts [of out wl]
    by (intro exI [of _ fetched] exI [of _ "used_up wl"]) (auto simp: step_log_def)
qed


text \<open>Stages that hand out one frame and drop every message.\<close>

definition drop_stages :: "(bytes list, unit, unit, unit, unit, bytes) stages" where
  "drop_stages =
     \<lparr>st_source_init = (\<lambda>s. (Inr (), s)), st_source_shutdown = (\<lambda>s. (Inr (), s)),
      st_poll_frames = (\<lambda>s. (Inr (length s), s, [])), st_is_exhausted = (\<lambda>s. s = []),
      st_decode = (\<lambda>d f. (Inr (Some f), d)), st_process = identity_process,
      st_route = (\<lambda>r m. (Inr (SinkId 1), r)), st_sink_init = (\<lambda>k. Some (Inr (), k)),
      st_sink_write = (\<lambda>m k. (Inl (back_pressure_error ''full''), k)),
      st_sink_flush = (\<lambda>k. (Inr (), k)), st_sink_shutdown = (\<lambda>k. (Inr (), k)), st_yield = id\<rparr>"

definition drop_pipeline :: "(bytes list, unit, unit, unit, unit) pipeline" where
  "drop_pipeline = (pipeline_new [[1], [2]] () () ())
     \<lparr>pl_sinks := [(1, ())], pl_initialized := True, pl_runtime := with_backpressure backpressure_strategy.DropNewest runtime_config_default\<rparr>"


text \<open>
  (C17) Waiting for room is not bounded by default: when the ring of the shared-memory sink is full and
  nothing pops it, a write under \<open>Block\<close>, \<open>Spin\<close> or \<open>AdaptiveBatching\<close> without a retry budget never
  returns. The loop never looks at a shutdown flag.
\<close>

theorem full_ring_never_returns:
  assumes "waits_on_full mops i m p" "slice_safe mops"
  shows "write_with_backpressure (file_to_memory next_len clock open_file dec mops id) i m p = None"
  unfolding write_with_backpressure_def
  by (rule write_loop_stuck [where Q = "waits_on_full mops i m"], rule waits_on_full_again)
    (simp_all add: assms file_to_memory_def)

text \<open>The example sink after two writes is full.\<close>

definition full_example_sink :: memory_sink where
  "full_example_sink = put_item stub_ops \<lparr>stub_seq = 2\<rparr> (put_item stub_ops \<lparr>stub_seq = 1\<rparr> example_sink)"

lemma full_example_sink_facts:
  "sink_inv full_example_sink" "length (aq_items (sink_abs full_example_sink)) = aq_room (sink_abs full_example_sink)"
  "aq_limit (sink_abs full_example_sink) = 8"
proof -
  have room: "has_room stub_ops [\<lparr>stub_seq = 1\<rparr>, \<lparr>stub_seq = 2\<rparr>] example_sink"
    unfolding has_room_def using example_sink_facts slice_safe_stub by (simp add: encodable_def) (simp add: stub_ops_def)
  show "sink_inv full_example_sink"
    using sink_write_room(2) [OF sink_write_room(2) [OF room]] by (simp add: full_example_sink_def has_room_def)
  show "length (aq_items (sink_abs full_example_sink)) = aq_room (sink_abs full_example_sink)"
    "aq_limit (sink_abs full_example_sink) = 8"
    using put_items [OF room] example_sink_facts(2) by (simp_all add: full_example_sink_def)
qed

definition full_example_pipeline ::
  "((nat \<times> delimiter file_source) storage_batch_source, unit, unit, sink_id, memory_sink) pipeline"
where
  "full_example_pipeline = file_pipeline example_config example_framer (SinkId 7) full_example_sink runtime_config_default"

lemma full_ring_never_returns_witness:
  "write_with_backpressure (file_to_memory next_record_len_delim id (\<lambda>_. Inr example_file) example_decode stub_ops id)
     (SinkId 7) \<lparr>stub_seq = 3\<rparr> full_example_pipeline = None"
proof (rule full_ring_never_returns)
  show "waits_on_full stub_ops (SinkId 7) \<lparr>stub_seq = 3\<rparr> full_example_pipeline"
    using full_example_sink_facts
    by (simp add: waits_on_full_def full_example_pipeline_def file_pipeline_def register_sink_def pipeline_new_def
        sink_id_is_none_def runtime_config_default_def encodable_def stub_ops_def)
qed simp

text \<open>Every sink flushed and shut down, whatever failed before.\<close>

lemma close_sinks_all:
  "close_sinks close acc ks = (foldl first_error acc (map (\<lambda>(i, k). fst (close k)) ks), map (\<lambda>(i, k). (i, snd (close k))) ks)"
  by (induction ks arbitrary: acc) (auto simp: split_beta)

lemma foldl_first_error:
  "foldl first_error acc rs = (case acc of Some e \<Rightarrow> Some e | None \<Rightarrow> map_option projl (find isl rs))"
  by (induction rs arbitrary: acc) (auto simp: first_error_def split: option.splits sum.splits)

text \<open>
  Shutdown closes everything: each sink is flushed, then shut down, and the source after them,
  whichever of these fail; the result is the first failure in that order, and the pipeline is no
  longer initialised.
\<close>

theorem pipeline_shutdown_closes:
  "pl_sinks (snd (pipeline_shutdown ops p)) = map (\<lambda>(i, k). (i, snd (close_sink ops k))) (pl_sinks p)
   \<and> pl_source (snd (pipeline_shutdown ops p)) = snd (st_source_shutdown ops (pl_source p))
   \<and> \<not> pl_initialized (snd (pipeline_shutdown ops p)) \<and> pl_pending (snd (pipeline_shutdown ops p)) = []
   \<and> fst (pipeline_shutdown ops p)
       = (case find isl (map (\<lambda>(i, k). fst (close_sink ops k)) (pl_sinks p) @ [fst (st_source_shutdown ops (pl_source p))]) of
            None \<Rightarrow> Inr () | Some r \<Rightarrow> r)"
proof -
  obtain r s where rs: "st_source_shutdown ops (pl_source p) = (r, s)" by fastforce
  let ?rs = "map (\<lambda>(i, k). fst (close_sink ops k)) (pl_sinks p)"
  have r: "find isl (xs @ [y]) = (case find isl xs of None \<Rightarrow> if isl y then Some y else None | Some z \<Rightarrow> Some z)"
    for xs and y :: "unit result"
    by (induction xs) auto
  have f: "isl z" if "find isl xs = Some z" for xs and z :: "unit result"
    using that by (induction xs) (auto split: if_splits)
  show ?thesis
    using rs f [of ?rs]
    by (auto simp: pipeline_shutdown_def close_sinks_all foldl_first_error r first_error_def Let_def
        split: option.splits sum.splits)
qed

end
