(* ===== verification/Runtime_Props.thy ===== *)
theory Runtime_Props
  imports Runtime_Laws Pipeline_Props
begin

text \<open>Properties of the drivers in \<open>crates/flyby/src/runtime\<close>.\<close>

lemma between_bind: "map_option f (case x of None \<Rightarrow> None | Some y \<Rightarrow> g y) = (case x of None \<Rightarrow> None | Some y \<Rightarrow> map_option f (g y))"
  by (simp split: option.split)

lemma start_running_frame [simp]:
  "rt_pipeline (start_running rt) = rt_pipeline rt" "rt_config (start_running rt) = rt_config rt"
  "rt_phase (start_running rt) = PhRunning" "rt_final (start_running rt) = rt_final rt"
  by (simp_all add: start_running_def)

lemma run_initialized_result:
  "(\<exists>y. run_initialized dv w rt = Some y) \<or> run_initialized dv w rt = None"
  by blast

lemma run_initialized_pipeline:
  "map_option (\<lambda>(r, rt'). (r, rt_pipeline rt')) (run_initialized dv w rt)
    = (case run_single_thread dv w (rt_config rt) 0 (rt_pipeline rt) of
         None \<Rightarrow> None
       | Some (Inl e, p2) \<Rightarrow> Some (Inl e, p2)
       | Some (Inr _, p2) \<Rightarrow> Some (dv_shutdown dv p2))"
proof -
  have e: "run_single_thread dv w (rt_config rt) 0 (rt_pipeline rt)
      = map_option (\<lambda>(r, rt'). (r, rt_pipeline rt')) (run_loop dv w 0 (start_running rt))"
    using run_loop_equals [of dv w 0 "start_running rt"] by simp
  show ?thesis unfolding e run_initialized_def
    by (auto simp: shutdown_pipeline_def cleanup_def Let_def split: option.split sum.split prod.split)
qed

text \<open>A run from an initialised runtime: its result, pipeline, phase and recorded final phase.\<close>

definition run_ending :: "unit result \<times> 'p runtime \<Rightarrow> unit result \<times> 'p \<times> runtime_phase \<times> runtime_phase option" where
  "run_ending y = (case y of (r, rt) \<Rightarrow> (r, rt_pipeline rt, rt_phase rt, rt_final rt))"

lemma run_initialized_ending:
  "map_option run_ending (run_initialized dv w rt)
    = (case run_single_thread dv w (rt_config rt) 0 (rt_pipeline rt) of
         None \<Rightarrow> None
       | Some (Inl e, p2) \<Rightarrow> Some (Inl e, p2, PhRunning, rt_final rt)
       | Some (Inr _, p2) \<Rightarrow>
           (case dv_shutdown dv p2 of
              (Inl e, p3) \<Rightarrow> Some (Inl e, p3, PhShutdown, rt_final rt)
            | (Inr _, p3) \<Rightarrow> Some (Inr (), p3, PhCleanedUp, Some PhCleanedUp)))"
proof (cases "run_loop dv w 0 (start_running rt)")
  case None
  then show ?thesis using run_loop_equals [of dv w 0 "start_running rt"] by (simp add: run_initialized_def)
next
  case (Some y)
  obtain r rt1 where y: "y = (r, rt1)" by (rule prod.exhaust)
  from run_loop_single [OF Some] have l: "run_single_thread dv w (rt_config rt) 0 (rt_pipeline rt) = Some (r, rt_pipeline rt1)"
    "rt_final rt1 = rt_final rt" "r \<noteq> Inr () \<longrightarrow> rt_phase rt1 = PhRunning"
    by (auto simp: y)
  show ?thesis using Some l
    by (cases r) (auto simp: y run_initialized_def shutdown_pipeline_def cleanup_def Let_def run_ending_def
        split: prod.split sum.split)
qed

lemma run_initialized_phase:
  assumes "run_initialized dv w rt = Some (Inr u, rt')"
  shows "rt_phase rt' = PhCleanedUp"
  using arg_cong [OF assms, of "map_option run_ending"] unfolding run_initialized_ending
  by (auto simp: run_ending_def split: option.splits sum.splits prod.splits)

lemma initialize_fresh:
  assumes "runtime_build p c = Inr rt"
  shows "case initialize dv rt of
      None \<Rightarrow> dv_init dv p = None
    | Some (r, rt1) \<Rightarrow> dv_init dv p = Some (r, rt_pipeline rt1) \<and> rt_config rt1 = c
        \<and> rt_phase rt1 = (if isl r then PhValidated else PhInitialized) \<and> rt_final rt1 = None"
proof -
  have v: "runtime_validate c = Inr ()" and rt: "rt_pipeline rt = p" "rt_config rt = c" "rt_phase rt = PhBuilt" "rt_final rt = None"
    using assms by (auto simp: runtime_build_def split: sum.splits)
  then show ?thesis
    by (auto simp: initialize_def validate_phase_def phase_order_defs split: option.split sum.split)
qed

text \<open>Every way a run of a fresh runtime ends.\<close>

lemma runtime_run_ending:
  assumes "runtime_build p c = Inr rt"
  shows "map_option run_ending (runtime_run dv w rt) =
    (case dv_init dv p of
       None \<Rightarrow> None
     | Some (Inl e, p1) \<Rightarrow> Some (Inl e, p1, PhValidated, None)
     | Some (Inr _, p1) \<Rightarrow>
         (case run_single_thread dv w c 0 p1 of
            None \<Rightarrow> None
          | Some (Inl e, p2) \<Rightarrow> Some (Inl e, p2, PhRunning, None)
          | Some (Inr _, p2) \<Rightarrow>
              (case dv_shutdown dv p2 of
                 (Inl e, p3) \<Rightarrow> Some (Inl e, p3, PhShutdown, None)
               | (Inr _, p3) \<Rightarrow> Some (Inr (), p3, PhCleanedUp, Some PhCleanedUp))))"
proof -
  have ph: "rt_phase rt < PhInitialized"
    using assms by (auto simp: runtime_build_def phase_order_defs split: sum.splits)
  note fresh = initialize_fresh [OF assms, of dv]
  show ?thesis
  proof (cases "initialize dv rt")
    case None
    then show ?thesis using fresh ph by (simp add: runtime_run_def)
  next
    case (Some y)
    obtain r rt1 where y: "y = (r, rt1)" by (rule prod.exhaust)
    show ?thesis
    proof (cases r)
      case (Inl e)
      then show ?thesis using fresh Some y ph by (simp add: runtime_run_def run_ending_def)
    next
      case (Inr u)
      then have "runtime_run dv w rt = run_initialized dv w rt1" using Some y ph by (simp add: runtime_run_def)
      then show ?thesis using fresh Some y Inr by (auto simp: run_initialized_ending split: option.split sum.split prod.split)
    qed
  qed
qed

lemma runtime_run_result:
  assumes "runtime_build p c = Inr rt"
  shows "map_option (\<lambda>(r, rt'). (r, rt_pipeline rt')) (runtime_run dv w rt) = init_run_shutdown dv w c p"
proof -
  have "map_option (\<lambda>(r, rt'). (r, rt_pipeline rt')) (runtime_run dv w rt)
      = map_option (\<lambda>(r, q, _). (r, q)) (map_option run_ending (runtime_run dv w rt))"
    by (cases "runtime_run dv w rt") (auto simp: run_ending_def)
  then show ?thesis unfolding runtime_run_ending [OF assms]
    by (auto simp: init_run_shutdown_def split: option.split sum.split prod.split)
qed

section \<open>Properties\<close>

text \<open>
  (C20) \<open>Runtime::run\<close> on a fresh runtime is \<open>init\<close>, the loop of \<open>run_single_thread\<close> and \<open>shutdown\<close>: it
  returns when they do, with their result and their pipeline, and the phase it ends in tells how
  far it came. A failed \<open>init\<close> leaves it in \<open>Validated\<close>; a failed step in \<open>Running\<close>, with the stages not
  shut down; a failed \<open>shutdown\<close> in \<open>Shutdown\<close>. Only a run in which all three succeed ends in
  \<open>CleanedUp\<close> and records a final phase in its statistics.
\<close>

theorem runtime_run_drives:
  assumes "runtime_build p c = Inr rt"
  shows "map_option (\<lambda>(r, rt'). (r, rt_pipeline rt')) (runtime_run dv w rt) = init_run_shutdown dv w c p
    \<and> map_option (\<lambda>(r, rt'). (r, rt_pipeline rt', rt_phase rt', rt_final rt')) (runtime_run dv w rt) =
      (case dv_init dv p of
         None \<Rightarrow> None
       | Some (Inl e, p1) \<Rightarrow> Some (Inl e, p1, PhValidated, None)
       | Some (Inr _, p1) \<Rightarrow>
           (case run_single_thread dv w c 0 p1 of
              None \<Rightarrow> None
            | Some (Inl e, p2) \<Rightarrow> Some (Inl e, p2, PhRunning, None)
            | Some (Inr _, p2) \<Rightarrow>
                (case dv_shutdown dv p2 of
                   (Inl e, p3) \<Rightarrow> Some (Inl e, p3, PhShutdown, None)
                 | (Inr _, p3) \<Rightarrow> Some (Inr (), p3, PhCleanedUp, Some PhCleanedUp))))"
  using runtime_run_result [OF assms] runtime_run_ending [OF assms, of dv w] unfolding run_ending_def by blast

text \<open>
  (C21) Undisturbed, the single-thread scheduler and \<open>SimplePipeline::run\<close> are the same: they return for
  the same pipelines, with the same result and the same final state.
\<close>

theorem single_thread_is_run:
  assumes "undisturbed w"
  shows "run_single_thread (simple_driven ops) w c n p = pipeline_run ops p"
proof (cases "run_single_thread (simple_driven ops) w c n p")
  case None
  then have "pipeline_run ops p = Some y \<Longrightarrow> False" for y
    using run_single_thread_returns [OF _ assms, of ops p y c n] by blast
  then show ?thesis using None by (metis not_None_eq)
next
  case (Some y)
  then show ?thesis using single_thread_run [OF Some assms] by simp
qed

text \<open>A world in which nothing happens, and one that asks for shutdown before the third step.\<close>

definition quiet_world :: "'p world" where
  "quiet_world = \<lparr>wd_stop = (\<lambda>_. False), wd_pause = (\<lambda>_ p. p), wd_step_ns = (\<lambda>_. 0), wd_elapsed = 0\<rparr>"

definition stopping_world :: "'p world" where
  "stopping_world = quiet_world\<lparr>wd_stop := (\<lambda>n. n = 2)\<rparr>"

lemma single_thread_is_run_witness:
  "run_single_thread (simple_driven drop_stages) quiet_world runtime_config_default 0 drop_pipeline
    = pipeline_run drop_stages drop_pipeline"
  by (rule single_thread_is_run) (simp add: undisturbed_def quiet_world_def)

lemma runtime_run_drives_witness:
  "\<exists>rt. runtime_build drop_pipeline runtime_config_default = Inr rt
     \<and> map_option (\<lambda>(r, rt'). (r, rt_pipeline rt')) (runtime_run (simple_driven drop_stages) quiet_world rt)
        = init_run_shutdown (simple_driven drop_stages) quiet_world runtime_config_default drop_pipeline
     \<and> map_option (\<lambda>(r, rt'). rt_phase rt') (runtime_run \<lparr>dv_init = (\<lambda>p. Some (Inl (config_error ''no''), p)),
          dv_step = dv_step (simple_driven drop_stages), dv_shutdown = dv_shutdown (simple_driven drop_stages)\<rparr>
          quiet_world rt) = Some PhValidated"
proof -
  obtain rt where rt: "runtime_build drop_pipeline runtime_config_default = Inr rt"
    by (simp add: runtime_build_def runtime_validate_def runtime_config_default_def)
  let ?dv = "\<lparr>dv_init = (\<lambda>p. Some (Inl (config_error ''no''), p)),
      dv_step = dv_step (simple_driven drop_stages), dv_shutdown = dv_shutdown (simple_driven drop_stages)\<rparr>"
  have "map_option (\<lambda>(r, rt'). (r, rt_pipeline rt', rt_phase rt', rt_final rt')) (runtime_run ?dv quiet_world rt)
      = Some (Inl (config_error ''no''), drop_pipeline, PhValidated, None)"
    using runtime_run_drives [OF rt, of ?dv quiet_world] by simp
  then have "map_option (\<lambda>(r, rt'). rt_phase rt') (runtime_run ?dv quiet_world rt) = Some PhValidated"
    by (cases "runtime_run ?dv quiet_world rt") auto
  then show ?thesis using rt runtime_run_drives [OF rt] by blast
qed

text \<open>
  (C24) Shutdown is cooperative: if every step returns, a loop returns no later than the check at
  which the flag is seen set; a step in progress is never interrupted.
\<close>

theorem shutdown_ends_loop:
  assumes "wd_stop w k" "n \<le> k" "\<And>p. dv_step dv p \<noteq> None"
  shows "run_single_thread dv w c n p \<noteq> None"
  using assms(2)
proof (induction "k - n" arbitrary: n p)
  case 0
  then show ?case using assms(1) by (simp add: run_single_thread.simps)
next
  case (Suc d)
  obtain r p1 where s: "dv_step dv p = Some (r, p1)" using assms(3) [of p] by auto
  have "run_single_thread dv w c (n + 1) q \<noteq> None" for q
    by (rule Suc.hyps(1)) (use Suc.hyps(2) in auto)
  then show ?case
    using s by (subst run_single_thread.simps) (auto split: sum.split step_outcome.split)
qed

lemma shutdown_ends_loop_witness:
  "run_single_thread \<lparr>dv_init = (\<lambda>p. Some (Inr (), p)), dv_step = (\<lambda>p. Some (Inr Progress, p)),
      dv_shutdown = Pair (Inr ())\<rparr> stopping_world runtime_config_default 0 () \<noteq> None"
  by (rule shutdown_ends_loop [of _ 2]) (simp_all add: stopping_world_def)

text \<open>The first worker in the order of the lock that failed.\<close>

lemma pool_errors_first:
  "pool_errors f order = (case dropWhile (\<lambda>i. \<not> (\<exists>e. f i = Some (Inl e))) order of
      [] \<Rightarrow> []
    | i # rest \<Rightarrow> worker_error i (projl (the (f i))) # pool_errors f rest)"
  by (induction order) (auto simp: pool_errors_def map_filter_def split: option.splits sum.splits)

text \<open>
  (C23) The worker pool reports the errors of its workers, and not their panics: when all workers end, it
  succeeds exactly if each worker succeeded or panicked, and otherwise reports the failure of the
  worker that took the lock first, with its index. All workers run, also those after a failing one.
\<close>

theorem run_factory_outcome:
  assumes "set order = {0..<max (rc_workers c) 1}" "\<And>i. spawn i = None"
    "\<And>i. i < max (rc_workers c) 1 \<Longrightarrow> crash i \<or> run_worker dv factory worlds c i \<noteq> None"
  shows "case dropWhile (\<lambda>i. crash i \<or> run_worker dv factory worlds c i = Some (Inr ())) order of
      [] \<Rightarrow> run_factory dv factory worlds crash spawn order c = Some (Inr ())
        \<and> (\<forall>i \<in> {0..<max (rc_workers c) 1}. crash i \<or> run_worker dv factory worlds c i = Some (Inr ()))
    | i # _ \<Rightarrow> \<exists>e. run_worker dv factory worlds c i = Some (Inl e)
        \<and> run_factory dv factory worlds crash spawn order c = Some (Inl (lifecycle_error (worker_error i e)))"
proof -
  let ?f = "\<lambda>i. if crash i then None else run_worker dv factory worlds c i"
  let ?fine = "\<lambda>i. crash i \<or> run_worker dv factory worlds c i = Some (Inr ())"
  have ok: "(\<not> (\<exists>e. ?f i = Some (Inl e))) = ?fine i" if "i \<in> set order" for i
  proof -
    have "crash i \<or> run_worker dv factory worlds c i \<noteq> None" using that assms(1,3) by simp
    then show ?thesis
      by (cases "run_worker dv factory worlds c i"; cases "the (run_worker dv factory worlds c i)") auto
  qed
  have dw: "dropWhile (\<lambda>i. \<not> (\<exists>e. ?f i = Some (Inl e))) order = dropWhile ?fine order"
    using ok by (intro dropWhile_cong) auto
  have run: "run_factory dv factory worlds crash spawn order c
      = (case pool_errors ?f order of [] \<Rightarrow> Some (Inr ()) | first # _ \<Rightarrow> Some (Inl (lifecycle_error first)))"
  proof -
    have "find (\<lambda>i. spawn i \<noteq> None) [0..<max (rc_workers c) 1] = None" using assms(2) by (simp add: find_None_iff)
    moreover have "\<not> list_ex (\<lambda>i. \<not> crash i \<and> run_worker dv factory worlds c i = None) [0..<max (rc_workers c) 1]"
      using assms(3) by (auto simp: list_ex_iff)
    ultimately show ?thesis by (simp add: run_factory_def Let_def)
  qed
  show ?thesis
  proof (cases "dropWhile ?fine order")
    case Nil
    then have all: "\<forall>i \<in> set order. ?fine i" by (simp add: dropWhile_eq_Nil_conv)
    have "pool_errors ?f order = []" by (subst pool_errors_first, subst dw) (simp add: Nil)
    then have "run_factory dv factory worlds crash spawn order c = Some (Inr ())" using run by simp
    then show ?thesis using all unfolding Nil assms(1) by simp
  next
    case (Cons i rest)
    then have i: "i \<in> set order" "\<not> ?fine i"
      using set_dropWhileD [of i ?fine order] hd_dropWhile [of ?fine order] by auto
    then obtain e where e: "?f i = Some (Inl e)" using ok by blast
    then have "pool_errors ?f order = worker_error i e # pool_errors ?f rest"
      by (subst pool_errors_first, subst dw) (simp add: Cons)
    then have "run_factory dv factory worlds crash spawn order c = Some (Inl (lifecycle_error (worker_error i e)))"
      using run by simp
    then show ?thesis using e i(2) unfolding Cons by simp
  qed
qed

text \<open>Three workers: the second has no pipeline, and the third panics.\<close>

lemma run_factory_outcome_witness:
  "\<exists>e. run_factory (simple_driven drop_stages)
      (\<lambda>i. if i = 0 then Inr (drop_pipeline\<lparr>pl_source := []\<rparr>) else Inl (config_error ''no sinks'')) (\<lambda>_. quiet_world)
      (\<lambda>i. i = 2) (\<lambda>_. None) [2, 1, 0] (with_workers 3 runtime_config_default) = Some (Inl (lifecycle_error (worker_error 1 e)))"
proof -
  let ?c = "with_workers 3 runtime_config_default"
  let ?factory = "\<lambda>i. if i = 0 then Inr (drop_pipeline\<lparr>pl_source := []\<rparr>) else Inl (config_error ''no sinks'')"
  let ?run = "run_worker (simple_driven drop_stages) ?factory (\<lambda>_. quiet_world) ?c"
  have w: "max (rc_workers ?c) 1 = 3" by (simp add: with_workers_def)
  have second: "?run 1 = Some (Inl (config_error ''no sinks''))" by (simp add: run_worker_def)
  have "?run 0 \<noteq> None"
    by (simp add: run_worker_def init_run_shutdown_def simple_driven_def pipeline_init_def drop_pipeline_def
        pipeline_new_def drop_stages_def run_single_thread.simps quiet_world_def step_outcome_of_def
        drain_pending.simps)
  moreover have "i = 0 \<or> i = 1 \<or> i = 2" if "i < max (rc_workers ?c) 1" for i using that unfolding w by linarith
  ultimately have runs: "i = 2 \<or> ?run i \<noteq> None" if "i < max (rc_workers ?c) 1" for i
    using that second by (metis option.distinct(1))
  have order: "set [2, 1, 0] = {0..<max (rc_workers ?c) 1}" unfolding w by auto
  from run_factory_outcome [of "[2, 1, 0]" ?c "\<lambda>_. None" "\<lambda>i. i = 2" "simple_driven drop_stages" ?factory "\<lambda>_. quiet_world",
      OF order refl runs] show ?thesis
    using second by (auto intro: exI [of _ "config_error ''no sinks''"])
qed

section \<open>Running twice\<close>

lemma pipeline_shutdown_closed: "\<not> pl_initialized (snd (pipeline_shutdown ops p))"
  by (simp add: pipeline_shutdown_def Let_def split_beta)

text \<open>
  (C22) A runtime is not ready to run again: after a run that succeeded, \<open>run\<close> skips the initialisation,
  because the phase is past \<open>Initialized\<close>, and its first step is refused by the pipeline that was shut
  down. An explicit \<open>initialize\<close> in between brings it back: the pipeline is initialised again.
\<close>

theorem runtime_rerun_refused:
  assumes "runtime_run (simple_driven ops) w rt = Some (Inr (), rt1)" "\<not> wd_stop w' 0"
  shows "(\<exists>e rt2. runtime_run (simple_driven ops) w' rt1 = Some (Inl e, rt2) \<and> err_kind e = Lifecycle
      \<and> rt_phase rt2 = PhRunning \<and> rt_pipeline rt2 = rt_pipeline rt1)
    \<and> (case initialize (simple_driven ops) rt1 of
         Some (Inr _, rt2) \<Rightarrow> rt_phase rt2 = PhInitialized \<and> pl_initialized (rt_pipeline rt2)
       | _ \<Rightarrow> True)"
proof -
  let ?dv = "simple_driven ops"
  obtain rt0 where run: "run_initialized ?dv w rt0 = Some (Inr (), rt1)"
    using assms(1) by (auto simp: runtime_run_def split: if_splits option.splits prod.splits sum.splits)
  have ph: "rt_phase rt1 = PhCleanedUp" using run_initialized_phase [OF run] by simp
  from arg_cong [OF run, of "map_option (\<lambda>(r, rt'). (r, rt_pipeline rt'))"] obtain p2 where
    "dv_shutdown ?dv p2 = (Inr (), rt_pipeline rt1)"
    unfolding run_initialized_pipeline by (auto split: option.splits sum.splits prod.splits)
  then have shut: "\<not> pl_initialized (rt_pipeline rt1)"
    by (metis driven.select_convs(3) pipeline_shutdown_closed simple_driven_def snd_conv)
  let ?e = "lifecycle_error ''SimplePipeline: call init() before step()''"
  have step: "dv_step ?dv (rt_pipeline rt1) = Some (Inl ?e, rt_pipeline rt1)"
    using shut by (simp add: step_outcome_of_def simple_driven_def)
  have "run_loop ?dv w' 0 (start_running rt1)
      = Some (Inl ?e, (start_running rt1)\<lparr>rt_pipeline := rt_pipeline rt1\<rparr>)"
    using assms(2) step by (simp add: run_loop.simps [of ?dv w' 0])
  then have "runtime_run ?dv w' rt1 = Some (Inl ?e, (start_running rt1)\<lparr>rt_pipeline := rt_pipeline rt1\<rparr>)"
    using ph by (simp add: runtime_run_def run_initialized_def phase_order_defs)
  moreover have "case initialize ?dv rt1 of
         Some (Inr _, rt2) \<Rightarrow> rt_phase rt2 = PhInitialized \<and> pl_initialized (rt_pipeline rt2) | _ \<Rightarrow> True"
    using ph pipeline_init_initialized [of ops "rt_pipeline rt1"]
    by (auto simp: initialize_def phase_order_defs simple_driven_def split: option.splits sum.splits)
  ultimately show ?thesis
    by (intro conjI exI [of _ ?e] exI [of _ "(start_running rt1)\<lparr>rt_pipeline := rt_pipeline rt1\<rparr>"]) simp_all
qed

text \<open>The empty pipeline run to its end, twice.\<close>

lemma runtime_rerun_refused_witness:
  "\<exists>rt rt1 e rt2. runtime_build (drop_pipeline\<lparr>pl_source := []\<rparr>) runtime_config_default = Inr rt
     \<and> runtime_run (simple_driven drop_stages) quiet_world rt = Some (Inr (), rt1)
     \<and> runtime_run (simple_driven drop_stages) quiet_world rt1 = Some (Inl e, rt2) \<and> err_kind e = Lifecycle"
proof -
  let ?p = "drop_pipeline\<lparr>pl_source := []\<rparr>"
  obtain rt where rt: "runtime_build ?p runtime_config_default = Inr rt"
    by (simp add: runtime_build_def runtime_validate_def runtime_config_default_def)
  have "\<exists>p'. init_run_shutdown (simple_driven drop_stages) quiet_world runtime_config_default ?p = Some (Inr (), p')"
    by (simp add: init_run_shutdown_def simple_driven_def pipeline_init_def drop_pipeline_def pipeline_new_def
        drop_stages_def run_single_thread.simps quiet_world_def step_outcome_of_def drain_pending.simps
        pipeline_shutdown_def close_sink_def first_error_def)
  then have "\<exists>rt1. runtime_run (simple_driven drop_stages) quiet_world rt = Some (Inr (), rt1)"
    using runtime_run_result [OF rt, of "simple_driven drop_stages" quiet_world] by auto
  then obtain rt1 where r1: "runtime_run (simple_driven drop_stages) quiet_world rt = Some (Inr (), rt1)" by blast
  have "\<not> wd_stop quiet_world 0" by (simp add: quiet_world_def)
  from runtime_rerun_refused [OF r1 this] rt r1 show ?thesis by blast
qed

section \<open>After a request for shutdown\<close>

text \<open>
  Once shutdown has been requested, no driver makes another step: the scheduler's \<open>run\<close> returns at once
  with the pipeline as it was, and a runtime initialises its pipeline only to shut it down. So does each
  worker of a pool.
\<close>

theorem requested_shutdown_stops:
  "is_shutdown_requested (scheduler_request_shutdown s)
   \<and> single_thread_scheduler_run dv w (scheduler_request_shutdown s) p = Some (Inr (), p)
   \<and> run_single_thread dv (request_shutdown w) c n p = Some (Inr (), p)
   \<and> init_run_shutdown dv (request_shutdown w) c p
      = map_option (\<lambda>(r, p1). case r of Inl e \<Rightarrow> (Inl e, p1) | Inr _ \<Rightarrow> dv_shutdown dv p1) (dv_init dv p)
   \<and> (factory i = Inr p \<longrightarrow> run_worker dv factory (pool_request_shutdown worlds) c i
        = map_option (\<lambda>(r, p1). case r of Inl e \<Rightarrow> Inl e | Inr _ \<Rightarrow> fst (dv_shutdown dv p1)) (dv_init dv p))"
  by (auto simp: single_thread_scheduler_run_def scheduler_request_shutdown_def request_shutdown_def
      run_single_thread.simps is_shutdown_requested_def pool_request_shutdown_def run_worker_def init_run_shutdown_def
      split_beta map_option_case
      split: option.split sum.split intro: prod_eqI)

end
