(* ===== verification/Builder.thy ===== *)
theory Builder
  imports Pipeline_Props
begin

text \<open>
  The fluent builder of \<open>crates/flyby/src/builder.rs\<close>, with every backend feature compiled in: the
  selectors, the validating \<open>run\<close>, and \<open>run_demo\<close>, which drives a \<open>SimplePipeline\<close> from the simulated
  network source to the shared-memory sink.
\<close>

record builder =
  fb_has_source :: bool
  fb_has_decoder :: bool
  fb_has_placement :: bool
  fb_use_memory :: bool
  fb_use_af_xdp :: bool
  fb_use_dpdk :: bool
  fb_use_io_uring :: bool
  fb_use_spdk :: bool
  fb_use_simulator :: bool

definition flyby_builder :: builder where
  "flyby_builder =
     \<lparr>fb_has_source = False, fb_has_decoder = False, fb_has_placement = False, fb_use_memory = False,
      fb_use_af_xdp = False, fb_use_dpdk = False, fb_use_io_uring = False, fb_use_spdk = False,
      fb_use_simulator = False\<rparr>"

definition sel_source :: "builder \<Rightarrow> builder" where "sel_source b = b\<lparr>fb_has_source := True\<rparr>"
definition sel_decoder :: "builder \<Rightarrow> builder" where "sel_decoder b = b\<lparr>fb_has_decoder := True\<rparr>"
definition sel_placement :: "builder \<Rightarrow> builder" where "sel_placement b = b\<lparr>fb_has_placement := True\<rparr>"
definition sel_memory :: "builder \<Rightarrow> builder" where "sel_memory b = b\<lparr>fb_use_memory := True\<rparr>"
definition sel_af_xdp :: "builder \<Rightarrow> builder" where "sel_af_xdp b = b\<lparr>fb_use_af_xdp := True\<rparr>"
definition sel_dpdk :: "builder \<Rightarrow> builder" where "sel_dpdk b = b\<lparr>fb_use_dpdk := True\<rparr>"
definition sel_io_uring :: "builder \<Rightarrow> builder" where "sel_io_uring b = b\<lparr>fb_use_io_uring := True\<rparr>"
definition sel_spdk :: "builder \<Rightarrow> builder" where "sel_spdk b = b\<lparr>fb_use_spdk := True\<rparr>"
definition sel_simulator :: "builder \<Rightarrow> builder" where "sel_simulator b = b\<lparr>fb_use_simulator := True\<rparr>"

definition has_any_backend :: "builder \<Rightarrow> bool" where
  "has_any_backend b \<longleftrightarrow> fb_use_memory b \<or> fb_use_af_xdp b \<or> fb_use_dpdk b \<or> fb_use_io_uring b
     \<or> fb_use_spdk b \<or> fb_use_simulator b"

definition builder_run :: "builder \<Rightarrow> unit result" where
  "builder_run b =
     (if \<not> has_any_backend b
      then Inl (error_new Config ''no sink or source selected; call at least one selector on the builder'')
      else Inr ())"

text \<open>The stages of the demo; the decoder is the caller's.\<close>

definition sim_to_memory ::
  "('d \<Rightarrow> bytes \<Rightarrow> 'm option result \<times> 'd) \<Rightarrow> 'm message_ops
    \<Rightarrow> (net_sim network_batch_source, 'd, unit, sink_id, memory_sink, 'm) stages"
where
  "sim_to_memory decode mops =
     \<lparr>st_source_init = network_lifecycle net_sim_init,
      st_source_shutdown = network_lifecycle net_sim_shutdown,
      st_poll_frames = network_poll_frames sim_poll_batch,
      st_is_exhausted = (\<lambda>_. False),
      st_decode = decode,
      st_process = identity_process,
      st_route = fixed_route,
      st_sink_init = sink_init,
      st_sink_write = sink_write mops,
      st_sink_flush = (\<lambda>k. (Inr (), k)),
      st_sink_shutdown = sink_shutdown,
      st_yield = id\<rparr>"

text \<open>\<open>for _ in 0..steps\<close> with its early exits.\<close>

fun demo_steps ::
  "('s, 'd, 'p, 'r, 'k, 'm) stages \<Rightarrow> nat \<Rightarrow> ('s, 'd, 'p, 'r, 'k) pipeline
    \<Rightarrow> (unit result \<times> ('s, 'd, 'p, 'r, 'k) pipeline) option"
where
  "demo_steps ops 0 p = Some (Inr (), p)"
| "demo_steps ops (Suc n) p =
     (case step_outcome_of ops p of
        None \<Rightarrow> None
      | Some (Inl e, p1) \<Rightarrow> Some (Inl e, p1)
      | Some (Inr Exhausted, p1) \<Rightarrow> Some (Inr (), p1)
      | Some (Inr _, p1) \<Rightarrow> demo_steps ops n p1)"

definition demo_config :: sim_net_config where
  "demo_config = sim_net_config_default\<lparr>sn_batch_size := 4, sn_payload_size := 32\<rparr>"

text \<open>
  \<open>run_demo\<close>: the number of messages written. \<open>SinkId::new(1)\<close> and the batch constructor cannot panic on
  these constants. What the machine decides are the parameters: its byte order and the mapping.
\<close>

definition run_demo ::
  "endian \<Rightarrow> (nat \<Rightarrow> (io_kind \<times> string) option) \<Rightarrow> ('d \<Rightarrow> bytes \<Rightarrow> 'm option result \<times> 'd) \<Rightarrow> 'm message_ops
    \<Rightarrow> 'd \<Rightarrow> nat \<Rightarrow> builder \<Rightarrow> nat result option"
where
  "run_demo e mmap decode mops decoder steps b =
     (if \<not> fb_use_memory b then Some (Inl (config_error ''run_demo requires .memory()''))
      else if \<not> fb_has_source b \<and> \<not> fb_use_simulator b
      then Some (Inl (config_error ''run_demo requires .source() or .simulator()''))
      else
        (case net_sim_try_new demo_config of
           Inl err \<Rightarrow> Some (Inl err)
         | Inr src \<Rightarrow>
             (case fixed_placement_new (SinkId 1) of
                Inl err \<Rightarrow> Some (Inl err)
              | Inr place \<Rightarrow>
                  (case memory_sink_new e mmap 256 256 of
                     Inl err \<Rightarrow> Some (Inl err)
                   | Inr mem \<Rightarrow>
                       (let ops = sim_to_memory decode mops;
                            adapted = the (network_batch_source_new src 8 2048) in
                        case register_sink 0 (SinkId 1) mem (pipeline_new adapted decoder () place) of
                          (Inl err, _) \<Rightarrow> Some (Inl err)
                        | (Inr _, p0) \<Rightarrow>
                            (case pipeline_init ops p0 of
                               None \<Rightarrow> None
                             | Some (Inl err, _) \<Rightarrow> Some (Inl err)
                             | Some (Inr _, p1) \<Rightarrow>
                                 (case demo_steps ops steps p1 of
                                    None \<Rightarrow> None
                                  | Some (Inl err, _) \<Rightarrow> Some (Inl err)
                                  | Some (Inr _, p2) \<Rightarrow>
                                      (case pipeline_shutdown ops p2 of
                                         (Inl err, _) \<Rightarrow> Some (Inl err)
                                       | (Inr _, _) \<Rightarrow> Some (Inr (pl_messages_out p2))))))))))"

section \<open>Counting\<close>

lemma demo_steps_count:
  "demo_steps ops n p = Some (r, p') \<Longrightarrow>
     pl_messages_out p' + pl_messages_dropped p' \<le> pl_messages_out p + pl_messages_dropped p + n \<or> isl r"
proof (induction n arbitrary: p)
  case 0
  then show ?case by simp
next
  case (Suc n)
  then obtain out p1 where s: "step_outcome_of ops p = Some (out, p1)" by (auto split: option.splits)
  show ?case
  proof (cases out)
    case (Inl e)
    then show ?thesis using Suc.prems s by auto
  next
    case (Inr x)
    from step_accounts [OF s [unfolded Inr]]
    have c: "pl_messages_out p1 + pl_messages_dropped p1 \<le> Suc (pl_messages_out p + pl_messages_dropped p)"
      by (auto simp: of_bool_def)
    show ?thesis
    proof (cases "x = Exhausted")
      case True
      then show ?thesis using Suc.prems s Inr c by auto
    next
      case False
      then have "demo_steps ops n p1 = Some (r, p')" using Suc.prems s Inr by (cases x) auto
      from Suc.IH [OF this] c show ?thesis by auto
    qed
  qed
qed

text \<open>With both halves selected, \<open>run_demo\<close> comes down to its steps from an initialised pipeline.\<close>

lemma run_demo_steps:
  assumes sel: "fb_use_memory b \<and> (fb_has_source b \<or> fb_use_simulator b)" and mem: "memory_sink_new e mmap 256 256 = Inr mem"
  shows "\<exists>p1 mem1. pl_messages_out p1 = 0 \<and> pl_messages_dropped p1 = 0
    \<and> (pl_initialized p1 \<and> pl_placement p1 = SinkId 1 \<and> pl_runtime p1 = runtime_config_default \<and> pl_pending p1 = []
       \<and> sink_init mem = Some (Inr (), mem1) \<and> pl_sinks p1 = [(1, mem1)]
       \<and> pl_source p1 = \<lparr>ns_inner = snd (net_sim_init (net_sim_new_unchecked demo_config)), ns_batch = the (raw_batch_new 8 2048)\<rparr>)
    \<and> run_demo e mmap decode mops decoder steps b
    = (case demo_steps (sim_to_memory decode mops) steps p1 of
         None \<Rightarrow> None
       | Some (Inl err, _) \<Rightarrow> Some (Inl err)
       | Some (Inr _, p2) \<Rightarrow>
           (case pipeline_shutdown (sim_to_memory decode mops) p2 of
              (Inl err, _) \<Rightarrow> Some (Inl err)
            | (Inr _, _) \<Rightarrow> Some (Inr (pl_messages_out p2))))"
proof -
  have valid: "sim_net_validate demo_config = Inr ()"
    by (simp add: sim_net_validate_def demo_config_def sim_net_config_default_def unit_range_def f64_le_def)
  then have v: "net_sim_try_new demo_config = Inr (net_sim_new_unchecked demo_config)"
    by (simp add: net_sim_try_new_def)
  define p0 where "p0 = snd (register_sink 0 (SinkId 1) mem
    (pipeline_new (the (network_batch_source_new (net_sim_new_unchecked demo_config) 8 2048)) decoder () (SinkId 1)))"
  have reg: "register_sink 0 (SinkId 1) mem
    (pipeline_new (the (network_batch_source_new (net_sim_new_unchecked demo_config) 8 2048)) decoder () (SinkId 1))
      = (Inr (), p0)"
    by (simp add: p0_def register_sink_def pipeline_new_def sink_id_is_none_def)
  obtain b where b: "raw_batch_new 8 2048 = Some b" using raw_batch_new_some [of 8 2048] by auto
  have sinks: "pl_sinks p0 = [(1, mem)]" "pl_placement p0 = SinkId 1" "pl_runtime p0 = runtime_config_default"
    and src: "pl_source p0 = \<lparr>ns_inner = net_sim_new_unchecked demo_config, ns_batch = b\<rparr>"
    using b by (simp_all add: p0_def network_batch_source_new_def register_sink_def pipeline_new_def sink_id_is_none_def)
  have cfg: "ns_config (net_sim_new_unchecked demo_config) = demo_config" by (simp add: net_sim_new_unchecked_def Let_def)
  from sink_init_returns [OF memory_sink_new_inv(1) [OF mem]] obtain mem1 where
    "sink_init mem = Some (Inr (), mem1)" by blast
  then obtain p1 where "pipeline_init (sim_to_memory decode mops) p0 = Some (Inr (), p1)"
    "pl_messages_out p1 = 0" "pl_messages_dropped p1 = 0"
    "pl_initialized p1 \<and> pl_placement p1 = SinkId 1 \<and> pl_runtime p1 = runtime_config_default \<and> pl_pending p1 = []
       \<and> sink_init mem = Some (Inr (), mem1) \<and> pl_sinks p1 = [(1, mem1)]
       \<and> pl_source p1 = \<lparr>ns_inner = snd (net_sim_init (net_sim_new_unchecked demo_config)), ns_batch = the (raw_batch_new 8 2048)\<rparr>"
    using sinks src valid b cfg by (simp add: pipeline_init_def sim_to_memory_def network_lifecycle_def net_sim_init_def)
  then show ?thesis
    using sel mem v reg
    by (intro exI [of _ p1] exI [of _ mem1]) (auto simp: run_demo_def fixed_placement_new_def sink_id_is_none_def Let_def)
qed

section \<open>Properties\<close>

text \<open>
  \<open>run_demo\<close> refuses a builder without a memory sink or without a source, and otherwise writes
  at most one message for each step.
\<close>

theorem run_demo_outcome:
  "case run_demo e mmap decode mops decoder steps b of
     None \<Rightarrow> fb_use_memory b \<and> (fb_has_source b \<or> fb_use_simulator b) \<and> 0 < steps
   | Some (Inr n) \<Rightarrow> fb_use_memory b \<and> (fb_has_source b \<or> fb_use_simulator b) \<and> n \<le> steps
   | Some (Inl err) \<Rightarrow> (fb_use_memory b \<and> (fb_has_source b \<or> fb_use_simulator b)) \<or> err_kind err = Config"
proof (cases "fb_use_memory b \<and> (fb_has_source b \<or> fb_use_simulator b)")
  case False
  then show ?thesis by (auto simp: run_demo_def)
next
  case True
  show ?thesis
  proof (cases "memory_sink_new e mmap 256 256")
    case (Inl err)
    then show ?thesis using True by (auto simp: run_demo_def split: sum.splits)
  next
    case (Inr mem)
    from run_demo_steps [OF True Inr, of decode mops decoder steps] obtain p1 where
      p1: "pl_messages_out p1 = 0" "pl_messages_dropped p1 = 0"
      and run: "run_demo e mmap decode mops decoder steps b
        = (case demo_steps (sim_to_memory decode mops) steps p1 of
             None \<Rightarrow> None
           | Some (Inl err, _) \<Rightarrow> Some (Inl err)
           | Some (Inr _, p2) \<Rightarrow>
               (case pipeline_shutdown (sim_to_memory decode mops) p2 of
                  (Inl err, _) \<Rightarrow> Some (Inl err)
                | (Inr _, _) \<Rightarrow> Some (Inr (pl_messages_out p2))))" by blast
    show ?thesis
    proof (cases "demo_steps (sim_to_memory decode mops) steps p1")
      case None
      then have "0 < steps" by (cases steps) auto
      then show ?thesis using run None True by simp
    next
      case (Some y)
      then show ?thesis
        using run True demo_steps_count [of "sim_to_memory decode mops" steps p1] p1
        by (cases y; cases "fst y") (auto split: prod.splits sum.splits)
    qed
  qed
qed

end
