(* ===== verification/Pipeline_Demo.thy ===== *)
theory Pipeline_Demo
  imports Builder
begin

text \<open>
  What \<open>run_demo\<close> of \<open>crates/flyby/src/builder.rs\<close> does from end to end: the simulated source behind its
  adapter, the pipeline and the shared-memory sink of 256 slots, composed. The demo's stages keep the
  contract \<open>working\<close>; the frames of the source are those of the simulated source's sequence.
\<close>

section \<open>The stages\<close>

interpretation demo_mem: working "sim_to_memory (\<lambda>d f. (Inr (dec f), d)) mops" dec Some "\<lambda>i m. i" "has_room mops" "put_item mops"
  for dec mops
  by unfold_locales (simp_all add: sim_to_memory_def identity_process_def fixed_route_def sink_write_room)

text \<open>The frame with number \<open>j\<close>, and a source that is to give frame \<open>q\<close> next.\<close>

definition demo_frame :: "nat \<Rightarrow> bytes" where
  "demo_frame j = sim_frame demo_config (of_nat j)"

definition demo_source :: "nat \<Rightarrow> net_sim network_batch_source \<Rightarrow> bool" where
  "demo_source q a \<longleftrightarrow>
     (let s = ns_inner a; b = ns_batch a in
      ns_initialized s \<and> template_ok s \<and> ns_config s = demo_config \<and> ns_sequence s = of_nat q
      \<and> net_inv b \<and> net_capacity b = 8 \<and> nb_max_frame_size b = 2048)"

lemma length_demo_frame [simp]: "length (demo_frame j) = 74"
  by (simp add: demo_frame_def frame_size_def demo_config_def)

lemma demo_poll:
  assumes "demo_source q a"
  shows "\<exists>a'. network_poll_frames sim_poll_batch a = (Inr 4, map demo_frame [q..<q + 4], a') \<and> demo_source (q + 4) a'"
proof -
  let ?s = "ns_inner a" and ?b = "net_reset (ns_batch a)"
  have s: "template_ok ?s" "ns_initialized ?s" "ns_config ?s = demo_config" "ns_sequence ?s = of_nat q"
    and b: "net_inv ?b" "net_capacity ?b = 8" "nb_max_frame_size ?b = 2048"
    using assms net_inv_reset [of "ns_batch a"] by (simp_all add: demo_source_def Let_def)
  have c: "sn_idle_rate demo_config = Fin 0" "sn_drop_rate demo_config = Fin 0" "sn_batch_size demo_config = 4"
    by (simp_all add: demo_config_def sim_net_config_default_def)
  from sim_poll_full [OF s(1) b(1) s(2)] s(3,4) b(2,3) c obtain s' b' where
    p: "sim_poll_batch ?s ?b = (Inr (net_len b'), s', b')" "template_ok s'" "net_inv b'" "ns_initialized s'"
      "ns_config s' = demo_config" "ns_sequence s' = of_nat q + 4" "net_capacity b' = 8" "nb_max_frame_size b' = 2048"
    and k: "net_packets b' = map (sim_entry demo_config (of_nat q) 2048) [0..<4]"
    by auto
  have "map fst (net_packets b') = map (\<lambda>j. demo_frame (q + j)) [0..<4]"
    by (simp add: k sim_entry_def demo_frame_def Let_def frame_size_def demo_config_def)
  also have "\<dots> = map demo_frame [q..<q + 4]" by (simp add: upt_rec)
  finally have f: "map fst (net_packets b') = map demo_frame [q..<q + 4]" .
  have "net_len b' = 4" using arg_cong [OF k, of length] by (simp add: net_len_def)
  then show ?thesis using p f by (simp add: network_poll_frames_def demo_source_def Let_def algebra_simps)
qed

section \<open>One step\<close>

type_synonym 'd demo_pipeline = "(net_sim network_batch_source, 'd, unit, sink_id, memory_sink) pipeline"

lemma demo_stage_simps [simp]:
  "st_poll_frames (sim_to_memory decode mops) = network_poll_frames sim_poll_batch"
  "st_is_exhausted (sim_to_memory decode mops) = (\<lambda>_. False)" "st_decode (sim_to_memory decode mops) = decode"
  "st_process (sim_to_memory decode mops) = identity_process" "st_route (sim_to_memory decode mops) = fixed_route"
  "st_sink_write (sim_to_memory decode mops) = sink_write mops" "st_yield (sim_to_memory decode mops) = id"
  by (simp_all add: sim_to_memory_def)

text \<open>
  A pipeline that has consumed the first \<open>c\<close> frames: it holds back the frames up to \<open>q\<close>, less than
  one poll.
\<close>

definition demo_at :: "nat \<Rightarrow> 'd demo_pipeline \<Rightarrow> bool" where
  "demo_at c p \<longleftrightarrow> (\<exists>q. c \<le> q \<and> q < c + 4 \<and> 4 dvd q \<and> demo_source q (pl_source p) \<and> waiting p = map demo_frame [c..<q])
     \<and> pl_runtime p = runtime_config_default"

abbreviation demo_stages where
  "demo_stages dec mops \<equiv> sim_to_memory (\<lambda>d f. (Inr (dec f), d)) mops"

abbreviation demo_ready where
  "demo_ready dec mops c n p \<equiv> demo_mem.ready TYPE('d) dec mops (SinkId 1) (map demo_frame [c..<n]) p"

abbreviation demo_advance where
  "demo_advance dec mops c n p p' \<equiv> demo_mem.advance TYPE('d) dec mops (SinkId 1) (map demo_frame [c..<n]) p p'"

abbreviation demo_traffic where
  "demo_traffic dec c n \<equiv> traffic dec Some (\<lambda>m. SinkId 1) (map demo_frame [c..<n])"

lemma map_upt_split: "c \<le> q \<Longrightarrow> q \<le> n \<Longrightarrow> map f [c..<n] = map f [c..<q] @ map f [q..<n]"
  by (metis le_iff_add map_append upt_add_eq_append)

text \<open>A list of consecutive frames, cut in two, gives consecutive frames.\<close>

lemma consecutive_split:
  assumes "map demo_frame [c..<q] = fs @ ws" "c \<le> q"
  shows "fs = map demo_frame [c..<c + length fs]" "ws = map demo_frame [c + length fs..<q]" "c + length fs \<le> q"
proof -
  have len: "length fs + length ws = q - c" using arg_cong [OF assms(1), of length] by simp
  then show le: "c + length fs \<le> q" using assms(2) by linarith
  have "take (length fs) (map demo_frame [c..<q]) = fs" "drop (length fs) (map demo_frame [c..<q]) = ws"
    by (simp_all add: assms(1))
  then show "fs = map demo_frame [c..<c + length fs]" "ws = map demo_frame [c + length fs..<q]"
    using le by (auto simp: take_map drop_map take_upt)
qed

lemma demo_drain:
  assumes "demo_ready dec mops c n p" "waiting p = map demo_frame [c..<q]" "c \<le> q" "q \<le> n"
  shows "\<exists>out p' c'. drain_pending (demo_stages dec mops) p = Some (Inr out, p') \<and> waiting p' = map demo_frame [c'..<q]
    \<and> c \<le> c' \<and> c' \<le> q \<and> demo_advance dec mops c c' p p' \<and> pl_source p' = pl_source p
    \<and> (case out of None \<Rightarrow> c' = q \<and> demo_traffic dec c c' = []
        | Some x \<Rightarrow> x = Progress \<and> length (demo_traffic dec c c') = 1)"
proof -
  have "demo_mem.ready TYPE('a) dec mops (SinkId 1) (waiting p @ map demo_frame [q..<n]) p"
    using assms(1) map_upt_split [OF assms(3,4), of demo_frame] assms(2) by simp
  from demo_mem.drain_advance [OF this] obtain out p' fs where
    d: "drain_pending (demo_stages dec mops) p = Some (Inr out, p')" "waiting p = fs @ waiting p'"
      "demo_mem.advance TYPE('a) dec mops (SinkId 1) fs p p'" "pl_source p' = pl_source p"
      "case out of None \<Rightarrow> waiting p' = [] \<and> traffic dec Some (\<lambda>m. SinkId 1) fs = []
         | Some x \<Rightarrow> x = Progress \<and> length (traffic dec Some (\<lambda>m. SinkId 1) fs) = 1"
    by blast
  note sp = consecutive_split [OF d(2) [unfolded assms(2)] assms(3)]
  have "c + length fs = q" if "out = None" using that d(5) sp(2,3) by (auto dest: arg_cong [of _ _ length])
  then show ?thesis using d sp
    by (intro exI [of _ out] exI [of _ p'] exI [of _ "c + length fs"]) (auto split: option.splits)
qed

lemma traffic_total:
  assumes "\<forall>j \<in> {c..<n}. dec (demo_frame j) \<noteq> None"
  shows "length (demo_traffic dec c n) = n - c"
proof -
  have "length (traffic dec Some (\<lambda>m. SinkId 1) (map demo_frame js)) = length js"
    if "\<forall>j \<in> set js. dec (demo_frame j) \<noteq> None" for js
    using that by (induction js) (auto simp: traffic_Cons routed_def sink_id_is_none_def)
  from this [of "[c..<n]"] assms show ?thesis by simp
qed

lemma demo_advance_trans:
  "demo_advance dec mops c m p p1 \<Longrightarrow> demo_advance dec mops m n p1 p2 \<Longrightarrow> c \<le> m \<Longrightarrow> m \<le> n
     \<Longrightarrow> demo_advance dec mops c n p p2"
  using demo_mem.advance_trans map_upt_split [of c m n demo_frame] by metis

lemma demo_ready_advance:
  "demo_ready dec mops c n p \<Longrightarrow> demo_advance dec mops c m p p1 \<Longrightarrow> c \<le> m \<Longrightarrow> m \<le> n \<Longrightarrow> demo_ready dec mops m n p1"
  using demo_mem.ready_advance map_upt_split [of c m n demo_frame] by metis

lemma demo_refill:
  assumes "demo_source q (pl_source p)" "pl_runtime p = runtime_config_default"
  shows "\<exists>p'. refill_pending (demo_stages dec mops) p = (Inr True, p') \<and> demo_source (q + 4) (pl_source p')
    \<and> waiting p' = map demo_frame [q..<q + 4] \<and> demo_advance dec mops q q p p'"
proof -
  from demo_poll [OF assms(1)] obtain a where
    "network_poll_frames sim_poll_batch (pl_source p) = (Inr 4, map demo_frame [q..<q + 4], a)" "demo_source (q + 4) a"
    by blast
  then show ?thesis using assms(2)
    by (simp add: refill_pending_def sim_to_memory_def waiting_def demo_mem.advance_def runtime_config_default_def)
qed

text \<open>A step of a pipeline with room for what it may write: it moves on, writing at most one message.\<close>

lemma demo_step:
  assumes at: "demo_at c p" and ready: "demo_ready dec mops c n p" and n: "c < n" "4 dvd n"
    and more: "c + 8 \<le> n \<or> (\<forall>j \<in> {c..<n}. dec (demo_frame j) \<noteq> None)"
  shows "\<exists>out p' c'. step_outcome_of (demo_stages dec mops) p = Some (Inr out, p') \<and> demo_at c' p' \<and> c < c' \<and> c' \<le> n
    \<and> demo_advance dec mops c c' p p'
    \<and> (out = Progress \<and> length (demo_traffic dec c c') = 1 \<or> out = Idle \<and> demo_traffic dec c c' = [])"
proof -
  obtain q where q: "c \<le> q" "q < c + 4" "4 dvd q" "demo_source q (pl_source p)" "waiting p = map demo_frame [c..<q]"
    and rc: "pl_runtime p = runtime_config_default" using at by (auto simp: demo_at_def)
  have qn: "q \<le> n" using q(2,3) n by presburger
  have init: "pl_initialized p" using ready by (simp add: demo_mem.ready_def)
  from demo_drain [OF ready q(5,1) qn] obtain out p1 c1 where
    d: "drain_pending (demo_stages dec mops) p = Some (Inr out, p1)" "waiting p1 = map demo_frame [c1..<q]"
      "c \<le> c1" "c1 \<le> q" "demo_advance dec mops c c1 p p1" "pl_source p1 = pl_source p"
      "case out of None \<Rightarrow> c1 = q \<and> demo_traffic dec c c1 = []
        | Some x \<Rightarrow> x = Progress \<and> length (demo_traffic dec c c1) = 1" by blast
  have rc1: "pl_runtime p1 = runtime_config_default" using d(5) rc by (simp add: demo_mem.advance_def)
  show ?thesis
  proof (cases out)
    case (Some x)
    then have x: "x = Progress" "length (demo_traffic dec c c1) = 1" using d(7) by simp_all
    then have "c < c1" using d(3) by (cases "c = c1") auto
    moreover have "demo_at c1 p1" unfolding demo_at_def
      by (intro conjI exI [of _ q]) (use q d rc1 \<open>c < c1\<close> in simp_all)
    ultimately show ?thesis using d x Some init qn
      by (intro exI [of _ Progress] exI [of _ p1] exI [of _ c1]) (simp add: step_outcome_of_def)
  next
    case None
    then have c1: "c1 = q" "demo_traffic dec c q = []" using d(7) by auto
    have q4: "q + 4 \<le> n"
    proof (cases "c + 8 \<le> n")
      case True
      then show ?thesis using q(2) by linarith
    next
      case False
      then have "\<forall>j \<in> {c..<q}. dec (demo_frame j) \<noteq> None" using more qn by auto
      from traffic_total [OF this] c1(2) q(1) have "q = c" by simp
      then show ?thesis using q(3) n by presburger
    qed
    have src: "demo_source q (pl_source p1)" using q(4) d(6) by simp
    from demo_refill [OF src rc1] obtain p2 where
      f: "refill_pending (demo_stages dec mops) p1 = (Inr True, p2)" "demo_source (q + 4) (pl_source p2)"
        "waiting p2 = map demo_frame [q..<q + 4]" "demo_advance dec mops q q p1 p2" by blast
    have adv2: "demo_advance dec mops c q p p2"
      using demo_advance_trans [OF d(5) [unfolded c1(1)] f(4)] q(1) by simp
    have rd2: "demo_ready dec mops q n p2" by (rule demo_ready_advance [OF ready adv2 q(1) qn])
    from demo_drain [OF rd2 f(3) _ q4] obtain out3 p3 c3 where
      g: "drain_pending (demo_stages dec mops) p2 = Some (Inr out3, p3)" "waiting p3 = map demo_frame [c3..<q + 4]"
        "q \<le> c3" "c3 \<le> q + 4" "demo_advance dec mops q c3 p2 p3" "pl_source p3 = pl_source p2"
        "case out3 of None \<Rightarrow> c3 = q + 4 \<and> demo_traffic dec q c3 = []
          | Some x \<Rightarrow> x = Progress \<and> length (demo_traffic dec q c3) = 1" by auto
    have rc3: "pl_runtime p3 = runtime_config_default"
      using g(5) adv2 rc by (simp add: demo_mem.advance_def)
    have t: "demo_traffic dec c c3 = demo_traffic dec q c3"
      using c1(2) map_upt_split [OF q(1) g(3), of demo_frame] by simp
    have qc3: "q < c3" using g(3,7) by (cases "q = c3") (auto split: option.splits)
    have at3: "demo_at c3 p3"
    proof (cases "c3 = q + 4")
      case True
      then show ?thesis unfolding demo_at_def
        by (intro conjI exI [of _ "q + 4"]) (use f(2) g q(3) rc3 in simp_all)
    next
      case False
      then show ?thesis unfolding demo_at_def
        by (intro conjI exI [of _ "q + 4"]) (use f(2) g q(3) rc3 qc3 in simp_all)
    qed
    have "step_outcome_of (demo_stages dec mops) p = Some (Inr (case out3 of None \<Rightarrow> Idle | Some x \<Rightarrow> x), p3)"
      using d(1) f(1) g(1) None init by (simp add: step_outcome_of_def split: option.splits)
    then show ?thesis
      using at3 g(3-5,7) t q4 q(1) qc3 demo_advance_trans [OF adv2 g(5)]
      by (intro exI [of _ "case out3 of None \<Rightarrow> Idle | Some x \<Rightarrow> x"] exI [of _ p3] exI [of _ c3])
        (auto split: option.splits)
  qed
qed

section \<open>The run\<close>

text \<open>
  A decoder that gives a message for every frame: each step writes exactly one, as long as there is
  room.
\<close>

lemma demo_steps_total:
  assumes "demo_at c p" "demo_ready dec mops c n p" "4 dvd n" "c + k \<le> n" "\<forall>j \<in> {c..<n}. dec (demo_frame j) \<noteq> None"
  shows "\<exists>p'. (\<forall>more. demo_steps (demo_stages dec mops) (k + more) p = demo_steps (demo_stages dec mops) more p')
    \<and> demo_at (c + k) p' \<and> demo_advance dec mops c (c + k) p p'"
  using assms
proof (induction k arbitrary: c p)
  case 0
  then show ?case by (intro exI [of _ p]) (simp add: demo_mem.advance_refl)
next
  case (Suc k)
  from demo_step [OF Suc.prems(1,2) _ Suc.prems(3)] Suc.prems(4,5) obtain out p1 c1 where
    s: "step_outcome_of (demo_stages dec mops) p = Some (Inr out, p1)" "demo_at c1 p1" "c < c1" "c1 \<le> n"
      "demo_advance dec mops c c1 p p1"
      "out = Progress \<and> length (demo_traffic dec c c1) = 1 \<or> out = Idle \<and> demo_traffic dec c c1 = []" by auto
  have "length (demo_traffic dec c c1) = c1 - c" by (rule traffic_total) (use Suc.prems(5) s(4) in auto)
  then have c1: "c1 = Suc c" and out: "out = Progress" using s(3,6) by auto
  have rd: "demo_ready dec mops (Suc c) n p1"
    by (rule demo_ready_advance [OF Suc.prems(2)]) (use s c1 in simp_all)
  from Suc.IH [OF _ rd Suc.prems(3)] s(2) c1 Suc.prems(4,5) obtain p' where
    "\<forall>more. demo_steps (demo_stages dec mops) (k + more) p1 = demo_steps (demo_stages dec mops) more p'"
    "demo_at (Suc c + k) p'" "demo_advance dec mops (Suc c) (Suc c + k) p1 p'" by auto
  then show ?case
    using s(1,5) c1 out demo_advance_trans [of _ _ c "Suc c" p p1 "Suc c + k" p']
    by (intro exI [of _ p']) simp
qed

text \<open>A decoder that gives a message for none: every step is idle, and nothing is written.\<close>

lemma traffic_none:
  "\<forall>j. dec (demo_frame j) = None \<Longrightarrow> demo_traffic dec c n = []"
proof -
  assume a: "\<forall>j. dec (demo_frame j) = None"
  have "traffic dec Some (\<lambda>m. SinkId 1) (map demo_frame js) = []" for js
    using a by (induction js) (simp_all add: traffic_Cons routed_def)
  then show ?thesis .
qed

lemma demo_steps_none:
  assumes "demo_at c p" "\<forall>n. demo_ready dec mops c n p" "\<forall>j. dec (demo_frame j) = None"
  shows "\<exists>p' c'. demo_steps (demo_stages dec mops) k p = Some (Inr (), p') \<and> demo_advance dec mops c c' p p' \<and> c \<le> c'"
  using assms
proof (induction k arbitrary: c p)
  case 0
  then show ?case using demo_mem.advance_refl by (intro exI [of _ p] exI [of _ c]) simp
next
  case (Suc k)
  have n: "c < 4 * (c + 8)" "4 dvd 4 * (c + 8)" "c + 8 \<le> 4 * (c + 8)" by simp_all
  from demo_step [OF Suc.prems(1) spec [OF Suc.prems(2)] n(1,2)] n(3) obtain out p1 c1 where
    s: "step_outcome_of (demo_stages dec mops) p = Some (Inr out, p1)" "demo_at c1 p1" "c < c1"
      "demo_advance dec mops c c1 p p1" "out = Idle"
    using traffic_none [OF Suc.prems(3), of c] by auto
  have "demo_ready dec mops c1 n p1" for n
  proof (cases "c1 \<le> n")
    case True
    then show ?thesis using demo_ready_advance [OF spec [OF Suc.prems(2)] s(4)] s(3) by simp
  next
    case False
    then show ?thesis using demo_ready_advance [OF spec [OF Suc.prems(2)] s(4), of c1] s(3) by simp
  qed
  with Suc.IH [OF s(2) _ Suc.prems(3)] obtain p' c' where
    "demo_steps (demo_stages dec mops) k p1 = Some (Inr (), p')" "demo_advance dec mops c1 c' p1 p'" "c1 \<le> c'" by blast
  then show ?case
    using s demo_advance_trans [OF s(4), of c' p'] by (intro exI [of _ p'] exI [of _ c']) simp
qed

text \<open>The step after the ring has filled up waits for room that nobody makes.\<close>

lemma demo_step_full:
  fixes p :: "'d demo_pipeline"
  assumes "demo_at c p" "pl_initialized p" "pl_placement p = SinkId 1" "4 dvd c" "dec (demo_frame c) = Some m"
    "waits_on_full mops (SinkId 1) m p" "slice_safe mops"
  shows "step_outcome_of (demo_stages dec mops) p = None"
proof -
  obtain q where q: "c \<le> q" "q < c + 4" "4 dvd q" "demo_source q (pl_source p)" "waiting p = map demo_frame [c..<q]"
    and rc: "pl_runtime p = runtime_config_default" using assms(1) by (auto simp: demo_at_def)
  have "q = c" using q(1-3) assms(4) by presburger
  then have src: "demo_source c (pl_source p)" and w: "\<not> pl_pending_idx p < length (pl_pending p)"
    using q by (simp_all add: waiting_def)
  from demo_refill [OF src rc] obtain p2 where
    f: "refill_pending (demo_stages dec mops) p = (Inr True, p2)" "waiting p2 = map demo_frame [c..<c + 4]"
      "demo_advance dec mops c c p p2" by blast
  have p2: "pl_sinks p2 = pl_sinks p" "pl_runtime p2 = pl_runtime p" "pl_placement p2 = SinkId 1"
    using f(3) assms(3) by (simp_all add: demo_mem.advance_def)
  have dr: "drop (pl_pending_idx p2) (pl_pending p2) = demo_frame c # map demo_frame [Suc c..<c + 4]"
    using f(2) by (simp add: waiting_def upt_conv_Cons del: upt_Suc)
  have lt: "pl_pending_idx p2 < length (pl_pending p2)" "pl_pending p2 ! pl_pending_idx p2 = demo_frame c"
  proof -
    show "pl_pending_idx p2 < length (pl_pending p2)" using dr by (metis drop_all linorder_not_less list.distinct(1))
    then show "pl_pending p2 ! pl_pending_idx p2 = demo_frame c" by (metis dr hd_drop_conv_nth list.sel(1))
  qed
  have "waits_on_full mops (SinkId 1) m p2" using assms(6) p2 by (simp add: waits_on_full_def)
  then have "waits_on_full mops (SinkId 1) m x" if "pl_sinks x = pl_sinks p2" "pl_runtime x = pl_runtime p2"
    for x :: "'d demo_pipeline"
    using that by (simp add: waits_on_full_def)
  then have "write_loop (demo_stages dec mops) (SinkId 1) m n x = None"
    if "pl_sinks x = pl_sinks p2" "pl_runtime x = pl_runtime p2" for n and x :: "'d demo_pipeline"
    using that
    by (intro write_loop_stuck [where Q = "waits_on_full mops (SinkId 1) m"], intro waits_on_full_again)
      (simp_all add: assms(7))
  then have "process_one_frame (demo_stages dec mops) (demo_frame c) p2 = None"
    using assms(5) p2(3)
    by (simp add: process_one_frame_def identity_process_def fixed_route_def sink_id_is_none_def
        write_with_backpressure_def)
  then have "drain_pending (demo_stages dec mops) p2 = None" using lt by (simp add: drain_pending.simps)
  then show ?thesis using assms(2) w f(1) by (simp add: step_outcome_of_def drain_pending.simps [of _ p])
qed

text \<open>The pipeline that \<open>run_demo\<close> starts with, once both halves are selected.\<close>

lemma demo_shutdown: "fst (pipeline_shutdown (sim_to_memory decode mops) p) = Inr ()"
proof -
  have "close_sinks (close_sink (sim_to_memory decode mops)) None ks = (None, ks)" for ks
    by (induction ks) (auto simp: sim_to_memory_def close_sink_def sink_shutdown_def first_error_def)
  then show ?thesis
    by (simp add: pipeline_shutdown_def sim_to_memory_def network_lifecycle_def net_sim_shutdown_def first_error_def)
qed

lemma run_demo_from:
  fixes decoder :: 'd
  assumes "fb_use_memory b \<and> (fb_has_source b \<or> fb_use_simulator b)" "memory_sink_new e mmap 256 256 = Inr mem"
  shows "\<exists>(p :: 'd demo_pipeline) k. demo_at 0 p \<and> pl_initialized p \<and> pl_placement p = SinkId 1 \<and> pl_sinks p = [(1, k)] \<and> sink_inv k
    \<and> sink_abs k = \<lparr>aq_items = [], aq_room = 256, aq_limit = 256, aq_count = 0\<rparr> \<and> pl_messages_out p = 0
    \<and> run_demo e mmap (\<lambda>d f. (Inr (dec f), d)) mops decoder steps b
      = map_option (map_sum id pl_messages_out)
          (map_option (\<lambda>(r, p'). map_sum id (\<lambda>_. p') r) (demo_steps (demo_stages dec mops) steps p))"
proof -
  let ?s = "snd (net_sim_init (net_sim_new_unchecked demo_config))"
  from run_demo_steps [OF assms, of "\<lambda>d f. (Inr (dec f), d)" mops decoder steps] obtain p :: "'d demo_pipeline" and k where
    p: "pl_messages_out p = 0" "pl_initialized p" "pl_placement p = SinkId 1" "pl_runtime p = runtime_config_default"
      "pl_pending p = []" "sink_init mem = Some (Inr (), k)" "pl_sinks p = [(1, k)]"
      "pl_source p = \<lparr>ns_inner = ?s, ns_batch = the (raw_batch_new 8 2048)\<rparr>"
    and run: "run_demo e mmap (\<lambda>d f. (Inr (dec f), d)) mops decoder steps b
      = (case demo_steps (demo_stages dec mops) steps p of
         None \<Rightarrow> None
       | Some (Inl err, _) \<Rightarrow> Some (Inl err)
       | Some (Inr _, p2) \<Rightarrow>
           (case pipeline_shutdown (demo_stages dec mops) p2 of
              (Inl err, _) \<Rightarrow> Some (Inl err)
            | (Inr _, _) \<Rightarrow> Some (Inr (pl_messages_out p2))))"
    by blast
  note new = memory_sink_new_inv [OF assms(2)]
  have k: "sink_inv k" "sink_abs k = \<lparr>aq_items = [], aq_room = 256, aq_limit = 256, aq_count = 0\<rparr>"
    using sink_init_returns [OF new(1)] p(6) new(2) by auto
  obtain bt where bt: "raw_batch_new 8 2048 = Some bt" "net_inv bt" "net_capacity bt = 8" "nb_max_frame_size bt = 2048"
    using raw_batch_new_some [of 8 2048] by auto
  have valid: "sim_net_validate demo_config = Inr ()"
    by (simp add: sim_net_validate_def demo_config_def sim_net_config_default_def unit_range_def f64_le_def)
  then have s: "?s = (net_sim_new_unchecked demo_config)\<lparr>ns_initialized := True, ns_sequence := 0, ns_rng := 0xC0FFEE\<rparr>"
    by (simp add: net_sim_init_def net_sim_new_unchecked_def Let_def)
  have "template_ok ?s" by (rule template_ok_frame [OF template_ok_new [of demo_config]]) (simp_all add: s)
  then have "demo_source 0 (pl_source p)"
    using p(8) bt s by (simp add: demo_source_def Let_def) (simp add: net_sim_new_unchecked_def Let_def)
  then have at: "demo_at 0 p" using p(4,5) by (auto simp: demo_at_def waiting_def intro: exI [of _ 0])
  have "run_demo e mmap (\<lambda>d f. (Inr (dec f), d)) mops decoder steps b
      = map_option (map_sum id pl_messages_out)
          (map_option (\<lambda>(r, p'). map_sum id (\<lambda>_. p') r) (demo_steps (demo_stages dec mops) steps p))"
  proof -
    have sh: "fst (pipeline_shutdown (demo_stages dec mops) x) = Inr ()" for x :: "'d demo_pipeline" by (rule demo_shutdown)
    show ?thesis unfolding run
      by (cases "demo_steps (demo_stages dec mops) steps p") (auto simp: split_beta sh split: sum.split)
  qed
  then show ?thesis using p k at by blast
qed

text \<open>The sink of the demo exists as soon as its region can be mapped.\<close>

lemma demo_slot_size: "\<exists>ss. slot_size 256 = Inr ss \<and> validate_params 256 ss = Inr ()"
proof -
  have "is_power_of_two (256 :: usize)" by (auto simp: is_power_of_two_iff intro: exI [of _ 8])
  then show ?thesis
    by (simp add: slot_size_cases slot_size_spec_def validate_params_def u32_max_def HEADER_SIZE_def CACHE_LINE_def
        SLOTS_OFFSET_def checked_mul_def checked_add_def)
qed

lemma demo_sink: "\<exists>mem. memory_sink_new e no_mmap_error 256 256 = Inr mem"
  using demo_slot_size
  by (auto simp: memory_sink_new_def u32_max_def anonymous_def no_mmap_error_def Let_def)

text \<open>With a decoder that filters every frame, the demo ends and has written nothing.\<close>

lemma run_demo_filtered:
  fixes decoder :: 'd
  assumes "fb_use_memory b" "fb_has_source b \<or> fb_use_simulator b" "memory_sink_new e mmap 256 256 = Inr mem"
    "slice_safe mops" "\<forall>j. dec (demo_frame j) = None"
  shows "run_demo e mmap (\<lambda>d f. (Inr (dec f), d)) mops decoder steps b = Some (Inr 0)"
proof -
  have sel: "fb_use_memory b \<and> (fb_has_source b \<or> fb_use_simulator b)" using assms(1,2) by simp
  obtain p :: "'d demo_pipeline" and k where p: "demo_at 0 p" "pl_initialized p" "pl_placement p = SinkId 1"
      "pl_sinks p = [(1, k)]" "sink_inv k" "pl_messages_out p = 0"
    and run: "run_demo e mmap (\<lambda>d f. (Inr (dec f), d)) mops decoder steps b
      = map_option (map_sum id pl_messages_out)
          (map_option (\<lambda>(r, p'). map_sum id (\<lambda>_. p') r) (demo_steps (demo_stages dec mops) steps p))"
    and ab: "sink_abs k = \<lparr>aq_items = [], aq_room = 256, aq_limit = 256, aq_count = 0\<rparr>"
    using run_demo_from [OF sel assms(3), of dec mops decoder steps] by blast
  have rd: "demo_ready dec mops 0 n p" for n
    unfolding demo_mem.ready_def traffic_none [OF assms(5)] using p(2-5) assms(4) ab by (simp add: mail_def has_room_def)
  from demo_steps_none [OF p(1) _ assms(5), of mops steps] rd obtain p' c where
    "demo_steps (demo_stages dec mops) steps p = Some (Inr (), p')" "demo_advance dec mops 0 c p p'" by blast
  then show ?thesis using run p(6) by (simp add: demo_mem.advance_def traffic_none [OF assms(5)])
qed

text \<open>With a decoder that makes a message of every frame, the traffic is all of these messages, to the one sink.\<close>

lemma traffic_all:
  assumes "\<forall>j. \<exists>m. dec (demo_frame j) = Some m \<and> encodable mops 256 m"
  shows "demo_traffic dec c n = map (Pair 1) (map (the \<circ> dec \<circ> demo_frame) [c..<n])"
proof -
  have "traffic dec Some (\<lambda>m. SinkId 1) (map demo_frame js) = map (Pair 1) (map (the \<circ> dec \<circ> demo_frame) js)" for js
    using assms by (induction js) (auto simp: traffic_Cons routed_def sink_id_is_none_def split: option.splits)
  then show ?thesis .
qed

text \<open>What the steps of the demo need when the ring is empty: room for 256 messages.\<close>

lemma demo_room:
  assumes "\<forall>j. \<exists>m. dec (demo_frame j) = Some m \<and> encodable mops 256 m" "slice_safe mops" "sink_inv k"
    "sink_abs k = \<lparr>aq_items = [], aq_room = 256, aq_limit = 256, aq_count = 0\<rparr>"
  shows "has_room mops (map (the \<circ> dec \<circ> demo_frame) [0..<256]) k"
proof -
  have "list_all (encodable mops 256) (map (the \<circ> dec \<circ> demo_frame) [0..<256])"
    using assms(1) by (auto simp: list_all_iff) (metis option.sel)
  then show ?thesis using assms(2-4) by (simp add: has_room_def)
qed

text \<open>After 256 messages the ring is full: the next step does not return.\<close>

lemma demo_full_step:
  fixes p p' :: "'d demo_pipeline"
  assumes dec: "\<forall>j. \<exists>m. dec (demo_frame j) = Some m \<and> encodable mops 256 m" and mops: "slice_safe mops"
    and p: "pl_initialized p" "pl_placement p = SinkId 1" "pl_sinks p = [(1, k)]" "sink_inv k"
      "sink_abs k = \<lparr>aq_items = [], aq_room = 256, aq_limit = 256, aq_count = 0\<rparr>"
    and p': "demo_at 256 p'" "demo_advance dec mops 0 256 p p'"
  shows "step_outcome_of (demo_stages dec mops) p' = None"
proof -
  define msgs where "msgs = map (the \<circ> dec \<circ> demo_frame) [0..<256]"
  have room: "has_room mops msgs k" using demo_room [OF dec mops p(4,5)] by (simp only: msgs_def)
  have sinks: "pl_sinks p' = [(1, fold (put_item mops) msgs k)]"
    using p'(2) p(3) unfolding demo_mem.advance_def traffic_all [OF dec] delivered_mail
    by (simp add: mail_fixed msgs_def del: map_map)
  have "has_room mops [] (fold (put_item mops) msgs k)"
    by (rule demo_mem.takes_fold) (use room in simp)
  then have inv: "sink_inv (fold (put_item mops) msgs k)" by (simp add: has_room_def)
  have abs: "sink_abs (fold (put_item mops) msgs k) = \<lparr>aq_items = map (item mops) msgs, aq_room = 256, aq_limit = 256, aq_count = 256\<rparr>"
    using put_items [OF room] p(5) by (simp add: msgs_def)
  obtain m where m: "dec (demo_frame 256) = Some m" "encodable mops 256 m" using dec by blast
  have rc: "pl_runtime p' = runtime_config_default" using p'(1) by (simp add: demo_at_def)
  have "waits_on_full mops (SinkId 1) m p'"
    using sinks inv abs m(2) rc by (simp add: waits_on_full_def runtime_config_default_def msgs_def)
  moreover have "pl_initialized p'" "pl_placement p' = SinkId 1" using p'(2) p(1,2) by (simp_all add: demo_mem.advance_def)
  ultimately show ?thesis
    using p'(1) m(1) mops by (intro demo_step_full [where c = 256 and m = m]) simp_all
qed

section \<open>Properties\<close>

text \<open>
  (C18) The demo from end to end: with a decoder that makes a message of every frame and messages that fit
  the slots, \<open>run_demo\<close> writes exactly one message per step as long as the steps are at most the 256
  slots of the ring. With more steps it never returns, because nothing in the demo reads the ring.
\<close>

theorem run_demo_exact:
  fixes decoder :: 'd
  assumes "fb_use_memory b" "fb_has_source b \<or> fb_use_simulator b" "memory_sink_new e mmap 256 256 = Inr mem"
    "slice_safe mops" "\<forall>j. \<exists>m. dec (demo_frame j) = Some m \<and> encodable mops 256 m"
  shows "run_demo e mmap (\<lambda>d f. (Inr (dec f), d)) mops decoder steps b
    = (if steps \<le> 256 then Some (Inr steps) else None)"
proof -
  have total: "\<forall>j \<in> {c..<n}. dec (demo_frame j) \<noteq> None" for c n :: nat using assms(5) by fastforce
  have sel: "fb_use_memory b \<and> (fb_has_source b \<or> fb_use_simulator b)" using assms(1,2) by simp
  obtain p :: "'d demo_pipeline" and k where p: "demo_at 0 p" "pl_initialized p" "pl_placement p = SinkId 1" "pl_sinks p = [(1, k)]" "sink_inv k"
      "sink_abs k = \<lparr>aq_items = [], aq_room = 256, aq_limit = 256, aq_count = 0\<rparr>" "pl_messages_out p = 0"
    and run: "run_demo e mmap (\<lambda>d f. (Inr (dec f), d)) mops decoder steps b
      = map_option (map_sum id pl_messages_out)
          (map_option (\<lambda>(r, p'). map_sum id (\<lambda>_. p') r) (demo_steps (demo_stages dec mops) steps p))"
    using run_demo_from [OF sel assms(3), of dec mops decoder steps] by blast
  note t = traffic_all [OF assms(5)]
  have rd: "demo_ready dec mops 0 256 p"
    unfolding demo_mem.ready_def t using p(2-4) demo_room [OF assms(5,4) p(5,6)]
    by (auto simp: mail_fixed simp del: map_map)
  note steps = demo_steps_total [OF p(1) rd _ _ total]
  show ?thesis
  proof (cases "steps \<le> 256")
    case True
    from steps [of steps] True obtain p' where
      s: "\<forall>more. demo_steps (demo_stages dec mops) (steps + more) p = demo_steps (demo_stages dec mops) more p'"
        "demo_advance dec mops 0 steps p p'" by auto
    have "demo_steps (demo_stages dec mops) steps p = Some (Inr (), p')" using spec [OF s(1), of 0] by simp
    then show ?thesis using run True p(7) s(2) by (simp add: demo_mem.advance_def t)
  next
    case False
    then obtain n where n: "steps = 256 + Suc n" by (metis less_iff_Suc_add add_Suc_right not_le)
    from steps [of 256] obtain p' where
      s: "\<forall>more. demo_steps (demo_stages dec mops) (256 + more) p = demo_steps (demo_stages dec mops) more p'"
        "demo_at 256 p'" "demo_advance dec mops 0 256 p p'" by auto
    have "demo_steps (demo_stages dec mops) (Suc n) p' = None"
      using demo_full_step [OF assms(5,4) p(2-6) s(2,3)] by simp
    then have "demo_steps (demo_stages dec mops) steps p = None" using spec [OF s(1), of "Suc n"] unfolding n by metis
    then show ?thesis using run False by simp
  qed
qed

lemma run_demo_exact_witness:
  "run_demo Little no_mmap_error (\<lambda>d f. (Inr (Some \<lparr>stub_seq = of_nat (length f)\<rparr>), d)) stub_ops () 4 (sel_memory (sel_source flyby_builder))
     = Some (Inr 4)
   \<and> run_demo Little no_mmap_error (\<lambda>d f. (Inr (Some \<lparr>stub_seq = of_nat (length f)\<rparr>), d)) stub_ops () 300 (sel_memory (sel_source flyby_builder))
     = None"
proof -
  have b: "fb_use_memory (sel_memory (sel_source flyby_builder))" "fb_has_source (sel_memory (sel_source flyby_builder))"
    by (simp_all add: sel_memory_def sel_source_def flyby_builder_def)
  from demo_sink obtain mem where m: "memory_sink_new Little no_mmap_error 256 256 = Inr mem" by blast
  show ?thesis
    using run_demo_exact [OF b(1) _ m slice_safe_stub, of "\<lambda>f. Some \<lparr>stub_seq = of_nat (length f)\<rparr>" "()"] b(2)
    by (simp add: encodable_def) (simp add: stub_ops_def)
qed

end
