(* ===== verification/Hello_Pipeline.thy ===== *)
theory Hello_Pipeline
  imports Pipeline_Demo
begin

text \<open>
  The example program \<open>examples/src/bin/hello_pipeline.rs\<close>: its message type with a fixed binary layout,
  its decoder, and \<open>main\<close>, which validates a builder and runs the demo of theory \<open>Pipeline_Demo\<close>.
\<close>

record market_tick =
  mt_sequence :: u64
  mt_price :: u64
  mt_quantity :: u32

text \<open>\<open>copy_from_slice\<close> into a range of the destination.\<close>

definition tick_ops :: "market_tick message_ops" where
  "tick_ops =
     \<lparr>schema_id = (\<lambda>_. 1), timestamp = (\<lambda>_. 0),
      metadata_of = (\<lambda>m. \<lparr>md_sequence = mt_sequence m, md_suspect = False\<rparr>),
      encoded_len = (\<lambda>_. 20),
      encode_into = (\<lambda>m dst.
        if length dst < 20 then (Inl (encode_error ''buffer too small for MarketTick''), dst)
        else (Inr 20,
          write_at 16 (be_bytes 4 (mt_quantity m))
            (write_at 8 (be_bytes 8 (mt_price m)) (write_at 0 (be_bytes 8 (mt_sequence m)) dst))))\<rparr>"

definition tick_decode :: "bytes \<Rightarrow> market_tick option" where
  "tick_decode raw =
     (if length raw < 20 then None
      else if length raw \<noteq> 20 then None
      else Some \<lparr>mt_sequence = of_be_bytes (take 8 raw), mt_price = of_be_bytes (take 8 (drop 8 raw)),
                 mt_quantity = of_be_bytes (take 4 (drop 16 raw))\<rparr>)"

definition tick_decoder :: "unit \<Rightarrow> bytes \<Rightarrow> market_tick option result \<times> unit" where
  "tick_decoder d raw = (Inr (tick_decode raw), d)"

text \<open>\<open>main\<close>: its result and the lines it prints. \<open>None\<close> is a run that does not end.\<close>

definition hello_main :: "endian \<Rightarrow> (nat \<Rightarrow> (io_kind \<times> string) option) \<Rightarrow> (unit result \<times> string list) option" where
  "hello_main e mmap =
     (case builder_run (sel_placement (sel_memory (sel_decoder (sel_source flyby_builder)))) of
        Inl err \<Rightarrow> Some (Inl err, [])
      | Inr _ \<Rightarrow>
          (let accepted = ''flyby hello_pipeline: builder configuration accepted'' in
           case run_demo e mmap tick_decoder tick_ops () 4 (sel_memory (sel_source flyby_builder)) of
             None \<Rightarrow> None
           | Some (Inl err) \<Rightarrow> Some (Inl err, [accepted])
           | Some (Inr written) \<Rightarrow>
               Some (Inr (),
                 [accepted, ''flyby hello_pipeline: demo completed (messages written via decoder: '' @ nat_dec written @ '')''])))"

section \<open>The layout\<close>

lemma slice_safe_tick [simp]: "slice_safe tick_ops"
  by (simp add: slice_safe_def tick_ops_def)

lemma tick_layout:
  assumes "length dst = 20"
  shows "encode_into tick_ops m dst = (Inr 20, be_bytes 8 (mt_sequence m) @ be_bytes 8 (mt_price m) @ be_bytes 4 (mt_quantity m))"
  using assms by (simp add: tick_ops_def write_at_def)

lemma tick_decode_encoded:
  "tick_decode (be_bytes 8 (mt_sequence m) @ be_bytes 8 (mt_price m) @ be_bytes 4 (mt_quantity m)) = Some m"
  by (simp add: tick_decode_def of_be_bytes_be_bytes)

section \<open>Properties\<close>

text \<open>
  A tick is read back from its encoding, and every 20 bytes are the encoding of the tick they decode to.
\<close>

theorem tick_roundtrip:
  assumes "length raw = 20"
  shows "tick_decode (snd (encode_into tick_ops m raw)) = Some m
    \<and> (\<exists>t. tick_decode raw = Some t \<and> encode_into tick_ops t (replicate 20 0) = (Inr 20, raw))"
proof -
  let ?t = "\<lparr>mt_sequence = of_be_bytes (take 8 raw), mt_price = of_be_bytes (take 8 (drop 8 raw)),
      mt_quantity = of_be_bytes (take 4 (drop 16 raw))\<rparr>"
  have "be_bytes 8 (mt_sequence ?t) @ be_bytes 8 (mt_price ?t) @ be_bytes 4 (mt_quantity ?t)
      = take 8 raw @ take 8 (drop 8 raw) @ take 4 (drop 16 raw)"
    using assms by (simp add: be_bytes_of_be_bytes)
  also have "\<dots> = raw" using assms append_take_drop_id [of 8 raw] append_take_drop_id [of 8 "drop 8 raw"] by simp
  finally have "encode_into tick_ops ?t (replicate 20 0) = (Inr 20, raw)" by (simp add: tick_layout)
  moreover have "tick_decode raw = Some ?t" using assms by (simp add: tick_decode_def)
  ultimately show ?thesis using tick_layout [OF assms, of m] tick_decode_encoded [of m] by auto
qed

text \<open>
  The example ends: its decoder takes only 20-byte frames, the frames of the simulated source are 74
  bytes long, so all of them are filtered and the four steps of the demo write nothing.
\<close>

theorem hello_main_filters:
  assumes "memory_sink_new e mmap 256 256 = Inr mem"
  shows "hello_main e mmap
    = Some (Inr (), [''flyby hello_pipeline: builder configuration accepted'',
        ''flyby hello_pipeline: demo completed (messages written via decoder: 0)''])"
proof -
  have filt: "tick_decode (demo_frame j) = None" for j by (simp add: tick_decode_def)
  have "run_demo e mmap (\<lambda>d f. (Inr (tick_decode f), d)) tick_ops () 4 (sel_memory (sel_source flyby_builder)) = Some (Inr 0)"
    by (rule run_demo_filtered [OF _ _ assms])
      (simp_all add: filt sel_memory_def sel_source_def flyby_builder_def)
  moreover have "tick_decoder = (\<lambda>d f. (Inr (tick_decode f), d))" by (intro ext) (simp add: tick_decoder_def)
  moreover have "builder_run (sel_placement (sel_memory (sel_decoder (sel_source flyby_builder)))) = Inr ()"
    by (simp add: builder_run_def has_any_backend_def sel_placement_def sel_memory_def sel_decoder_def sel_source_def flyby_builder_def)
  moreover have "nat_dec 0 = ''0''" by code_simp
  ultimately show ?thesis by (simp add: hello_main_def)
qed

lemma hello_main_filters_witness:
  "hello_main Little no_mmap_error
    = Some (Inr (), [''flyby hello_pipeline: builder configuration accepted'',
        ''flyby hello_pipeline: demo completed (messages written via decoder: 0)''])"
proof -
  from demo_sink obtain mem where "memory_sink_new Little no_mmap_error 256 256 = Inr mem" by blast
  from hello_main_filters [OF this] show ?thesis .
qed

end
