(* ===== verification/Spsc_Concurrent.thy ===== *)
theory Spsc_Concurrent
  imports Spsc_Ring
begin

text \<open>
  Two threads on one ring (\<open>crates/flyby-memory/src/ring.rs\<close>): a producer that calls
  \<open>try_push\<close>, fills the slot and calls \<open>commit_push\<close>, and a consumer that calls \<open>try_pop\<close>,
  reads the slot and calls \<open>commit_pop\<close>, in any interleaving.

  The counters are atomics with acquire loads and release stores. Each keeps its modification
  order (the list of values stored so far). A thread reads its own counter exactly; the other
  thread's counter it may read stale: any value of the modification order that is not older
  than the one it saw last (read-read coherence). Acquire/release makes the slot writes before
  a store visible to who reads it, so the slots themselves are a plain shared store, provided
  the two threads never work on the same slot: that is part of what is proved.
\<close>

datatype 'a producer = PIdle | PClaimed usize | PWritten usize 'a
datatype 'a consumer = CIdle | CClaimed usize | CRead usize 'a

record 'a spsc_sys =
  head_order :: "u64 list"
  tail_order :: "u64 list"
  p_view :: nat
  c_view :: nat
  slots :: "usize \<Rightarrow> 'a"
  p_pc :: "'a producer"
  c_pc :: "'a consumer"
  sent :: "'a list"
  got :: "'a list"

text \<open>The ring as the producer sees it with the \<open>t\<close>-th value of the tail, and dually.\<close>

definition producer_ring :: "usize \<Rightarrow> 'a spsc_sys \<Rightarrow> nat \<Rightarrow> spsc_ring" where
  "producer_ring cap s t = (ring_new cap)\<lparr>ring_head := last (head_order s), ring_tail := tail_order s ! t\<rparr>"

definition consumer_ring :: "usize \<Rightarrow> 'a spsc_sys \<Rightarrow> nat \<Rightarrow> spsc_ring" where
  "consumer_ring cap s h = (ring_new cap)\<lparr>ring_head := head_order s ! h, ring_tail := last (tail_order s)\<rparr>"

definition spsc_init :: "(usize \<Rightarrow> 'a) \<Rightarrow> 'a spsc_sys" where
  "spsc_init mem = \<lparr>head_order = [0], tail_order = [0], p_view = 0, c_view = 0, slots = mem,
     p_pc = PIdle, c_pc = CIdle, sent = [], got = []\<rparr>"

text \<open>The steps of the two threads, and of the system.\<close>

inductive producer_step :: "usize \<Rightarrow> 'a spsc_sys \<Rightarrow> 'a spsc_sys \<Rightarrow> bool" for cap where
  p_claim: "p_pc s = PIdle \<Longrightarrow> p_view s \<le> t \<Longrightarrow> t < length (tail_order s) \<Longrightarrow>
     try_push (producer_ring cap s t) = Some i \<Longrightarrow>
     producer_step cap s (s\<lparr>p_view := t, p_pc := PClaimed i\<rparr>)"
| p_full: "p_pc s = PIdle \<Longrightarrow> p_view s \<le> t \<Longrightarrow> t < length (tail_order s) \<Longrightarrow>
     try_push (producer_ring cap s t) = None \<Longrightarrow> producer_step cap s (s\<lparr>p_view := t\<rparr>)"
| p_write: "p_pc s = PClaimed i \<Longrightarrow>
     producer_step cap s (s\<lparr>slots := (slots s)(i := x), p_pc := PWritten i x\<rparr>)"
| p_commit: "p_pc s = PWritten i x \<Longrightarrow>
     producer_step cap s (s\<lparr>head_order := head_order s @ [ring_head (commit_push (producer_ring cap s (p_view s)))],
       sent := sent s @ [x], p_pc := PIdle\<rparr>)"

inductive consumer_step :: "usize \<Rightarrow> 'a spsc_sys \<Rightarrow> 'a spsc_sys \<Rightarrow> bool" for cap where
  c_claim: "c_pc s = CIdle \<Longrightarrow> c_view s \<le> h \<Longrightarrow> h < length (head_order s) \<Longrightarrow>
     try_pop (consumer_ring cap s h) = Some i \<Longrightarrow>
     consumer_step cap s (s\<lparr>c_view := h, c_pc := CClaimed i\<rparr>)"
| c_empty: "c_pc s = CIdle \<Longrightarrow> c_view s \<le> h \<Longrightarrow> h < length (head_order s) \<Longrightarrow>
     try_pop (consumer_ring cap s h) = None \<Longrightarrow> consumer_step cap s (s\<lparr>c_view := h\<rparr>)"
| c_read: "c_pc s = CClaimed i \<Longrightarrow> consumer_step cap s (s\<lparr>c_pc := CRead i (slots s i)\<rparr>)"
| c_commit: "c_pc s = CRead i x \<Longrightarrow>
     consumer_step cap s (s\<lparr>tail_order := tail_order s @ [ring_tail (commit_pop (consumer_ring cap s (c_view s)))],
       got := got s @ [x], c_pc := CIdle\<rparr>)"

inductive spsc_step :: "usize \<Rightarrow> 'a spsc_sys \<Rightarrow> 'a spsc_sys \<Rightarrow> bool" for cap where
  by_producer: "producer_step cap s s' \<Longrightarrow> spsc_step cap s s'"
| by_consumer: "consumer_step cap s s' \<Longrightarrow> spsc_step cap s s'"

inductive spsc_reachable :: "usize \<Rightarrow> (usize \<Rightarrow> 'a) \<Rightarrow> 'a spsc_sys \<Rightarrow> bool" for cap mem where
  start: "spsc_reachable cap mem (spsc_init mem)"
| step: "spsc_reachable cap mem s \<Longrightarrow> spsc_step cap s s' \<Longrightarrow> spsc_reachable cap mem s'"

section \<open>The invariant\<close>

definition index_of :: "usize \<Rightarrow> nat \<Rightarrow> usize" where
  "index_of cap n = (of_nat n :: u64) AND (cap - 1)"

definition counters_inv :: "usize \<Rightarrow> 'a spsc_sys \<Rightarrow> bool" where
  "counters_inv cap s \<longleftrightarrow>
     head_order s = map of_nat [0..<Suc (length (sent s))]
     \<and> tail_order s = map of_nat [0..<Suc (length (got s))]
     \<and> p_view s \<le> length (got s) \<and> length (got s) \<le> c_view s \<and> c_view s \<le> length (sent s)
     \<and> length (sent s) \<le> p_view s + unat cap"

definition data_inv :: "usize \<Rightarrow> 'a spsc_sys \<Rightarrow> bool" where
  "data_inv cap s \<longleftrightarrow>
     got s = take (length (got s)) (sent s)
     \<and> (\<forall>n. length (got s) \<le> n \<and> n < length (sent s) \<longrightarrow> slots s (index_of cap n) = sent s ! n)"

definition producer_inv :: "usize \<Rightarrow> 'a spsc_sys \<Rightarrow> bool" where
  "producer_inv cap s \<longleftrightarrow>
     (case p_pc s of PIdle \<Rightarrow> True
      | PClaimed i \<Rightarrow> i = index_of cap (length (sent s)) \<and> length (sent s) < p_view s + unat cap
      | PWritten i x \<Rightarrow> i = index_of cap (length (sent s)) \<and> length (sent s) < p_view s + unat cap
          \<and> slots s i = x)"

definition consumer_inv :: "usize \<Rightarrow> 'a spsc_sys \<Rightarrow> bool" where
  "consumer_inv cap s \<longleftrightarrow>
     (case c_pc s of CIdle \<Rightarrow> True
      | CClaimed i \<Rightarrow> i = index_of cap (length (got s)) \<and> length (got s) < c_view s
      | CRead i x \<Rightarrow> i = index_of cap (length (got s)) \<and> length (got s) < c_view s
          \<and> x = sent s ! length (got s))"

definition spsc_inv :: "usize \<Rightarrow> 'a spsc_sys \<Rightarrow> bool" where
  "spsc_inv cap s \<longleftrightarrow> counters_inv cap s \<and> data_inv cap s \<and> producer_inv cap s \<and> consumer_inv cap s"

lemmas spsc_inv_defs = spsc_inv_def counters_inv_def data_inv_def producer_inv_def consumer_inv_def

text \<open>Counters as numbers: their difference decides full and empty although they wrap.\<close>

lemma of_nat_diff_eq_cap:
  assumes "t \<le> n" "n \<le> t + unat (cap :: u64)"
  shows "(of_nat n - of_nat t = cap) = (n = t + unat cap)"
proof -
  have "n - t < 2 ^ 64" using assms(2) unat_u64_less [of cap] by linarith
  from unat_of_nat_diff_u64 [OF assms(1) this] show ?thesis
    using assms(1) unfolding word_unat_eq_iff by linarith
qed

lemma of_nat_eq_iff_near:
  assumes "t \<le> n" "n \<le> t + unat (cap :: u64)"
  shows "(of_nat t = (of_nat n :: u64)) = (t = n)"
proof -
  have "n - t < 2 ^ 64" using assms(2) unat_u64_less [of cap] by linarith
  note d = unat_of_nat_diff_u64 [OF assms(1) this]
  have "(of_nat t = (of_nat n :: u64)) = (of_nat n - of_nat t = (0 :: u64))" by auto
  also have "\<dots> = (n - t = 0)" using d unfolding word_unat_eq_iff by simp
  finally show ?thesis using assms(1) by linarith
qed

lemma index_of_inj:
  assumes "is_power_of_two cap" "index_of cap m = index_of cap n" "m \<le> n" "n < m + unat cap"
  shows "m = n"
proof -
  obtain k where k: "k < 64" "cap = 2 ^ k" using assms(1) by (auto simp: is_power_of_two_iff)
  then have cap: "unat cap = 2 ^ k" using unat_exp [where 'a = 64] by simp
  have u: "unat (index_of cap j) = j mod 2 ^ k" for j
  proof -
    have "unat (index_of cap j) = unat (of_nat j :: u64) mod 2 ^ k"
      using k unat_and_mask [where 'a = 64 and k = k] by (simp add: index_of_def)
    also have "\<dots> = j mod 2 ^ k" using k unat_of_nat_mod_exp [where 'a = 64 and k = k] by simp
    finally show ?thesis .
  qed
  have "m mod 2 ^ k = n mod 2 ^ k" using assms(2) u by metis
  then have "(m + 0) mod 2 ^ k = (m + (n - m)) mod 2 ^ k" using assms(3) by simp
  from add_mod_inj_below [OF _ _ this] show ?thesis using assms(3,4) cap by fastforce
qed

lemma spsc_inv_init: "spsc_inv cap (spsc_init mem)"
  by (simp add: spsc_inv_defs spsc_init_def)

section \<open>Every step keeps the invariant\<close>

lemma last_head_order: "counters_inv cap s \<Longrightarrow> last (head_order s) = of_nat (length (sent s))"
  by (simp add: counters_inv_def)

lemma last_tail_order: "counters_inv cap s \<Longrightarrow> last (tail_order s) = of_nat (length (got s))"
  by (simp add: counters_inv_def)

lemma nth_orders:
  assumes "counters_inv cap s"
  shows "t < length (tail_order s) \<Longrightarrow> tail_order s ! t = of_nat t \<and> t \<le> length (got s)"
    and "h < length (head_order s) \<Longrightarrow> head_order s ! h = of_nat h \<and> h \<le> length (sent s)"
  using assms by (auto simp: counters_inv_def nth_append simp del: upt_Suc)

text \<open>The producer's check, on a possibly stale tail, is exact up to that staleness.\<close>

lemma producer_check:
  assumes "counters_inv cap s" "p_view s \<le> t" "t < length (tail_order s)"
  shows "try_push (producer_ring cap s t) =
    (if length (sent s) = t + unat cap then None else Some (index_of cap (length (sent s))))"
proof -
  note c = assms(1)
  have t: "tail_order s ! t = of_nat t" "t \<le> length (got s)" using nth_orders(1) [OF c assms(3)] by auto
  have "t \<le> length (sent s)" "length (sent s) \<le> t + unat cap"
    using c t(2) assms(2) by (auto simp: counters_inv_def)
  from of_nat_diff_eq_cap [OF this] show ?thesis
    by (simp add: try_push_def producer_ring_def ring_new_def last_head_order [OF c] t(1) index_of_def)
qed

lemma consumer_check:
  assumes "counters_inv cap s" "c_view s \<le> h" "h < length (head_order s)"
  shows "try_pop (consumer_ring cap s h) =
    (if length (got s) = h then None else Some (index_of cap (length (got s))))"
proof -
  note c = assms(1)
  have h: "head_order s ! h = of_nat h" "h \<le> length (sent s)" using nth_orders(2) [OF c assms(3)] by auto
  have "length (got s) \<le> h" "h \<le> length (got s) + unat cap"
    using c h(2) assms(2) by (auto simp: counters_inv_def)
  from of_nat_eq_iff_near [OF this] show ?thesis
    by (simp add: try_pop_def consumer_ring_def ring_new_def last_tail_order [OF c] h(1) index_of_def)
qed

text \<open>The slot being filled holds no element that is still in the queue.\<close>

lemma claimed_is_free:
  assumes "is_power_of_two cap" "counters_inv cap s" "length (sent s) < p_view s + unat cap"
    "length (got s) \<le> n" "n < length (sent s)"
  shows "index_of cap n \<noteq> index_of cap (length (sent s))"
  using index_of_inj [OF assms(1), of n "length (sent s)"] assms(2-)
  by (auto simp: counters_inv_def)

lemma producer_step_inv:
  assumes "is_power_of_two cap" "producer_step cap s s'" "spsc_inv cap s"
  shows "spsc_inv cap s'"
  using assms(2,3)
proof (cases rule: producer_step.cases)
  case (p_claim t i)
  have c: "counters_inv cap s" using assms(3) by (simp add: spsc_inv_def)
  have "length (sent s) \<noteq> t + unat cap" "i = index_of cap (length (sent s))"
    using p_claim producer_check [OF c p_claim(3,4)] by (auto split: if_splits)
  then show ?thesis
    using p_claim assms(3) nth_orders(1) [OF c p_claim(4)] by (auto simp: spsc_inv_defs split: producer.splits consumer.splits)
next
  case (p_full t)
  then show ?thesis
    using assms(3) nth_orders(1) [OF _ p_full(4), of cap] by (auto simp: spsc_inv_defs split: producer.splits consumer.splits)
next
  case (p_write i x)
  then show ?thesis
    using assms(3) claimed_is_free [OF assms(1), of s] by (auto simp: spsc_inv_defs split: producer.splits consumer.splits)
next
  case (p_commit i x)
  have c: "counters_inv cap s" using assms(3) by (simp add: spsc_inv_def)
  have "ring_head (commit_push (producer_ring cap s (p_view s))) = of_nat (Suc (length (sent s)))"
    by (simp add: commit_push_def producer_ring_def last_head_order [OF c])
  then show ?thesis
    using p_commit assms(3)
    by (auto simp: spsc_inv_defs nth_append less_Suc_eq split: producer.splits consumer.splits)
qed

lemma consumer_step_inv:
  assumes "is_power_of_two cap" "consumer_step cap s s'" "spsc_inv cap s"
  shows "spsc_inv cap s'"
  using assms(2,3)
proof (cases rule: consumer_step.cases)
  case (c_claim h i)
  have c: "counters_inv cap s" using assms(3) by (simp add: spsc_inv_def)
  have "length (got s) \<noteq> h" "i = index_of cap (length (got s))"
    using c_claim consumer_check [OF c c_claim(3,4)] by (auto split: if_splits)
  then show ?thesis
    using c_claim assms(3) nth_orders(2) [OF c c_claim(4)] by (auto simp: spsc_inv_defs split: producer.splits consumer.splits)
next
  case (c_empty h)
  then show ?thesis
    using assms(3) nth_orders(2) [OF _ c_empty(4), of cap] by (auto simp: spsc_inv_defs split: producer.splits consumer.splits)
next
  case (c_read i)
  then show ?thesis using assms(3) by (auto simp: spsc_inv_defs split: producer.splits consumer.splits)
next
  case (c_commit i x)
  have c: "counters_inv cap s" using assms(3) by (simp add: spsc_inv_def)
  have "ring_tail (commit_pop (consumer_ring cap s (c_view s))) = of_nat (Suc (length (got s)))"
    by (simp add: commit_pop_def consumer_ring_def last_tail_order [OF c])
  then show ?thesis
    using c_commit assms(3)
    by (auto simp: spsc_inv_defs take_Suc_conv_app_nth split: producer.splits consumer.splits)
qed

lemma spsc_step_inv: "is_power_of_two cap \<Longrightarrow> spsc_step cap s s' \<Longrightarrow> spsc_inv cap s \<Longrightarrow> spsc_inv cap s'"
  by (auto elim: spsc_step.cases intro: producer_step_inv consumer_step_inv)

lemma spsc_reachable_inv:
  assumes "is_power_of_two cap" "spsc_reachable cap mem s"
  shows "spsc_inv cap s"
  using assms(2) by induction (auto intro: spsc_inv_init spsc_step_inv [OF assms(1)])

section \<open>Properties\<close>

fun producer_slot :: "'a producer \<Rightarrow> usize option" where
  "producer_slot PIdle = None"
| "producer_slot (PClaimed i) = Some i"
| "producer_slot (PWritten i x) = Some i"

fun consumer_slot :: "'a consumer \<Rightarrow> usize option" where
  "consumer_slot CIdle = None"
| "consumer_slot (CClaimed i) = Some i"
| "consumer_slot (CRead i x) = Some i"

lemma slots_exclusive:
  assumes "is_power_of_two cap" "spsc_inv cap s"
    "producer_slot (p_pc s) = Some i" "consumer_slot (c_pc s) = Some j"
  shows "i \<noteq> j"
proof -
  have c: "counters_inv cap s" using assms(2) by (simp add: spsc_inv_def)
  have p: "i = index_of cap (length (sent s))" "length (sent s) < p_view s + unat cap"
    using assms(2,3) by (cases "p_pc s"; simp add: spsc_inv_defs)+
  have j: "j = index_of cap (length (got s))" "length (got s) < c_view s"
    using assms(2,4) by (cases "c_pc s"; simp add: spsc_inv_defs)+
  have "length (got s) < length (sent s)" using j(2) c by (simp add: counters_inv_def)
  from claimed_is_free [OF assms(1) c p(2) order_refl this] show ?thesis using p j by simp
qed

text \<open>A number of steps of the consumer alone.\<close>

fun consumer_steps :: "usize \<Rightarrow> nat \<Rightarrow> 'a spsc_sys \<Rightarrow> 'a spsc_sys \<Rightarrow> bool" where
  "consumer_steps cap 0 s s' = (s' = s)"
| "consumer_steps cap (Suc n) s s' = (\<exists>t. consumer_step cap s t \<and> consumer_steps cap n t s')"

lemma consumer_steps_add:
  "consumer_steps cap m s t \<Longrightarrow> consumer_steps cap n t s' \<Longrightarrow> consumer_steps cap (m + n) s s'"
  by (induction m arbitrary: s) auto

text \<open>The producer's part of the state is not touched by them.\<close>

lemma consumer_steps_frame:
  "consumer_steps cap n s s' \<Longrightarrow> sent s' = sent s \<and> head_order s' = head_order s \<and> p_pc s' = p_pc s \<and> slots s' = slots s"
proof (induction n arbitrary: s)
  case (Suc n)
  then obtain t where t: "consumer_step cap s t" "consumer_steps cap n t s'" by auto
  from t(1) have "sent t = sent s \<and> head_order t = head_order s \<and> p_pc t = p_pc s \<and> slots t = slots s"
    by cases simp_all
  then show ?case using Suc.IH [OF t(2)] by simp
qed simp

lemma consumer_steps_inv:
  assumes "is_power_of_two cap"
  shows "consumer_steps cap n s s' \<Longrightarrow> spsc_inv cap s \<Longrightarrow> spsc_inv cap s'"
  by (induction n arbitrary: s) (auto intro: consumer_step_inv [OF assms])

text \<open>One round of the consumer: whatever it is doing, within three steps it has taken one more element.\<close>

lemma consumer_round:
  fixes s :: "'a spsc_sys"
  assumes inv: "spsc_inv cap s" and some: "length (got s) < length (sent s)"
  shows "\<exists>n \<le> 3. \<exists>s'. consumer_steps cap n s s' \<and> length (got s') = Suc (length (got s))"
proof -
  have read: "\<exists>t'. consumer_steps cap 1 t t' \<and> length (got t') = Suc (length (got t))"
    if "c_pc t = CRead i x" for t :: "'a spsc_sys" and i x
    using c_commit [where cap = cap, OF that] by force
  have claimed: "\<exists>t'. consumer_steps cap 2 t t' \<and> length (got t') = Suc (length (got t))"
    if "c_pc t = CClaimed i" for t :: "'a spsc_sys" and i
    using c_read [where cap = cap, OF that] read [of "t\<lparr>c_pc := CRead i (slots t i)\<rparr>"]
    by (force simp: numeral_2_eq_2)
  show ?thesis
  proof (cases "c_pc s")
    case CIdle
    let ?h = "length (sent s)"
    have c: "counters_inv cap s" using inv by (simp add: spsc_inv_def)
    then have h: "c_view s \<le> ?h" "?h < length (head_order s)" by (simp_all add: counters_inv_def)
    have "try_pop (consumer_ring cap s ?h) = Some (index_of cap (length (got s)))"
      using consumer_check [OF c h] some by simp
    note st = c_claim [OF CIdle h this]
    let ?t = "s\<lparr>c_view := ?h, c_pc := CClaimed (index_of cap (length (got s)))\<rparr>"
    obtain s' where "consumer_steps cap 2 ?t s'" "length (got s') = Suc (length (got s))"
      using claimed [of ?t] by force
    with st have "consumer_steps cap (Suc 2) s s'" "length (got s') = Suc (length (got s))"
      unfolding consumer_steps.simps(2) by blast+
    then show ?thesis by (intro exI [of _ "Suc 2"] conjI exI [of _ s']) simp_all
  next
    case (CClaimed i)
    from claimed [OF this] show ?thesis by (intro exI [of _ 2]) auto
  next
    case (CRead i x)
    from read [OF this] show ?thesis by (intro exI [of _ 1]) auto
  qed
qed

lemma consumer_catches_up:
  assumes pow: "is_power_of_two cap" and inv: "spsc_inv cap s"
  shows "\<exists>n s'. consumer_steps cap n s s' \<and> n \<le> 3 * (length (sent s) - length (got s)) \<and> got s' = sent s"
  using inv
proof (induction "length (sent s) - length (got s)" arbitrary: s)
  case 0
  then have "got s = sent s" by (auto simp: spsc_inv_defs)
  then show ?case by (intro exI [of _ 0] exI [of _ s]) simp
next
  case (Suc d)
  then have some: "length (got s) < length (sent s)" by simp
  from consumer_round [OF Suc.prems this] obtain n s1 where
    s1: "n \<le> 3" "consumer_steps cap n s s1" "length (got s1) = Suc (length (got s))" by auto
  note fr = consumer_steps_frame [OF s1(2)]
  have "d = length (sent s1) - length (got s1)" using Suc.hyps(2) s1(3) fr by simp
  from Suc.hyps(1) [OF this consumer_steps_inv [OF pow s1(2) Suc.prems]] obtain m s' where
    s': "consumer_steps cap m s1 s'" "m \<le> 3 * (length (sent s) - length (got s1))" "got s' = sent s"
    using fr by auto
  have "n + m \<le> 3 * (length (sent s) - length (got s))" using s1(1,3) s'(2) some by linarith
  then show ?case using consumer_steps_add [OF s1(2) s'(1)] s'(3) by blast
qed

text \<open>
  (C1) Whatever the interleaving and however stale the counters the threads read, the consumer
  receives exactly a prefix of what the producer committed, in order, never more than
  \<open>capacity\<close> elements are in flight, and the two threads never hold the same slot.
\<close>

theorem spsc_ring_safe:
  assumes "is_power_of_two cap" "spsc_reachable cap mem s"
  shows "got s = take (length (got s)) (sent s) \<and> length (got s) \<le> length (sent s)
    \<and> length (sent s) - length (got s) \<le> unat cap
    \<and> (\<forall>i j. producer_slot (p_pc s) = Some i \<and> consumer_slot (c_pc s) = Some j \<longrightarrow> i \<noteq> j)"
proof -
  have inv: "spsc_inv cap s" by (rule spsc_reachable_inv [OF assms])
  then have "got s = take (length (got s)) (sent s)" "length (got s) \<le> length (sent s)"
    "length (sent s) - length (got s) \<le> unat cap" by (auto simp: spsc_inv_defs)
  with slots_exclusive [OF assms(1) inv] show ?thesis by blast
qed

text \<open>One element through a ring of two, the consumer holding its slot, the producer the next.\<close>

definition spsc_example :: "nat spsc_sys" where
  "spsc_example = \<lparr>head_order = [0, 1], tail_order = [0], p_view = 0, c_view = 1,
     slots = (\<lambda>_. 0)(0 := 7), p_pc = PClaimed 1, c_pc = CRead 0 7, sent = [7], got = []\<rparr>"

lemma spsc_example_reachable: "spsc_reachable 2 (\<lambda>_. 0) spsc_example"
proof -
  let ?a = "(spsc_init (\<lambda>_. 0 :: nat))\<lparr>p_view := 0, p_pc := PClaimed 0\<rparr>"
  let ?b = "?a\<lparr>slots := (slots ?a)(0 := 7), p_pc := PWritten 0 7\<rparr>"
  let ?c = "?b\<lparr>head_order := head_order ?b @ [ring_head (commit_push (producer_ring 2 ?b (p_view ?b)))],
       sent := sent ?b @ [7], p_pc := PIdle\<rparr>"
  let ?d = "?c\<lparr>c_view := 1, c_pc := CClaimed 0\<rparr>"
  let ?e = "?d\<lparr>c_pc := CRead 0 (slots ?d 0)\<rparr>"
  let ?f = "?e\<lparr>p_view := 0, p_pc := PClaimed 1\<rparr>"
  note p = spsc_reachable.step [OF _ by_producer] and c = spsc_reachable.step [OF _ by_consumer]
  have a: "spsc_reachable 2 (\<lambda>_. 0) ?a"
    by (rule p [OF spsc_reachable.start], rule p_claim)
      (simp_all add: spsc_init_def try_push_def producer_ring_def ring_new_def)
  have b: "spsc_reachable 2 (\<lambda>_. 0) ?b" by (rule p [OF a], rule p_write) simp
  have c': "spsc_reachable 2 (\<lambda>_. 0) ?c" by (rule p [OF b], rule p_commit) simp
  have d: "spsc_reachable 2 (\<lambda>_. 0) ?d"
    by (rule c [OF c'], rule c_claim)
      (simp_all add: spsc_init_def try_pop_def consumer_ring_def producer_ring_def commit_push_def ring_new_def)
  have e: "spsc_reachable 2 (\<lambda>_. 0) ?e" by (rule c [OF d], rule c_read) simp
  have f: "spsc_reachable 2 (\<lambda>_. 0) ?f"
    by (rule p [OF e], rule p_claim)
      (simp_all add: spsc_init_def try_push_def producer_ring_def commit_push_def ring_new_def)
  moreover have "?f = spsc_example"
    by (simp add: spsc_example_def spsc_init_def commit_push_def producer_ring_def ring_new_def)
  ultimately show ?thesis by simp
qed

lemma two_is_power: "is_power_of_two (2 :: usize)"
  by (auto simp: is_power_of_two_iff intro: exI [of _ 1])

lemma spsc_ring_safe_witness:
  "consumer_slot (c_pc spsc_example) = Some 0 \<and> length (sent spsc_example) - length (got spsc_example) \<le> 2"
  using spsc_ring_safe [OF two_is_power spsc_example_reachable]
  by (simp add: spsc_example_def)

text \<open>
  (C2) From every reachable state the consumer alone, by steps of its own and while the producer does
  nothing, receives everything that has been committed, in at most three steps for each element: no
  element is ever stuck in the ring. The producer's view and the slots stay as they were.
\<close>

theorem spsc_consumer_progress:
  assumes "is_power_of_two cap" "spsc_reachable cap mem s"
  shows "\<exists>n s'. consumer_steps cap n s s' \<and> n \<le> 3 * (length (sent s) - length (got s)) \<and> got s' = sent s
    \<and> sent s' = sent s \<and> head_order s' = head_order s \<and> p_pc s' = p_pc s \<and> slots s' = slots s"
proof -
  from consumer_catches_up [OF assms(1) spsc_reachable_inv [OF assms]] obtain n s' where
    "consumer_steps cap n s s'" "n \<le> 3 * (length (sent s) - length (got s))" "got s' = sent s" by blast
  with consumer_steps_frame [OF this(1)] show ?thesis by blast
qed

lemma spsc_consumer_progress_witness:
  "\<exists>n s'. consumer_steps 2 n spsc_example s' \<and> n \<le> 3 \<and> got s' = [7] \<and> sent s' = [7]"
  using spsc_consumer_progress [OF two_is_power spsc_example_reachable]
  by (force simp: spsc_example_def)

end
