(* ===== verification/Sim_Base.thy ===== *)
theory Sim_Base
  imports Core Float64
begin

text \<open>
  The shared parts of the simulator: its clock (\<open>simulator/src/clock.rs\<close>), the trace of events and
  their collecting sink (\<open>events.rs\<close>) and its metric keys (\<open>metrics.rs\<close>). A component keeps the
  events it has emitted in a list; the null sink forgets them.
\<close>

section \<open>Clock\<close>

datatype clock_mode = RealTime | Virtual (start_ns: u64)

record sim_clock =
  ck_mode :: clock_mode
  ck_virtual_ns :: u64

definition sim_clock_new :: "clock_mode \<Rightarrow> sim_clock" where
  "sim_clock_new mode =
     \<lparr>ck_mode = mode, ck_virtual_ns = (case mode of Virtual start \<Rightarrow> start | RealTime \<Rightarrow> 0)\<rparr>"

text \<open>\<open>elapsed\<close> is the time since the anchor in nanoseconds, cut to 64 bits by the cast.\<close>

definition now_ns :: "u64 \<Rightarrow> sim_clock \<Rightarrow> u64" where
  "now_ns elapsed c = (case ck_mode c of RealTime \<Rightarrow> elapsed | Virtual _ \<Rightarrow> ck_virtual_ns c)"

definition clock_is_virtual :: "sim_clock \<Rightarrow> bool" where
  "clock_is_virtual c = (case ck_mode c of RealTime \<Rightarrow> False | Virtual _ \<Rightarrow> True)"

definition advance_ns :: "u64 \<Rightarrow> sim_clock \<Rightarrow> sim_clock" where
  "advance_ns ns c =
     (if clock_is_virtual c then c\<lparr>ck_virtual_ns := saturating_add (ck_virtual_ns c) ns\<rparr> else c)"

text \<open>\<open>advance\<close> takes a duration; its nanoseconds are cut to 64 bits.\<close>

definition advance :: "nat \<Rightarrow> sim_clock \<Rightarrow> sim_clock" where
  "advance delta_ns c =
     (if clock_is_virtual c then c\<lparr>ck_virtual_ns := saturating_add (ck_virtual_ns c) (of_nat delta_ns)\<rparr> else c)"

section \<open>Events\<close>

datatype sim_event_kind =
    EvPacketGenerated string nat u64
  | EvPacketDropped string u64
  | EvPacketCorrupted string u64
  | EvRecordRead string nat nat
  | EvRecordDropped string nat
  | EvSlotWritten string u64
  | EvConsumerRead string nat
  | EvQueueOverflow string
  | EvParserError string
  | EvPlacementDecision string nat
  | EvTickCompleted nat nat
  | EvSimulatorStarted string
  | EvSimulatorStopped nat nat

record sim_event =
  ev_clock_ns :: u64
  ev_kind :: sim_event_kind

definition vec_sink_emit :: "sim_event \<Rightarrow> sim_event list \<Rightarrow> sim_event list" where
  "vec_sink_emit e sink = sink @ [e]"

definition null_sink_emit :: "sim_event \<Rightarrow> unit \<Rightarrow> unit" where
  "null_sink_emit e sink = sink"

definition events_from :: "nat \<Rightarrow> sim_event list \<Rightarrow> sim_event list" where
  "events_from from_index sink = (if from_index \<ge> length sink then [] else drop from_index sink)"

definition truncate_to :: "nat \<Rightarrow> sim_event list \<Rightarrow> sim_event list" where
  "truncate_to max_events sink =
     (if length sink > max_events then drop (length sink - max_events) sink else sink)"

lemma length_truncate_to: "length (truncate_to n sink) = min n (length sink)"
  by (simp add: truncate_to_def)

text \<open>The collecting sink as a stage's event log.\<close>

definition emit_at :: "u64 \<Rightarrow> sim_event_kind \<Rightarrow> sim_event list \<Rightarrow> sim_event list" where
  "emit_at clock kind evs = vec_sink_emit \<lparr>ev_clock_ns = clock, ev_kind = kind\<rparr> evs"

section \<open>Metric keys\<close>

datatype sim_metric_key =
    SmPacketsGenerated | SmPacketsDropped | SmPacketsCorrupted | SmRecordsRead | SmRecordsDropped
  | SmThroughputBytes | SmQueueOccupancy | SmRingOccupancy | SmLatencyNs | SmPlacementDecisions
  | SmSinkWrites | SmTickCount | SmTickDurationNs | SmParserErrors

fun sim_metric_name :: "sim_metric_key \<Rightarrow> string" where
  "sim_metric_name SmPacketsGenerated = ''sim.packets_generated''"
| "sim_metric_name SmPacketsDropped = ''sim.packets_dropped''"
| "sim_metric_name SmPacketsCorrupted = ''sim.packets_corrupted''"
| "sim_metric_name SmRecordsRead = ''sim.records_read''"
| "sim_metric_name SmRecordsDropped = ''sim.records_dropped''"
| "sim_metric_name SmThroughputBytes = ''sim.throughput_bytes''"
| "sim_metric_name SmQueueOccupancy = ''sim.queue_occupancy''"
| "sim_metric_name SmRingOccupancy = ''sim.ring_occupancy''"
| "sim_metric_name SmLatencyNs = ''sim.latency_ns''"
| "sim_metric_name SmPlacementDecisions = ''sim.placement_decisions''"
| "sim_metric_name SmSinkWrites = ''sim.sink_writes''"
| "sim_metric_name SmTickCount = ''sim.tick_count''"
| "sim_metric_name SmTickDurationNs = ''sim.tick_duration_ns''"
| "sim_metric_name SmParserErrors = ''sim.parser_errors''"

text \<open>What the simulator hands to a collector; gauges and histograms are floats.\<close>

datatype sim_sample = SimCounter sim_metric_key nat | SimGauge sim_metric_key f64 | SimHistogram sim_metric_key f64

end
