(* ===== verification/Sim_Fault.thy ===== *)
theory Sim_Fault
  imports Sim_Base
begin

text \<open>
  Fault injection, \<open>simulator/src/fault.rs\<close>: the specification, the linear congruential generator
  and the decisions drawn from it.
\<close>

record fault_spec =
  fp_drop_rate :: f64
  fp_corrupt_rate :: f64
  fp_latency_spike_rate :: f64
  fp_latency_spike_ns :: u64

definition fault_spec_default :: fault_spec where
  "fault_spec_default =
     \<lparr>fp_drop_rate = Fin 0, fp_corrupt_rate = Fin 0, fp_latency_spike_rate = Fin 0, fp_latency_spike_ns = 0\<rparr>"

definition fault_is_clean :: "fault_spec \<Rightarrow> bool" where
  "fault_is_clean f =
     (f64_eq (fp_drop_rate f) (Fin 0) \<and> f64_eq (fp_corrupt_rate f) (Fin 0) \<and> f64_eq (fp_latency_spike_rate f) (Fin 0))"

record fault_injector =
  fi_spec :: fault_spec
  fi_state :: u64

definition fault_injector_new :: "fault_spec \<Rightarrow> u64 \<Rightarrow> fault_injector" where
  "fault_injector_new spec seed = \<lparr>fi_spec = spec, fi_state = seed\<rparr>"

text \<open>One step of Knuth's generator; every stream of the simulator uses these constants.\<close>

definition lcg_next :: "u64 \<Rightarrow> u64" where
  "lcg_next state = state * 6364136223846793005 + 1"

definition fault_next_state :: "fault_injector \<Rightarrow> u64 \<times> fault_injector" where
  "fault_next_state i = (let s = lcg_next (fi_state i) in (s, i\<lparr>fi_state := s\<rparr>))"

definition random_unit :: "fault_injector \<Rightarrow> f64 \<times> fault_injector" where
  "random_unit i =
     (let (n, i1) = fault_next_state i
      in (f64_div_pos (f64_of_nat (unat (drop_bit 32 n))) (2 ^ 32 - 1), i1))"

definition should_drop :: "fault_injector \<Rightarrow> bool \<times> fault_injector" where
  "should_drop i =
     (if f64_eq (fp_drop_rate (fi_spec i)) (Fin 0) then (False, i)
      else (let (u, i1) = random_unit i in (f64_less u (fp_drop_rate (fi_spec i1)), i1)))"

definition should_corrupt :: "fault_injector \<Rightarrow> bool \<times> fault_injector" where
  "should_corrupt i =
     (if f64_eq (fp_corrupt_rate (fi_spec i)) (Fin 0) then (False, i)
      else (let (u, i1) = random_unit i in (f64_less u (fp_corrupt_rate (fi_spec i1)), i1)))"

definition should_spike :: "fault_injector \<Rightarrow> u64 \<times> fault_injector" where
  "should_spike i =
     (if f64_eq (fp_latency_spike_rate (fi_spec i)) (Fin 0) then (0, i)
      else
        (let (u, i1) = random_unit i
         in (if f64_less u (fp_latency_spike_rate (fi_spec i1)) then fp_latency_spike_ns (fi_spec i1) else 0, i1)))"

definition corrupt_payload :: "bytes \<Rightarrow> fault_injector \<Rightarrow> bytes \<times> fault_injector" where
  "corrupt_payload payload i =
     (if payload = [] then (payload, i)
      else
        (let (n, i1) = fault_next_state i;
             pos = unat n mod length payload
         in (payload[pos := payload ! pos XOR 0xFF], i1)))"

section \<open>Frames\<close>

lemma fault_spec_frame [simp]:
  "fi_spec (snd (should_drop i)) = fi_spec i" "fi_spec (snd (should_corrupt i)) = fi_spec i"
  "fi_spec (snd (should_spike i)) = fi_spec i" "fi_spec (snd (corrupt_payload p i)) = fi_spec i"
  by (simp_all add: should_drop_def should_corrupt_def should_spike_def corrupt_payload_def random_unit_def
      fault_next_state_def Let_def)

lemma random_unit_spec [simp]: "fi_spec (snd (random_unit i)) = fi_spec i"
  by (simp add: random_unit_def fault_next_state_def Let_def)

lemma length_corrupt_payload [simp]: "length (fst (corrupt_payload p i)) = length p"
  by (simp add: corrupt_payload_def fault_next_state_def Let_def)

text \<open>A clean specification never fires and leaves the generator alone.\<close>

lemma clean_decisions:
  assumes "fault_is_clean (fi_spec i)"
  shows "should_drop i = (False, i)" "should_corrupt i = (False, i)" "should_spike i = (0, i)"
  using assms by (simp_all add: fault_is_clean_def should_drop_def should_corrupt_def should_spike_def)

lemma xor_FF_differs: "(b :: u8) XOR 0xFF \<noteq> b"
proof
  assume "b XOR 0xFF = b"
  then have "bit (b XOR 0xFF) 0 = bit b 0" by simp
  then show False by (simp add: bit_xor_iff)
qed

text \<open>The quotient of two 32-bit values is 1 only for equal ones: the largest draw.\<close>

lemma random_unit_top:
  assumes "fi_state i = s" "drop_bit 32 (lcg_next s) = (2 ^ 32 - 1 :: u64)"
  shows "fst (random_unit i) = Fin 1"
proof -
  have u: "unat (drop_bit 32 (lcg_next s)) = 2 ^ 32 - 1" by (simp add: assms(2))
  have "f64_of_nat (2 ^ 32 - 1) = Fin (of_nat (2 ^ 32 - 1))" unfolding f64_of_nat_def by (rule round64_nat) simp
  moreover have "round64 1 = Fin 1" using round64_nat [of 1] by simp
  ultimately show ?thesis
    using u assms(1) by (simp add: random_unit_def fault_next_state_def Let_def)
qed

text \<open>So an injector whose drop rate is 1 can let an item pass: the draw 1 is not below the rate.\<close>

lemma full_drop_rate_can_pass:
  "fst (should_drop (fault_injector_new (fault_spec_default\<lparr>fp_drop_rate := Fin 1\<rparr>) 9137839865990459062)) = False"
proof -
  let ?i = "fault_injector_new (fault_spec_default\<lparr>fp_drop_rate := Fin 1\<rparr>) 9137839865990459062"
  have "fst (random_unit ?i) = Fin 1"
    by (rule random_unit_top [OF refl]) (simp add: fault_injector_new_def lcg_next_def mask_eq_exp_minus_1)
  then show ?thesis
    by (simp add: should_drop_def split_beta) (simp add: fault_injector_new_def fault_spec_default_def)
qed

section \<open>Properties\<close>

text \<open>
  Corrupting a payload keeps its length and changes exactly one byte, to its complement;
  doing it again with the same generator state restores the payload.
\<close>

theorem corrupt_flips_one_byte:
  assumes "p \<noteq> []" "corrupt_payload p i = (p', i')"
  shows "length p' = length p \<and> (\<exists>!k. k < length p \<and> p' ! k \<noteq> p ! k)
    \<and> fst (corrupt_payload p' i) = p"
proof -
  let ?pos = "unat (lcg_next (fi_state i)) mod length p"
  have pos: "?pos < length p" using assms(1) by simp
  have p': "p' = p[?pos := p ! ?pos XOR 0xFF]"
    using assms by (simp add: corrupt_payload_def fault_next_state_def Let_def)
  have "p' \<noteq> []" using p' assms(1) by simp
  then have "fst (corrupt_payload p' i) = p'[?pos := p' ! ?pos XOR 0xFF]"
    by (simp add: corrupt_payload_def fault_next_state_def Let_def p')
  also have "\<dots> = p" using pos by (simp add: p' xor.assoc)
  finally have restored: "fst (corrupt_payload p' i) = p" .
  have "p' ! k \<noteq> p ! k \<longleftrightarrow> k = ?pos" if "k < length p" for k
    using that pos xor_FF_differs by (auto simp: p' nth_list_update)
  then show ?thesis using pos restored p' by (auto intro!: ex1I [of _ ?pos])
qed

lemma corrupt_flips_one_byte_witness:
  "\<exists>p' i'. corrupt_payload [1, 2, 3] (fault_injector_new fault_spec_default 0) = (p', i') \<and> p' \<noteq> [1, 2, 3]"
proof -
  obtain p' i' where c: "corrupt_payload [1, 2, 3] (fault_injector_new fault_spec_default 0) = (p', i')"
    by (rule prod.exhaust)
  from corrupt_flips_one_byte [OF _ c] have "\<exists>!k. k < length [1, 2, 3 :: u8] \<and> p' ! k \<noteq> [1, 2, 3] ! k" by blast
  then have "p' \<noteq> [1, 2, 3]" by blast
  with c show ?thesis by blast
qed

end
