(* ===== verification/Sim_Storage.thy ===== *)
theory Sim_Storage
  imports Sim_Fault File_Frames Stage_Lifecycle
begin

text \<open>
  The virtual storage source, \<open>simulator/src/storage.rs\<close>: a \<open>FileSource\<close> whose records pass
  through a private batch (\<open>scratch\<close>), are filtered by the fault injector and pushed into the
  caller's batch. The contract of \<open>StorageSource::poll_batch\<close> asks the caller to reset a batch
  before it is polled into; the code does not reset \<open>scratch\<close>, and the model keeps that.
\<close>

record virtual_storage_config =
  vc_file :: file_config
  vc_fault :: fault_spec
  vc_fault_seed :: u64
  vc_name :: string

definition virtual_storage_config_default :: virtual_storage_config where
  "virtual_storage_config_default =
     \<lparr>vc_file = file_config_default, vc_fault = fault_spec_default, vc_fault_seed = 0, vc_name = ''storage0''\<rparr>"

record 'f virtual_storage =
  vs_config :: virtual_storage_config
  vs_inner :: "'f file_source"
  vs_scratch :: record_batch
  vs_fault :: fault_injector
  vs_events :: "sim_event list"
  vs_metrics :: "sim_sample list"
  vs_records_read :: nat
  vs_records_dropped :: nat
  vs_records_corrupted :: nat
  vs_spike_ns :: u64
  vs_clock_ns :: u64
  vs_initialized :: bool

text \<open>The batch sizes are raised to 1, so its constructor cannot panic.\<close>

definition virtual_storage_new :: "virtual_storage_config \<Rightarrow> 'f \<Rightarrow> 'f virtual_storage" where
  "virtual_storage_new c framer =
     \<lparr>vs_config = c, vs_inner = file_source_new (vc_file c) framer,
      vs_scratch = the (record_batch_new (max (fc_batch_size (vc_file c)) 1) (max (fc_max_record_size (vc_file c)) 1)),
      vs_fault = fault_injector_new (vc_fault c) (vc_fault_seed c), vs_events = [], vs_metrics = [],
      vs_records_read = 0, vs_records_dropped = 0, vs_records_corrupted = 0, vs_spike_ns = 0,
      vs_clock_ns = 0, vs_initialized = False\<rparr>"

definition vs_set_clock_ns :: "u64 \<Rightarrow> 'f virtual_storage \<Rightarrow> 'f virtual_storage" where
  "vs_set_clock_ns c s = s\<lparr>vs_clock_ns := c\<rparr>"

definition vs_take_spike_ns :: "'f virtual_storage \<Rightarrow> u64 \<times> 'f virtual_storage" where
  "vs_take_spike_ns s = (vs_spike_ns s, s\<lparr>vs_spike_ns := 0\<rparr>)"

definition vs_emit :: "sim_event_kind \<Rightarrow> 'f virtual_storage \<Rightarrow> 'f virtual_storage" where
  "vs_emit kind s = s\<lparr>vs_events := emit_at (vs_clock_ns s) kind (vs_events s)\<rparr>"

definition vs_count :: "sim_metric_key \<Rightarrow> nat \<Rightarrow> 'f virtual_storage \<Rightarrow> 'f virtual_storage" where
  "vs_count key n s = s\<lparr>vs_metrics := vs_metrics s @ [SimCounter key n]\<rparr>"

definition vs_init ::
  "(string \<Rightarrow> (io_kind \<times> string) + os_file) \<Rightarrow> 'f virtual_storage \<Rightarrow> unit result \<times> 'f virtual_storage"
where
  "vs_init open_file s =
     (case file_source_init open_file (vs_inner s) of
        (Inl e, i) \<Rightarrow> (Inl e, s\<lparr>vs_inner := i\<rparr>)
      | (Inr _, i) \<Rightarrow>
          (Inr (), s\<lparr>vs_inner := i, vs_records_read := 0, vs_records_dropped := 0, vs_records_corrupted := 0,
                     vs_spike_ns := 0, vs_initialized := True\<rparr>))"

definition vs_shutdown :: "'f virtual_storage \<Rightarrow> unit result \<times> 'f virtual_storage" where
  "vs_shutdown s =
     (case file_source_shutdown (vs_inner s) of
        (Inl e, i) \<Rightarrow> (Inl e, s\<lparr>vs_inner := i\<rparr>)
      | (Inr _, i) \<Rightarrow> (Inr (), s\<lparr>vs_inner := i, vs_initialized := False\<rparr>))"

definition vs_is_exhausted :: "'f virtual_storage \<Rightarrow> bool" where
  "vs_is_exhausted s = fs_exhausted (vs_inner s)"

definition vs_lose :: "nat \<Rightarrow> 'f virtual_storage \<Rightarrow> 'f virtual_storage" where
  "vs_lose offset s =
     vs_count SmRecordsDropped 1
       (vs_emit (EvRecordDropped (vc_name (vs_config s)) offset) (s\<lparr>vs_records_dropped := vs_records_dropped s + 1\<rparr>))"

text \<open>The loop's body: one record of \<open>scratch\<close>, the caller's batch and \<open>delivered\<close>.\<close>

definition vs_record ::
  "bytes \<times> record_meta \<Rightarrow> 'f virtual_storage \<times> record_batch \<times> nat \<Rightarrow> 'f virtual_storage \<times> record_batch \<times> nat"
where
  "vs_record rec v =
     (let (payload, meta) = rec;
          (s, b, delivered) = v;
          s1 = s\<lparr>vs_records_read := vs_records_read s + 1\<rparr>;
          offset = file_offset meta;
          (drop_hit, f1) = should_drop (vs_fault s1);
          s2 = s1\<lparr>vs_fault := f1\<rparr> in
      if drop_hit then (vs_lose offset s2, b, delivered)
      else
        (let (hit, f2) = should_corrupt (vs_fault s2);
             s3 = s2\<lparr>vs_fault := f2\<rparr>;
             (payload1, s4) =
               (if hit
                then (let (p, f) = corrupt_payload payload (vs_fault s3)
                      in (p, s3\<lparr>vs_fault := f, vs_records_corrupted := vs_records_corrupted s3 + 1\<rparr>))
                else (payload, s3));
             (spike, f5) = should_spike (vs_fault s4);
             s5 = s4\<lparr>vs_fault := f5\<rparr>;
             s6 = (if spike > 0 then s5\<lparr>vs_spike_ns := saturating_add (vs_spike_ns s5) spike\<rparr> else s5) in
         case batch_push payload1 meta b of
           (PushOk, b1) \<Rightarrow>
             (vs_count SmThroughputBytes (length payload1)
                (vs_count SmRecordsRead 1
                   (vs_emit (EvRecordRead (vc_name (vs_config s6)) offset (length payload1)) s6)),
              b1, delivered + 1)
         | (_, b1) \<Rightarrow> (vs_lose offset s6, b1, delivered)))"

definition vs_poll_batch ::
  "'f framer \<Rightarrow> nat \<Rightarrow> nat \<Rightarrow> 'f virtual_storage \<Rightarrow> record_batch \<Rightarrow> nat result \<times> 'f virtual_storage \<times> record_batch"
where
  "vs_poll_batch next_len now now_eof s batch =
     (if \<not> vs_initialized s
      then (Inl (lifecycle_error (''VirtualStorageSource '' @ [CHR 0x27] @ vc_name (vs_config s) @ [CHR 0x27]
              @ '': call init() before poll_batch()'')), s, batch)
      else case poll_batch next_len now now_eof (vs_inner s) (vs_scratch s) of
          (Inl e, i, sc) \<Rightarrow> (Inl e, s\<lparr>vs_inner := i, vs_scratch := sc\<rparr>, batch)
        | (Inr n, i, sc) \<Rightarrow>
            (let s1 = s\<lparr>vs_inner := i, vs_scratch := sc\<rparr>;
                 (s2, b2, delivered) = fold vs_record (take n (batch_records sc)) (s1, batch_reset batch, 0)
             in (Inr delivered, s2, b2)))"

text \<open>A caller's polls, with the clock readings of each: the results.\<close>

fun vs_polls ::
  "'f framer \<Rightarrow> (nat \<times> nat) list \<Rightarrow> 'f virtual_storage \<Rightarrow> record_batch
    \<Rightarrow> (nat result \<times> bytes list) list \<times> 'f virtual_storage"
where
  "vs_polls next_len [] s b = ([], s)"
| "vs_polls next_len ((now, now_eof) # ts) s b =
     (let (r, s1, b1) = vs_poll_batch next_len now now_eof s b;
          (rs, s2) = vs_polls next_len ts s1 b1
      in ((r, map fst (batch_records b1)) # rs, s2))"

section \<open>A full scratch batch\<close>

lemma vs_record_frame:
  "vs_inner (fst (vs_record r v)) = vs_inner (fst v)" "vs_scratch (fst (vs_record r v)) = vs_scratch (fst v)"
  "vs_initialized (fst (vs_record r v)) = vs_initialized (fst v)"
  by (simp_all add: vs_record_def vs_lose_def vs_count_def vs_emit_def Let_def split_beta
      split: prod.splits push_result.splits)

lemma vs_records_frame:
  "vs_inner (fst (fold vs_record rs v)) = vs_inner (fst v)" "vs_scratch (fst (fold vs_record rs v)) = vs_scratch (fst v)"
  "vs_initialized (fst (fold vs_record rs v)) = vs_initialized (fst v)"
  by (induction rs arbitrary: v) (simp_all add: vs_record_frame)

lemma poll_batch_full:
  assumes "fs_initialized s" "\<not> fs_exhausted s" "batch_len b = batch_capacity b"
  shows "\<exists>s'. poll_batch next_len now now_eof s b = (Inr 0, s', b) \<and> fs_initialized s' \<and> \<not> fs_exhausted s'
    \<and> fs_off s' = fs_off s \<and> fs_file s' = fs_file s"
proof -
  have "poll_loop next_len now_eof False x b = (Inr (), x, b)" for x
    using assms(3) by (simp add: poll_loop.simps [of next_len now_eof False x b] poll_step_def)
  then show ?thesis using assms by (cases "fs_follow_next s") (simp_all add: poll_batch_def)
qed

lemma vs_polls_full:
  assumes "vs_initialized s" "fs_initialized (vs_inner s)" "\<not> fs_exhausted (vs_inner s)"
    "batch_len (vs_scratch s) = batch_capacity (vs_scratch s)"
  shows "case vs_polls next_len ts s b of (rs, s') \<Rightarrow>
    rs = replicate (length ts) (Inr 0, []) \<and> \<not> vs_is_exhausted s' \<and> fs_off (vs_inner s') = fs_off (vs_inner s)"
  using assms
proof (induction ts arbitrary: s b)
  case Nil
  then show ?case by (simp add: vs_is_exhausted_def)
next
  case (Cons t ts)
  obtain now now_eof where t: "t = (now, now_eof)" by (rule prod.exhaust)
  obtain i where p: "poll_batch next_len now now_eof (vs_inner s) (vs_scratch s) = (Inr 0, i, vs_scratch s)"
    "fs_initialized i" "\<not> fs_exhausted i" "fs_off i = fs_off (vs_inner s)"
    using poll_batch_full [OF Cons.prems(2-4)] by blast
  let ?s = "s\<lparr>vs_inner := i\<rparr>"
  have "vs_poll_batch next_len now now_eof s b = (Inr 0, ?s, batch_reset b)"
    using p(1) Cons.prems(1) by (simp add: vs_poll_batch_def)
  then show ?case
    using Cons.IH [of ?s "batch_reset b"] Cons.prems p(2-4) by (simp add: t split_beta)
qed

section \<open>Lifecycle\<close>

definition storage_stage ::
  "'f framer \<Rightarrow> (string \<Rightarrow> (io_kind \<times> string) + os_file, nat \<times> nat \<times> record_batch, 'f virtual_storage) stage_ops"
where
  "storage_stage next_len =
     \<lparr>so_init = (\<lambda>open_file s. Some (vs_init open_file s)),
      so_use = (\<lambda>(now, now_eof, b) s.
        let (r, s1, _) = vs_poll_batch next_len now now_eof s b in Some (answer r, s1)),
      so_shutdown = vs_shutdown\<rparr>"

text \<open>The inner source is initialised when the outer one is; a failed \<open>init\<close> of the inner one keeps that.\<close>

definition storage_open :: "'f virtual_storage \<Rightarrow> bool" where
  "storage_open s \<longleftrightarrow> file_open (vs_inner s) \<and> (vs_initialized s \<longrightarrow> fs_initialized (vs_inner s))"

lemma vs_poll_stage:
  assumes "quiet_framer next_len" "vs_poll_batch next_len now now_eof s b = (r, s', b')" "storage_open s"
  shows "storage_open s' \<and> vs_initialized s' = vs_initialized s
    \<and> (vs_initialized s \<longrightarrow> \<not> is_refused (answer r))"
proof (cases "vs_initialized s")
  case False
  then show ?thesis using assms(2,3) by (auto simp: vs_poll_batch_def)
next
  case True
  obtain x i sc where p: "poll_batch next_len now now_eof (vs_inner s) (vs_scratch s) = (x, i, sc)" by (rule prod_cases3)
  have i: "file_open i" "fs_initialized i" "\<not> is_refused (answer x)"
    using poll_batch_stage [OF assms(1) p] assms(3) True by (simp_all add: storage_open_def)
  show ?thesis
  proof (cases x)
    case (Inl e)
    then show ?thesis using assms(2) True p i by (auto simp: vs_poll_batch_def storage_open_def)
  next
    case (Inr n)
    let ?v = "(s\<lparr>vs_inner := i, vs_scratch := sc\<rparr>, batch_reset b, 0)"
    show ?thesis
      using assms(2) True p i Inr vs_records_frame [of "take n (batch_records sc)" ?v]
      by (auto simp: vs_poll_batch_def storage_open_def split_beta Let_def)
  qed
qed

lemma storage_owned:
  assumes "quiet_framer next_len"
  shows "owned_stage (storage_stage next_len) vs_initialized storage_open"
proof unfold_locales
  fix s s' :: "'a virtual_storage" and r :: "unit result" and open_file a
  show "storage_open s' \<and> vs_initialized s' = (vs_initialized s \<or> r = Inr ())"
    if "storage_open s" "so_init (storage_stage next_len) open_file s = Some (r, s')"
    using that
    by (auto simp: storage_stage_def vs_init_def file_source_init_def storage_open_def file_open_def
        split: sum.splits prod.splits)
  obtain now now_eof :: nat and b :: record_batch where a: "a = (now, now_eof, b)" by (rule prod_cases3)
  obtain x s1 b1 where p: "vs_poll_batch next_len now now_eof s b = (x, s1, b1)" by (rule prod_cases3)
  show "storage_open s' \<and> vs_initialized s' = vs_initialized s"
    if "storage_open s" "so_use (storage_stage next_len) a s = Some (r, s')"
    using that p vs_poll_stage [OF assms p] by (simp add: storage_stage_def a)
  show "\<exists>e. so_use (storage_stage next_len) a s = Some (Inl e, s) \<and> err_kind e = Lifecycle"
    if "\<not> vs_initialized s"
    using that by (simp add: storage_stage_def a vs_poll_batch_def)
  show "\<not> is_refused r"
    if "storage_open s" "vs_initialized s" "so_use (storage_stage next_len) a s = Some (r, s')"
    using that p vs_poll_stage [OF assms p] by (auto simp: storage_stage_def a)
qed (simp_all add: storage_stage_def vs_shutdown_def file_source_shutdown_def storage_open_def file_open_def)

interpretation storage_delim_lc: owned_stage "storage_stage next_record_len_delim" vs_initialized storage_open
  by (rule storage_owned [OF quiet_builtin(3)])

section \<open>Properties\<close>

text \<open>
  (C25) A virtual storage source over a readable file that holds more records than one batch, in a run
  without faults of the file: the first poll takes one batch of records from the file, and every
  later poll reports 0 records and delivers none, while the source never says it is exhausted and
  the rest of the file stays unread. The private batch stays full because nothing resets it.
\<close>

theorem virtual_storage_stalls:
  assumes "frame_contract next_len ok" "ok (fs_framer i)" "vs_inner s = i" "vs_initialized s" "fs_initialized i"
    "readable next_len (rb_max_record_size (vs_scratch s)) i" "fc_eof_policy (fs_config i) = Stop" "fs_follow_next i = None"
    "batch_inv (vs_scratch s)" "batch_len (vs_scratch s) = 0"
    "batch_capacity (vs_scratch s) < length (split_frames next_len (fs_framer i) (drop (fs_off i) (source_data i)))"
  shows "\<exists>n s1 b1. vs_poll_batch next_len now now_eof s b = (Inr n, s1, b1)
    \<and> (\<forall>ts. case vs_polls next_len ts s1 b1 of (rs, s2) \<Rightarrow>
         rs = replicate (length ts) (Inr 0, []) \<and> \<not> vs_is_exhausted s2
         \<and> fs_off (vs_inner s2) = fs_off (vs_inner s1))"
proof -
  have "case fs_follow_next i of None \<Rightarrow> True | Some due \<Rightarrow> due \<le> now \<and> fc_eof_policy (fs_config i) \<noteq> Stop"
    using assms(8) by simp
  from frame_contract.poll_batch_result [OF assms(1,2,6,9,5) this, of now_eof] obtain ms i' sc where
    p: "poll_batch next_len now now_eof i (vs_scratch s) = (Inr (length ms), i', sc)"
    and e: "emits i (vs_scratch s) ms i' sc"
    and f: "frames_ahead next_len (Suc (fs_loops i)) [] i = map fst ms @ frames_ahead next_len (Suc (fs_loops i)) [] i'"
    and d: "batch_len sc < batch_capacity (vs_scratch s) \<longrightarrow> frames_ahead next_len (Suc (fs_loops i)) [] i' = []"
    by blast
  have nex: "\<not> fs_exhausted i" using assms(6) by (simp add: readable_def)
  have len: "batch_len sc = length ms" using emits_len [OF e] assms(10) by simp
  have cap: "batch_capacity sc = batch_capacity (vs_scratch s)" "batch_inv sc" "fs_initialized i'"
    "fc_eof_policy (fs_config i') = Stop"
    using e assms(5,7) by (simp_all add: emits_def)
  have all: "frames_ahead next_len (Suc (fs_loops i)) [] i = split_frames next_len (fs_framer i) (drop (fs_off i) (source_data i))"
    using nex assms(7) by (simp add: frames_ahead_def)
  have "batch_len sc \<le> batch_capacity sc" using cap(2) by (simp add: batch_inv_def batch_len_def batch_capacity_def)
  then have rest: "frames_ahead next_len (Suc (fs_loops i)) [] i' \<noteq> []"
    using assms(11) f len cap(1) all by (metis append_Nil2 length_map not_less)
  then have full: "batch_len sc = batch_capacity sc" using d \<open>batch_len sc \<le> batch_capacity sc\<close> cap(1) by fastforce
  have nex': "\<not> fs_exhausted i'" using rest cap(4) by (auto simp: frames_ahead_def)
  obtain s1 b1 n where fd: "fold vs_record (take (length ms) (batch_records sc))
      (s\<lparr>vs_inner := i', vs_scratch := sc\<rparr>, batch_reset b, 0) = (s1, b1, n)" by (rule prod_cases3)
  have s1: "vs_inner s1 = i'" "vs_scratch s1 = sc" "vs_initialized s1"
    using vs_records_frame [of "take (length ms) (batch_records sc)" "(s\<lparr>vs_inner := i', vs_scratch := sc\<rparr>, batch_reset b, 0)"]
      fd assms(4) by simp_all
  have "vs_poll_batch next_len now now_eof s b = (Inr n, s1, b1)"
    using p fd assms(3,4) by (simp add: vs_poll_batch_def)
  moreover have "case vs_polls next_len ts s1 b1 of (rs, s2) \<Rightarrow>
         rs = replicate (length ts) (Inr 0, []) \<and> \<not> vs_is_exhausted s2 \<and> fs_off (vs_inner s2) = fs_off (vs_inner s1)" for ts
    using vs_polls_full [where s = s1 and next_len = next_len and ts = ts and b = b1] s1 cap(3) nex' full by simp
  ultimately show ?thesis by blast
qed

definition example_vs :: "delimiter virtual_storage" where
  "example_vs = snd (vs_init (\<lambda>_. Inr example_file)
     (virtual_storage_new (virtual_storage_config_default\<lparr>vc_file := example_config\<lparr>fc_batch_size := 1\<rparr>\<rparr>) example_framer))"

lemma example_vs_facts:
  "batch_inv (vs_scratch example_vs)" "batch_len (vs_scratch example_vs) = 0" "batch_capacity (vs_scratch example_vs) = 1"
  "rb_max_record_size (vs_scratch example_vs) = 8" "vs_initialized example_vs"
  "vs_inner example_vs = example_source\<lparr>fs_config := example_config\<lparr>fc_batch_size := 1\<rparr>\<rparr>"
proof -
  obtain b where b: "record_batch_new 1 8 = Some b" "batch_inv b" "batch_len b = 0" "batch_capacity b = 1"
    "rb_max_record_size b = 8"
    using batch_inv_new [of 1 8] by (auto simp: record_batch_new_def batch_len_def batch_capacity_def)
  then have "vs_scratch example_vs = b"
    by (simp add: example_vs_def vs_init_def file_source_init_def virtual_storage_new_def
        virtual_storage_config_default_def example_config_def)
  then show "batch_inv (vs_scratch example_vs)" "batch_len (vs_scratch example_vs) = 0"
    "batch_capacity (vs_scratch example_vs) = 1" "rb_max_record_size (vs_scratch example_vs) = 8"
    using b by simp_all
  show "vs_initialized example_vs"
    "vs_inner example_vs = example_source\<lparr>fs_config := example_config\<lparr>fc_batch_size := 1\<rparr>\<rparr>"
    by (simp_all add: example_vs_def vs_init_def file_source_init_def virtual_storage_new_def file_source_new_def
        virtual_storage_config_default_def example_source_def)
qed

text \<open>Two records in the file, batches of one.\<close>

lemma virtual_storage_stalls_witness:
  "\<exists>n s1 b1. vs_poll_batch next_record_len_delim 0 0 example_vs file_example_batch = (Inr n, s1, b1)
     \<and> (\<exists>s2. vs_polls next_record_len_delim [(1, 1), (2, 2), (3, 3)] s1 b1
           = ([(Inr 0, []), (Inr 0, []), (Inr 0, [])], s2) \<and> \<not> vs_is_exhausted s2)"
proof -
  let ?i = "example_source\<lparr>fs_config := example_config\<lparr>fc_batch_size := 1\<rparr>\<rparr>"
  have pol: "fc_eof_policy example_config = Stop" by (simp add: example_config_def file_config_default_def)
  have i: "readable next_record_len_delim 8 ?i" "fs_initialized ?i" "fs_framer ?i = example_framer"
    "fs_follow_next ?i = None" "fc_eof_policy (fs_config ?i) = Stop"
    using example_source_ready pol
    by (simp_all add: readable_def source_inv_def no_faults_def source_data_def source_pos_def file_example_batch_facts)
  have "split_frames next_record_len_delim (fs_framer ?i) (drop (fs_off ?i) (source_data ?i)) = [[97, 10], [98, 99, 10]]"
    by (simp add: example_source_def file_source_init_def file_source_new_def source_data_def example_file_def example_frames)
  moreover have "0 < max_len (fs_framer ?i)" using i(3) by (simp add: example_framer_def)
  ultimately obtain n s1 b1 where p: "vs_poll_batch next_record_len_delim 0 0 example_vs file_example_batch = (Inr n, s1, b1)"
    and r: "\<forall>ts. case vs_polls next_record_len_delim ts s1 b1 of (rs, s2) \<Rightarrow>
         rs = replicate (length ts) (Inr 0, []) \<and> \<not> vs_is_exhausted s2
         \<and> fs_off (vs_inner s2) = fs_off (vs_inner s1)"
    using virtual_storage_stalls [OF delim.frame_contract_axioms _ example_vs_facts(6,5) i(2) _ i(5,4)
        example_vs_facts(1,2), of 0 0 file_example_batch] i(1) example_vs_facts(3,4) by auto
  define ts :: "(nat \<times> nat) list" where "ts = [(1, 1), (2, 2), (3, 3)]"
  obtain rs s2 where v: "vs_polls next_record_len_delim ts s1 b1 = (rs, s2)" by (rule prod.exhaust)
  then have "rs = replicate (length ts) (Inr 0, []) \<and> \<not> vs_is_exhausted s2" using spec [OF r, of ts] by simp
  moreover have "replicate (length ts) (Inr 0, []) = [(Inr 0, []), (Inr 0, []), (Inr 0, [] :: bytes list)]"
    by (simp add: ts_def)
  ultimately show ?thesis using p v unfolding ts_def by metis
qed

end
