(* ===== verification/Sim_Traffic.thy ===== *)
theory Sim_Traffic
  imports Sim_Fault
begin

text \<open>
  Traffic pacing and payload content: \<open>simulator/src/traffic.rs\<close> and \<open>generator.rs\<close>. The
  standard library leaves the precision of \<open>ln\<close>, \<open>sqrt\<close>, \<open>sin\<close> and \<open>cos\<close> open, so the
  Gaussian samplers take them as an argument. Durations are nanoseconds.
\<close>

record libm =
  lm_ln :: "f64 \<Rightarrow> f64"
  lm_sqrt :: "f64 \<Rightarrow> f64"
  lm_sin :: "f64 \<Rightarrow> f64"
  lm_cos :: "f64 \<Rightarrow> f64"

text \<open>\<open>std::f64::consts::PI\<close>.\<close>

definition f64_pi :: f64 where "f64_pi = Fin (884279719003555 / 2 ^ 48)"

section \<open>Payload content\<close>

datatype protocol_message = MarketQuote bytes | FixQuote string

datatype payload_spec =
    FixedSeq
  | RandomFill u64
  | GaussianSize (gs_mean: f64) (gs_std_dev: f64) (gs_seed: u64) (gs_max: nat)
  | Protocol protocol_message
  | CustomFill "u64 \<Rightarrow> bytes \<Rightarrow> bytes"

text \<open>Equality of specifications: a callback equals nothing, floats compare as floats.\<close>

fun payload_spec_eq :: "payload_spec \<Rightarrow> payload_spec \<Rightarrow> bool" where
  "payload_spec_eq FixedSeq FixedSeq = True"
| "payload_spec_eq (RandomFill a) (RandomFill b) = (a = b)"
| "payload_spec_eq (GaussianSize m1 s1 e1 x1) (GaussianSize m2 s2 e2 x2) =
     (f64_eq m1 m2 \<and> f64_eq s1 s2 \<and> e1 = e2 \<and> x1 = x2)"
| "payload_spec_eq (Protocol a) (Protocol b) = (a = b)"
| "payload_spec_eq _ _ = False"

definition string_bytes :: "string \<Rightarrow> bytes" where
  "string_bytes s = map (\<lambda>c. of_nat (of_char c)) s"

definition market_quote :: "string \<Rightarrow> protocol_message" where
  "market_quote symbol =
     (let bs = string_bytes symbol; n = min (length bs) 8
      in MarketQuote (write_at 0 (take n bs) (replicate 8 0x20)))"

definition fix_quote :: "string \<Rightarrow> protocol_message" where
  "fix_quote symbol = FixQuote symbol"

fun nominal_size :: "protocol_message \<Rightarrow> nat" where
  "nominal_size (MarketQuote _) = 34"
| "nominal_size (FixQuote symbol) = 2 + 32 + length symbol"

record payload_gen =
  pg_spec :: payload_spec
  pg_rng :: u64
  pg_spare :: "f64 option"

definition payload_gen_new :: "payload_spec \<Rightarrow> payload_gen" where
  "payload_gen_new spec =
     \<lparr>pg_spec = spec,
      pg_rng = (case spec of RandomFill seed \<Rightarrow> seed | GaussianSize _ _ seed _ \<Rightarrow> seed | _ \<Rightarrow> 0),
      pg_spare = None\<rparr>"

definition max_payload_len :: "nat \<Rightarrow> payload_gen \<Rightarrow> nat" where
  "max_payload_len configured g =
     (case pg_spec g of
        GaussianSize _ _ _ m \<Rightarrow> max m 1
      | Protocol p \<Rightarrow> max (max (nominal_size p) configured) 1
      | _ \<Rightarrow> max configured 1)"

definition fill_seq :: "bytes \<Rightarrow> u64 \<Rightarrow> bytes" where
  "fill_seq buf sequence =
     (if length buf \<ge> 8 then be_bytes 8 sequence @ replicate (length buf - 8) 0
      else drop (8 - length buf) (be_bytes 8 sequence))"

definition pg_next_u64 :: "payload_gen \<Rightarrow> u64 \<times> payload_gen" where
  "pg_next_u64 g = (let s = lcg_next (pg_rng g) in (s, g\<lparr>pg_rng := s\<rparr>))"

definition pg_next_unit :: "payload_gen \<Rightarrow> f64 \<times> payload_gen" where
  "pg_next_unit g =
     (let (n, g1) = pg_next_u64 g in (f64_div_pos (f64_of_nat (unat (drop_bit 11 n))) (2 ^ 53), g1))"

definition box_muller :: "libm \<Rightarrow> f64 \<Rightarrow> f64 \<Rightarrow> f64 \<times> f64" where
  "box_muller lm u1 u2 =
     (let r = lm_sqrt lm (f64_mul (Fin (- 2)) (lm_ln lm u1));
          theta = f64_mul (f64_mul (Fin 2) f64_pi) u2
      in (f64_mul r (lm_cos lm theta), f64_mul r (lm_sin lm theta)))"

definition clamp_unit :: "f64 \<Rightarrow> f64" where
  "clamp_unit u = f64_clamp u (Fin f64_epsilon) (Fin 1)"

definition pg_sample_gaussian :: "libm \<Rightarrow> f64 \<Rightarrow> f64 \<Rightarrow> payload_gen \<Rightarrow> f64 \<times> payload_gen" where
  "pg_sample_gaussian lm mean std_dev g =
     (case pg_spare g of
        Some spare \<Rightarrow> (f64_add mean (f64_mul std_dev spare), g\<lparr>pg_spare := None\<rparr>)
      | None \<Rightarrow>
          (let (v1, g1) = pg_next_unit g;
               (v2, g2) = pg_next_unit g1;
               (z0, z1) = box_muller lm (clamp_unit v1) (clamp_unit v2)
           in (f64_add mean (f64_mul std_dev z0), g2\<lparr>pg_spare := Some z1\<rparr>)))"

text \<open>Successive random bytes, the low byte of each draw.\<close>

fun pg_random_bytes :: "nat \<Rightarrow> payload_gen \<Rightarrow> bytes \<times> payload_gen" where
  "pg_random_bytes 0 g = ([], g)"
| "pg_random_bytes (Suc n) g =
     (let (x, g1) = pg_next_u64 g; (bs, g2) = pg_random_bytes n g1 in (ucast (x AND 0xFF) # bs, g2))"

definition market_quote_bytes :: "bytes \<Rightarrow> u64 \<Rightarrow> bytes" where
  "market_quote_bytes symbol sequence =
     (let bid = 100000 + sequence mod 1000; ask = bid + 1
      in [0x51, 0] @ symbol @ be_bytes 8 bid @ be_bytes 8 ask @ be_bytes 8 sequence)"

definition fix_quote_body :: "string \<Rightarrow> u64 \<Rightarrow> bytes" where
  "fix_quote_body symbol sequence =
     string_bytes (''35=Q|55='' @ symbol @ ''|44='' @ nat_dec (unat (100 + sequence mod 50))
       @ ''|34='' @ nat_dec (unat sequence) @ ''|'')"

text \<open>
  \<open>fill\<close>: the live length, the buffer and the generator afterwards. A callback is a function on
  the buffer that keeps its length (it gets a slice).
\<close>

definition payload_fill :: "libm \<Rightarrow> u64 \<Rightarrow> bytes \<Rightarrow> payload_gen \<Rightarrow> nat \<times> bytes \<times> payload_gen" where
  "payload_fill lm sequence buf g =
     (if buf = [] then (0, buf, g)
      else case pg_spec g of
          FixedSeq \<Rightarrow> (length buf, fill_seq buf sequence, g)
        | RandomFill _ \<Rightarrow> (let (bs, g1) = pg_random_bytes (length buf) g in (length buf, bs, g1))
        | GaussianSize mean std_dev _ m \<Rightarrow>
            (let mx = max (min m (length buf)) 1;
                 (smp, g1) = pg_sample_gaussian lm mean std_dev g;
                 len = f64_to_u64 (f64_clamp (f64_round smp) (Fin 1) (f64_of_nat mx));
                 b1 = write_at 0 (fill_seq (take len buf) sequence) buf in
             if len > 8
             then (let (bs, g2) = pg_random_bytes (len - 8) g1 in (len, write_at 8 bs b1, g2))
             else (len, b1, g1))
        | Protocol (MarketQuote symbol) \<Rightarrow>
            (if length buf < 34 then (length buf, (replicate (length buf) 0)[0 := 0x51], g)
             else (34, write_at 0 (market_quote_bytes symbol sequence) buf, g))
        | Protocol (FixQuote symbol) \<Rightarrow>
            (let body = fix_quote_body symbol sequence; total = 2 + length body in
             if length buf < total then (length buf, replicate (length buf) 0, g)
             else (total, write_at 0 (be_bytes 2 (of_nat (length body) :: u16) @ body) buf, g))
        | CustomFill cb \<Rightarrow> (length buf, cb sequence buf, g))"

definition NET_HEADER_LEN :: nat where "NET_HEADER_LEN = 42"

text \<open>The writes of \<open>build_udp_frame\<close> before the payload, in the order of the code.\<close>

definition udp_frame_writes :: "nat \<Rightarrow> u16 \<Rightarrow> (nat \<times> bytes) list" where
  "udp_frame_writes plen port =
     (let fsize = NET_HEADER_LEN + plen in
       [(0, [0xFF, 0xFF, 0xFF, 0xFF, 0xFF, 0xFF]),
        (6, [0x02, 0x00, 0x00, 0x00, 0x00, 0x01]),
        (12, be_bytes 2 (0x0800 :: u16)),
        (14, [0x45]),
        (15, [0x00]),
        (16, be_bytes 2 (of_nat (fsize - 14) :: u16)),
        (22, [64]),
        (23, [17]),
        (26, [192, 168, 1, 1]),
        (30, [192, 168, 1, 2]),
        (34, be_bytes 2 (12345 :: u16)),
        (36, be_bytes 2 port),
        (38, be_bytes 2 (of_nat (8 + plen) :: u16))])"

definition build_udp_frame :: "bytes \<Rightarrow> u16 \<Rightarrow> bytes" where
  "build_udp_frame payload port =
     write_at NET_HEADER_LEN payload
       (fold (\<lambda>(off, bs). write_at off bs) (udp_frame_writes (length payload) port)
          (replicate (NET_HEADER_LEN + length payload) 0))"

section \<open>Pacing\<close>

datatype traffic_pattern =
    TpFixedRate (tp_pps: u64)
  | TpBurst (tp_burst_size: nat) (tp_gap: nat)
  | TpGaussian (tp_mean_pps: f64) (tp_std_pps: f64) (tp_seed: u64)
  | TpFullSpeed

record traffic_config =
  tc_pattern :: traffic_pattern
  tc_payload_size :: nat
  tc_batch_size :: nat
  tc_payload :: payload_spec

definition traffic_pattern_default :: traffic_pattern where
  "traffic_pattern_default = TpFixedRate 1000"

definition traffic_config_default :: traffic_config where
  "traffic_config_default =
     \<lparr>tc_pattern = traffic_pattern_default, tc_payload_size = 8, tc_batch_size = 64, tc_payload = FixedSeq\<rparr>"

definition market_data :: traffic_config where
  "market_data = \<lparr>tc_pattern = TpFixedRate 1000000, tc_payload_size = 22, tc_batch_size = 64, tc_payload = FixedSeq\<rparr>"

definition market_open_burst :: traffic_config where
  "market_open_burst =
     \<lparr>tc_pattern = TpBurst 10000 1000000, tc_payload_size = 32, tc_batch_size = 256, tc_payload = FixedSeq\<rparr>"

definition saturation :: traffic_config where
  "saturation = \<lparr>tc_pattern = TpFullSpeed, tc_payload_size = 1458, tc_batch_size = 256, tc_payload = FixedSeq\<rparr>"

definition gaussian_rate :: traffic_config where
  "gaussian_rate =
     \<lparr>tc_pattern = TpGaussian (Fin 50000) (Fin 10000) 42, tc_payload_size = 32, tc_batch_size = 128, tc_payload = FixedSeq\<rparr>"

definition protocol_quotes :: traffic_config where
  "protocol_quotes =
     \<lparr>tc_pattern = TpFixedRate 10000, tc_payload_size = 34, tc_batch_size = 64,
      tc_payload = Protocol (market_quote ''AAPL'')\<rparr>"

text \<open>The stateless estimate, \<open>TrafficConfig::packets_for_tick\<close>.\<close>

definition estimate_for_tick :: "u64 \<Rightarrow> traffic_config \<Rightarrow> nat" where
  "estimate_for_tick tick_ns c =
     (case tc_pattern c of
        TpFullSpeed \<Rightarrow> tc_batch_size c
      | TpFixedRate pps \<Rightarrow>
          if pps = 0 then 0
          else (let ns_per_packet = 1000000000 div pps in
                if ns_per_packet = 0 then tc_batch_size c
                else min (unat (tick_ns div ns_per_packet)) (tc_batch_size c))
      | TpBurst burst_size _ \<Rightarrow> min burst_size (tc_batch_size c)
      | TpGaussian mean_pps _ _ \<Rightarrow>
          (let expected = f64_div_pos (f64_mul mean_pps (f64_of_nat (unat tick_ns))) 1000000000
           in min (f64_to_u64 (f64_max (f64_round expected) (Fin 0))) (tc_batch_size c)))"

record traffic_pacer =
  tr_config :: traffic_config
  tr_burst_remaining :: nat
  tr_gap_remaining_ns :: u64
  tr_fixed_carry_ns :: u64
  tr_gaussian_rng :: u64
  tr_gaussian_spare :: "f64 option"

definition traffic_pacer_new :: "traffic_config \<Rightarrow> traffic_pacer" where
  "traffic_pacer_new c =
     \<lparr>tr_config = c,
      tr_burst_remaining = (case tc_pattern c of TpBurst n _ \<Rightarrow> n | _ \<Rightarrow> 0),
      tr_gap_remaining_ns = 0, tr_fixed_carry_ns = 0,
      tr_gaussian_rng = (case tc_pattern c of TpGaussian _ _ seed \<Rightarrow> seed | _ \<Rightarrow> 0),
      tr_gaussian_spare = None\<rparr>"

definition tr_next_u64 :: "traffic_pacer \<Rightarrow> u64 \<times> traffic_pacer" where
  "tr_next_u64 p = (let s = lcg_next (tr_gaussian_rng p) in (s, p\<lparr>tr_gaussian_rng := s\<rparr>))"

definition tr_next_unit :: "traffic_pacer \<Rightarrow> f64 \<times> traffic_pacer" where
  "tr_next_unit p =
     (let (n, p1) = tr_next_u64 p in (f64_div_pos (f64_of_nat (unat (drop_bit 11 n))) (2 ^ 53), p1))"

definition tr_sample_gaussian :: "libm \<Rightarrow> f64 \<Rightarrow> f64 \<Rightarrow> traffic_pacer \<Rightarrow> f64 \<times> traffic_pacer" where
  "tr_sample_gaussian lm mean std_dev p =
     (case tr_gaussian_spare p of
        Some spare \<Rightarrow> (f64_add mean (f64_mul std_dev spare), p\<lparr>tr_gaussian_spare := None\<rparr>)
      | None \<Rightarrow>
          (let (v1, p1) = tr_next_unit p;
               (v2, p2) = tr_next_unit p1;
               (z0, z1) = box_muller lm (clamp_unit v1) (clamp_unit v2)
           in (f64_add mean (f64_mul std_dev z0), p2\<lparr>tr_gaussian_spare := Some z1\<rparr>)))"

definition packets_for_tick :: "libm \<Rightarrow> u64 \<Rightarrow> traffic_pacer \<Rightarrow> nat \<times> traffic_pacer" where
  "packets_for_tick lm tick_ns p =
     (let batch_size = tc_batch_size (tr_config p) in
      case tc_pattern (tr_config p) of
        TpFullSpeed \<Rightarrow> (batch_size, p)
      | TpFixedRate pps \<Rightarrow>
          if pps = 0 then (0, p)
          else
            (let budget = saturating_add (tr_fixed_carry_ns p) tick_ns;
                 ns_per_packet = 1000000000 div pps in
             if ns_per_packet = 0 then (batch_size, p\<lparr>tr_fixed_carry_ns := 0\<rparr>)
             else (min (unat (budget div ns_per_packet)) batch_size,
                   p\<lparr>tr_fixed_carry_ns := budget mod ns_per_packet\<rparr>))
      | TpBurst burst_size gap \<Rightarrow>
          if tr_gap_remaining_ns p > 0
          then (0, p\<lparr>tr_gap_remaining_ns := saturating_sub (tr_gap_remaining_ns p) tick_ns\<rparr>)
          else
            (let owed = (if tr_burst_remaining p = 0 then burst_size else tr_burst_remaining p);
                 n = min owed batch_size;
                 left = owed - n;
                 p1 = p\<lparr>tr_burst_remaining := left\<rparr>
             in (n, if left = 0 then p1\<lparr>tr_gap_remaining_ns := of_nat gap\<rparr> else p1))
      | TpGaussian mean_pps std_pps _ \<Rightarrow>
          (let tick_s = f64_div_pos (f64_of_nat (unat tick_ns)) 1000000000;
               mean = f64_mul mean_pps tick_s;
               std = f64_mul std_pps tick_s;
               (smp, p1) = tr_sample_gaussian lm mean std p
           in (min (f64_to_u64 (f64_max (f64_round smp) (Fin 0))) batch_size, p1)))"

text \<open>The pacer over a run of ticks: the counts it gives.\<close>

fun pacer_run :: "libm \<Rightarrow> u64 list \<Rightarrow> traffic_pacer \<Rightarrow> nat list \<times> traffic_pacer" where
  "pacer_run lm [] p = ([], p)"
| "pacer_run lm (t # ts) p =
     (let (n, p1) = packets_for_tick lm t p; (ns, p2) = pacer_run lm ts p1 in (n # ns, p2))"

section \<open>Sizes of payloads and frames\<close>

lemma length_fill_seq [simp]: "length (fill_seq buf sequence) = length buf"
  by (simp add: fill_seq_def)

lemma pg_random_bytes_length: "length (fst (pg_random_bytes n g)) = n"
  by (induction n arbitrary: g) (simp_all add: split_beta Let_def)

lemma f64_to_u64_clamp:
  assumes "mx < 2 ^ 53"
  shows "f64_to_u64 (f64_clamp x (Fin 1) (f64_of_nat mx)) \<le> max mx 1"
proof -
  have m: "f64_of_nat mx = Fin (of_nat mx)" unfolding f64_of_nat_def by (rule round64_nat [OF assms])
  show ?thesis
  proof (cases x)
    case (Fin a)
    show ?thesis
    proof (cases "a < 1 \<or> of_nat mx < a")
      case True
      then show ?thesis by (auto simp: f64_clamp_def m Fin)
    next
      case False
      then have "\<lfloor>a\<rfloor> \<le> int mx" by (simp add: floor_le_iff)
      then show ?thesis using False by (auto simp: f64_clamp_def m Fin)
    qed
  qed (auto simp: f64_clamp_def m)
qed

text \<open>What a specification must supply: an eight-byte symbol, a callback that keeps the slice.\<close>

fun payload_spec_ok :: "payload_spec \<Rightarrow> bool" where
  "payload_spec_ok (Protocol (MarketQuote symbol)) = (length symbol = 8)"
| "payload_spec_ok (CustomFill cb) = (\<forall>sequence buf. length (cb sequence buf) = length buf)"
| "payload_spec_ok _ = True"

lemma payload_fill_bounds:
  assumes ok: "payload_spec_ok (pg_spec g)" and small: "length buf < 2 ^ 53"
    and fill: "payload_fill lm sequence buf g = (n, buf', g')"
  shows "n \<le> length buf \<and> length buf' = length buf"
proof (cases "buf = []")
  case True
  then show ?thesis using fill by (simp add: payload_fill_def)
next
  case False
  then have ne: "0 < length buf" by simp
  show ?thesis
  proof (cases "pg_spec g")
    case (GaussianSize mean std_dev sd m)
    obtain smp g1 where s: "pg_sample_gaussian lm mean std_dev g = (smp, g1)" by (rule prod.exhaust)
    let ?mx = "max (min m (length buf)) 1"
    define len where "len = f64_to_u64 (f64_clamp (f64_round smp) (Fin 1) (f64_of_nat ?mx))"
    have "?mx < 2 ^ 53" using small by simp
    then have "len \<le> max ?mx 1" unfolding len_def by (rule f64_to_u64_clamp)
    then have len: "len \<le> length buf" using ne by linarith
    then have b1: "length (write_at 0 (fill_seq (take len buf) sequence) buf) = length buf" by simp
    show ?thesis
    proof (cases "len > 8")
      case True
      obtain bs g2 where r: "pg_random_bytes (len - 8) g1 = (bs, g2)" by (rule prod.exhaust)
      then have "length bs = len - 8" using pg_random_bytes_length [of "len - 8" g1] by simp
      then show ?thesis
        using fill False GaussianSize s r len b1 True
        by (auto simp add: payload_fill_def Let_def len_def [symmetric] simp del: One_nat_def)
    next
      case short: False
      then show ?thesis
        using fill False GaussianSize s len b1
        by (auto simp add: payload_fill_def Let_def len_def [symmetric] simp del: One_nat_def)
    qed
  next
    case (Protocol p)
    then show ?thesis using fill False ok
      by (cases p) (auto simp: payload_fill_def Let_def market_quote_bytes_def split: if_splits)
  next
    case (RandomFill sd)
    obtain bs g1 where r: "pg_random_bytes (length buf) g = (bs, g1)" by (rule prod.exhaust)
    then have "length bs = length buf" using pg_random_bytes_length [of "length buf" g] by simp
    then show ?thesis using fill False RandomFill r by (simp add: payload_fill_def)
  qed (use fill False ok in \<open>auto simp: payload_fill_def\<close>)
qed

lemma build_udp_frame_shape:
  "length (build_udp_frame payload port) = NET_HEADER_LEN + length payload"
  "drop NET_HEADER_LEN (build_udp_frame payload port) = payload"
proof -
  let ?b = "replicate (NET_HEADER_LEN + length payload) (0 :: u8)"
  have l: "length (fold (\<lambda>(off, bs). write_at off bs) (udp_frame_writes (length payload) port) ?b)
      = NET_HEADER_LEN + length payload"
    by (subst length_fold_writes) (simp_all add: udp_frame_writes_def NET_HEADER_LEN_def Let_def)
  show "length (build_udp_frame payload port) = NET_HEADER_LEN + length payload"
    unfolding build_udp_frame_def by (subst length_write_at) (simp_all add: l)
  have "drop NET_HEADER_LEN (write_at NET_HEADER_LEN payload x) = payload"
    if "length x = NET_HEADER_LEN + length payload" for x
    using that by (simp add: write_at_def)
  then show "drop NET_HEADER_LEN (build_udp_frame payload port) = payload"
    unfolding build_udp_frame_def using l by blast
qed

section \<open>Rates\<close>

lemma fixed_rate_tick:
  assumes pat: "tc_pattern (tr_config p) = TpFixedRate pps" and npp: "npp = 1000000000 div pps" "npp \<noteq> 0" "pps \<noteq> 0"
    and carry: "tr_fixed_carry_ns p < npp" and fits: "unat t + unat npp < 2 ^ 64"
    and room: "(unat t + unat npp) div unat npp \<le> tc_batch_size (tr_config p)"
  shows "fst (packets_for_tick lm t p) = (unat (tr_fixed_carry_ns p) + unat t) div unat npp"
    "unat (tr_fixed_carry_ns (snd (packets_for_tick lm t p))) = (unat (tr_fixed_carry_ns p) + unat t) mod unat npp"
    "tr_config (snd (packets_for_tick lm t p)) = tr_config p"
proof -
  have c: "unat (tr_fixed_carry_ns p) < unat npp" using carry by (simp add: word_less_nat_alt)
  then have le: "unat (tr_fixed_carry_ns p) + unat t < 2 ^ 64" using fits by linarith
  then have b: "unat (saturating_add (tr_fixed_carry_ns p) t) = unat (tr_fixed_carry_ns p) + unat t"
    by (simp add: unat_saturating_add)
  have "(unat (tr_fixed_carry_ns p) + unat t) div unat npp \<le> (unat t + unat npp) div unat npp"
    using c by (intro div_le_mono) linarith
  then have r: "(unat (tr_fixed_carry_ns p) + unat t) div unat npp \<le> tc_batch_size (tr_config p)" using room by linarith
  show "fst (packets_for_tick lm t p) = (unat (tr_fixed_carry_ns p) + unat t) div unat npp"
    "unat (tr_fixed_carry_ns (snd (packets_for_tick lm t p))) = (unat (tr_fixed_carry_ns p) + unat t) mod unat npp"
    "tr_config (snd (packets_for_tick lm t p)) = tr_config p"
    using npp b r pat by (simp_all add: packets_for_tick_def Let_def unat_div unat_mod)
qed

lemma fixed_rate_run:
  assumes "tc_pattern (tr_config p) = TpFixedRate pps" "npp = 1000000000 div pps" "npp \<noteq> 0" "pps \<noteq> 0"
    "tr_fixed_carry_ns p < npp" "\<And>t. t \<in> set ts \<Longrightarrow> unat t + unat npp < 2 ^ 64"
    "\<And>t. t \<in> set ts \<Longrightarrow> (unat t + unat npp) div unat npp \<le> tc_batch_size (tr_config p)"
  shows "case pacer_run lm ts p of (ns, p') \<Rightarrow>
     sum_list ns = (unat (tr_fixed_carry_ns p) + sum_list (map unat ts)) div unat npp
     \<and> unat (tr_fixed_carry_ns p') = (unat (tr_fixed_carry_ns p) + sum_list (map unat ts)) mod unat npp"
  using assms
proof (induction ts arbitrary: p)
  case Nil
  then show ?case by (simp add: word_less_nat_alt)
next
  case (Cons t ts)
  let ?p = "snd (packets_for_tick lm t p)" and ?c = "unat (tr_fixed_carry_ns p)" and ?d = "unat npp"
  have tick: "fst (packets_for_tick lm t p) = (?c + unat t) div ?d"
    "unat (tr_fixed_carry_ns ?p) = (?c + unat t) mod ?d" "tr_config ?p = tr_config p"
    using fixed_rate_tick [OF Cons.prems(1-5), of t lm] Cons.prems(6,7) by auto
  have pos: "0 < ?d" using Cons.prems(3) by (simp add: unat_gt_0)
  have "tr_fixed_carry_ns ?p < npp" using tick(2) pos by (simp add: word_less_nat_alt)
  then have IH: "case pacer_run lm ts ?p of (ns, p') \<Rightarrow>
     sum_list ns = ((?c + unat t) mod ?d + sum_list (map unat ts)) div ?d
     \<and> unat (tr_fixed_carry_ns p') = ((?c + unat t) mod ?d + sum_list (map unat ts)) mod ?d"
    using Cons.IH [of ?p] Cons.prems tick by simp
  have "(?c + unat t) div ?d + ((?c + unat t) mod ?d + S) div ?d = (?c + unat t + S) div ?d" for S
  proof -
    have "?c + unat t + S = (?c + unat t) div ?d * ?d + ((?c + unat t) mod ?d + S)" by simp
    also have "\<dots> div ?d = (?c + unat t) div ?d + ((?c + unat t) mod ?d + S) div ?d"
      using pos by (subst div_mult_self3) simp_all
    finally show ?thesis by simp
  qed
  then show ?case using IH tick(1) by (auto simp: split_beta mod_simps add.assoc)
qed

text \<open>
  A fixed-rate pacer is exact: as long as no tick owes more than a batch and the nanosecond
  budget does not saturate, the packets of any run of ticks are the time that passed divided by the
  time per packet, rounded down, and the rest is carried.
\<close>

theorem fixed_rate_exact:
  assumes "tc_pattern c = TpFixedRate pps" "npp = 1000000000 div pps" "npp \<noteq> 0" "pps \<noteq> 0"
    "\<And>t. t \<in> set ts \<Longrightarrow> unat t + unat npp < 2 ^ 64"
    "\<And>t. t \<in> set ts \<Longrightarrow> (unat t + unat npp) div unat npp \<le> tc_batch_size c"
    "pacer_run lm ts (traffic_pacer_new c) = (ns, p)"
  shows "sum_list ns = sum_list (map unat ts) div unat npp
    \<and> unat (tr_fixed_carry_ns p) = sum_list (map unat ts) mod unat npp"
proof -
  have "tc_pattern (tr_config (traffic_pacer_new c)) = TpFixedRate pps" "tr_fixed_carry_ns (traffic_pacer_new c) < npp"
    "tr_config (traffic_pacer_new c) = c"
    using assms(1,3) by (simp_all add: traffic_pacer_new_def word_neq_0_conv)
  then show ?thesis
    using fixed_rate_run [of "traffic_pacer_new c" pps npp ts lm] assms by (auto simp: traffic_pacer_new_def)
qed

text \<open>1000 packets a second, five ticks of 2.5 ms: twelve packets, half a millisecond carried.\<close>

lemma fixed_rate_exact_witness:
  "\<forall>lm. \<exists>ns p. pacer_run lm ([2500000, 2500000, 2500000, 2500000, 2500000]) (traffic_pacer_new traffic_config_default) = (ns, p) \<and> sum_list ns = 12"
proof
  fix lm
  obtain ns p where r: "pacer_run lm ([2500000, 2500000, 2500000, 2500000, 2500000]) (traffic_pacer_new traffic_config_default) = (ns, p)"
    by (rule prod.exhaust)
  have "tc_pattern traffic_config_default = TpFixedRate 1000" "tc_batch_size traffic_config_default = 64"
    by (simp_all add: traffic_config_default_def traffic_pattern_default_def)
  then have "sum_list ns = sum_list (map unat [2500000, 2500000, 2500000, 2500000, 2500000 :: u64]) div unat (1000000 :: u64)"
    using fixed_rate_exact [OF _ _ _ _ _ _ r, of 1000 1000000] by auto
  with r show "\<exists>ns p. pacer_run lm ([2500000, 2500000, 2500000, 2500000, 2500000]) (traffic_pacer_new traffic_config_default) = (ns, p) \<and> sum_list ns = 12"
    by simp
qed

end
