(* ===== verification/Sim_Nic.thy ===== *)
theory Sim_Nic
  imports Sim_Traffic Net_Batch Stage_Lifecycle
begin

text \<open>
  The virtual network card, \<open>simulator/src/nic.rs\<close>: configuration, hot swaps, lifecycle and
  \<open>poll_batch\<close>. Its cumulative counts are numbers. The events it emits and the samples it
  records are kept in lists, in the order of the calls.
\<close>

record nic_config =
  nc_name :: string
  nc_traffic :: traffic_config
  nc_fault :: fault_spec
  nc_fault_seed :: u64
  nc_udp_dst_port :: u16

definition nic_config_default :: nic_config where
  "nic_config_default =
     \<lparr>nc_name = ''nic0'', nc_traffic = traffic_config_default, nc_fault = fault_spec_default,
      nc_fault_seed = 0, nc_udp_dst_port = 9000\<rparr>"

record virtual_nic =
  vn_config :: nic_config
  vn_pacer :: traffic_pacer
  vn_payloads :: payload_gen
  vn_fault :: fault_injector
  vn_events :: "sim_event list"
  vn_metrics :: "sim_sample list"
  vn_payload_buf :: bytes
  vn_generated :: nat
  vn_dropped :: nat
  vn_corrupted :: nat
  vn_spike_ns :: u64
  vn_tick_ns :: u64
  vn_clock_ns :: u64
  vn_initialized :: bool

text \<open>\<open>Vec::resize(n, 0)\<close>.\<close>

definition resize0 :: "nat \<Rightarrow> bytes \<Rightarrow> bytes" where
  "resize0 n bs = take n bs @ replicate (n - length bs) 0"

definition virtual_nic_new :: "nic_config \<Rightarrow> virtual_nic" where
  "virtual_nic_new c =
     (let payloads = payload_gen_new (tc_payload (nc_traffic c));
          max_payload = max_payload_len (tc_payload_size (nc_traffic c)) payloads in
      \<lparr>vn_config = c, vn_pacer = traffic_pacer_new (nc_traffic c), vn_payloads = payloads,
       vn_fault = fault_injector_new (nc_fault c) (nc_fault_seed c), vn_events = [], vn_metrics = [],
       vn_payload_buf = replicate max_payload 0, vn_generated = 0, vn_dropped = 0, vn_corrupted = 0,
       vn_spike_ns = 0, vn_tick_ns = 1000000, vn_clock_ns = 0, vn_initialized = False\<rparr>)"

definition vn_set_tick_context :: "u64 \<Rightarrow> u64 \<Rightarrow> virtual_nic \<Rightarrow> virtual_nic" where
  "vn_set_tick_context tick_ns clock_ns s = s\<lparr>vn_tick_ns := tick_ns, vn_clock_ns := clock_ns\<rparr>"

definition vn_take_spike_ns :: "virtual_nic \<Rightarrow> u64 \<times> virtual_nic" where
  "vn_take_spike_ns s = (vn_spike_ns s, s\<lparr>vn_spike_ns := 0\<rparr>)"

definition vn_set_traffic :: "traffic_config \<Rightarrow> virtual_nic \<Rightarrow> virtual_nic" where
  "vn_set_traffic traffic s =
     (let payloads = payload_gen_new (tc_payload traffic);
          max_payload = max_payload_len (tc_payload_size traffic) payloads
      in s\<lparr>vn_payloads := payloads, vn_payload_buf := resize0 (max max_payload 1) (vn_payload_buf s),
           vn_pacer := traffic_pacer_new traffic, vn_config := (vn_config s)\<lparr>nc_traffic := traffic\<rparr>\<rparr>)"

definition vn_set_fault :: "fault_spec \<Rightarrow> virtual_nic \<Rightarrow> virtual_nic" where
  "vn_set_fault fault s =
     s\<lparr>vn_config := (vn_config s)\<lparr>nc_fault := fault\<rparr>,
       vn_fault := fault_injector_new fault (nc_fault_seed (vn_config s))\<rparr>"

definition vn_emit :: "sim_event_kind \<Rightarrow> virtual_nic \<Rightarrow> virtual_nic" where
  "vn_emit kind s = s\<lparr>vn_events := emit_at (vn_clock_ns s) kind (vn_events s)\<rparr>"

definition vn_count :: "sim_metric_key \<Rightarrow> nat \<Rightarrow> virtual_nic \<Rightarrow> virtual_nic" where
  "vn_count key n s = s\<lparr>vn_metrics := vn_metrics s @ [SimCounter key n]\<rparr>"

definition vn_init :: "virtual_nic \<Rightarrow> unit result \<times> virtual_nic" where
  "vn_init s =
     (let c = nc_traffic (vn_config s);
          payloads = payload_gen_new (tc_payload c);
          max_payload = max_payload_len (tc_payload_size c) payloads;
          s1 = s\<lparr>vn_generated := 0, vn_dropped := 0, vn_corrupted := 0, vn_spike_ns := 0,
                 vn_pacer := traffic_pacer_new c, vn_payloads := payloads,
                 vn_payload_buf := resize0 max_payload (vn_payload_buf s), vn_initialized := True\<rparr>
      in (Inr (), vn_emit (EvSimulatorStarted (nc_name (vn_config s))) s1))"

definition vn_shutdown :: "virtual_nic \<Rightarrow> unit result \<times> virtual_nic" where
  "vn_shutdown s = (Inr (), s\<lparr>vn_initialized := False\<rparr>)"

section \<open>Polling\<close>

text \<open>The loop's variables: card, batch, \<open>delivered\<close> and \<open>bytes\<close>.\<close>

type_synonym nic_vars = "virtual_nic \<times> raw_batch \<times> nat \<times> nat"

text \<open>The bookkeeping of a packet that is lost; an overflowing batch emits one more event.\<close>

definition vn_lose :: "bool \<Rightarrow> virtual_nic \<Rightarrow> virtual_nic" where
  "vn_lose overflow s =
     (let name = nc_name (vn_config s); sequence = of_nat (vn_generated s);
          s1 = s\<lparr>vn_dropped := vn_dropped s + 1\<rparr>;
          s2 = (if overflow then vn_emit (EvQueueOverflow name) s1 else s1)
      in vn_count SmPacketsDropped 1 (vn_emit (EvPacketDropped name sequence) s2))"

text \<open>The frame of the current packet, with the corruption and spike decisions applied.\<close>

definition vn_frame :: "libm \<Rightarrow> virtual_nic \<Rightarrow> bytes \<times> virtual_nic" where
  "vn_frame lm s =
     (let sequence = of_nat (vn_generated s);
          (payload_len, buf, gen) = payload_fill lm sequence (vn_payload_buf s) (vn_payloads s);
          s1 = s\<lparr>vn_payload_buf := buf, vn_payloads := gen\<rparr>;
          frame = build_udp_frame (take payload_len buf) (nc_udp_dst_port (vn_config s1));
          (hit, f1) = should_corrupt (vn_fault s1);
          s2 = s1\<lparr>vn_fault := f1\<rparr>;
          (frame1, s3) =
            (if hit
             then (let (fr, f2) =
                     (if length frame > NET_HEADER_LEN
                      then (let (tl, f) = corrupt_payload (drop NET_HEADER_LEN frame) (vn_fault s2)
                            in (take NET_HEADER_LEN frame @ tl, f))
                      else corrupt_payload frame (vn_fault s2));
                       s21 = s2\<lparr>vn_fault := f2, vn_corrupted := vn_corrupted s2 + 1\<rparr>
                   in (fr, vn_count SmPacketsCorrupted 1
                        (vn_emit (EvPacketCorrupted (nc_name (vn_config s2)) sequence) s21)))
             else (frame, s2));
          (spike, f3) = should_spike (vn_fault s3);
          s4 = s3\<lparr>vn_fault := f3\<rparr>
      in (frame1, if spike > 0 then s4\<lparr>vn_spike_ns := saturating_add (vn_spike_ns s4) spike\<rparr> else s4))"

text \<open>Iteration \<open>i\<close> of the loop; \<open>True\<close> where it breaks.\<close>

definition nic_attempt :: "libm \<Rightarrow> nat \<Rightarrow> nic_vars \<Rightarrow> bool \<times> nic_vars" where
  "nic_attempt lm i v =
     (let (s, b, delivered, byte_total) = v in
      if delivered \<ge> net_capacity b then (True, v)
      else
        (let s1 = s\<lparr>vn_generated := vn_generated s + 1\<rparr>;
             (drop_hit, f1) = should_drop (vn_fault s1);
             s2 = s1\<lparr>vn_fault := f1\<rparr> in
         if drop_hit then (False, (vn_lose False s2, net_record_drop b, delivered, byte_total))
         else
           (let (frame, s3) = vn_frame lm s2;
                meta = \<lparr>pm_timestamp_ns = saturating_add (vn_clock_ns s3) (of_nat i), pm_queue_id = 0,
                        pm_original_len = of_nat (min (length frame) (2 ^ 32 - 1))\<rparr> in
            case net_push frame meta b of
              (PktFull, b1) \<Rightarrow> (True, (vn_lose True s3, net_record_drop b1, delivered, byte_total))
            | (_, b1) \<Rightarrow>
                (False, (vn_emit (EvPacketGenerated (nc_name (vn_config s3)) (length frame) (of_nat (vn_generated s3))) s3,
                         b1, delivered + 1, byte_total + length frame)))))"

text \<open>The loop with its remaining iterations.\<close>

fun nic_loop :: "libm \<Rightarrow> nat \<Rightarrow> nat \<Rightarrow> nic_vars \<Rightarrow> nic_vars" where
  "nic_loop lm 0 i v = v"
| "nic_loop lm (Suc k) i v =
     (let (stop, v1) = nic_attempt lm i v in if stop then v1 else nic_loop lm k (Suc i) v1)"

definition nic_poll_batch :: "libm \<Rightarrow> virtual_nic \<Rightarrow> raw_batch \<Rightarrow> nat result \<times> virtual_nic \<times> raw_batch" where
  "nic_poll_batch lm s batch =
     (if \<not> vn_initialized s
      then (Inl (lifecycle_error (''VirtualNic '' @ [CHR 0x27] @ nc_name (vn_config s) @ [CHR 0x27]
              @ '': call init() before poll_batch()'')), s, batch)
      else
        (let (intended, pacer) = packets_for_tick lm (vn_tick_ns s) (vn_pacer s);
             s1 = s\<lparr>vn_pacer := pacer\<rparr>;
             b1 = net_reset batch in
         if intended = 0 then (Inr 0, s1, b1)
         else
           (let (s2, b2, delivered, byte_total) = nic_loop lm intended 0 (s1, b1, 0, 0);
                s3 = (if delivered > 0
                      then vn_count SmThroughputBytes byte_total (vn_count SmPacketsGenerated delivered s2)
                      else s2)
            in (Inr delivered, s3, b2))))"

section \<open>Accounting\<close>

lemma vn_emit_frame [simp]:
  "vn_generated (vn_emit k s) = vn_generated s" "vn_dropped (vn_emit k s) = vn_dropped s"
  "vn_corrupted (vn_emit k s) = vn_corrupted s" "vn_config (vn_emit k s) = vn_config s"
  "vn_initialized (vn_emit k s) = vn_initialized s" "vn_fault (vn_emit k s) = vn_fault s"
  "vn_clock_ns (vn_emit k s) = vn_clock_ns s"
  by (simp_all add: vn_emit_def)

lemma vn_count_frame [simp]:
  "vn_generated (vn_count m n s) = vn_generated s" "vn_dropped (vn_count m n s) = vn_dropped s"
  "vn_corrupted (vn_count m n s) = vn_corrupted s" "vn_config (vn_count m n s) = vn_config s"
  "vn_initialized (vn_count m n s) = vn_initialized s" "vn_fault (vn_count m n s) = vn_fault s"
  "vn_clock_ns (vn_count m n s) = vn_clock_ns s" "vn_events (vn_count m n s) = vn_events s"
  by (simp_all add: vn_count_def)

lemma vn_lose_frame [simp]:
  "vn_generated (vn_lose ov s) = vn_generated s" "vn_dropped (vn_lose ov s) = Suc (vn_dropped s)"
  "vn_config (vn_lose ov s) = vn_config s" "vn_initialized (vn_lose ov s) = vn_initialized s"
  by (simp_all add: vn_lose_def Let_def)

lemma vn_frame_frame:
  "vn_generated (snd (vn_frame lm s)) = vn_generated s" "vn_dropped (snd (vn_frame lm s)) = vn_dropped s"
  "vn_config (snd (vn_frame lm s)) = vn_config s" "vn_initialized (snd (vn_frame lm s)) = vn_initialized s"
  by (simp_all add: vn_frame_def Let_def split_beta)

text \<open>What one iteration and the loop keep: every packet is delivered or counted as dropped.\<close>

definition nic_balanced :: "nat \<Rightarrow> nat \<Rightarrow> nic_vars \<Rightarrow> bool" where
  "nic_balanced g0 d0 v = (case v of (s, b, delivered, byte_total) \<Rightarrow>
     vn_generated s + d0 = g0 + delivered + vn_dropped s \<and> net_len b = delivered \<and> net_inv b)"

lemma nic_attempt_keeps:
  assumes "nic_balanced g0 d0 v" "nic_attempt lm i v = (stop, v')"
  shows "nic_balanced g0 d0 v'"
proof -
  obtain s b delivered byte_total where v: "v = (s, b, delivered, byte_total)" by (rule prod_cases4)
  let ?s1 = "s\<lparr>vn_generated := vn_generated s + 1\<rparr>"
  obtain hit f1 where d: "should_drop (vn_fault ?s1) = (hit, f1)" by (rule prod.exhaust)
  let ?s2 = "?s1\<lparr>vn_fault := f1\<rparr>"
  obtain frame s3 where f: "vn_frame lm ?s2 = (frame, s3)" by (rule prod.exhaust)
  have s3: "vn_generated s3 = Suc (vn_generated s)" "vn_dropped s3 = vn_dropped s"
    using vn_frame_frame [of lm ?s2] f by simp_all
  define meta where "meta = \<lparr>pm_timestamp_ns = saturating_add (vn_clock_ns s3) (of_nat i), pm_queue_id = 0,
      pm_original_len = of_nat (min (length frame) (2 ^ 32 - 1)) :: u32\<rparr>"
  obtain r b1 where p: "net_push frame meta b = (r, b1)" by (rule prod.exhaust)
  have inv: "net_inv b" and bal: "vn_generated s + d0 = g0 + delivered + vn_dropped s" "net_len b = delivered"
    using assms(1) by (simp_all add: nic_balanced_def v)
  have b1: "net_inv b1" "net_len b1 = (if delivered < net_capacity b then Suc delivered else delivered)"
    using net_inv_push [OF inv, of frame meta] net_push_count [of frame meta b] p bal
    by (auto simp: net_len_def net_capacity_def)
  have full: "r = PktFull \<longleftrightarrow> delivered = net_capacity b"
    using net_push_cases(1) [OF inv, of frame meta] p bal by auto
  consider "delivered \<ge> net_capacity b" | "delivered < net_capacity b" "hit"
    | "delivered < net_capacity b" "\<not> hit" by linarith
  then show ?thesis
  proof cases
    case 1
    then show ?thesis using assms by (simp add: nic_attempt_def v)
  next
    case 2
    then have "v' = (vn_lose False ?s2, net_record_drop b, delivered, byte_total)"
      using assms(2) d by (simp add: nic_attempt_def v)
    then show ?thesis using bal net_inv_record_drop [OF inv]
      by (simp add: nic_balanced_def net_len_def net_record_drop_def)
  next
    case 3
    then have r: "r \<noteq> PktFull" using full by simp
    then have "v' = (vn_emit (EvPacketGenerated (nc_name (vn_config s3)) (length frame) (of_nat (vn_generated s3))) s3,
        b1, delivered + 1, byte_total + length frame)"
      using assms(2) d f p 3 by (cases r) (simp_all add: nic_attempt_def v meta_def)
    then show ?thesis using bal s3 b1 3 by (simp add: nic_balanced_def)
  qed
qed

lemma nic_loop_keeps: "nic_balanced g0 d0 v \<Longrightarrow> nic_balanced g0 d0 (nic_loop lm k i v)"
proof (induction k arbitrary: i v)
  case (Suc k)
  obtain stop v1 where a: "nic_attempt lm i v = (stop, v1)" by (rule prod.exhaust)
  then show ?case using Suc nic_attempt_keeps [OF Suc.prems a] by (simp add: a)
qed simp

lemma nic_poll_result:
  assumes "vn_initialized s" "net_inv b"
  shows "\<exists>n s' b'. nic_poll_batch lm s b = (Inr n, s', b') \<and> net_len b' = n \<and> n \<le> net_capacity b'
    \<and> vn_generated s' + vn_dropped s = vn_generated s + n + vn_dropped s' \<and> net_inv b'"
proof -
  obtain intended pacer where p: "packets_for_tick lm (vn_tick_ns s) (vn_pacer s) = (intended, pacer)"
    by (rule prod.exhaust)
  let ?s1 = "s\<lparr>vn_pacer := pacer\<rparr>" and ?b1 = "net_reset b"
  have b1: "net_inv ?b1" "net_len ?b1 = 0" using net_inv_reset [OF assms(2)] by (simp_all add: net_len_def net_reset_def)
  have bound: "net_len b' \<le> net_capacity b'" if "net_inv b'" for b'
    using that by (simp add: net_inv_def net_len_def net_capacity_def)
  show ?thesis
  proof (cases "intended = 0")
    case True
    then show ?thesis using assms(1) p b1 bound [OF b1(1)] by (simp add: nic_poll_batch_def)
  next
    case False
    obtain s2 b2 delivered byte_total where l: "nic_loop lm intended 0 (?s1, ?b1, 0, 0) = (s2, b2, delivered, byte_total)"
      by (rule prod_cases4)
    have ball: "vn_generated s2 + vn_dropped s = vn_generated s + delivered + vn_dropped s2 \<and> net_len b2 = delivered \<and> net_inv b2"
      using nic_loop_keeps [of "vn_generated s" "vn_dropped s" "(?s1, ?b1, 0, 0)" lm intended 0] b1 l
      by (simp add: nic_balanced_def)
    then show ?thesis using assms(1) p l False bound [of b2] by (auto simp: nic_poll_batch_def)
  qed
qed

lemma nic_poll_inv: "net_inv b \<Longrightarrow> net_inv (snd (snd (nic_poll_batch lm s b)))"
  using nic_poll_result [of s b lm] by (cases "vn_initialized s") (auto simp: nic_poll_batch_def [of lm s b])

section \<open>Well-formed cards\<close>

text \<open>
  The card's generator follows its configuration, and its buffer has the size the generator was
  promised. The payload specification is one a caller may supply, of a size that fits a 53-bit integer.
\<close>

definition traffic_ok :: "traffic_config \<Rightarrow> bool" where
  "traffic_ok c \<longleftrightarrow> payload_spec_ok (tc_payload c)
     \<and> max_payload_len (tc_payload_size c) (payload_gen_new (tc_payload c)) < 2 ^ 53"

definition nic_wf :: "virtual_nic \<Rightarrow> bool" where
  "nic_wf s \<longleftrightarrow> traffic_ok (nc_traffic (vn_config s)) \<and> pg_spec (vn_payloads s) = tc_payload (nc_traffic (vn_config s))
     \<and> length (vn_payload_buf s) = max_payload_len (tc_payload_size (nc_traffic (vn_config s))) (vn_payloads s)"

lemma max_payload_len_spec: "pg_spec g = pg_spec h \<Longrightarrow> max_payload_len n g = max_payload_len n h"
  by (simp add: max_payload_len_def)

lemma max_payload_len_pos: "0 < max_payload_len n g"
  by (simp add: max_payload_len_def less_max_iff_disj split: payload_spec.split)

lemma length_resize0 [simp]: "length (resize0 n bs) = n"
  by (simp add: resize0_def)

lemma pg_spec_new [simp]: "pg_spec (payload_gen_new spec) = spec"
  by (simp add: payload_gen_new_def)

lemma pg_random_bytes_spec [simp]: "pg_spec (snd (pg_random_bytes n g)) = pg_spec g"
  by (induction n arbitrary: g) (simp_all add: pg_next_u64_def Let_def split_beta)

lemma pg_sample_spec [simp]: "pg_spec (snd (pg_sample_gaussian lm m sd g)) = pg_spec g"
  by (simp add: pg_sample_gaussian_def pg_next_unit_def pg_next_u64_def Let_def split_beta split: option.split)

lemma payload_fill_spec: "pg_spec (snd (snd (payload_fill lm sequence buf g))) = pg_spec g"
  by (simp add: payload_fill_def Let_def split_beta split: payload_spec.split protocol_message.split)

lemma nic_wf_frame [simp]:
  "nic_wf (vn_emit k s) = nic_wf s" "nic_wf (vn_count m n s) = nic_wf s" "nic_wf (vn_lose ov s) = nic_wf s"
  "nic_wf (s\<lparr>vn_fault := f\<rparr>) = nic_wf s" "nic_wf (s\<lparr>vn_corrupted := n\<rparr>) = nic_wf s"
  "nic_wf (s\<lparr>vn_generated := n\<rparr>) = nic_wf s" "nic_wf (s\<lparr>vn_spike_ns := c\<rparr>) = nic_wf s"
  "nic_wf (s\<lparr>vn_pacer := p\<rparr>) = nic_wf s"
  by (simp_all add: nic_wf_def vn_emit_def vn_count_def vn_lose_def Let_def)

lemma vn_frame_wf:
  assumes "nic_wf s"
  shows "nic_wf (snd (vn_frame lm s))"
proof -
  obtain n buf g where f: "payload_fill lm (of_nat (vn_generated s)) (vn_payload_buf s) (vn_payloads s) = (n, buf, g)"
    by (rule prod_cases3)
  have ok: "payload_spec_ok (pg_spec (vn_payloads s))" "length (vn_payload_buf s) < 2 ^ 53"
    using assms max_payload_len_spec [of "vn_payloads s" "payload_gen_new (tc_payload (nc_traffic (vn_config s)))"]
    by (simp_all add: nic_wf_def traffic_ok_def)
  have "pg_spec g = pg_spec (vn_payloads s)" using payload_fill_spec [of lm _ _ "vn_payloads s"] f by (metis snd_conv)
  then have "nic_wf (s\<lparr>vn_payload_buf := buf, vn_payloads := g\<rparr>)"
    using assms payload_fill_bounds [OF ok f] max_payload_len_spec [of g "vn_payloads s"] by (simp add: nic_wf_def)
  then show ?thesis using f by (simp add: vn_frame_def Let_def split_beta)
qed

lemma nic_attempt_wf: "nic_wf (fst v) \<Longrightarrow> nic_wf (fst (snd (nic_attempt lm i v)))"
  by (cases v) (simp add: nic_attempt_def Let_def split_beta vn_frame_wf split: net_push_result.split)

lemma nic_loop_wf: "nic_wf (fst v) \<Longrightarrow> nic_wf (fst (nic_loop lm k i v))"
  by (induction k arbitrary: i v) (simp_all add: split_beta nic_attempt_wf)

text \<open>
  The slices of the next frame. \<open>fill\<close> writes into the buffer in place, and the frame takes the slice of
  the length it returns: both are in range when that length is at most the size of the buffer, and
  the buffer has kept its size. A corrupted frame is sliced behind its header.
\<close>

definition next_slices_ok :: "libm \<Rightarrow> virtual_nic \<Rightarrow> bool" where
  "next_slices_ok lm s =
     (case payload_fill lm (of_nat (vn_generated s + 1)) (vn_payload_buf s) (vn_payloads s) of
        (n, buf, _) \<Rightarrow> n \<le> length buf \<and> length buf = length (vn_payload_buf s)
          \<and> NET_HEADER_LEN + n = length (build_udp_frame (take n buf) (nc_udp_dst_port (vn_config s))))"

lemma next_slices_wf:
  assumes "nic_wf s"
  shows "next_slices_ok lm s"
proof -
  obtain n buf g where f: "payload_fill lm (of_nat (vn_generated s + 1)) (vn_payload_buf s) (vn_payloads s) = (n, buf, g)"
    by (rule prod_cases3)
  have "payload_spec_ok (pg_spec (vn_payloads s))" "length (vn_payload_buf s) < 2 ^ 53"
    using assms max_payload_len_spec [of "vn_payloads s" "payload_gen_new (tc_payload (nc_traffic (vn_config s)))"]
    by (simp_all add: nic_wf_def traffic_ok_def)
  from payload_fill_bounds [OF this f] show ?thesis using f by (simp add: next_slices_ok_def build_udp_frame_shape)
qed

section \<open>Lifecycle\<close>

definition nic_stage :: "libm \<Rightarrow> (unit, raw_batch, virtual_nic) stage_ops" where
  "nic_stage lm =
     \<lparr>so_init = (\<lambda>_ s. Some (vn_init s)),
      so_use = (\<lambda>b s. let (r, s1, _) = nic_poll_batch lm s b in Some (answer r, s1)),
      so_shutdown = vn_shutdown\<rparr>"

lemma nic_attempt_initialized: "vn_initialized (fst (snd (nic_attempt lm i v))) = vn_initialized (fst v)"
  by (cases v) (simp add: nic_attempt_def Let_def split_beta vn_frame_frame split: net_push_result.split)

lemma nic_loop_initialized: "vn_initialized (fst (nic_loop lm k i v)) = vn_initialized (fst v)"
  by (induction k arbitrary: i v) (simp_all add: split_beta nic_attempt_initialized)

lemma nic_poll_initialized: "vn_initialized (fst (snd (nic_poll_batch lm s b))) = vn_initialized s"
  by (simp add: nic_poll_batch_def Let_def split_beta nic_loop_initialized)

lemma nic_poll_ok: "vn_initialized s \<Longrightarrow> \<exists>n s' b'. nic_poll_batch lm s b = (Inr n, s', b')"
  by (simp add: nic_poll_batch_def Let_def split_beta)

interpretation nic_lc: steady_stage "nic_stage lm" vn_initialized "\<lambda>_. True" for lm
proof unfold_locales
  fix s s' :: virtual_nic and r :: "unit result" and e :: unit and b :: raw_batch
  show "True \<and> vn_initialized s' = (vn_initialized s \<or> r = Inr ())" if "so_init (nic_stage lm) e s = Some (r, s')"
    using that by (auto simp: nic_stage_def vn_init_def Let_def)
  show "True \<and> vn_initialized s' = vn_initialized s" if "so_use (nic_stage lm) b s = Some (r, s')"
    using that nic_poll_initialized [of lm s b] by (auto simp: nic_stage_def split_beta)
  show "\<exists>e. so_use (nic_stage lm) b s = Some (Inl e, s) \<and> err_kind e = Lifecycle" if "\<not> vn_initialized s"
    using that by (simp add: nic_stage_def nic_poll_batch_def)
  show "\<not> is_refused r" if "vn_initialized s" "so_use (nic_stage lm) b s = Some (r, s')"
    using that nic_poll_ok [of s lm b] by (auto simp: nic_stage_def)
qed (simp_all add: nic_stage_def vn_shutdown_def vn_init_def Let_def)

section \<open>Properties\<close>

text \<open>
  A poll of an initialised card never fails, and it accounts for every packet: what it generated
  is what the batch now holds, which it returns, plus what it counted as dropped. The batch's
  previous contents are gone.
\<close>

theorem nic_poll_accounts:
  assumes "vn_initialized s" "net_inv b"
  shows "\<exists>n s' b'. nic_poll_batch lm s b = (Inr n, s', b') \<and> net_len b' = n \<and> n \<le> net_capacity b'
    \<and> vn_generated s' + vn_dropped s = vn_generated s + n + vn_dropped s' \<and> net_inv b'"
  by (rule nic_poll_result [OF assms])

definition zero_libm :: libm where
  "zero_libm = \<lparr>lm_ln = (\<lambda>_. Fin 0), lm_sqrt = (\<lambda>_. Fin 0), lm_sin = (\<lambda>_. Fin 0), lm_cos = (\<lambda>_. Fin 0)\<rparr>"

lemma nic_poll_accounts_witness:
  "\<exists>n s' b'. nic_poll_batch zero_libm (snd (vn_init (virtual_nic_new nic_config_default))) (the (raw_batch_new 4 50))
     = (Inr n, s', b') \<and> vn_generated s' = n + vn_dropped s'"
proof -
  let ?s = "snd (vn_init (virtual_nic_new nic_config_default))"
  have "vn_initialized ?s" "vn_generated ?s = 0" "vn_dropped ?s = 0"
    by (simp_all add: vn_init_def Let_def vn_emit_def)
  moreover have "net_inv (the (raw_batch_new 4 50))" using raw_batch_new_some [of 4 50] by auto
  ultimately show ?thesis using nic_poll_accounts [of ?s "the (raw_batch_new 4 50)" zero_libm] by fastforce
qed

lemma nic_ops_wf:
  assumes "nic_wf s" "traffic_ok (nc_traffic c)" "traffic_ok traffic"
  shows "nic_wf (virtual_nic_new c)" "nic_wf (snd (vn_init s))" "nic_wf (snd (vn_shutdown s))"
    "nic_wf (vn_set_traffic traffic s)" "nic_wf (vn_set_fault fault s)" "nic_wf (snd (vn_take_spike_ns s))"
    "nic_wf (vn_set_tick_context tick_ns clock_ns s)" "nic_wf (fst (snd (nic_poll_batch lm s b)))"
proof -
  show "nic_wf (virtual_nic_new c)" using assms(2) by (simp add: virtual_nic_new_def nic_wf_def Let_def)
  show "nic_wf (snd (vn_init s))" using assms(1) by (simp add: vn_init_def Let_def) (simp add: nic_wf_def)
  show "nic_wf (snd (vn_shutdown s))" "nic_wf (vn_set_fault fault s)" "nic_wf (snd (vn_take_spike_ns s))"
    "nic_wf (vn_set_tick_context tick_ns clock_ns s)"
    using assms(1)
    by (simp_all add: vn_shutdown_def vn_set_fault_def vn_take_spike_ns_def vn_set_tick_context_def nic_wf_def)
  have "max (max_payload_len n g) 1 = max_payload_len n g" for n g using max_payload_len_pos [of n g] by linarith
  then show "nic_wf (vn_set_traffic traffic s)"
    using assms(3) by (simp add: vn_set_traffic_def nic_wf_def Let_def)
  show "nic_wf (fst (snd (nic_poll_batch lm s b)))"
    using assms(1) by (simp add: nic_poll_batch_def Let_def split_beta nic_loop_wf)
qed

text \<open>
  (C40) Every operation of the card keeps it well-formed: the payload generator follows the traffic
  configuration and fills a buffer of exactly the size it was promised; hot swaps of the traffic
  re-establish it for the new configuration. So no slice of a poll is out of range: at every
  iteration of its loop, the length that the fill returns is at most the size of the buffer, which
  the fill keeps, and the frame is its header followed by that many bytes.
\<close>

theorem nic_ops_keep_wf:
  assumes "nic_wf s" "traffic_ok (nc_traffic c)" "traffic_ok traffic"
  shows "nic_wf (virtual_nic_new c) \<and> nic_wf (snd (vn_init s)) \<and> nic_wf (snd (vn_shutdown s))
    \<and> nic_wf (vn_set_traffic traffic s) \<and> nic_wf (vn_set_fault fault s) \<and> nic_wf (snd (vn_take_spike_ns s))
    \<and> nic_wf (vn_set_tick_context tick_ns clock_ns s) \<and> nic_wf (fst (snd (nic_poll_batch lm s b)))
    \<and> (\<forall>pacer k. next_slices_ok lm (fst (nic_loop lm k 0 (s\<lparr>vn_pacer := pacer\<rparr>, net_reset b, 0, 0))))"
  using nic_ops_wf [OF assms] assms(1) by (simp add: next_slices_wf nic_loop_wf)

lemma nic_ops_keep_wf_witness:
  "nic_wf (vn_set_traffic protocol_quotes (snd (vn_init (virtual_nic_new nic_config_default))))
   \<and> next_slices_ok zero_libm (snd (vn_init (virtual_nic_new nic_config_default)))"
proof -
  have d: "traffic_ok (nc_traffic nic_config_default)"
    by (simp add: traffic_ok_def nic_config_default_def traffic_config_default_def max_payload_len_def)
  have "length (string_bytes ''AAPL'') = 4" by (simp add: string_bytes_def)
  then have q: "traffic_ok protocol_quotes"
    by (simp add: traffic_ok_def protocol_quotes_def max_payload_len_def market_quote_def Let_def)
  have n: "nic_wf (virtual_nic_new nic_config_default)" using d by (simp add: virtual_nic_new_def nic_wf_def Let_def)
  have "nic_wf (snd (vn_init (virtual_nic_new nic_config_default)))" using nic_ops_wf(2) [OF n d q] .
  note keep = nic_ops_keep_wf [OF this d q]
  have "nic_loop zero_libm 0 0 (s\<lparr>vn_pacer := vn_pacer s\<rparr>, b) = (s, b)" for s b by simp
  then have "next_slices_ok zero_libm (snd (vn_init (virtual_nic_new nic_config_default)))"
    using keep [of _ _ _ zero_libm] by (metis fst_conv)
  then show ?thesis using keep by blast
qed

end
