(* ===== verification/Pcap.thy ===== *)
theory Pcap
  imports Sim_Fault Net_Batch Replay Sim_Traffic
begin

text \<open>
  Replay control on the virtual clock (\<open>simulator/src/replay.rs\<close>) and classic pcap captures
  (\<open>pcap.rs\<close>): parsing, writing, and the packet source that replays a capture.
\<close>

section \<open>Replay control\<close>

record sim_replay =
  sr_mode :: replay_mode
  sr_first_ts_ns :: "u64 option"
  sr_burst_count :: nat
  sr_burst_resume_ns :: "u64 option"
  sr_single_step_armed :: bool
  sr_paused :: bool

definition sim_replay_new :: "replay_mode \<Rightarrow> sim_replay result" where
  "sim_replay_new mode =
     (case replay_mode_validate mode of
        Inl e \<Rightarrow> Inl e
      | Inr _ \<Rightarrow> Inr \<lparr>sr_mode = mode, sr_first_ts_ns = None, sr_burst_count = 0, sr_burst_resume_ns = None,
                      sr_single_step_armed = True, sr_paused = False\<rparr>)"

definition sr_pause :: "sim_replay \<Rightarrow> sim_replay" where "sr_pause r = r\<lparr>sr_paused := True\<rparr>"

definition sr_resume :: "sim_replay \<Rightarrow> sim_replay" where "sr_resume r = r\<lparr>sr_paused := False\<rparr>"

definition sr_advance :: "sim_replay \<Rightarrow> sim_replay" where
  "sr_advance r = (case sr_mode r of SingleStep \<Rightarrow> r\<lparr>sr_single_step_armed := True\<rparr> | _ \<Rightarrow> r)"

text \<open>The scaled distance is \<open>None\<close> where the code gives up on the product and emits at once.\<close>

definition sr_scaled :: "f64 \<Rightarrow> u64 \<Rightarrow> u64 option" where
  "sr_scaled factor delta =
     (if f64_less (f64_abs (f64_sub factor (Fin 1))) (Fin f64_epsilon) then Some delta
      else
        (let scaled = f64_mul (f64_of_nat (unat delta)) factor in
         if \<not> is_finite scaled \<or> f64_less scaled (Fin 0) then None
         else if f64_le (f64_of_nat (2 ^ 64 - 1)) scaled then Some (- 1)
         else Some (of_nat (f64_to_u64 scaled))))"

definition timing_ready :: "u64 \<Rightarrow> u64 \<Rightarrow> f64 \<Rightarrow> sim_replay \<Rightarrow> bool \<times> sim_replay" where
  "timing_ready ts_ns clock_ns factor r =
     (let first_ts = get_or_insert (sr_first_ts_ns r) ts_ns;
          r1 = r\<lparr>sr_first_ts_ns := Some first_ts\<rparr> in
      if ts_ns \<le> first_ts then (True, r1)
      else case sr_scaled factor (saturating_sub ts_ns first_ts) of
          None \<Rightarrow> (True, r1)
        | Some scaled_ns \<Rightarrow> (clock_ns \<ge> scaled_ns, r1))"

definition sr_burst_ready :: "u64 \<Rightarrow> nat \<Rightarrow> nat \<Rightarrow> sim_replay \<Rightarrow> bool \<times> sim_replay" where
  "sr_burst_ready clock_ns burst_count gap r =
     (let (blocked, r1) =
        (case sr_burst_resume_ns r of
           Some resume \<Rightarrow>
             if clock_ns < resume then (True, r)
             else (False, r\<lparr>sr_burst_resume_ns := None, sr_burst_count := 0\<rparr>)
         | None \<Rightarrow> (False, r)) in
      if blocked then (False, r1)
      else
        (let r2 = r1\<lparr>sr_burst_count := sr_burst_count r1 + 1\<rparr>
         in (True,
             if sr_burst_count r2 \<ge> burst_count
             then r2\<lparr>sr_burst_resume_ns := Some (saturating_add clock_ns (of_nat gap)), sr_burst_count := 0\<rparr>
             else r2)))"

definition ready_at :: "u64 \<Rightarrow> u64 \<Rightarrow> sim_replay \<Rightarrow> bool \<times> sim_replay" where
  "ready_at ts_ns clock_ns r =
     (if sr_paused r then (False, r)
      else case sr_mode r of
          FullSpeed \<Rightarrow> (True, r)
        | SingleStep \<Rightarrow>
            if \<not> sr_single_step_armed r then (False, r) else (True, r\<lparr>sr_single_step_armed := False\<rparr>)
        | OriginalTiming \<Rightarrow> timing_ready ts_ns clock_ns (Fin 1) r
        | TimeScaled factor \<Rightarrow> timing_ready ts_ns clock_ns factor r
        | Burst n gap \<Rightarrow> sr_burst_ready clock_ns n gap r)"

section \<open>Capture files\<close>

record pcap_packet =
  pk_timestamp_ns :: u64
  pk_data :: bytes

text \<open>\<open>read_u32\<close>: the little-endian value, byte-swapped for a big-endian capture.\<close>

definition pcap_u32 :: "bool \<Rightarrow> nat \<Rightarrow> bytes \<Rightarrow> u32" where
  "pcap_u32 swap off bs =
     (if swap then of_be_bytes (read_at off 4 bs) else of_le_bytes (read_at off 4 bs))"

definition pcap_magic :: "u32 \<Rightarrow> (bool \<times> bool) option" where
  "pcap_magic magic =
     (if magic = 0xa1b2c3d4 then Some (False, False)
      else if magic = 0xd4c3b2a1 then Some (True, False)
      else if magic = 0xa1b23c4d then Some (False, True)
      else if magic = 0x4d3cb2a1 then Some (True, True)
      else None)"

definition pcap_timestamp :: "bool \<Rightarrow> u64 \<Rightarrow> u64 \<Rightarrow> u64" where
  "pcap_timestamp nanos ts_sec ts_frac =
     (if nanos then saturating_add (saturating_mul ts_sec 1000000000) ts_frac
      else saturating_add (saturating_mul ts_sec 1000000000) (saturating_mul ts_frac 1000))"

text \<open>The loop over the records from offset \<open>off\<close>.\<close>

function parse_records :: "bool \<Rightarrow> bool \<Rightarrow> bytes \<Rightarrow> nat \<Rightarrow> pcap_packet list result" where
  "parse_records swap nanos bs off =
     (if off + 16 \<le> length bs
      then
        (let ts_sec = ucast (pcap_u32 swap off bs);
             ts_frac = ucast (pcap_u32 swap (off + 4) bs);
             incl_len = unat (pcap_u32 swap (off + 8) bs);
             off1 = off + 16 in
         if off1 + incl_len > length bs
         then Inl (decode_error (''pcap: truncated packet at offset '' @ nat_dec off1 @ '': need ''
                @ nat_dec incl_len @ '' bytes, have '' @ nat_dec (length bs - off1)))
         else
           (case parse_records swap nanos bs (off1 + incl_len) of
              Inl e \<Rightarrow> Inl e
            | Inr ps \<Rightarrow>
                Inr (\<lparr>pk_timestamp_ns = pcap_timestamp nanos ts_sec ts_frac, pk_data = read_at off1 incl_len bs\<rparr> # ps)))
      else Inr [])"
  by pat_completeness auto
termination
  by (relation "measure (\<lambda>(_, _, bs, off). length bs - off)") auto

declare parse_records.simps [simp del]

text \<open>A digit of a lower-case hexadecimal number, and an eight-digit one (\<open>{:08x}\<close>).\<close>

definition hex_digit :: "nat \<Rightarrow> char" where
  "hex_digit d = ''0123456789abcdef'' ! d"

definition hex8 :: "u32 \<Rightarrow> string" where
  "hex8 w = map (\<lambda>i. hex_digit (unat (drop_bit (4 * i) w AND 0xF))) (rev [0..<8])"

definition parse_pcap :: "bytes \<Rightarrow> pcap_packet list result" where
  "parse_pcap bs =
     (if length bs < 24 then Inl (decode_error ''pcap: file shorter than 24-byte global header'')
      else
        (let magic = of_le_bytes (read_at 0 4 bs) in
         case pcap_magic magic of
           None \<Rightarrow> Inl (decode_error (''pcap: unsupported magic 0x'' @ hex8 magic @ '' (pcap-ng not supported)''))
         | Some (swap, nanos) \<Rightarrow> parse_records swap nanos bs 24))"

text \<open>Reading the file is a parameter: its bytes, or the text of the io error.\<close>

definition load_pcap :: "(string \<Rightarrow> string + bytes) \<Rightarrow> string \<Rightarrow> pcap_packet list result" where
  "load_pcap read_file path =
     (case read_file path of
        Inl e \<Rightarrow> Inl (error_new Io (''pcap: failed to read '' @ path @ '': '' @ e))
      | Inr bs \<Rightarrow> parse_pcap bs)"

definition write_record :: "bool \<Rightarrow> u64 \<times> bytes \<Rightarrow> bytes" where
  "write_record nanosecond p =
     (let (ts_ns, data) = p;
          sec = (ucast (ts_ns div 1000000000) :: u32);
          frac = (if nanosecond then (ucast (ts_ns mod 1000000000) :: u32)
                  else ucast (ts_ns mod 1000000000 div 1000))
      in le_bytes 4 sec @ le_bytes 4 frac @ le_bytes 4 (of_nat (length data) :: u32)
           @ le_bytes 4 (of_nat (length data) :: u32) @ data)"

definition write_pcap_bytes_ex :: "(u64 \<times> bytes) list \<Rightarrow> bool \<Rightarrow> bytes" where
  "write_pcap_bytes_ex packets nanosecond =
     le_bytes 4 (if nanosecond then 0xa1b23c4d else 0xa1b2c3d4 :: u32) @ le_bytes 2 (2 :: u16) @ le_bytes 2 (4 :: u16)
       @ le_bytes 4 (0 :: u32) @ le_bytes 4 (0 :: u32) @ le_bytes 4 (65535 :: u32) @ le_bytes 4 (1 :: u32)
       @ concat (map (write_record nanosecond) packets)"

definition write_pcap_bytes :: "(u64 \<times> bytes) list \<Rightarrow> bytes" where
  "write_pcap_bytes packets = write_pcap_bytes_ex packets False"

section \<open>Round trip\<close>

lemma read_at_append: "read_at (length pre + k) n (pre @ bs) = read_at k n bs"
  by (simp add: read_at_def)

lemma of_le_bytes_u32 [simp]: "of_le_bytes (le_bytes 4 w) = (w :: u32)"
  by (simp add: of_le_bytes_le_bytes take_bit_word_eq_self)

lemma unat_ucast_u32: "unat (ucast (w :: u32) :: u64) = unat w"
  by (simp add: unsigned_ucast_eq take_bit_nat_eq_self_iff less_trans [OF unsigned_less])

lemma unat_ucast_u64_u32: "unat (w :: u64) < 2 ^ 32 \<Longrightarrow> unat (ucast w :: u32) = unat w"
  by (simp add: unsigned_ucast_eq take_bit_nat_eq_self_iff)

text \<open>The time stamp that survives: whole microseconds unless the capture is in nanoseconds.\<close>

definition pcap_kept :: "bool \<Rightarrow> u64 \<Rightarrow> u64" where
  "pcap_kept nanosecond ts = (if nanosecond then ts else ts div 1000 * 1000)"

lemma pcap_timestamp_kept:
  assumes "unat ts div 1000000000 < 2 ^ 32"
  shows "pcap_timestamp nanosecond (ucast (ucast (ts div 1000000000) :: u32))
      (ucast (if nanosecond then ucast (ts mod 1000000000) else ucast (ts mod 1000000000 div 1000) :: u32))
    = pcap_kept nanosecond ts"
proof -
  let ?n = "unat ts" and ?G = "1000000000 :: nat"
  have sec: "unat (ucast (ucast (ts div 1000000000) :: u32) :: u64) = ?n div ?G"
    using assms by (simp add: unat_ucast_u32 unat_ucast_u64_u32 unat_div)
  have "?n mod ?G < ?G" by simp
  then have m: "?n mod ?G < 2 ^ 32" by simp
  have fr: "unat (ucast (ucast (ts mod 1000000000) :: u32) :: u64) = ?n mod ?G"
    using m by (simp add: unat_ucast_u32 unat_ucast_u64_u32 unat_mod)
  have "?n mod ?G div 1000 < 2 ^ 32" using m div_le_dividend [of "?n mod ?G" 1000] by linarith
  then have us: "unat (ucast (ucast (ts mod 1000000000 div 1000) :: u32) :: u64) = ?n mod ?G div 1000"
    by (simp add: unat_ucast_u32 unat_ucast_u64_u32 unat_mod unat_div)
  have whole: "?n div ?G * ?G + ?n mod ?G = ?n" by simp
  have top: "?n < 2 ^ 64" by (rule unat_u64_less)
  have lt: "?n div ?G * ?G < 2 ^ 64" using div_times_less_eq_dividend top by (rule le_less_trans)
  have s: "unat (saturating_mul (ucast (ucast (ts div 1000000000) :: u32)) (1000000000 :: u64)) = ?n div ?G * ?G"
    using sec lt by (simp add: saturating_mul_def unat_mult_exact)
  have le: "?n mod ?G div 1000 * 1000 \<le> ?n mod ?G" by (rule div_times_less_eq_dividend)
  have "?n mod ?G < 2 ^ 64" using m by (rule less_trans) simp
  with le have lt2: "?n mod ?G div 1000 * 1000 < 2 ^ 64" by (rule le_less_trans)
  have us2: "unat (saturating_mul (ucast (ucast (ts mod 1000000000 div 1000) :: u32)) (1000 :: u64)) = ?n mod ?G div 1000 * 1000"
    using us lt2 by (simp add: saturating_mul_def unat_mult_exact)
  have "?n div ?G = ?n div 1000 div 1000000" using div_mult2_eq [of ?n 1000 1000000] by simp
  moreover have "?n mod ?G = 1000 * (?n div 1000 mod 1000000) + ?n mod 1000"
    using mod_mult2_eq [of ?n 1000 1000000] by simp
  then have "?n mod ?G div 1000 = ?n div 1000 mod 1000000" by simp
  moreover have "?n div 1000 div 1000000 * 1000000 + ?n div 1000 mod 1000000 = ?n div 1000" by simp
  ultimately have micro: "?n div ?G * ?G + ?n mod ?G div 1000 * 1000 = ?n div 1000 * 1000" by linarith
  have "unat (pcap_timestamp nanosecond (ucast (ucast (ts div 1000000000) :: u32))
      (ucast (if nanosecond then ucast (ts mod 1000000000) else ucast (ts mod 1000000000 div 1000) :: u32)))
    = (if nanosecond then ?n else ?n div 1000 * 1000)"
    using s fr us2 whole le micro top
    by (simp add: pcap_timestamp_def unat_saturating_add)
  also have "\<dots> = unat (pcap_kept nanosecond ts)"
  proof -
    have "?n div 1000 * 1000 \<le> ?n" by (rule div_times_less_eq_dividend)
    then have "unat (ts div 1000 * 1000) = ?n div 1000 * 1000"
      using top by (simp add: unat_mult_exact unat_div)
    then show ?thesis by (simp add: pcap_kept_def)
  qed
  finally show ?thesis by (simp only: word_unat_eq_iff)
qed

definition kept_packet :: "bool \<Rightarrow> u64 \<times> bytes \<Rightarrow> pcap_packet" where
  "kept_packet nanosecond p = \<lparr>pk_timestamp_ns = pcap_kept nanosecond (fst p), pk_data = snd p\<rparr>"

definition pcap_fits :: "u64 \<times> bytes \<Rightarrow> bool" where
  "pcap_fits p = (unat (fst p) div 1000000000 < 2 ^ 32 \<and> length (snd p) < 2 ^ 32)"

lemma parse_record_cons:
  assumes "pcap_fits p"
  shows "parse_records False nano (pre @ write_record nano p @ rest) (length pre)
    = (case parse_records False nano (pre @ write_record nano p @ rest) (length (pre @ write_record nano p)) of
         Inl e \<Rightarrow> Inl e | Inr ps \<Rightarrow> Inr (kept_packet nano p # ps))"
proof -
  obtain ts data where p: "p = (ts, data)" by (rule prod.exhaust)
  define bs where "bs = pre @ write_record nano p @ rest"
  have len: "length (write_record nano p) = 16 + length data" by (simp add: write_record_def p)
  have rd: "pcap_u32 False (length pre + k) bs = of_le_bytes (read_at k 4 (write_record nano p @ rest))" for k
    by (simp add: pcap_u32_def read_at_append bs_def)
  have f: "pcap_u32 False (length pre) bs = ucast (ts div 1000000000)"
    "pcap_u32 False (length pre + 4) bs
      = (if nano then ucast (ts mod 1000000000) else ucast (ts mod 1000000000 div 1000))"
    "pcap_u32 False (length pre + 8) bs = of_nat (length data)"
    using rd [of 0] rd [of 4] rd [of 8] by (simp_all add: read_at_def write_record_def p Let_def)
  have n: "unat (of_nat (length data) :: u32) = length data"
    using assms by (simp add: pcap_fits_def p unat_of_nat)
  have d: "read_at (length pre + 16) (length data) bs = data"
    unfolding bs_def read_at_append by (simp add: read_at_def write_record_def p Let_def)
  have tsk: "pcap_timestamp nano (ucast (ucast (ts div 1000000000) :: u32))
      (ucast (if nano then ucast (ts mod 1000000000) else ucast (ts mod 1000000000 div 1000) :: u32)) = pcap_kept nano ts"
    using assms by (intro pcap_timestamp_kept) (simp add: pcap_fits_def p)
  have room: "length pre + 16 \<le> length bs" "\<not> length bs < length pre + 16 + length data"
    "length (pre @ write_record nano p) = length pre + 16 + length data"
    using len by (simp_all add: bs_def)
  have kp: "kept_packet nano p = \<lparr>pk_timestamp_ns = pcap_kept nano ts, pk_data = data\<rparr>"
    by (simp add: kept_packet_def p)
  show ?thesis
    unfolding kp bs_def [symmetric] room(3) parse_records.simps [of False nano bs "length pre"] f n Let_def d tsk
    using room(1,2) by simp
qed

lemma parse_written:
  assumes "list_all pcap_fits ps"
  shows "parse_records False nano (pre @ concat (map (write_record nano) ps)) (length pre)
    = Inr (map (kept_packet nano) ps)"
  using assms
proof (induction ps arbitrary: pre)
  case Nil
  then show ?case by (simp add: parse_records.simps)
next
  case (Cons p ps)
  then show ?case
    using parse_record_cons [of p nano pre "concat (map (write_record nano) ps)"] Cons.IH [of "pre @ write_record nano p"]
    by simp
qed

lemma parse_written_pcap:
  assumes "list_all pcap_fits packets"
  shows "parse_pcap (write_pcap_bytes_ex packets nanosecond) = Inr (map (kept_packet nanosecond) packets)"
proof -
  define hd24 where "hd24 = le_bytes 4 (if nanosecond then 0xa1b23c4d else 0xa1b2c3d4 :: u32) @ le_bytes 2 (2 :: u16)
    @ le_bytes 2 (4 :: u16) @ le_bytes 4 (0 :: u32) @ le_bytes 4 (0 :: u32) @ le_bytes 4 (65535 :: u32) @ le_bytes 4 (1 :: u32)"
  have w: "write_pcap_bytes_ex packets nanosecond = hd24 @ concat (map (write_record nanosecond) packets)"
    by (simp add: write_pcap_bytes_ex_def hd24_def)
  have l: "length hd24 = 24" by (simp add: hd24_def)
  have "read_at 0 4 (hd24 @ bs) = le_bytes 4 (if nanosecond then 0xa1b23c4d else 0xa1b2c3d4 :: u32)" for bs
    by (simp add: read_at_def hd24_def)
  then have "pcap_magic (of_le_bytes (read_at 0 4 (hd24 @ bs))) = Some (False, nanosecond)" for bs
    by (simp add: pcap_magic_def)
  then show ?thesis
    using parse_written [OF assms, of nanosecond hd24] l by (simp add: parse_pcap_def w)
qed

section \<open>Properties\<close>

text \<open>
  (C37) What \<open>write_pcap_bytes_ex\<close> writes, \<open>parse_pcap\<close> reads back: every packet in order with all its
  bytes and its time stamp, to the nanosecond or, in a microsecond capture, cut to the microsecond.
\<close>

theorem pcap_roundtrip:
  assumes "list_all pcap_fits packets"
  shows "parse_pcap (write_pcap_bytes_ex packets nanosecond) = Inr (map (kept_packet nanosecond) packets)"
  using assms by (rule parse_written_pcap)

lemma pcap_roundtrip_witness:
  "parse_pcap (write_pcap_bytes [(1500000001234, [1, 2, 3]), (1500000002000, [])])
     = Inr [\<lparr>pk_timestamp_ns = 1500000001000, pk_data = [1, 2, 3]\<rparr>, \<lparr>pk_timestamp_ns = 1500000002000, pk_data = []\<rparr>]"
  using pcap_roundtrip [of "[(1500000001234, [1, 2, 3]), (1500000002000, [])]" False]
  by (simp add: pcap_fits_def write_pcap_bytes_def kept_packet_def pcap_kept_def)

end
