(* ===== verification/Pcap_Source.thy ===== *)
theory Pcap_Source
  imports Pcap Stage_Lifecycle
begin

text \<open>
  The packet source over a capture, \<open>PcapSource\<close> of \<open>simulator/src/pcap.rs\<close>. Its polling loop may run
  for ever when the capture is looped, so it is a partial function; without looping it returns.
\<close>

record pcap_config =
  pc_name :: string
  pc_replay :: replay_mode
  pc_fault :: fault_spec
  pc_fault_seed :: u64
  pc_loop_capture :: bool

definition pcap_config_default :: pcap_config where
  "pcap_config_default =
     \<lparr>pc_name = ''pcap0'', pc_replay = OriginalTiming, pc_fault = fault_spec_default, pc_fault_seed = 0,
      pc_loop_capture = False\<rparr>"

record pcap_source =
  ps_config :: pcap_config
  ps_packets :: "pcap_packet list"
  ps_cursor :: nat
  ps_replay :: sim_replay
  ps_fault :: fault_injector
  ps_events :: "sim_event list"
  ps_metrics :: "sim_sample list"
  ps_generated :: nat
  ps_dropped :: nat
  ps_corrupted :: nat
  ps_spike_ns :: u64
  ps_clock_ns :: u64
  ps_tick_ns :: u64
  ps_initialized :: bool
  ps_exhausted :: bool

definition pcap_source_new :: "pcap_packet list \<Rightarrow> pcap_config \<Rightarrow> pcap_source result" where
  "pcap_source_new packets c =
     (case sim_replay_new (pc_replay c) of
        Inl e \<Rightarrow> Inl e
      | Inr r \<Rightarrow>
          Inr \<lparr>ps_config = c, ps_packets = packets, ps_cursor = 0, ps_replay = r,
               ps_fault = fault_injector_new (pc_fault c) (pc_fault_seed c), ps_events = [], ps_metrics = [],
               ps_generated = 0, ps_dropped = 0, ps_corrupted = 0, ps_spike_ns = 0, ps_clock_ns = 0,
               ps_tick_ns = 1000000, ps_initialized = False, ps_exhausted = False\<rparr>)"

definition pcap_from_path :: "(string \<Rightarrow> string + bytes) \<Rightarrow> string \<Rightarrow> pcap_config \<Rightarrow> pcap_source result" where
  "pcap_from_path read_file path c =
     (case load_pcap read_file path of Inl e \<Rightarrow> Inl e | Inr packets \<Rightarrow> pcap_source_new packets c)"

definition ps_set_tick_context :: "u64 \<Rightarrow> u64 \<Rightarrow> pcap_source \<Rightarrow> pcap_source" where
  "ps_set_tick_context tick_ns clock_ns s = s\<lparr>ps_tick_ns := tick_ns, ps_clock_ns := clock_ns\<rparr>"

definition ps_take_spike_ns :: "pcap_source \<Rightarrow> u64 \<times> pcap_source" where
  "ps_take_spike_ns s = (ps_spike_ns s, s\<lparr>ps_spike_ns := 0\<rparr>)"

definition ps_set_traffic :: "traffic_config \<Rightarrow> pcap_source \<Rightarrow> pcap_source" where
  "ps_set_traffic traffic s = s"

definition ps_set_fault :: "fault_spec \<Rightarrow> pcap_source \<Rightarrow> pcap_source" where
  "ps_set_fault fault s =
     s\<lparr>ps_config := (ps_config s)\<lparr>pc_fault := fault\<rparr>,
       ps_fault := fault_injector_new fault (pc_fault_seed (ps_config s))\<rparr>"

definition ps_advance_replay :: "pcap_source \<Rightarrow> pcap_source" where
  "ps_advance_replay s = s\<lparr>ps_replay := sr_advance (ps_replay s)\<rparr>"

definition ps_pause_replay :: "pcap_source \<Rightarrow> pcap_source" where
  "ps_pause_replay s = s\<lparr>ps_replay := sr_pause (ps_replay s)\<rparr>"

definition ps_resume_replay :: "pcap_source \<Rightarrow> pcap_source" where
  "ps_resume_replay s = s\<lparr>ps_replay := sr_resume (ps_replay s)\<rparr>"

definition ps_emit :: "sim_event_kind \<Rightarrow> pcap_source \<Rightarrow> pcap_source" where
  "ps_emit kind s = s\<lparr>ps_events := emit_at (ps_clock_ns s) kind (ps_events s)\<rparr>"

definition ps_count :: "sim_metric_key \<Rightarrow> nat \<Rightarrow> pcap_source \<Rightarrow> pcap_source" where
  "ps_count key n s = s\<lparr>ps_metrics := ps_metrics s @ [SimCounter key n]\<rparr>"

text \<open>\<open>init\<close>: when the replay mode is refused, the counters are already cleared.\<close>

definition ps_init :: "pcap_source \<Rightarrow> unit result \<times> pcap_source" where
  "ps_init s =
     (let s1 = s\<lparr>ps_cursor := 0, ps_generated := 0, ps_dropped := 0, ps_corrupted := 0, ps_spike_ns := 0,
                 ps_exhausted := False\<rparr> in
      case sim_replay_new (pc_replay (ps_config s1)) of
        Inl e \<Rightarrow> (Inl e, s1)
      | Inr r \<Rightarrow>
          (Inr (), ps_emit (EvSimulatorStarted (pc_name (ps_config s1))) (s1\<lparr>ps_replay := r, ps_initialized := True\<rparr>)))"

definition ps_shutdown :: "pcap_source \<Rightarrow> unit result \<times> pcap_source" where
  "ps_shutdown s = (Inr (), s\<lparr>ps_initialized := False\<rparr>)"

section \<open>Polling\<close>

text \<open>The loop's variables: source, batch, \<open>delivered\<close>.\<close>

type_synonym pcap_vars = "pcap_source \<times> raw_batch \<times> nat"

text \<open>The check at the end of the capture: \<open>Some\<close> where the loop is left.\<close>

definition pcap_wrap :: "pcap_source \<Rightarrow> unit result option \<times> pcap_source" where
  "pcap_wrap s =
     (if ps_cursor s \<ge> length (ps_packets s)
      then
        (if pc_loop_capture (ps_config s)
         then (case sim_replay_new (pc_replay (ps_config s)) of
                 Inl e \<Rightarrow> (Some (Inl e), s\<lparr>ps_cursor := 0\<rparr>)
               | Inr r \<Rightarrow> (None, s\<lparr>ps_cursor := 0, ps_replay := r\<rparr>))
         else (Some (Inr ()), s\<lparr>ps_exhausted := True\<rparr>))
      else (None, s))"

text \<open>A packet that survived the drop decision: corruption, spike, push. \<open>True\<close> where the loop breaks.\<close>

definition pcap_deliver :: "pcap_packet \<Rightarrow> pcap_vars \<Rightarrow> bool \<times> pcap_vars" where
  "pcap_deliver pkt v =
     (let (s, b, delivered) = v;
          name = pc_name (ps_config s); sequence = of_nat (ps_generated s);
          (hit, f1) = should_corrupt (ps_fault s);
          s1 = s\<lparr>ps_fault := f1\<rparr>;
          (data, s2) =
            (if hit
             then (let (d, f) = corrupt_payload (pk_data pkt) (ps_fault s1)
                   in (d, ps_count SmPacketsCorrupted 1 (ps_emit (EvPacketCorrupted name sequence)
                            (s1\<lparr>ps_fault := f, ps_corrupted := ps_corrupted s1 + 1\<rparr>))))
             else (pk_data pkt, s1));
          (spike, f3) = should_spike (ps_fault s2);
          s3 = s2\<lparr>ps_fault := f3\<rparr>;
          s4 = (if spike > 0 then s3\<lparr>ps_spike_ns := saturating_add (ps_spike_ns s3) spike\<rparr> else s3);
          meta = \<lparr>pm_timestamp_ns = pk_timestamp_ns pkt, pm_queue_id = 0,
                  pm_original_len = of_nat (min (length data) (2 ^ 32 - 1))\<rparr> in
      case net_push data meta b of
        (PktFull, b1) \<Rightarrow>
          (True, (s4\<lparr>ps_cursor := ps_cursor s4 - 1, ps_generated := ps_generated s4 - 1\<rparr>, b1, delivered))
      | (_, b1) \<Rightarrow>
          (False,
           (ps_count SmThroughputBytes (length data) (ps_count SmPacketsGenerated 1
              (ps_emit (EvPacketGenerated name (length data) sequence) s4)), b1, delivered + 1)))"

text \<open>The body of the loop, guard included: \<open>Some\<close> where it is left, \<open>None\<close> to go round again.\<close>

definition pcap_attempt :: "pcap_vars \<Rightarrow> unit result option \<times> pcap_vars" where
  "pcap_attempt v =
     (let (s, b, delivered) = v in
      if \<not> delivered < net_capacity b then (Some (Inr ()), v)
      else case pcap_wrap s of
          (Some r, s1) \<Rightarrow> (Some r, (s1, b, delivered))
        | (None, s1) \<Rightarrow>
            (let pkt = ps_packets s1 ! ps_cursor s1;
                 (ready, rp) = ready_at (pk_timestamp_ns pkt) (ps_clock_ns s1) (ps_replay s1);
                 s2 = s1\<lparr>ps_replay := rp\<rparr> in
             if \<not> ready then (Some (Inr ()), (s2, b, delivered))
             else
               (let s3 = s2\<lparr>ps_cursor := ps_cursor s2 + 1, ps_generated := ps_generated s2 + 1\<rparr>;
                    (drop_hit, f1) = should_drop (ps_fault s3);
                    s4 = s3\<lparr>ps_fault := f1\<rparr> in
                if drop_hit
                then (None,
                      (ps_count SmPacketsDropped 1
                         (ps_emit (EvPacketDropped (pc_name (ps_config s4)) (of_nat (ps_generated s4)))
                            (s4\<lparr>ps_dropped := ps_dropped s4 + 1\<rparr>)), net_record_drop b, delivered))
                else (let (stop, v1) = pcap_deliver pkt (s4, b, delivered)
                      in (if stop then Some (Inr ()) else None, v1)))))"

partial_function (option) pcap_loop :: "pcap_vars \<Rightarrow> (unit result \<times> pcap_vars) option" where
  "pcap_loop v =
     (case pcap_attempt v of
        (Some r, v1) \<Rightarrow> Some (r, v1)
      | (None, v1) \<Rightarrow> pcap_loop v1)"

text \<open>\<open>poll_batch\<close>; the size of the largest frame is computed and ignored by the batch.\<close>

definition pcap_poll_batch :: "pcap_source \<Rightarrow> raw_batch \<Rightarrow> (nat result \<times> pcap_source \<times> raw_batch) option" where
  "pcap_poll_batch s batch =
     (if \<not> ps_initialized s
      then Some (Inl (lifecycle_error (''PcapSource '' @ [CHR 0x27] @ pc_name (ps_config s) @ [CHR 0x27]
                  @ '': call init() before poll_batch()'')), s, batch)
      else
        (let b0 = net_reset batch in
         if ps_packets s = [] then Some (Inr 0, s\<lparr>ps_exhausted := True\<rparr>, b0)
         else case pcap_loop (s, b0, 0) of
             None \<Rightarrow> None
           | Some (Inl e, s1, b1, delivered) \<Rightarrow> Some (Inl e, s1, b1)
           | Some (Inr _, s1, b1, delivered) \<Rightarrow> Some (Inr delivered, s1, b1)))"

section \<open>Accounting and termination\<close>

lemma ps_frame [simp]:
  "ps_config (ps_emit k s) = ps_config s" "ps_config (ps_count m n s) = ps_config s"
  "ps_packets (ps_emit k s) = ps_packets s" "ps_packets (ps_count m n s) = ps_packets s"
  "ps_cursor (ps_emit k s) = ps_cursor s" "ps_cursor (ps_count m n s) = ps_cursor s"
  "ps_generated (ps_emit k s) = ps_generated s" "ps_generated (ps_count m n s) = ps_generated s"
  "ps_dropped (ps_emit k s) = ps_dropped s" "ps_dropped (ps_count m n s) = ps_dropped s"
  "ps_initialized (ps_emit k s) = ps_initialized s" "ps_initialized (ps_count m n s) = ps_initialized s"
  by (simp_all add: ps_emit_def ps_count_def)

lemma pcap_deliver_result:
  assumes "pcap_deliver pkt (s, b, delivered) = (stop, s', b', delivered')" "net_inv b" "net_len b = delivered"
    "delivered < net_capacity b"
  shows "\<not> stop \<and> delivered' = Suc delivered \<and> net_len b' = delivered' \<and> net_inv b' \<and> net_capacity b' = net_capacity b
    \<and> ps_generated s' = ps_generated s \<and> ps_dropped s' = ps_dropped s \<and> ps_cursor s' = ps_cursor s
    \<and> ps_packets s' = ps_packets s \<and> ps_config s' = ps_config s"
proof -
  have push: "fst (net_push d m b) \<noteq> PktFull" "net_len (snd (net_push d m b)) = Suc delivered"
    "net_inv (snd (net_push d m b))" "net_capacity (snd (net_push d m b)) = net_capacity b" for d m
    using net_push_cases(1) [OF assms(2), of d m] net_inv_push [OF assms(2), of d m] net_push_count [of d m b] assms(3,4)
    by (auto simp: net_len_def net_capacity_def [of b])
  show ?thesis
    using assms(1) push
    by (fastforce simp: pcap_deliver_def Let_def split_beta split: net_push_result.splits if_splits)
qed

lemma pcap_wrap_None:
  assumes "pcap_wrap s = (None, s1)" "\<not> pc_loop_capture (ps_config s)"
  shows "s1 = s" "ps_cursor s < length (ps_packets s)"
  using assms by (auto simp: pcap_wrap_def split: if_splits)

lemma pcap_wrap_frame:
  "ps_generated (snd (pcap_wrap s)) = ps_generated s" "ps_dropped (snd (pcap_wrap s)) = ps_dropped s"
  by (simp_all add: pcap_wrap_def split: sum.split)

text \<open>Every packet taken from the capture is delivered or counted as dropped.\<close>

definition pcap_balanced :: "nat \<Rightarrow> nat \<Rightarrow> pcap_vars \<Rightarrow> bool" where
  "pcap_balanced g0 d0 v = (case v of (s, b, delivered) \<Rightarrow>
     ps_generated s + d0 = g0 + delivered + ps_dropped s \<and> net_len b = delivered \<and> net_inv b)"

lemma pcap_attempt_keeps:
  assumes "pcap_attempt v = (r, v')" "pcap_balanced g0 d0 v"
  shows "pcap_balanced g0 d0 v'"
    "r = None \<Longrightarrow> \<not> pc_loop_capture (ps_config (fst v)) \<Longrightarrow>
      \<not> pc_loop_capture (ps_config (fst v')) \<and> ps_packets (fst v') = ps_packets (fst v)
      \<and> ps_cursor (fst v') = Suc (ps_cursor (fst v)) \<and> ps_cursor (fst v) < length (ps_packets (fst v))"
proof -
  obtain s b delivered where v: "v = (s, b, delivered)" by (rule prod_cases3)
  have bal: "ps_generated s + d0 = g0 + delivered + ps_dropped s" "net_len b = delivered" "net_inv b"
    using assms(2) by (simp_all add: pcap_balanced_def v)
  obtain w s1 where w: "pcap_wrap s = (w, s1)" by (rule prod.exhaust)
  have s1: "ps_generated s1 = ps_generated s" "ps_dropped s1 = ps_dropped s" using pcap_wrap_frame [of s] w by simp_all
  let ?pkt = "ps_packets s1 ! ps_cursor s1"
  obtain ready rp where rd: "ready_at (pk_timestamp_ns ?pkt) (ps_clock_ns s1) (ps_replay s1) = (ready, rp)" by (rule prod.exhaust)
  let ?s3 = "s1\<lparr>ps_replay := rp, ps_cursor := ps_cursor s1 + 1, ps_generated := ps_generated s1 + 1\<rparr>"
  obtain hit f1 where d: "should_drop (ps_fault ?s3) = (hit, f1)" by (rule prod.exhaust)
  let ?s4 = "?s3\<lparr>ps_fault := f1\<rparr>"
  obtain stop s5 b5 n5 where dl: "pcap_deliver ?pkt (?s4, b, delivered) = (stop, s5, b5, n5)" by (rule prod_cases4)
  consider "\<not> delivered < net_capacity b" | x where "delivered < net_capacity b" "w = Some x"
    | "delivered < net_capacity b" "w = None" "\<not> ready"
    | "delivered < net_capacity b" "w = None" "ready" "hit"
    | "delivered < net_capacity b" "w = None" "ready" "\<not> hit" by (cases w) auto
  then have "pcap_balanced g0 d0 v' \<and> (r = None \<longrightarrow> \<not> pc_loop_capture (ps_config s) \<longrightarrow>
      \<not> pc_loop_capture (ps_config (fst v')) \<and> ps_packets (fst v') = ps_packets s
      \<and> ps_cursor (fst v') = Suc (ps_cursor s) \<and> ps_cursor s < length (ps_packets s))"
  proof cases
    case 1
    then show ?thesis using assms v by (auto simp: pcap_attempt_def)
  next
    case 2
    then have "r = Some x" "v' = (s1, b, delivered)" using assms(1) v w by (simp_all add: pcap_attempt_def)
    then show ?thesis using bal s1 by (simp add: pcap_balanced_def)
  next
    case 3
    then have "r = Some (Inr ())" "v' = (s1\<lparr>ps_replay := rp\<rparr>, b, delivered)"
      using assms(1) v w rd by (simp_all add: pcap_attempt_def)
    then show ?thesis using bal s1 by (simp add: pcap_balanced_def)
  next
    case 4
    then have "r = None" and v': "v' = (ps_count SmPacketsDropped 1
           (ps_emit (EvPacketDropped (pc_name (ps_config ?s4)) (of_nat (ps_generated ?s4)))
              (?s4\<lparr>ps_dropped := ps_dropped ?s4 + 1\<rparr>)), net_record_drop b, delivered)"
      using assms(1) v w rd d by (simp_all add: pcap_attempt_def)
    then show ?thesis
      using bal s1 net_inv_record_drop [OF bal(3)] pcap_wrap_None [of s s1] w 4
      by (auto simp: pcap_balanced_def net_len_def net_record_drop_def)
  next
    case 5
    note del = pcap_deliver_result [OF dl bal(3,2)]
    have "r = None" "v' = (s5, b5, n5)" using assms(1) v w rd d dl del 5 by (simp_all add: pcap_attempt_def)
    then show ?thesis using bal s1 del pcap_wrap_None [of s s1] w 5 by (auto simp: pcap_balanced_def)
  qed
  then show "pcap_balanced g0 d0 v'"
    "r = None \<Longrightarrow> \<not> pc_loop_capture (ps_config (fst v)) \<Longrightarrow>
      \<not> pc_loop_capture (ps_config (fst v')) \<and> ps_packets (fst v') = ps_packets (fst v)
      \<and> ps_cursor (fst v') = Suc (ps_cursor (fst v)) \<and> ps_cursor (fst v) < length (ps_packets (fst v))"
    by (simp_all add: v)
qed

lemma pcap_attempt_config: "pc_loop_capture (ps_config (fst (snd (pcap_attempt v)))) = pc_loop_capture (ps_config (fst v))"
proof -
  have w: "pc_loop_capture (ps_config (snd (pcap_wrap s))) = pc_loop_capture (ps_config s)" for s
    by (simp add: pcap_wrap_def split: sum.split)
  have d: "pc_loop_capture (ps_config (fst (snd (pcap_deliver pkt x)))) = pc_loop_capture (ps_config (fst x))" for pkt x
    by (cases x) (simp add: pcap_deliver_def Let_def split_beta split: net_push_result.split)
  show ?thesis
    using w [of "fst v"] d
    by (cases v; cases "fst (pcap_wrap (fst v))") (simp_all add: pcap_attempt_def Let_def split_beta)
qed

lemma pcap_loop_returns:
  assumes "\<not> pc_loop_capture (ps_config (fst v))" "pcap_balanced g0 d0 v"
  shows "\<exists>r v'. pcap_loop v = Some (r, v') \<and> pcap_balanced g0 d0 v' \<and> \<not> pc_loop_capture (ps_config (fst v'))"
  using assms
proof (induction "length (ps_packets (fst v)) - ps_cursor (fst v)" arbitrary: v rule: less_induct)
  case less
  obtain r v1 where a: "pcap_attempt v = (r, v1)" by (rule prod.exhaust)
  note keep = pcap_attempt_keeps [OF a less.prems(2)]
  show ?case
  proof (cases r)
    case None
    then have "pcap_loop v = pcap_loop v1" using a by (simp add: pcap_loop.simps [of v])
    moreover have "\<exists>r v'. pcap_loop v1 = Some (r, v') \<and> pcap_balanced g0 d0 v' \<and> \<not> pc_loop_capture (ps_config (fst v'))"
      by (rule less.hyps) (use keep None less.prems in auto)
    ultimately show ?thesis by simp
  next
    case (Some x)
    then show ?thesis using a keep less.prems(1) pcap_attempt_config [of v] by (simp add: pcap_loop.simps [of v])
  qed
qed

text \<open>Looped or not, a poll that returns keeps the balance.\<close>

lemma pcap_loop_keeps:
  "pcap_loop v = Some (r, v') \<Longrightarrow> pcap_balanced g0 d0 v \<Longrightarrow> pcap_balanced g0 d0 v'"
proof -
  let ?P = "\<lambda>v y. pcap_balanced g0 d0 v \<longrightarrow> pcap_balanced g0 d0 (snd y)"
  have step: "?P v y" if rec: "\<And>v y. f v = Some y \<Longrightarrow> ?P v y"
    and st: "(case pcap_attempt v of (Some r, v1) \<Rightarrow> Some (r, v1) | (None, v1) \<Rightarrow> f v1) = Some y" for f v y
  proof -
    obtain q v1 where a: "pcap_attempt v = (q, v1)" by (rule prod.exhaust)
    show ?thesis
    proof (cases q)
      case None
      then have "f v1 = Some y" using st a by simp
      from rec [OF this] show ?thesis using pcap_attempt_keeps(1) [OF a] by blast
    next
      case (Some x)
      then have "snd y = v1" using st a by auto
      then show ?thesis using pcap_attempt_keeps(1) [OF a] by blast
    qed
  qed
  assume loop: "pcap_loop v = Some (r, v')" and bal: "pcap_balanced g0 d0 v"
  have "?P v (r, v')" by (rule pcap_loop.raw_induct [where P = ?P, OF step loop])
  then show ?thesis using bal by simp
qed

lemma pcap_poll_result:
  assumes "ps_initialized s" "\<not> pc_loop_capture (ps_config s)" "net_inv b"
  shows "\<exists>r s' b'. pcap_poll_batch s b = Some (r, s', b') \<and> net_inv b'
    \<and> ps_generated s' + ps_dropped s = ps_generated s + net_len b' + ps_dropped s'
    \<and> (\<forall>n. r = Inr n \<longrightarrow> n = net_len b') \<and> \<not> pc_loop_capture (ps_config s')"
proof -
  have b0: "net_inv (net_reset b)" "net_len (net_reset b) = 0"
    using net_inv_reset [OF assms(3)] by (simp_all add: net_len_def net_reset_def)
  show ?thesis
  proof (cases "ps_packets s = []")
    case True
    then show ?thesis using assms(1,2) b0 by (simp add: pcap_poll_batch_def)
  next
    case False
    have "pcap_balanced (ps_generated s) (ps_dropped s) (s, net_reset b, 0)" using b0 by (simp add: pcap_balanced_def)
    from pcap_loop_returns [OF _ this] assms(2) obtain r s' b' n where
      "pcap_loop (s, net_reset b, 0) = Some (r, s', b', n)"
      "pcap_balanced (ps_generated s) (ps_dropped s) (s', b', n)" "\<not> pc_loop_capture (ps_config s')"
      by (auto simp: split_paired_Ex)
    then show ?thesis using False assms(1) by (cases r) (auto simp: pcap_poll_batch_def pcap_balanced_def)
  qed
qed

section \<open>Lifecycle\<close>

definition pcap_stage :: "(unit, raw_batch, pcap_source) stage_ops" where
  "pcap_stage =
     \<lparr>so_init = (\<lambda>_ s. Some (ps_init s)),
      so_use = (\<lambda>b s. map_option (\<lambda>(r, s1, _). (answer r, s1)) (pcap_poll_batch s b)),
      so_shutdown = ps_shutdown\<rparr>"

text \<open>What the loop keeps: the source stays initialised with its configuration, and its errors come from the replay mode.\<close>

definition pcap_lively :: "pcap_vars \<Rightarrow> unit result option \<times> pcap_vars \<Rightarrow> bool" where
  "pcap_lively v y \<longleftrightarrow> ps_initialized (fst (snd y)) = ps_initialized (fst v)
     \<and> ps_config (fst (snd y)) = ps_config (fst v) \<and> (\<forall>r. fst y = Some r \<longrightarrow> \<not> is_refused r)"

lemma sim_replay_new_error: "sim_replay_new mode = Inl e \<Longrightarrow> err_kind e \<noteq> Lifecycle"
  by (cases mode) (auto simp: sim_replay_new_def split: if_splits sum.splits)

lemma pcap_wrap_lively:
  "pcap_wrap s = (x, s1) \<Longrightarrow>
     ps_initialized s1 = ps_initialized s \<and> ps_config s1 = ps_config s \<and> (\<forall>r. x = Some r \<longrightarrow> \<not> is_refused r)"
  by (auto simp: pcap_wrap_def sim_replay_new_error split: if_splits sum.splits)

lemma pcap_deliver_initialized:
  "ps_initialized (fst (snd (pcap_deliver pkt v))) = ps_initialized (fst v)"
  "ps_config (fst (snd (pcap_deliver pkt v))) = ps_config (fst v)"
  by (cases v, simp add: pcap_deliver_def Let_def split_beta split: net_push_result.split)+

lemma pcap_attempt_lively: "pcap_lively v (pcap_attempt v)"
proof (cases v)
  case (fields s b delivered)
  obtain x s1 where w: "pcap_wrap s = (x, s1)" by (rule prod.exhaust)
  show ?thesis
    using pcap_wrap_lively [OF w] w fields
    by (cases x)
      (simp_all add: pcap_lively_def pcap_attempt_def Let_def split_beta pcap_deliver_initialized ps_count_def ps_emit_def)
qed

lemma pcap_loop_lively:
  "pcap_loop v = Some (r, v') \<Longrightarrow>
     ps_initialized (fst v') = ps_initialized (fst v) \<and> ps_config (fst v') = ps_config (fst v) \<and> \<not> is_refused r"
proof -
  let ?P = "\<lambda>v y. ps_initialized (fst (snd y)) = ps_initialized (fst v) \<and> ps_config (fst (snd y)) = ps_config (fst v)
    \<and> \<not> is_refused (fst y)"
  have step: "?P v y" if rec: "\<And>v y. f v = Some y \<Longrightarrow> ?P v y"
    and st: "(case pcap_attempt v of (Some r, v1) \<Rightarrow> Some (r, v1) | (None, v1) \<Rightarrow> f v1) = Some y" for f v y
  proof -
    obtain q v1 where a: "pcap_attempt v = (q, v1)" by (rule prod.exhaust)
    then show ?thesis using rec [of v1 y] st pcap_attempt_lively [of v] by (cases q) (auto simp: pcap_lively_def)
  qed
  assume loop: "pcap_loop v = Some (r, v')"
  have "?P v (r, v')" by (rule pcap_loop.raw_induct [where P = ?P, OF step loop])
  then show ?thesis by simp
qed

lemma pcap_poll_lively:
  assumes "pcap_poll_batch s b = Some (r, s', b')"
  shows "ps_initialized s' = ps_initialized s \<and> ps_config s' = ps_config s \<and> (ps_initialized s \<longrightarrow> \<not> is_refused (answer r))"
proof (cases "ps_initialized s \<and> ps_packets s \<noteq> []")
  case False
  then show ?thesis using assms by (auto simp: pcap_poll_batch_def split: if_splits)
next
  case True
  then obtain x s1 b1 n where l: "pcap_loop (s, net_reset b, 0) = Some (x, s1, b1, n)"
    using assms by (auto simp: pcap_poll_batch_def split: option.splits)
  then show ?thesis using True assms pcap_loop_lively [OF l]
    by (auto simp: pcap_poll_batch_def split: sum.splits)
qed

text \<open>An initialised source has a replay mode that \<open>init\<close> accepts, so a second \<open>init\<close> cannot fail.\<close>

definition pcap_valid :: "pcap_source \<Rightarrow> bool" where
  "pcap_valid s \<longleftrightarrow> (ps_initialized s \<longrightarrow> answer (sim_replay_new (pc_replay (ps_config s))) = Inr ())"

interpretation pcap_lc: steady_stage pcap_stage ps_initialized pcap_valid
proof unfold_locales
  fix s s' :: pcap_source and r :: "unit result" and e :: unit and b :: raw_batch
  show "pcap_valid s' \<and> ps_initialized s' = (ps_initialized s \<or> r = Inr ())"
    if "pcap_valid s" "so_init pcap_stage e s = Some (r, s')"
    using that by (auto simp: pcap_stage_def ps_init_def ps_emit_def Let_def pcap_valid_def split: sum.splits)
  show "pcap_valid s' \<and> ps_initialized s' = ps_initialized s" if "pcap_valid s" "so_use pcap_stage b s = Some (r, s')"
    using that pcap_poll_lively [of s b] by (auto simp: pcap_stage_def pcap_valid_def)
  show "r = Inr ()" if "pcap_valid s" "ps_initialized s" "so_init pcap_stage e s = Some (r, s')"
    using that by (auto simp: pcap_stage_def ps_init_def Let_def pcap_valid_def split: sum.splits)
  show "\<exists>e. so_use pcap_stage b s = Some (Inl e, s) \<and> err_kind e = Lifecycle" if "\<not> ps_initialized s"
    using that by (simp add: pcap_stage_def pcap_poll_batch_def)
  show "\<not> is_refused r" if "ps_initialized s" "so_use pcap_stage b s = Some (r, s')"
    using that pcap_poll_lively [of s b] by (auto simp: pcap_stage_def)
qed (simp_all add: pcap_stage_def ps_shutdown_def pcap_valid_def)

section \<open>Properties\<close>

text \<open>
  Polling a capture that is not looped returns, with any faults, timing and batch: what it took
  from the capture is what the batch now holds plus what was counted as dropped.
\<close>

theorem pcap_poll_returns:
  assumes "ps_initialized s" "\<not> pc_loop_capture (ps_config s)" "net_inv b"
  shows "\<exists>r s' b'. pcap_poll_batch s b = Some (r, s', b') \<and> net_inv b'
    \<and> ps_generated s' + ps_dropped s = ps_generated s + net_len b' + ps_dropped s'
    \<and> (\<forall>n. r = Inr n \<longrightarrow> n = net_len b')"
  using pcap_poll_result [OF assms] by blast

definition example_capture :: pcap_source where
  "example_capture = snd (ps_init (case pcap_source_new [\<lparr>pk_timestamp_ns = 5, pk_data = [1, 2]\<rparr>] pcap_config_default of
     Inr s \<Rightarrow> s))"

lemma pcap_poll_returns_witness:
  "\<exists>r s' b'. pcap_poll_batch example_capture (the (raw_batch_new 4 64)) = Some (r, s', b')
     \<and> ps_generated s' = net_len b' + ps_dropped s'"
proof -
  have "ps_initialized example_capture" "\<not> pc_loop_capture (ps_config example_capture)"
    "ps_generated example_capture = 0" "ps_dropped example_capture = 0"
    by (simp_all add: example_capture_def pcap_source_new_def ps_init_def sim_replay_new_def pcap_config_default_def
        Let_def)
  moreover have "net_inv (the (raw_batch_new 4 64))" using raw_batch_new_some [of 4 64] by auto
  ultimately show ?thesis
    using pcap_poll_returns [of example_capture "the (raw_batch_new 4 64)"] by fastforce
qed

end
