(* ===== verification/Lifecycle_Props.thy ===== *)
theory Lifecycle_Props
  imports Sim_Storage Sim_Nic Pcap_Source Pipeline_File
begin

text \<open>
  The lifecycle contract of \<open>crates/flyby-core/src/lifecycle.rs\<close> across the components: what every
  sequence of calls of a source, or of a pipeline, may show to its caller.
\<close>

section \<open>Stages that always return\<close>

lemma stage_run_total:
  assumes "\<And>e s. so_init ops e s \<noteq> None" "\<And>a s. so_use ops a s \<noteq> None"
  shows "\<exists>evs s'. stage_run ops cs s = Some (evs, s')"
proof (induction cs arbitrary: s)
  case (Cons c cs)
  have "stage_step ops c s \<noteq> None" by (cases c) (simp_all add: stage_step_def assms del: not_None_eq)
  then obtain ev s1 where "stage_step ops c s = Some (ev, s1)" by auto
  then show ?case using Cons.IH [of s1] by auto
qed simp

lemma total_stages:
  "\<exists>evs s'. stage_run net_sim_stage ncs n = Some (evs, s')"
  "\<exists>evs s'. stage_run (nic_stage lm) vcs v = Some (evs, s')"
  "\<exists>evs s'. stage_run (file_source_stage next_len) fcs f = Some (evs, s')"
  "\<exists>evs s'. stage_run (storage_stage next_len) scs s = Some (evs, s')"
  by (rule stage_run_total;
      simp add: net_sim_stage_def nic_stage_def file_source_stage_def storage_stage_def split_beta)+

lemma new_stages:
  "\<not> ns_initialized (net_sim_new_unchecked c)" "\<not> vn_initialized (virtual_nic_new nc)"
  "\<not> fs_initialized (file_source_new fc f)" "file_open (file_source_new fc f)"
  "\<not> vs_initialized (virtual_storage_new vc f)" "storage_open (virtual_storage_new vc f)"
  "pcap_source_new packets pc = Inr p \<Longrightarrow> \<not> ps_initialized p" "\<not> pl_initialized (pipeline_new a b q r)"
  by (auto simp: net_sim_new_unchecked_def virtual_nic_new_def file_source_new_def virtual_storage_new_def
      file_open_def storage_open_def pcap_source_new_def pipeline_new_def Let_def split: sum.splits)

lemma file_source_follows:
  assumes "quiet_framer next_len"
  shows "\<exists>evs s'. stage_run (file_source_stage next_len) cs (file_source_new c f) = Some (evs, s')
    \<and> (failed_reinit Shut evs \<or> permits True Shut evs (phase_of (fs_initialized s')))"
proof -
  obtain evs s' where r: "stage_run (file_source_stage next_len) cs (file_source_new c f) = Some (evs, s')"
    using total_stages(3) by blast
  from owned_stage.run_follows [OF file_source_owned [OF assms] new_stages(4) r]
  show ?thesis using r new_stages(3) [of c f] by (simp add: phase_of_def)
qed

lemma new_stages_valid:
  "sim_valid (net_sim_new_unchecked c)" "pcap_source_new packets pc = Inr p \<Longrightarrow> pcap_valid p"
  using new_stages(1,7) by (auto simp: sim_valid_def pcap_valid_def)

section \<open>Properties\<close>

text \<open>
  (C14) The sources and the documented state machine. Whatever calls of \<open>init\<close>, polls and \<open>shutdown\<close> a
  caller makes on a new source, in any order, the simulated source and the virtual card always
  return and what the caller sees is a run of the machine: polls before the first successful
  \<open>init\<close> and after \<open>shutdown\<close> are refused with an error of kind \<open>Lifecycle\<close>, polls in between are never
  refused, and \<open>shutdown\<close> succeeds at any time. The same holds of a capture source, which need not
  return when it is looped. The file source and the virtual storage always return and follow the
  machine too, unless an \<open>init\<close> fails on a source that is running; so does a pipeline over any
  stages, except that it passes on what they answer.
\<close>

theorem sources_follow_lifecycle:
  "(\<exists>evs s'. stage_run net_sim_stage ncs (net_sim_new_unchecked nc) = Some (evs, s')
      \<and> permits True Shut evs (phase_of (ns_initialized s')))
   \<and> (\<exists>evs s'. stage_run (nic_stage lm) vcs (virtual_nic_new vc) = Some (evs, s')
      \<and> permits True Shut evs (phase_of (vn_initialized s')))
   \<and> (case pcap_source_new packets pc of
        Inl _ \<Rightarrow> True
      | Inr p \<Rightarrow>
          (case stage_run pcap_stage pcs p of
             None \<Rightarrow> True
           | Some (evs, s') \<Rightarrow> permits True Shut evs (phase_of (ps_initialized s'))))
   \<and> (\<exists>evs s'. stage_run (file_source_stage next_record_len_fixed) fcs (file_source_new fc fixed) = Some (evs, s')
      \<and> (failed_reinit Shut evs \<or> permits True Shut evs (phase_of (fs_initialized s'))))
   \<and> (\<exists>evs s'. stage_run (file_source_stage next_record_len_prefixed) fcs (file_source_new fc prefixed) = Some (evs, s')
      \<and> (failed_reinit Shut evs \<or> permits True Shut evs (phase_of (fs_initialized s'))))
   \<and> (\<exists>evs s'. stage_run (file_source_stage next_record_len_delim) fcs (file_source_new fc delim) = Some (evs, s')
      \<and> (failed_reinit Shut evs \<or> permits True Shut evs (phase_of (fs_initialized s'))))
   \<and> (\<exists>evs s'. stage_run (storage_stage next_record_len_delim) scs (virtual_storage_new sc delim) = Some (evs, s')
      \<and> (failed_reinit Shut evs \<or> permits True Shut evs (phase_of (vs_initialized s'))))
   \<and> (case stage_run (pipeline_stage ops) lcs pl of
        None \<Rightarrow> True
      | Some (evs, pl') \<Rightarrow> failed_reinit (phase_of (pl_initialized pl)) evs
          \<or> permits False (phase_of (pl_initialized pl)) evs (phase_of (pl_initialized pl')))"
proof (intro conjI)
  obtain evs s' where r: "stage_run net_sim_stage ncs (net_sim_new_unchecked nc) = Some (evs, s')"
    using total_stages(1) by blast
  from net_sim_lc.run_steady [OF new_stages_valid(1) r]
  show "\<exists>evs s'. stage_run net_sim_stage ncs (net_sim_new_unchecked nc) = Some (evs, s')
      \<and> permits True Shut evs (phase_of (ns_initialized s'))"
    using r new_stages(1) [of nc] by (simp add: phase_of_def)
next
  obtain evs s' where r: "stage_run (nic_stage lm) vcs (virtual_nic_new vc) = Some (evs, s')"
    using total_stages(2) by blast
  from nic_lc.run_steady [OF TrueI r] show "\<exists>evs s'. stage_run (nic_stage lm) vcs (virtual_nic_new vc) = Some (evs, s')
      \<and> permits True Shut evs (phase_of (vn_initialized s'))"
    using r new_stages(2) [of vc] by (simp add: phase_of_def)
next
  show "case pcap_source_new packets pc of Inl _ \<Rightarrow> True | Inr p \<Rightarrow>
      (case stage_run pcap_stage pcs p of None \<Rightarrow> True
       | Some (evs, s') \<Rightarrow> permits True Shut evs (phase_of (ps_initialized s')))"
    using pcap_lc.run_steady [OF new_stages_valid(2)] new_stages(7)
    by (fastforce simp: phase_of_def split: sum.split option.split)
next
  obtain evs s' where r: "stage_run (storage_stage next_record_len_delim) scs (virtual_storage_new sc delim) = Some (evs, s')"
    using total_stages(4) by blast
  from storage_delim_lc.run_follows [OF new_stages(6) r]
  show "\<exists>evs s'. stage_run (storage_stage next_record_len_delim) scs (virtual_storage_new sc delim) = Some (evs, s')
      \<and> (failed_reinit Shut evs \<or> permits True Shut evs (phase_of (vs_initialized s')))"
    using r new_stages(5) [of sc delim] by (simp add: phase_of_def)
next
  show "case stage_run (pipeline_stage ops) lcs pl of None \<Rightarrow> True
      | Some (evs, pl') \<Rightarrow> failed_reinit (phase_of (pl_initialized pl)) evs
          \<or> permits False (phase_of (pl_initialized pl)) evs (phase_of (pl_initialized pl'))"
    using pipeline_lc.run_permitted [OF TrueI] by (fastforce split: option.split)
qed (rule file_source_follows quiet_builtin)+

text \<open>
  (C19) The exception is real, and against the documentation (\<open>use after failed init\<close> is listed with the
  illegal transitions). A running file source, or virtual storage, whose \<open>init\<close> is called again when
  the file cannot be opened any more reports an I/O error; but the next poll is not refused: it
  answers and leaves the source exactly as if \<open>init\<close> had not been called, reading on in the file it
  had open. The machine permits no such pair of events. A pipeline whose \<open>init\<close> fails stays
  initialised in the same way.
\<close>

theorem failed_reinit_keeps_source:
  assumes "quiet_framer next_len" "open_file (fc_path (fs_config s)) = Inl (k, msg)" "fs_initialized s" "file_open s"
    and "vs_inner v = s" "vs_initialized v"
  shows "\<exists>e r s' rv v'. err_kind e = Io
     \<and> stage_run (file_source_stage next_len) [CallInit open_file, CallUse a] s = Some ([InitEv (Inl e), UseEv r], s')
     \<and> stage_run (file_source_stage next_len) [CallUse a] s = Some ([UseEv r], s')
     \<and> (\<forall>q. \<not> permits False Running [InitEv (Inl e), UseEv r] q)
     \<and> stage_run (storage_stage next_len) [CallInit open_file, CallUse a] v = Some ([InitEv (Inl e), UseEv rv], v')
     \<and> stage_run (storage_stage next_len) [CallUse a] v = Some ([UseEv rv], v')
     \<and> (\<forall>q. \<not> permits False Running [InitEv (Inl e), UseEv rv] q)
     \<and> (\<forall>x p'. pipeline_init ops p = Some (Inl x, p') \<longrightarrow> pl_initialized p' = pl_initialized p)"
proof -
  obtain e where e: "so_init (file_source_stage next_len) open_file s = Some (Inl e, s)" "err_kind e = Io"
    using assms(2) by (simp add: file_source_stage_def file_source_init_def error_with_source_def)
  have v: "so_init (storage_stage next_len) open_file v = Some (Inl e, v)"
    using e(1) assms(5) by (simp add: file_source_stage_def storage_stage_def vs_init_def)
  obtain r s' where r: "so_use (file_source_stage next_len) a s = Some (r, s')"
    by (cases a) (simp add: file_source_stage_def split_beta)
  obtain rv v' where rv: "so_use (storage_stage next_len) a v = Some (rv, v')"
    by (cases a) (simp add: storage_stage_def split_beta)
  have "storage_open v" using assms(3-6) by (simp add: storage_open_def)
  note dev = owned_stage.failed_reinit_deviates(2) [OF file_source_owned [OF assms(1)] assms(4,3) e(1) r]
    owned_stage.failed_reinit_deviates(2) [OF storage_owned [OF assms(1)] this assms(6) v rv]
  have "pl_initialized p' = pl_initialized p" if "pipeline_init ops p = Some (Inl x, p')" for x p'
    using pipeline_init_initialized [OF that] by simp
  with e v r rv dev show ?thesis by (simp add: stage_step_def)
qed

lemma failed_reinit_keeps_source_witness:
  "\<exists>e r s'. stage_run (file_source_stage next_record_len_delim)
       [CallInit (\<lambda>_. Inl (OtherIo, ''gone'')), CallUse (0, 0, file_example_batch)] (vs_inner example_vs)
     = Some ([InitEv (Inl e), UseEv r], s') \<and> err_kind e = Io \<and> \<not> permits False Running [InitEv (Inl e), UseEv r] Running"
proof -
  let ?s = "vs_inner example_vs"
  have "fs_initialized ?s" "file_open ?s"
    by (simp_all add: example_vs_facts(6) example_source_def file_source_init_def file_source_new_def file_open_def)
  from failed_reinit_keeps_source [OF quiet_builtin(3) _ this refl example_vs_facts(5), of "\<lambda>_. Inl (OtherIo, ''gone'')"
      OtherIo "''gone''" "(0, 0, file_example_batch)"]
  show ?thesis by blast
qed

text \<open>
  (C8) The shared-memory sink does not keep the contract: it accepts a write before \<open>init\<close> and after
  \<open>shutdown\<close>. What was written before \<open>init\<close> is reported as written and then discarded by it,
  together with the count of written messages.
\<close>

theorem sink_ignores_lifecycle:
  assumes "memory_sink_new e mmap scount limit = Inr k" "slice_safe mops" "encodable mops (unat limit) m" "0 < unat scount"
  shows "\<exists>k1 k2 k3. sink_write mops m k = (Inr (), k1)
    \<and> aq_items (sink_abs k1) = [item mops m] \<and> aq_count (sink_abs k1) = 1
    \<and> sink_init k1 = Some (Inr (), k2) \<and> aq_items (sink_abs k2) = [] \<and> aq_count (sink_abs k2) = 0
    \<and> sink_write mops m (snd (sink_shutdown k2)) = (Inr (), k3) \<and> aq_items (sink_abs k3) = [item mops m]"
proof -
  note new = memory_sink_new_inv [OF assms(1)]
  have room: "has_room mops [m] k" using new assms(2-4) by (simp add: has_room_def)
  let ?k1 = "put_item mops m k"
  note w = sink_write_room [OF room]
  have "sink_inv ?k1" using w(2) by (simp add: has_room_def)
  from sink_init_returns [OF this] obtain k2 where
    k2: "sink_init ?k1 = Some (Inr (), k2)" "sink_inv k2" "sink_abs k2 = (sink_abs ?k1)\<lparr>aq_items := [], aq_count := 0\<rparr>"
    by blast
  have room2: "has_room mops [m] k2" using room k2(2,3) w(3) new(2) by (simp add: has_room_def)
  show ?thesis
    using w k2 new(2) sink_write_room(1,3) [OF room2]
    by (intro exI [of _ ?k1] exI [of _ k2] exI [of _ "put_item mops m k2"]) (simp add: sink_shutdown_def)
qed

lemma sink_ignores_lifecycle_witness:
  "\<exists>k1 k2. sink_write stub_ops \<lparr>stub_seq = 5\<rparr> example_sink = (Inr (), k1) \<and> aq_count (sink_abs k1) = 1
     \<and> sink_init k1 = Some (Inr (), k2) \<and> aq_items (sink_abs k2) = []"
proof -
  have "encodable stub_ops (unat (8 :: usize)) \<lparr>stub_seq = 5\<rparr>" by (simp add: encodable_def stub_ops_def)
  from sink_ignores_lifecycle [OF example_sink_new slice_safe_stub this] show ?thesis by auto
qed

end
