(* ===== verification/Pcap_Fixtures.thy ===== *)
theory Pcap_Fixtures
  imports Pcap Sim_Nic
begin

text \<open>
  The generator of the capture fixtures, \<open>simulator/examples/gen_pcap_fixtures.rs\<close>: the six files it
  writes. Creating the directory and writing the files are not modelled.
\<close>

text \<open>\<open>eth_pad\<close>: an Ethernet-like frame of at least 60 bytes.\<close>

definition eth_pad :: "bytes \<Rightarrow> bytes" where
  "eth_pad payload =
     (let frame = write_at 12 (be_bytes 2 (0x0800 :: u16))
            (write_at 6 [0x02, 0x00, 0x00, 0x00, 0x00, 0x01]
               (write_at 0 (replicate 6 0xff) (replicate 14 0))) @ payload
      in if length frame < 60 then resize0 60 frame else frame)"

text \<open>The loop that fills a payload, wraps it into a UDP frame and pushes it with its time stamp.\<close>

fun quote_frames :: "libm \<Rightarrow> (u64 \<Rightarrow> u64) \<Rightarrow> u64 list \<Rightarrow> payload_gen \<Rightarrow> (u64 \<times> bytes) list" where
  "quote_frames lm stamp [] g = []"
| "quote_frames lm stamp (seq # seqs) g =
     (let (n, payload, g1) = payload_fill lm seq (replicate 34 0) g
      in (stamp seq, build_udp_frame (take n payload) 9000) # quote_frames lm stamp seqs g1)"

definition burst_frames :: "(u64 \<times> bytes) list" where
  "burst_frames = map (\<lambda>i. (of_nat i * 10000, eth_pad (be_bytes 8 (of_nat i :: u64)))) [0..<100]"

definition udp_quotes :: "libm \<Rightarrow> (u64 \<times> bytes) list" where
  "udp_quotes lm =
     quote_frames lm (\<lambda>seq. saturating_sub seq 1 * 100000) (map of_nat [1..<21])
       (payload_gen_new (Protocol (market_quote ''AAPL'')))"

definition long_quotes :: "libm \<Rightarrow> (u64 \<times> bytes) list" where
  "long_quotes lm =
     quote_frames lm (\<lambda>seq. (seq - 1) * 1000000) (map of_nat [1..<1001])
       (payload_gen_new (Protocol (market_quote ''MSFT'')))"

text \<open>The files, in the order they are written.\<close>

definition fixtures :: "libm \<Rightarrow> (string \<times> bytes) list" where
  "fixtures lm =
     [(''empty.pcap'', write_pcap_bytes []),
      (''tiny_3pkt.pcap'', write_pcap_bytes
         [(0, eth_pad (string_bytes ''pkt0'')), (1000000, eth_pad (string_bytes ''pkt1'')),
          (5000000, eth_pad (string_bytes ''pkt2''))]),
      (''burst_100.pcap'', write_pcap_bytes burst_frames),
      (''udp_quotes.pcap'', write_pcap_bytes (udp_quotes lm)),
      (''ns_timestamps.pcap'', write_pcap_bytes_ex
         [(0, eth_pad (string_bytes ''ns0'')), (250, eth_pad (string_bytes ''ns1'')),
          (1500, eth_pad (string_bytes ''ns2''))] True),
      (''quotes_1s_1kpps.pcap'', write_pcap_bytes (long_quotes lm))]"

section \<open>Frames\<close>

lemma length_eth_pad: "length (eth_pad payload) = max 60 (14 + length payload)"
  by (simp add: eth_pad_def Let_def)

text \<open>The frame of a market quote, without a buffer.\<close>

definition quote_frame :: "string \<Rightarrow> u64 \<Rightarrow> bytes" where
  "quote_frame symbol seq =
     build_udp_frame (market_quote_bytes (write_at 0 (string_bytes symbol) (replicate 8 0x20)) seq) 9000"

lemma quote_frames_market:
  assumes "length (string_bytes symbol) \<le> 8" "pg_spec g = Protocol (market_quote symbol)"
  shows "quote_frames lm stamp seqs g = map (\<lambda>seq. (stamp seq, quote_frame symbol seq)) seqs"
  using assms(2)
proof (induction seqs arbitrary: g)
  case (Cons seq seqs)
  let ?q = "market_quote_bytes (write_at 0 (string_bytes symbol) (replicate 8 0x20)) seq"
  have q: "length ?q = 34" using assms(1) by (simp add: market_quote_bytes_def Let_def)
  have "payload_fill lm seq (replicate 34 0) g = (34, ?q, g)"
    using Cons.prems assms(1) q
    by (simp add: payload_fill_def market_quote_def Let_def) (simp add: write_at_def)
  then show ?case using Cons q by (simp add: quote_frame_def)
qed simp

lemma length_quote_frame [simp]:
  assumes "length (string_bytes symbol) \<le> 8"
  shows "length (quote_frame symbol seq) = 76"
  using assms by (simp add: quote_frame_def build_udp_frame_shape NET_HEADER_LEN_def market_quote_bytes_def Let_def)

lemma unat_nat_u64: "m < 2 ^ 64 \<Longrightarrow> unat (of_nat m :: u64) = m"
  by (simp add: unat_of_nat)

text \<open>A time stamp of whole microseconds survives a microsecond capture.\<close>

lemma pcap_kept_micro:
  assumes "n * 1000 < 2 ^ 64"
  shows "pcap_kept False (of_nat (n * 1000)) = of_nat (n * 1000)"
proof -
  have "unat (of_nat (n * 1000) :: u64) = n * 1000" using assms by (rule unat_nat_u64)
  then have "unat (of_nat (n * 1000) div 1000 :: u64) = n" by (simp add: unat_div)
  then have "(of_nat (n * 1000) div 1000 :: u64) = of_nat n" by (metis of_nat_unat ucast_id)
  then show ?thesis by (simp add: pcap_kept_def)
qed

lemma kept_micro:
  "n * 1000 < 2 ^ 64 \<Longrightarrow> kept_packet False (of_nat (n * 1000), data) = \<lparr>pk_timestamp_ns = of_nat (n * 1000), pk_data = data\<rparr>"
  by (simp only: kept_packet_def fst_conv snd_conv pcap_kept_micro)

lemma fits_micro:
  assumes "m < 2 ^ 60" "length data < 2 ^ 32"
  shows "pcap_fits (of_nat m, data)"
proof -
  have "unat (of_nat m :: u64) = m" using assms(1) by (intro unat_nat_u64) simp
  moreover have "m div 1000000000 \<le> 2 ^ 60 div 1000000000" using assms(1) by (intro div_le_mono) simp
  ultimately show ?thesis using assms by (simp add: pcap_fits_def)
qed

text \<open>A capture in microseconds of frames whose time stamps are a function of their index.\<close>

lemma parse_indexed:
  assumes "list_all (\<lambda>i. stamp i * 1000 < 2 ^ 60 \<and> length (frame i) < 2 ^ 32) js"
  shows "parse_pcap (write_pcap_bytes (map (\<lambda>i. (of_nat (stamp i * 1000), frame i)) js))
    = Inr (map (\<lambda>i. \<lparr>pk_timestamp_ns = of_nat (stamp i * 1000), pk_data = frame i\<rparr>) js)"
proof -
  have "list_all pcap_fits (map (\<lambda>i. (of_nat (stamp i * 1000), frame i)) js)"
    using assms fits_micro by (fastforce simp: list_all_iff simp del: of_nat_mult)
  from parse_written_pcap [OF this, of False]
  have "parse_pcap (write_pcap_bytes (map (\<lambda>i. (of_nat (stamp i * 1000), frame i)) js))
      = Inr (map (\<lambda>i. kept_packet False (of_nat (stamp i * 1000), frame i)) js)"
    by (simp add: write_pcap_bytes_def comp_def del: of_nat_mult)
  also have "map (\<lambda>i. kept_packet False (of_nat (stamp i * 1000), frame i)) js
      = map (\<lambda>i. \<lparr>pk_timestamp_ns = of_nat (stamp i * 1000), pk_data = frame i\<rparr>) js"
    using assms by (intro map_cong refl kept_micro) (force simp: list_all_iff)
  finally show ?thesis .
qed

text \<open>The lists of the generator by their index.\<close>

lemma saturating_pred:
  assumes "Suc i < 2 ^ 64"
  shows "saturating_sub (of_nat (Suc i) :: u64) 1 = of_nat i"
proof -
  have "unat (of_nat (Suc i) :: u64) = Suc i" using assms by (rule unat_nat_u64)
  then have "1 \<le> (of_nat (Suc i) :: u64)" by (simp add: word_le_nat_alt)
  then show ?thesis by (simp add: saturating_sub_def)
qed

lemma quotes_indexed:
  assumes "length (string_bytes symbol) \<le> 8" "pg_spec g = Protocol (market_quote symbol)"
    "\<And>i. i < n \<Longrightarrow> stamp (of_nat (Suc i)) = of_nat (gap i * 1000)"
  shows "quote_frames lm stamp (map of_nat [1..<Suc n]) g
    = map (\<lambda>i. (of_nat (gap i * 1000), quote_frame symbol (of_nat (Suc i)))) [0..<n]"
proof -
  have "[1..<Suc n] = map Suc [0..<n]" by (simp add: map_Suc_upt)
  then show ?thesis
    unfolding quote_frames_market [OF assms(1,2)] using assms(3) by (simp add: comp_def del: of_nat_Suc of_nat_mult)
qed

lemma udp_quotes_indexed:
  "udp_quotes lm = map (\<lambda>i. (of_nat (i * 100 * 1000), quote_frame ''AAPL'' (of_nat (Suc i)))) [0..<20]"
proof -
  have "saturating_sub (of_nat (Suc i)) 1 * 100000 = (of_nat (i * 100 * 1000) :: u64)" if "i < 20" for i
    using saturating_pred [of i] that by (simp del: of_nat_Suc)
  then show ?thesis
    using quotes_indexed [of "''AAPL''" "payload_gen_new (Protocol (market_quote ''AAPL''))" 20
        "\<lambda>seq. saturating_sub seq 1 * 100000" "\<lambda>i. i * 100" lm]
    by (simp add: udp_quotes_def string_bytes_def del: of_nat_Suc of_nat_mult)
qed

lemma long_quotes_indexed:
  "long_quotes lm = map (\<lambda>i. (of_nat (i * 1000 * 1000), quote_frame ''MSFT'' (of_nat (Suc i)))) [0..<1000]"
  using quotes_indexed [of "''MSFT''" "payload_gen_new (Protocol (market_quote ''MSFT''))" 1000
      "\<lambda>seq. (seq - 1) * 1000000" "\<lambda>i. i * 1000" lm]
  by (simp add: long_quotes_def string_bytes_def)

lemma burst_indexed:
  "burst_frames = map (\<lambda>i. (of_nat (i * 10 * 1000), eth_pad (be_bytes 8 (of_nat i :: u64)))) [0..<100]"
  by (simp add: burst_frames_def)

section \<open>The packets of the fixtures, byte for byte\<close>

text \<open>
  What the files are made for, written down from the formats and not from the generator: an integer of
  \<open>n\<close> octets with the most significant first, an Ethernet frame to the broadcast address padded to the
  minimum of 60 bytes, and a market quote in a UDP datagram in an IPv4 packet.
\<close>

fun octets :: "nat \<Rightarrow> nat \<Rightarrow> bytes" where
  "octets 0 x = []"
| "octets (Suc n) x = octets n (x div 256) @ [of_nat (x mod 256)]"

definition ethernet_header :: bytes where
  "ethernet_header = [0xFF, 0xFF, 0xFF, 0xFF, 0xFF, 0xFF] @ [0x02, 0, 0, 0, 0, 0x01] @ [0x08, 0x00]"

definition padded_frame :: "bytes \<Rightarrow> bytes" where
  "padded_frame payload = ethernet_header @ payload @ replicate (46 - length payload) 0"

text \<open>
  IPv4: version 4 and 5 words of header, total length 62, time to live 64, protocol 17, the two
  addresses. UDP: from port 12345 to port 9000, length 42. The quote: the letter Q and a zero, the
  symbol in 8 bytes, the bid, the ask, the sequence number.
\<close>

definition quote_datagram :: "bytes \<Rightarrow> nat \<Rightarrow> nat \<Rightarrow> nat \<Rightarrow> bytes" where
  "quote_datagram symbol bid ask number =
     ethernet_header
     @ [0x45, 0, 0, 62, 0, 0, 0, 0, 64, 17, 0, 0] @ [192, 168, 1, 1] @ [192, 168, 1, 2]
     @ octets 2 12345 @ octets 2 9000 @ octets 2 42 @ [0, 0]
     @ [0x51, 0] @ symbol @ octets 8 bid @ octets 8 ask @ octets 8 number"

text \<open>The symbols AAPL and MSFT, padded with spaces.\<close>

definition aapl :: bytes where "aapl = [0x41, 0x41, 0x50, 0x4C, 0x20, 0x20, 0x20, 0x20]"
definition msft :: bytes where "msft = [0x4D, 0x53, 0x46, 0x54, 0x20, 0x20, 0x20, 0x20]"

lemma be_bytes_octets:
  "x < 2 ^ 64 \<Longrightarrow> be_bytes n (of_nat x :: u64) = octets n x"
proof (induction n arbitrary: x)
  case 0
  then show ?case by (simp add: be_bytes_def)
next
  case (Suc n)
  have "unat (drop_bit 8 (of_nat x :: u64)) = x div 256"
    using unat_nat_u64 [OF Suc.prems] by (simp add: drop_bit_eq_div unat_div)
  then have d: "drop_bit 8 (of_nat x :: u64) = of_nat (x div 256)" by (metis of_nat_unat ucast_id)
  have "unat (ucast (of_nat x :: u64) :: u8) = x mod 256"
    using unat_nat_u64 [OF Suc.prems] by (simp add: unsigned_ucast_eq take_bit_eq_mod)
  then have "(ucast (of_nat x :: u64) :: u8) = of_nat (x mod 256)" by (metis of_nat_unat ucast_id)
  moreover have "x div 256 < 2 ^ 64" using Suc.prems by linarith
  ultimately show ?case using Suc.IH [of "x div 256"] by (simp add: be_bytes_def d del: of_nat_mod)
qed

lemma eth_header_bytes:
  "write_at 12 (be_bytes 2 (0x0800 :: u16))
     (write_at 6 [0x02, 0x00, 0x00, 0x00, 0x00, 0x01] (write_at 0 (replicate 6 0xff) (replicate 14 0))) = ethernet_header"
  by code_simp

lemma eth_pad_padded: "length payload \<le> 46 \<Longrightarrow> eth_pad payload = padded_frame payload"
proof -
  assume "length payload \<le> 46"
  moreover have "length ethernet_header = 14" by (simp add: ethernet_header_def)
  ultimately show ?thesis
    unfolding eth_pad_def eth_header_bytes by (auto simp: padded_frame_def resize0_def Let_def)
qed

definition udp_header :: bytes where
  "udp_header = ethernet_header
     @ [0x45, 0, 0, 62, 0, 0, 0, 0, 64, 17, 0, 0] @ [192, 168, 1, 1] @ [192, 168, 1, 2]
     @ [0x30, 0x39] @ [0x23, 0x28] @ [0, 42] @ [0, 0]"

lemma udp_header_bytes:
  "fold (\<lambda>(off, bs). write_at off bs) (udp_frame_writes 34 9000) (replicate (NET_HEADER_LEN + 34) 0)
     = udp_header @ replicate 34 0"
  by code_simp

lemma udp_frame_header: "length payload = 34 \<Longrightarrow> build_udp_frame payload 9000 = udp_header @ payload"
proof -
  assume "length payload = 34"
  moreover have "length udp_header = NET_HEADER_LEN" by (simp add: udp_header_def ethernet_header_def NET_HEADER_LEN_def)
  ultimately show ?thesis by (simp add: build_udp_frame_def udp_header_bytes write_at_def)
qed

lemma port_octets: "octets 2 12345 = [0x30, 0x39]" "octets 2 9000 = [0x23, 0x28]" "octets 2 42 = [0, 42]"
  by (simp_all add: numeral_2_eq_2)

lemma quote_frame_datagram:
  assumes "length (string_bytes symbol) \<le> 8" "write_at 0 (string_bytes symbol) (replicate 8 0x20) = padded" "m < 2 ^ 32"
  shows "quote_frame symbol (of_nat m) = quote_datagram padded (100000 + m mod 1000) (100001 + m mod 1000) m"
proof -
  have m: "unat (of_nat m :: u64) = m" using assms(3) by (intro unat_nat_u64) simp
  have "unat ((of_nat m :: u64) mod 1000) = m mod 1000" using m by (simp add: unat_mod)
  then have "(of_nat m :: u64) mod 1000 = of_nat (m mod 1000)" by (metis of_nat_unat ucast_id)
  then have bid: "100000 + (of_nat m :: u64) mod 1000 = of_nat (100000 + m mod 1000)" by simp
  then have ask: "100000 + (of_nat m :: u64) mod 1000 + 1 = of_nat (100001 + m mod 1000)" by simp
  have small: "100000 + m mod 1000 < 2 ^ 64" "100001 + m mod 1000 < 2 ^ 64" "m < 2 ^ 64"
    using assms(3) mod_less_divisor [of 1000 m] by simp_all
  let ?q = "market_quote_bytes padded (of_nat m)"
  have q: "?q = [0x51, 0] @ padded @ octets 8 (100000 + m mod 1000) @ octets 8 (100001 + m mod 1000) @ octets 8 m"
    unfolding market_quote_bytes_def Let_def bid [unfolded bid] using bid ask small
    by (simp only: be_bytes_octets)
  have "length ?q = 34" using assms(1,2) by (auto simp: market_quote_bytes_def Let_def)
  then have "build_udp_frame ?q 9000 = udp_header @ ?q" by (rule udp_frame_header)
  then show ?thesis unfolding quote_frame_def assms(2) quote_datagram_def q udp_header_def port_octets by simp
qed

section \<open>Properties\<close>

text \<open>
  (C38) Every fixture reads back as the packets it is made for, byte for byte: nothing; three padded
  Ethernet frames with the payloads \<open>pkt0\<close>, \<open>pkt1\<close> and \<open>pkt2\<close> at 0, 1 and 5 milliseconds; a hundred
  frames that hold their number, 10 microseconds apart; twenty UDP quotes of AAPL every 100
  microseconds; three frames \<open>ns0\<close>, \<open>ns1\<close> and \<open>ns2\<close> with time stamps in nanoseconds; and a thousand
  quotes of MSFT, one each millisecond. The quotes are numbered from 1, go from port 12345 to port
  9000, and their ask is one above the bid, which follows the number. The expected bytes are those of
  the formats (\<open>padded_frame\<close>, \<open>quote_datagram\<close>), not the generator's.
\<close>

theorem fixtures_readable:
  "map (\<lambda>(name, bs). (name, parse_pcap bs)) (fixtures lm) =
     [(''empty.pcap'', Inr []),
      (''tiny_3pkt.pcap'', Inr
         [\<lparr>pk_timestamp_ns = 0, pk_data = padded_frame [0x70, 0x6B, 0x74, 0x30]\<rparr>,
          \<lparr>pk_timestamp_ns = 1000000, pk_data = padded_frame [0x70, 0x6B, 0x74, 0x31]\<rparr>,
          \<lparr>pk_timestamp_ns = 5000000, pk_data = padded_frame [0x70, 0x6B, 0x74, 0x32]\<rparr>]),
      (''burst_100.pcap'', Inr
         (map (\<lambda>i. \<lparr>pk_timestamp_ns = of_nat (i * 10 * 1000), pk_data = padded_frame [0, 0, 0, 0, 0, 0, 0, of_nat i]\<rparr>)
            [0..<100])),
      (''udp_quotes.pcap'', Inr
         (map (\<lambda>i. \<lparr>pk_timestamp_ns = of_nat (i * 100 * 1000),
                   pk_data = quote_datagram aapl (100001 + i) (100002 + i) (i + 1)\<rparr>) [0..<20])),
      (''ns_timestamps.pcap'', Inr
         [\<lparr>pk_timestamp_ns = 0, pk_data = padded_frame [0x6E, 0x73, 0x30]\<rparr>,
          \<lparr>pk_timestamp_ns = 250, pk_data = padded_frame [0x6E, 0x73, 0x31]\<rparr>,
          \<lparr>pk_timestamp_ns = 1500, pk_data = padded_frame [0x6E, 0x73, 0x32]\<rparr>]),
      (''quotes_1s_1kpps.pcap'', Inr
         (map (\<lambda>i. \<lparr>pk_timestamp_ns = of_nat (i * 1000 * 1000),
                   pk_data = quote_datagram msft (100000 + (i + 1) mod 1000) (100001 + (i + 1) mod 1000) (i + 1)\<rparr>)
            [0..<1000]))]"
proof -
  have sizes: "length (string_bytes ''AAPL'') \<le> 8" "length (string_bytes ''MSFT'') \<le> 8"
    by (simp_all add: string_bytes_def)
  have short: "pcap_fits (t, eth_pad (string_bytes s))" if "unat t < 2 ^ 60" "length s < 100" for t :: u64 and s
    using fits_micro [of "unat t"] that by (simp add: length_eth_pad string_bytes_def)
  have empty: "parse_pcap (write_pcap_bytes []) = Inr []"
    using parse_written_pcap [of "[]" False] by (simp add: write_pcap_bytes_def)
  have tiny: "parse_pcap (write_pcap_bytes
         [(0, eth_pad (string_bytes ''pkt0'')), (1000000, eth_pad (string_bytes ''pkt1'')), (5000000, eth_pad (string_bytes ''pkt2''))])
      = Inr [\<lparr>pk_timestamp_ns = 0, pk_data = eth_pad (string_bytes ''pkt0'')\<rparr>,
          \<lparr>pk_timestamp_ns = 1000000, pk_data = eth_pad (string_bytes ''pkt1'')\<rparr>,
          \<lparr>pk_timestamp_ns = 5000000, pk_data = eth_pad (string_bytes ''pkt2'')\<rparr>]"
    unfolding write_pcap_bytes_def by (subst parse_written_pcap) (simp_all add: short kept_packet_def pcap_kept_def)
  have ns: "parse_pcap (write_pcap_bytes_ex
         [(0, eth_pad (string_bytes ''ns0'')), (250, eth_pad (string_bytes ''ns1'')), (1500, eth_pad (string_bytes ''ns2''))] True)
      = Inr [\<lparr>pk_timestamp_ns = 0, pk_data = eth_pad (string_bytes ''ns0'')\<rparr>,
          \<lparr>pk_timestamp_ns = 250, pk_data = eth_pad (string_bytes ''ns1'')\<rparr>,
          \<lparr>pk_timestamp_ns = 1500, pk_data = eth_pad (string_bytes ''ns2'')\<rparr>]"
    by (subst parse_written_pcap) (simp_all add: short kept_packet_def pcap_kept_def)
  have burst: "parse_pcap (write_pcap_bytes burst_frames)
      = Inr (map (\<lambda>i. \<lparr>pk_timestamp_ns = of_nat (i * 10 * 1000), pk_data = eth_pad (be_bytes 8 (of_nat i :: u64))\<rparr>) [0..<100])"
    unfolding burst_indexed by (rule parse_indexed) (auto simp: list_all_iff length_eth_pad)
  have udp: "parse_pcap (write_pcap_bytes (udp_quotes lm))
      = Inr (map (\<lambda>i. \<lparr>pk_timestamp_ns = of_nat (i * 100 * 1000), pk_data = quote_frame ''AAPL'' (of_nat (Suc i))\<rparr>) [0..<20])"
    unfolding udp_quotes_indexed by (rule parse_indexed) (use sizes in \<open>auto simp: list_all_iff\<close>)
  have long: "parse_pcap (write_pcap_bytes (long_quotes lm))
      = Inr (map (\<lambda>i. \<lparr>pk_timestamp_ns = of_nat (i * 1000 * 1000), pk_data = quote_frame ''MSFT'' (of_nat (Suc i))\<rparr>) [0..<1000])"
    unfolding long_quotes_indexed by (rule parse_indexed) (use sizes in \<open>auto simp: list_all_iff\<close>)
  have padded: "eth_pad (string_bytes ''pkt0'') = padded_frame [0x70, 0x6B, 0x74, 0x30]"
    "eth_pad (string_bytes ''pkt1'') = padded_frame [0x70, 0x6B, 0x74, 0x31]"
    "eth_pad (string_bytes ''pkt2'') = padded_frame [0x70, 0x6B, 0x74, 0x32]"
    "eth_pad (string_bytes ''ns0'') = padded_frame [0x6E, 0x73, 0x30]"
    "eth_pad (string_bytes ''ns1'') = padded_frame [0x6E, 0x73, 0x31]"
    "eth_pad (string_bytes ''ns2'') = padded_frame [0x6E, 0x73, 0x32]"
    by (simp_all add: eth_pad_padded string_bytes_def)
  have numbered: "eth_pad (be_bytes 8 (of_nat i :: u64)) = padded_frame [0, 0, 0, 0, 0, 0, 0, of_nat i]"
    if "i < 100" for i
  proof -
    have "octets (Suc (Suc (Suc (Suc (Suc (Suc (Suc (Suc 0)))))))) i = [0, 0, 0, 0, 0, 0, 0, of_nat i]"
      using that by simp
    then have "octets 8 i = [0, 0, 0, 0, 0, 0, 0, of_nat i]" by (simp only: eval_nat_numeral BitM.simps)
    then show ?thesis using that by (simp add: eth_pad_padded be_bytes_octets)
  qed
  have symbols: "write_at 0 (string_bytes ''AAPL'') (replicate 8 0x20) = aapl"
    "write_at 0 (string_bytes ''MSFT'') (replicate 8 0x20) = msft"
    by code_simp+
  have aapl: "quote_frame ''AAPL'' (of_nat (Suc i)) = quote_datagram aapl (100001 + i) (100002 + i) (i + 1)"
    if "i < 20" for i
    using quote_frame_datagram [OF sizes(1) symbols(1), of "Suc i"] that by (simp del: of_nat_Suc)
  have msft: "quote_frame ''MSFT'' (of_nat (Suc i))
      = quote_datagram msft (100000 + (i + 1) mod 1000) (100001 + (i + 1) mod 1000) (i + 1)" if "i < 1000" for i
    using quote_frame_datagram [OF sizes(2) symbols(2), of "Suc i"] that by (simp del: of_nat_Suc)
  show ?thesis
    unfolding fixtures_def list.map case_prod_conv empty tiny burst udp ns long unfolding padded
    using numbered aapl msft by (simp del: of_nat_Suc of_nat_mult upt_rec_numeral)
qed

end
