(* ===== verification/Rust_Str.thy ===== *)
theory Rust_Str
  imports Core Float64 "HOL-Library.Sublist"
begin

text \<open>
  What the scenario files use of the Rust standard library: \<open>Result\<close> combinators, string functions on
  UTF-8 bytes, Unix paths, and the decimal numbers that \<open>f64::from_str\<close> reads.
\<close>

section \<open>Results\<close>

text \<open>The \<open>?\<close> operator, \<open>ok_or_else\<close>, and \<open>collect\<close> into a \<open>Result\<close>, which stops at the first error.\<close>

fun try_bind :: "'a result \<Rightarrow> ('a \<Rightarrow> 'b result) \<Rightarrow> 'b result" where
  "try_bind (Inl e) f = Inl e"
| "try_bind (Inr x) f = f x"

definition ok_or :: "error \<Rightarrow> 'a option \<Rightarrow> 'a result" where
  "ok_or e x = (case x of Some y \<Rightarrow> Inr y | None \<Rightarrow> Inl e)"

fun collect_results :: "('a \<Rightarrow> 'b result) \<Rightarrow> 'a list \<Rightarrow> 'b list result" where
  "collect_results f [] = Inr []"
| "collect_results f (x # xs) = try_bind (f x) (\<lambda>y. try_bind (collect_results f xs) (\<lambda>ys. Inr (y # ys)))"

lemma try_bind_Inr [simp]: "try_bind r f = Inr y \<longleftrightarrow> (\<exists>x. r = Inr x \<and> f x = Inr y)"
  by (cases r) auto

lemma ok_or_Inr [simp]: "ok_or e x = Inr y \<longleftrightarrow> x = Some y"
  by (simp add: ok_or_def split: option.split)

lemma collect_results_Inr: "collect_results f xs = Inr ys \<longleftrightarrow> list_all2 (\<lambda>x y. f x = Inr y) xs ys"
  by (induction xs arbitrary: ys) (auto simp: list_all2_Cons1)

lemma collect_results_all:
  "collect_results f xs = Inr ys \<Longrightarrow> (\<And>x y. f x = Inr y \<Longrightarrow> P y) \<Longrightarrow> list_all P ys"
  by (auto simp: collect_results_Inr list_all2_conv_all_nth list_all_length)

section \<open>Strings\<close>

definition ascii_lower :: "string \<Rightarrow> string" where
  "ascii_lower s = map (\<lambda>c. let n = of_char c :: nat in if 65 \<le> n \<and> n \<le> 90 then char_of (n + 32) else c) s"

definition eq_ignore_ascii_case :: "string \<Rightarrow> string \<Rightarrow> bool" where
  "eq_ignore_ascii_case a b = (ascii_lower a = ascii_lower b)"

definition is_digit :: "char \<Rightarrow> bool" where
  "is_digit c = (let n = of_char c :: nat in 48 \<le> n \<and> n \<le> 57)"

text \<open>The characters with the property \<open>White_Space\<close>, in UTF-8.\<close>

definition white_space :: "string list" where
  "white_space =
     [[CHR 0x09], [CHR 0x0A], [CHR 0x0B], [CHR 0x0C], [CHR 0x0D], [CHR 0x20], [CHR 0xC2, CHR 0x85],
      [CHR 0xC2, CHR 0xA0], [CHR 0xE1, CHR 0x9A, CHR 0x80], [CHR 0xE2, CHR 0x80, CHR 0x80],
      [CHR 0xE2, CHR 0x80, CHR 0x81], [CHR 0xE2, CHR 0x80, CHR 0x82], [CHR 0xE2, CHR 0x80, CHR 0x83],
      [CHR 0xE2, CHR 0x80, CHR 0x84], [CHR 0xE2, CHR 0x80, CHR 0x85], [CHR 0xE2, CHR 0x80, CHR 0x86],
      [CHR 0xE2, CHR 0x80, CHR 0x87], [CHR 0xE2, CHR 0x80, CHR 0x88], [CHR 0xE2, CHR 0x80, CHR 0x89],
      [CHR 0xE2, CHR 0x80, CHR 0x8A], [CHR 0xE2, CHR 0x80, CHR 0xA8], [CHR 0xE2, CHR 0x80, CHR 0xA9],
      [CHR 0xE2, CHR 0x80, CHR 0xAF], [CHR 0xE2, CHR 0x81, CHR 0x9F], [CHR 0xE3, CHR 0x80, CHR 0x80]]"

text \<open>Removing leading encodings of the list: \<open>trim\<close> does it at the front and, reversed, at the back.\<close>

function strip_front :: "string list \<Rightarrow> string \<Rightarrow> string" where
  "strip_front ws s =
     (case find (\<lambda>w. w \<noteq> [] \<and> prefix w s) ws of None \<Rightarrow> s | Some w \<Rightarrow> strip_front ws (drop (length w) s))"
  by pat_completeness auto
termination
  by (relation "measure (\<lambda>(ws, s). length s)") (auto simp: find_Some_iff prefix_def)

declare strip_front.simps [simp del]

definition trim :: "string \<Rightarrow> string" where
  "trim s = rev (strip_front (map rev white_space) (rev (strip_front white_space s)))"

section \<open>Paths\<close>

definition path_is_absolute :: "string \<Rightarrow> bool" where
  "path_is_absolute p = prefix ''/'' p"

text \<open>\<open>Path::join\<close>.\<close>

definition path_join :: "string \<Rightarrow> string \<Rightarrow> string" where
  "path_join base p =
     (if path_is_absolute p then p
      else if base = [] \<or> last base = CHR ''/'' then base @ p else base @ ''/'' @ p)"

text \<open>
  \<open>Path::parent\<close>: the root or a leading current directory is kept apart; behind it, empty and dot
  components do not count. \<open>path_body\<close> is where the components begin.
\<close>

definition path_body :: "string \<Rightarrow> nat" where
  "path_body p = (if prefix ''/'' p \<or> p = ''.'' \<or> prefix ''./'' p then 1 else 0)"

definition last_component :: "string \<Rightarrow> string" where
  "last_component body = rev (takeWhile (\<lambda>c. c \<noteq> CHR ''/'') (rev body))"

text \<open>The path without its last component and the separator in front of it.\<close>

definition cut_component :: "string \<Rightarrow> string" where
  "cut_component p =
     (let body = drop (path_body p) p; c = last_component body;
          n = length c + (if length c < length body then 1 else 0)
      in take (length p - n) p)"

definition has_component :: "string \<Rightarrow> bool" where
  "has_component p = (last_component (drop (path_body p) p) \<notin> {'''', ''.''})"

function trim_components :: "string \<Rightarrow> string" where
  "trim_components p = (if length p \<le> path_body p \<or> has_component p then p else trim_components (cut_component p))"
  by pat_completeness auto
termination
proof (relation "measure length")
  fix p assume a: "\<not> (length p \<le> path_body p \<or> has_component p)"
  let ?body = "drop (path_body p) p"
  have "length ?body > 0" using a by simp
  then have "0 < length (last_component ?body) + (if length (last_component ?body) < length ?body then 1 else 0)"
    by (cases "last_component ?body = []") (simp_all split: if_split)
  moreover have "min (length p) (length p - n) < length p" if "0 < n" for n using that a by (cases p) auto
  ultimately show "(cut_component p, p) \<in> measure length"
    by (simp only: cut_component_def Let_def in_measure length_take)
qed simp

declare trim_components.simps [simp del]

definition path_parent :: "string \<Rightarrow> string option" where
  "path_parent p =
     (let q = trim_components p in
      if length q > path_body q then Some (trim_components (cut_component q))
      else if path_is_absolute q \<or> q = '''' then None
      else Some '''')"

section \<open>Decimal numbers\<close>

definition dec_nat :: "string \<Rightarrow> nat" where
  "dec_nat s = foldl (\<lambda>n c. 10 * n + (of_char c - 48)) 0 s"

text \<open>
  \<open>f64::from_str\<close> on digits and points, the only strings it is given: at most one point, at least
  one digit, and the value is the nearest one.
\<close>

definition parse_f64_dec :: "string \<Rightarrow> f64 option" where
  "parse_f64_dec s =
     (let whole = takeWhile is_digit s; rest = drop (length whole) s in
      case rest of
        [] \<Rightarrow> if whole = [] then None else Some (round64 (of_nat (dec_nat whole)))
      | c # fp \<Rightarrow>
          if c = CHR ''.'' \<and> list_all is_digit fp \<and> (whole \<noteq> [] \<or> fp \<noteq> [])
          then Some (round64 (of_nat (dec_nat (whole @ fp)) / 10 ^ length fp)) else None)"

lemma of_char_digit: "d < 10 \<Longrightarrow> of_char (char_of (48 + d) :: char) = (48 + d :: nat)"
  by (simp add: of_char_of)

lemma nat_dec_nonempty [simp]: "nat_dec n \<noteq> []"
  by (subst nat_dec.simps) simp

lemma nat_dec_digits [simp]: "list_all is_digit (nat_dec n)"
proof (induction n rule: nat_dec.induct)
  case (1 n)
  have "is_digit (char_of (48 + d))" if "d < 10" for d :: nat using that by (simp add: is_digit_def of_char_digit)
  moreover have "n mod 10 < 10" by simp
  ultimately show ?case using 1 by (subst nat_dec.simps) simp
qed

lemma nat_dec_value [simp]: "dec_nat (nat_dec n) = n"
proof (induction n rule: nat_dec.induct)
  case (1 n)
  have "n mod 10 < 10" by simp
  then show ?case using 1 by (subst nat_dec.simps) (auto simp: dec_nat_def of_char_digit)
qed

lemma parse_f64_dec_digits:
  "list_all is_digit d \<Longrightarrow> d \<noteq> [] \<Longrightarrow> parse_f64_dec d = Some (round64 (of_nat (dec_nat d)))"
  by (simp add: parse_f64_dec_def takeWhile_eq_all_conv [THEN iffD2] list_all_iff Let_def)

end
