(* ===== verification/Dsl_Duration.thy ===== *)
theory Dsl_Duration
  imports Rust_Str
begin

text \<open>
  Durations of scenario files, \<open>simulator/src/dsl/duration.rs\<close>: a number with a unit, in nanoseconds.
  The sign in front of the number is skipped and has no effect.
\<close>

definition number_char :: "char \<Rightarrow> bool" where
  "number_char c = (is_digit c \<or> c = CHR ''_'' \<or> c = CHR ''.'')"

text \<open>The number without its sign, and the unit.\<close>

definition split_num_unit :: "string \<Rightarrow> (string \<times> string) result" where
  "split_num_unit s =
     (let body = (case s of c # rest \<Rightarrow> if c = CHR ''+'' \<or> c = CHR ''-'' then rest else s | [] \<Rightarrow> s);
          num = takeWhile number_char body in
      if num = [] then Inl (config_error (''duration missing number: '' @ [CHR 0x27] @ s @ [CHR 0x27]))
      else Inr (num, trim (drop (length num) body)))"

definition micro_sign :: string where "micro_sign = [CHR 0xC2, CHR 0xB5]"

definition unit_factor :: "string \<Rightarrow> f64 option" where
  "unit_factor u =
     (if u \<in> {'''', ''ns''} then Some (Fin 1)
      else if u \<in> {''us'', micro_sign @ ''s'', ''usec''} then Some (Fin 1000)
      else if u \<in> {''ms'', ''msec''} then Some (Fin 1000000)
      else if u \<in> {''s'', ''sec'', ''secs''} then Some (Fin 1000000000)
      else None)"

definition quoted :: "string \<Rightarrow> string" where
  "quoted s = [CHR 0x27] @ s @ [CHR 0x27]"

definition parse_duration_ns :: "string \<Rightarrow> u64 result" where
  "parse_duration_ns raw =
     (let s = trim raw in
      if s = '''' then Inl (config_error ''empty duration'')
      else try_bind (split_num_unit s) (\<lambda>(num_raw, u).
        (let num = filter (\<lambda>c. c \<noteq> CHR ''_'') num_raw in
         try_bind (ok_or (config_error (''unknown duration unit '' @ quoted u @ '' in '' @ quoted raw @ '' (use ns/us/ms/s)''))
             (unit_factor u)) (\<lambda>factor.
         try_bind (ok_or (config_error (''invalid duration number '' @ quoted num @ '' in '' @ quoted raw))
             (parse_f64_dec num)) (\<lambda>value.
         if \<not> is_finite value \<or> f64_less value (Fin 0)
         then Inl (config_error (''duration must be finite and '' @ [CHR 0xE2, CHR 0x89, CHR 0xA5] @ '' 0: '' @ quoted raw))
         else Inr (of_nat (f64_to_u64 (f64_round (f64_mul value factor)))))))))"

section \<open>Whole numbers\<close>

lemma strip_front_none: "(\<And>w. w \<in> set ws \<Longrightarrow> w \<noteq> [] \<Longrightarrow> \<not> prefix w s) \<Longrightarrow> strip_front ws s = s"
  by (subst strip_front.simps) (auto split: option.split simp: find_Some_iff)

lemma white_space_ends:
  "w \<in> set white_space \<Longrightarrow> \<not> number_char (hd w) \<and> hd w \<notin> {CHR ''+'', CHR ''-''}
    \<and> \<not> number_char (last w) \<and> last w \<noteq> CHR ''s'' \<and> w \<noteq> []"
  by (simp add: white_space_def is_digit_def number_char_def) (elim disjE; simp)

lemma trim_none:
  assumes "\<And>w. w \<in> set white_space \<Longrightarrow> \<not> prefix w s" "number_char (last s) \<or> last s = CHR ''s''"
  shows "trim s = s"
proof -
  have f: "strip_front white_space s = s" using assms(1) by (rule strip_front_none)
  have "\<not> prefix w (rev s)" if w: "w \<in> set (map rev white_space)" "w \<noteq> []" for w
  proof -
    obtain v where v: "v \<in> set white_space" "w = rev v" using w(1) by auto
    have "prefix w (rev s) \<Longrightarrow> last s = last v"
      using w(2) v(2) by (auto simp: suffix_to_prefix [symmetric] suffix_def)
    then show ?thesis using white_space_ends [OF v(1)] assms(2) by auto
  qed
  then have "strip_front (map rev white_space) (rev s) = rev s" by (rule strip_front_none)
  with f show ?thesis by (simp add: trim_def)
qed

text \<open>A sign, a digit, a point or an underscore does not begin a white-space character.\<close>

lemma trim_number:
  assumes "s \<noteq> []" "number_char (hd s) \<or> hd s \<in> {CHR ''+'', CHR ''-''}" "number_char (last s) \<or> last s = CHR ''s''"
  shows "trim s = s"
proof (rule trim_none [OF _ assms(3)])
  fix w assume "w \<in> set white_space"
  from white_space_ends [OF this] show "\<not> prefix w s" using assms(1,2) by (auto simp: prefix_def hd_append)
qed

definition duration_units :: "(string \<times> nat) list" where
  "duration_units =
     [('''', 1), (''ns'', 1), (''us'', 1000), (micro_sign @ ''s'', 1000), (''ms'', 1000000), (''s'', 1000000000)]"

lemma duration_units_trimmed:
  "list_all (\<lambda>(u, k). u = [] \<or> list_all (\<lambda>w. \<not> prefix w u) white_space) duration_units"
  by (simp add: duration_units_def white_space_def micro_sign_def)

lemma duration_unit_facts:
  assumes "(u, k) \<in> set duration_units"
  shows "unit_factor u = Some (Fin (of_nat k))" "u = [] \<or> \<not> number_char (hd u) \<and> last u = CHR ''s''"
    "trim u = u" "0 < k"
proof -
  have "list_all (\<lambda>(u, k). u = [] \<or> \<not> number_char (hd u) \<and> last u = CHR ''s'') duration_units"
    by (simp add: duration_units_def number_char_def is_digit_def micro_sign_def)
  then show s: "u = [] \<or> \<not> number_char (hd u) \<and> last u = CHR ''s''" using assms by (auto simp: list_all_iff)
  have "list_all (\<lambda>(u, k). unit_factor u = Some (Fin (of_nat k)) \<and> 0 < k) duration_units"
    by (simp add: duration_units_def micro_sign_def unit_factor_def)
  then show "unit_factor u = Some (Fin (of_nat k))" "0 < k" using assms by (auto simp: list_all_iff)
  show "trim u = u"
  proof (cases "u = []")
    case True
    then show ?thesis by (simp add: trim_def strip_front_none)
  next
    case False
    then show ?thesis using assms s duration_units_trimmed by (intro trim_none) (auto simp: list_all_iff)
  qed
qed

lemma split_num_unit_number:
  assumes "list_all number_char d" "d \<noteq> []" "u = [] \<or> \<not> number_char (hd u)" "sg \<in> {'''', ''+'', ''-''}"
  shows "split_num_unit (sg @ d @ u) = Inr (d, trim u)"
proof -
  have t: "takeWhile number_char (d @ u) = d"
    using assms(1,3) by (cases u) (auto simp: list_all_iff takeWhile_append2)
  have n: "hd d \<noteq> CHR ''+''" "hd d \<noteq> CHR ''-''" using assms(1,2) by (cases d; auto simp: number_char_def is_digit_def)+
  have b: "(case sg @ d @ u of c # rest \<Rightarrow> if c = CHR ''+'' \<or> c = CHR ''-'' then rest else sg @ d @ u | [] \<Rightarrow> sg @ d @ u) = d @ u"
    using assms(2,4) n by (cases d) auto
  show ?thesis unfolding split_num_unit_def b Let_def t using assms(2) by simp
qed

lemma f64_round_nat: "f64_round (Fin (of_nat n)) = Fin (of_nat n)"
proof -
  have "\<lfloor>(of_nat n :: rat) + 1 / 2\<rfloor> = int n" by (rule floor_unique) simp_all
  then show ?thesis by simp
qed

lemma f64_of_scaled:
  assumes "n * k < 2 ^ 53" "0 < k"
  shows "f64_to_u64 (f64_round (f64_mul (round64 (of_nat n)) (Fin (of_nat k)))) = n * k"
proof -
  have "n \<le> n * k" using assms(2) by simp
  then have n: "n < 2 ^ 53" using assms(1) by linarith
  have "f64_mul (round64 (of_nat n)) (Fin (of_nat k)) = Fin (of_nat (n * k))"
    using round64_nat [OF assms(1)] by (simp add: round64_nat [OF n])
  moreover have "f64_to_u64 (Fin (of_nat m)) = m" if "m < 2 ^ 53" for m using that by simp
  ultimately show ?thesis using assms(1) by (simp only: f64_round_nat)
qed

lemma parse_whole_number:
  assumes "(u, k) \<in> set duration_units" "list_all (\<lambda>c. is_digit c \<or> c = CHR ''_'') d"
    "filter (\<lambda>c. c \<noteq> CHR ''_'') d = nat_dec n" "n * k < 2 ^ 53" "sg \<in> {'''', ''+'', ''-''}"
  shows "parse_duration_ns (sg @ d @ u) = Inr (of_nat (n * k))"
proof -
  note u = duration_unit_facts [OF assms(1)]
  have d: "d \<noteq> []" "list_all number_char d"
    using assms(2,3) nat_dec_nonempty [of n] by (auto simp: number_char_def list_all_iff simp del: nat_dec_nonempty)
  then have "number_char (hd d)" "number_char (last d)" by (simp_all add: list_all_iff)
  then have "trim (sg @ d @ u) = sg @ d @ u"
    using d(1) u(2) assms(5) by (intro trim_number) (auto simp: last_append)
  moreover have "split_num_unit (sg @ d @ u) = Inr (d, u)"
    using split_num_unit_number [OF d(2,1) _ assms(5), of u] u(2,3) by auto
  moreover have "parse_f64_dec (nat_dec n) = Some (round64 (of_nat n))"
    using parse_f64_dec_digits [of "nat_dec n"] by simp
  moreover have "round64 (of_nat n) = Fin (of_nat n)"
    using assms(4) u(4) by (intro round64_nat) (metis le_less_trans mult_le_mono2 nat_mult_1_right Suc_leI One_nat_def)
  ultimately show ?thesis
    using d(1) u(1) assms(3) f64_of_scaled [OF assms(4) u(4)] by (simp add: parse_duration_ns_def ok_or_def)
qed

lemma char_of_nat_digit: "char_of (48 :: nat) = CHR ''0''" "char_of (49 :: nat) = CHR ''1''" "char_of (53 :: nat) = CHR ''5''"
  by code_simp+

text \<open>The default duration and tick of a scenario.\<close>

lemma parse_default_durations: "parse_duration_ns ''1s'' = Inr 1000000000" "parse_duration_ns ''1ms'' = Inr 1000000"
proof -
  have n: "filter (\<lambda>c. c \<noteq> CHR ''_'') ''1'' = nat_dec 1" by (simp add: nat_dec.simps char_of_nat_digit)
  have d: "list_all (\<lambda>c. is_digit c \<or> c = CHR ''_'') ''1''" by (simp add: is_digit_def)
  have u: "(''s'', 1000000000) \<in> set duration_units" "(''ms'', 1000000) \<in> set duration_units"
    by (simp_all add: duration_units_def)
  show "parse_duration_ns ''1s'' = Inr 1000000000" "parse_duration_ns ''1ms'' = Inr 1000000"
    using parse_whole_number [OF u(1) d n, of "''''"] parse_whole_number [OF u(2) d n, of "''''"] by simp_all
qed

section \<open>Properties\<close>

text \<open>
  (C30) A whole number, with underscores between its digits if one likes, and a unit is that number of
  units in nanoseconds, exactly, as long as the result has at most 53 bits. A sign in front of it is
  skipped: a negative duration is not refused but read as the positive one.
\<close>

theorem duration_exact:
  assumes "(u, k) \<in> set duration_units" "list_all (\<lambda>c. is_digit c \<or> c = CHR ''_'') d"
    "filter (\<lambda>c. c \<noteq> CHR ''_'') d = nat_dec n" "n * k < 2 ^ 53" "sg \<in> {'''', ''+'', ''-''}"
  shows "parse_duration_ns (sg @ d @ u) = Inr (of_nat (n * k))"
  by (rule parse_whole_number [OF assms])

lemma duration_exact_witness: "parse_duration_ns ''-1_500ms'' = Inr 1500000000"
proof -
  have n: "filter (\<lambda>c. c \<noteq> CHR ''_'') ''1_500'' = nat_dec 1500" by (simp add: nat_dec.simps char_of_nat_digit)
  have d: "list_all (\<lambda>c. is_digit c \<or> c = CHR ''_'') ''1_500''" by (simp add: is_digit_def)
  have "(''ms'', 1000000) \<in> set duration_units" by (simp add: duration_units_def)
  from duration_exact [OF this d n, of "''-''"] show ?thesis by simp
qed

end
