(* ===== verification/Dsl_Doc.thy ===== *)
theory Dsl_Doc
  imports Rust_Str
begin

text \<open>
  A scenario document as it is parsed, \<open>simulator/src/dsl/doc.rs\<close>: the records that the TOML library
  fills, with the values it takes where a field or a table is absent. A value of unknown type in the
  document is one of the library's values; the program looks only at strings and integers.
\<close>

datatype toml_value = TomlString string | TomlInteger "64 word" | TomlOther string

section \<open>Default values\<close>

definition default_duration :: string where "default_duration = ''1s''"
definition default_tick :: string where "default_tick = ''1ms''"
definition default_clock :: string where "default_clock = ''virtual''"
definition default_mode :: string where "default_mode = ''trace''"
definition default_true :: bool where "default_true = True"
definition default_batch :: nat where "default_batch = 64"
definition default_udp_port :: u16 where "default_udp_port = 9000"
definition default_pattern :: string where "default_pattern = ''fixed''"
definition default_payload_kind :: string where "default_payload_kind = ''fixed_seq''"
definition default_replay :: string where "default_replay = ''full''"
definition default_scale :: f64 where "default_scale = Fin 1"
definition default_frame :: string where "default_frame = ''delimiter''"
definition default_ring_name :: string where "default_ring_name = ''ring0''"
definition default_slots :: nat where "default_slots = 4096"
definition default_engine :: string where "default_engine = ''rhai''"

section \<open>Tables\<close>

record meta_doc =
  md_name :: string
  md_description :: string
  md_duration :: string
  md_tick :: string
  md_clock :: string
  md_mode :: string
  md_seed :: u64
  md_simulated :: bool

record traffic_doc =
  td_pattern :: string
  td_pps :: "u64 option"
  td_burst_size :: "nat option"
  td_gap :: "string option"
  td_mean_pps :: "f64 option"
  td_std_pps :: "f64 option"
  td_seed :: "u64 option"

text \<open>The derived \<open>Default\<close>: what an absent table becomes. The pattern is empty.\<close>

definition traffic_doc_default :: traffic_doc where
  "traffic_doc_default =
     \<lparr>td_pattern = '''', td_pps = None, td_burst_size = None, td_gap = None, td_mean_pps = None,
      td_std_pps = None, td_seed = None\<rparr>"

record payload_doc =
  pd_kind :: string
  pd_size :: "nat option"
  pd_seed :: "u64 option"
  pd_mean :: "f64 option"
  pd_std_dev :: "f64 option"
  pd_max :: "nat option"
  pd_proto :: "string option"
  pd_symbol :: "string option"

definition payload_doc_default :: payload_doc where
  "payload_doc_default =
     \<lparr>pd_kind = default_payload_kind, pd_size = Some 8, pd_seed = None, pd_mean = None, pd_std_dev = None,
      pd_max = None, pd_proto = None, pd_symbol = None\<rparr>"

record fault_doc =
  fd_drop_rate :: f64
  fd_corrupt_rate :: f64
  fd_latency_spike_rate :: f64
  fd_latency_spike :: "string option"
  fd_seed :: "u64 option"
  fd_malformed_rate :: f64

definition fault_doc_default :: fault_doc where
  "fault_doc_default =
     \<lparr>fd_drop_rate = Fin 0, fd_corrupt_rate = Fin 0, fd_latency_spike_rate = Fin 0, fd_latency_spike = None,
      fd_seed = None, fd_malformed_rate = Fin 0\<rparr>"

record nic_doc =
  nd_name :: string
  nd_batch_size :: nat
  nd_udp_port :: u16
  nd_traffic :: traffic_doc
  nd_payload :: payload_doc
  nd_fault :: fault_doc

record pcap_doc =
  pcd_name :: string
  pcd_path :: string
  pcd_replay :: string
  pcd_scale :: f64
  pcd_loop :: bool
  pcd_fault :: fault_doc

record storage_doc =
  std_name :: string
  std_path :: string
  std_frame :: string
  std_replay :: string

record fabric_doc =
  fbd_name :: string
  fbd_slots :: nat
  fbd_max_frame :: "nat option"

record consumer_doc =
  cd_name :: string
  cd_max_per_drain :: "toml_value option"
  cd_drain_delay :: "string option"

record timeline_doc =
  tld_at :: string
  tld_action :: string
  tld_nic :: "string option"
  tld_consumer :: "string option"
  tld_pattern :: "string option"
  tld_pps :: "u64 option"
  tld_burst_size :: "nat option"
  tld_gap :: "string option"
  tld_mean_pps :: "f64 option"
  tld_std_pps :: "f64 option"
  tld_seed :: "u64 option"
  tld_drop_rate :: "f64 option"
  tld_corrupt_rate :: "f64 option"
  tld_latency_spike_rate :: "f64 option"
  tld_latency_spike :: "string option"
  tld_max_per_drain :: "toml_value option"

record edu_doc =
  ead_paused_start :: bool
  ead_breakpoint_tick :: "nat option"
  ead_breakpoint_ns :: "string option"

definition edu_doc_default :: edu_doc where
  "edu_doc_default = \<lparr>ead_paused_start = False, ead_breakpoint_tick = None, ead_breakpoint_ns = None\<rparr>"

record trace_doc =
  trd_events :: bool
  trd_metrics :: bool

definition trace_doc_default :: trace_doc where
  "trace_doc_default = \<lparr>trd_events = True, trd_metrics = True\<rparr>"

record script_doc =
  scd_engine :: string
  scd_source :: "string option"
  scd_path :: "string option"

record scenario_doc =
  sdoc_scenario :: meta_doc
  sdoc_nic :: "nic_doc list"
  sdoc_pcap :: "pcap_doc list"
  sdoc_storage :: "storage_doc list"
  sdoc_fabric :: "fabric_doc option"
  sdoc_consumer :: "consumer_doc list"
  sdoc_timeline :: "timeline_doc list"
  sdoc_edu :: "edu_doc option"
  sdoc_trace :: "trace_doc option"
  sdoc_script :: "script_doc option"

text \<open>
  Tables that give only their required fields: what \<open>#[serde(default)]\<close> and \<open>#[serde(default = "...")]\<close>
  make of the others.
\<close>

definition meta_named :: "string \<Rightarrow> meta_doc" where
  "meta_named name =
     \<lparr>md_name = name, md_description = '''', md_duration = default_duration, md_tick = default_tick,
      md_clock = default_clock, md_mode = default_mode, md_seed = 0, md_simulated = default_true\<rparr>"

definition traffic_table :: traffic_doc where
  "traffic_table = traffic_doc_default\<lparr>td_pattern := default_pattern\<rparr>"

definition nic_named :: "string \<Rightarrow> nic_doc" where
  "nic_named name =
     \<lparr>nd_name = name, nd_batch_size = default_batch, nd_udp_port = default_udp_port,
      nd_traffic = traffic_doc_default, nd_payload = payload_doc_default, nd_fault = fault_doc_default\<rparr>"

definition pcap_named :: "string \<Rightarrow> string \<Rightarrow> pcap_doc" where
  "pcap_named name path =
     \<lparr>pcd_name = name, pcd_path = path, pcd_replay = default_replay, pcd_scale = default_scale, pcd_loop = False,
      pcd_fault = fault_doc_default\<rparr>"

definition fabric_table :: fabric_doc where
  "fabric_table = \<lparr>fbd_name = default_ring_name, fbd_slots = default_slots, fbd_max_frame = None\<rparr>"

definition consumer_named :: "string \<Rightarrow> consumer_doc" where
  "consumer_named name = \<lparr>cd_name = name, cd_max_per_drain = None, cd_drain_delay = None\<rparr>"

definition timeline_entry :: "string \<Rightarrow> string \<Rightarrow> timeline_doc" where
  "timeline_entry tm action =
     \<lparr>tld_at = tm, tld_action = action, tld_nic = None, tld_consumer = None, tld_pattern = None, tld_pps = None,
      tld_burst_size = None, tld_gap = None, tld_mean_pps = None, tld_std_pps = None, tld_seed = None,
      tld_drop_rate = None, tld_corrupt_rate = None, tld_latency_spike_rate = None, tld_latency_spike = None,
      tld_max_per_drain = None\<rparr>"

definition script_table :: script_doc where
  "script_table = \<lparr>scd_engine = default_engine, scd_source = None, scd_path = None\<rparr>"

definition scenario_doc_of :: "meta_doc \<Rightarrow> scenario_doc" where
  "scenario_doc_of m =
     \<lparr>sdoc_scenario = m, sdoc_nic = [], sdoc_pcap = [], sdoc_storage = [], sdoc_fabric = None, sdoc_consumer = [],
      sdoc_timeline = [], sdoc_edu = None, sdoc_trace = None, sdoc_script = None\<rparr>"

end
