(* ===== verification/Scenario.thy ===== *)
theory Scenario
  imports Sim_Traffic
begin

text \<open>
  Scenarios and timelines: \<open>simulator/src/scenario.rs\<close> (the description of a run and the built-in
  ones, by name) and \<open>timeline.rs\<close> (actions at a virtual time). Durations are nanoseconds.
\<close>

record scenario =
  sc_name :: string
  sc_description :: string
  sc_traffic :: traffic_config
  sc_fault :: fault_spec
  sc_duration :: nat
  sc_clock_mode :: clock_mode
  sc_tick_ns :: u64

definition scenario_default :: scenario where
  "scenario_default =
     \<lparr>sc_name = ''default'', sc_description = ''Default scenario: 1 kpps, no faults, 1 second.'',
      sc_traffic = traffic_config_default, sc_fault = fault_spec_default, sc_duration = 10 ^ 9,
      sc_clock_mode = Virtual 0, sc_tick_ns = 1000000\<rparr>"

definition scen_constant_rate :: scenario where
  "scen_constant_rate =
     \<lparr>sc_name = ''constant_rate'', sc_description = ''Steady 100 kpps, no faults, 1 second virtual time.'',
      sc_traffic = \<lparr>tc_pattern = TpFixedRate 100000, tc_payload_size = 8, tc_batch_size = 128, tc_payload = FixedSeq\<rparr>,
      sc_fault = fault_spec_default, sc_duration = 10 ^ 9, sc_clock_mode = Virtual 0, sc_tick_ns = 1000000\<rparr>"

definition scen_market_open_burst :: scenario where
  "scen_market_open_burst =
     \<lparr>sc_name = ''market_open_burst'', sc_description = ''10k-packet bursts with 1 ms gap, 5 seconds.'',
      sc_traffic = market_open_burst, sc_fault = fault_spec_default, sc_duration = 5 * 10 ^ 9,
      sc_clock_mode = Virtual 0, sc_tick_ns = 1000000\<rparr>"

definition scen_queue_overflow :: scenario where
  "scen_queue_overflow =
     \<lparr>sc_name = ''queue_overflow'', sc_description = ''Saturating rate with a tiny ring to trigger overflow.'',
      sc_traffic = \<lparr>tc_pattern = TpFullSpeed, tc_payload_size = 8, tc_batch_size = 256, tc_payload = FixedSeq\<rparr>,
      sc_fault = fault_spec_default, sc_duration = 10 ^ 8, sc_clock_mode = Virtual 0, sc_tick_ns = 100000\<rparr>"

definition scen_packet_loss :: scenario where
  "scen_packet_loss =
     \<lparr>sc_name = ''packet_loss'', sc_description = ''10 kpps with 5% random drop rate.'',
      sc_traffic = \<lparr>tc_pattern = TpFixedRate 10000, tc_payload_size = 8, tc_batch_size = 64, tc_payload = FixedSeq\<rparr>,
      sc_fault = fault_spec_default\<lparr>fp_drop_rate := round64 (1 / 20)\<rparr>, sc_duration = 10 ^ 10,
      sc_clock_mode = Virtual 0, sc_tick_ns = 1000000\<rparr>"

definition scen_slow_consumer :: scenario where
  "scen_slow_consumer =
     \<lparr>sc_name = ''slow_consumer'',
      sc_description = ''1 kpps with 10% 500 '' @ [CHR 0xC2, CHR 0xB5] @ ''s latency spikes.'',
      sc_traffic = \<lparr>tc_pattern = TpFixedRate 1000, tc_payload_size = 8, tc_batch_size = 16, tc_payload = FixedSeq\<rparr>,
      sc_fault = fault_spec_default\<lparr>fp_latency_spike_rate := round64 (1 / 10), fp_latency_spike_ns := 500000\<rparr>,
      sc_duration = 10 ^ 9, sc_clock_mode = Virtual 0, sc_tick_ns = 1000000\<rparr>"

definition scen_corrupt_packets :: scenario where
  "scen_corrupt_packets =
     \<lparr>sc_name = ''corrupt_packets'', sc_description = ''1 kpps with 1% packet corruption rate.'',
      sc_traffic = \<lparr>tc_pattern = TpFixedRate 1000, tc_payload_size = 32, tc_batch_size = 16, tc_payload = FixedSeq\<rparr>,
      sc_fault = fault_spec_default\<lparr>fp_corrupt_rate := round64 (1 / 100)\<rparr>,
      sc_duration = 10 ^ 9, sc_clock_mode = Virtual 0, sc_tick_ns = 1000000\<rparr>"

definition scen_gaussian_rate :: scenario where
  "scen_gaussian_rate =
     \<lparr>sc_name = ''gaussian_rate'', sc_description = ''Gaussian arrivals ~ N(50k, 10k) pps, 1 second.'',
      sc_traffic = gaussian_rate, sc_fault = fault_spec_default, sc_duration = 10 ^ 9,
      sc_clock_mode = Virtual 0, sc_tick_ns = 1000000\<rparr>"

definition scen_protocol_quotes :: scenario where
  "scen_protocol_quotes =
     \<lparr>sc_name = ''protocol_quotes'', sc_description = ''10 kpps binary market-quote payloads (AAPL).'',
      sc_traffic = protocol_quotes, sc_fault = fault_spec_default, sc_duration = 10 ^ 9,
      sc_clock_mode = Virtual 0, sc_tick_ns = 1000000\<rparr>"

definition scenario_by_name :: "string \<Rightarrow> scenario option" where
  "scenario_by_name name =
     (if name = ''constant_rate'' then Some scen_constant_rate
      else if name = ''market_open_burst'' then Some scen_market_open_burst
      else if name = ''queue_overflow'' then Some scen_queue_overflow
      else if name = ''packet_loss'' then Some scen_packet_loss
      else if name = ''slow_consumer'' then Some scen_slow_consumer
      else if name = ''corrupt_packets'' then Some scen_corrupt_packets
      else if name = ''gaussian_rate'' then Some scen_gaussian_rate
      else if name = ''protocol_quotes'' then Some scen_protocol_quotes
      else if name = ''default'' then Some scenario_default
      else None)"

definition builtin_names :: "string list" where
  "builtin_names =
     [''constant_rate'', ''market_open_burst'', ''queue_overflow'', ''packet_loss'', ''slow_consumer'',
      ''corrupt_packets'', ''gaussian_rate'', ''protocol_quotes'']"

text \<open>Every built-in name resolves, to a scenario of that name.\<close>

lemma builtin_names_resolve:
  "list_all (\<lambda>n. map_option sc_name (scenario_by_name n) = Some n) builtin_names"
  by (simp add: builtin_names_def scenario_by_name_def scen_constant_rate_def scen_market_open_burst_def
      scen_queue_overflow_def scen_packet_loss_def scen_slow_consumer_def scen_corrupt_packets_def
      scen_gaussian_rate_def scen_protocol_quotes_def)

section \<open>Timelines\<close>

datatype timeline_action =
    SetTraffic (ta_at_ns: u64) string traffic_config
  | SetFault (ta_at_ns: u64) string fault_spec
  | SlowConsumer (ta_at_ns: u64) string nat

end
