(* ===== verification/Virtual_Ring.thy ===== *)
theory Virtual_Ring
  imports Sim_Base Fifo Spsc_Ring
begin

text \<open>
  The simulator's in-process ring, \<open>VirtualSharedMemory\<close> of \<open>simulator/src/ring.rs\<close>, and the consumers
  that drain it, \<open>VirtualConsumer\<close> of \<open>consumer.rs\<close>. The constructor accepts any positive capacity. A ring
  whose capacity divides \<open>2 ^ 64\<close> provides the \<open>bounded_fifo\<close> contract for ever; a ring of any other
  capacity is a queue until its head counter has gone through \<open>2 ^ 64\<close>, where the slot index jumps
  (\<open>vr_wrap_overwrites\<close>).
\<close>

datatype ring_error = RingFull | RingOversized

record virtual_ring =
  vr_name :: string
  vr_slots :: "bytes list"
  vr_lens :: "nat list"
  vr_capacity :: nat
  vr_max_payload :: nat
  vr_head :: u64
  vr_tail :: u64
  vr_next_seq :: u64
  vr_writes :: nat
  vr_overflows :: nat

text \<open>The constructor panics (\<open>None\<close>) on a zero size.\<close>

definition virtual_ring_new :: "string \<Rightarrow> nat \<Rightarrow> nat \<Rightarrow> virtual_ring option" where
  "virtual_ring_new name cap max_payload =
     (if cap > 0 \<and> max_payload > 0
      then Some \<lparr>vr_name = name, vr_slots = replicate cap (replicate max_payload 0), vr_lens = replicate cap 0,
             vr_capacity = cap, vr_max_payload = max_payload, vr_head = 0, vr_tail = 0, vr_next_seq = 0,
             vr_writes = 0, vr_overflows = 0\<rparr>
      else None)"

definition vr_len :: "virtual_ring \<Rightarrow> nat" where
  "vr_len r = unat (vr_head r - vr_tail r)"

definition vr_is_empty :: "virtual_ring \<Rightarrow> bool" where
  "vr_is_empty r = (vr_head r = vr_tail r)"

definition vr_occupancy :: "virtual_ring \<Rightarrow> f64" where
  "vr_occupancy r =
     f64_div_pos (f64_of_nat (vr_len r)) (case f64_of_nat (vr_capacity r) of Fin q \<Rightarrow> q | _ \<Rightarrow> 1)"

definition vr_try_push :: "bytes \<Rightarrow> virtual_ring \<Rightarrow> (ring_error + u64) \<times> virtual_ring" where
  "vr_try_push data r =
     (if length data > vr_max_payload r then (Inl RingOversized, r)
      else if vr_len r = vr_capacity r then (Inl RingFull, r\<lparr>vr_overflows := vr_overflows r + 1\<rparr>)
      else
        (let idx = unat (vr_head r) mod vr_capacity r in
         (Inr (vr_next_seq r),
          r\<lparr>vr_slots := (vr_slots r)[idx := write_at 0 data (vr_slots r ! idx)],
            vr_lens := (vr_lens r)[idx := length data],
            vr_head := vr_head r + 1, vr_next_seq := vr_next_seq r + 1, vr_writes := vr_writes r + 1\<rparr>)))"

text \<open>\<open>try_pop\<close>: the payload that \<open>out\<close> holds afterwards (its length is the code's result).\<close>

definition vr_try_pop :: "virtual_ring \<Rightarrow> bytes option \<times> virtual_ring" where
  "vr_try_pop r =
     (if vr_is_empty r then (None, r)
      else
        (let idx = unat (vr_tail r) mod vr_capacity r in
         (Some (take (vr_lens r ! idx) (vr_slots r ! idx)), r\<lparr>vr_tail := vr_tail r + 1\<rparr>)))"

definition vr_peek :: "nat \<Rightarrow> virtual_ring \<Rightarrow> bytes option" where
  "vr_peek offset r =
     (if offset \<ge> vr_len r then None
      else (let idx = unat (vr_tail r + of_nat offset) mod vr_capacity r
            in Some (take (vr_lens r ! idx) (vr_slots r ! idx))))"

section \<open>Invariant and contents\<close>

text \<open>
  \<open>vr_ok\<close> is the shape of a ring of any capacity; \<open>vr_flat k\<close> says that the slot indices stay in step
  for \<open>k\<close> more pushes, and \<open>vr_inv\<close> that they do so for ever.
\<close>

definition vr_ok :: "virtual_ring \<Rightarrow> bool" where
  "vr_ok r \<longleftrightarrow> 0 < vr_capacity r \<and> vr_capacity r < 2 ^ 64
     \<and> length (vr_slots r) = vr_capacity r \<and> length (vr_lens r) = vr_capacity r
     \<and> (\<forall>s \<in> set (vr_slots r). length s = vr_max_payload r) \<and> (\<forall>n \<in> set (vr_lens r). n \<le> vr_max_payload r)
     \<and> vr_len r \<le> vr_capacity r"

definition vr_flat :: "nat \<Rightarrow> virtual_ring \<Rightarrow> bool" where
  "vr_flat k r \<longleftrightarrow> vr_capacity r dvd 2 ^ 64 \<or> unat (vr_tail r) + vr_len r + k \<le> 2 ^ 64"

definition vr_inv :: "virtual_ring \<Rightarrow> bool" where
  "vr_inv r \<longleftrightarrow> vr_ok r \<and> vr_capacity r dvd 2 ^ 64"

definition vr_idx :: "virtual_ring \<Rightarrow> nat \<Rightarrow> nat" where
  "vr_idx r i = unat (vr_tail r + of_nat i) mod vr_capacity r"

definition vr_slot :: "virtual_ring \<Rightarrow> nat \<Rightarrow> bytes" where
  "vr_slot r idx = take (vr_lens r ! idx) (vr_slots r ! idx)"

definition vr_contents :: "virtual_ring \<Rightarrow> bytes list" where
  "vr_contents r = map (\<lambda>i. vr_slot r (vr_idx r i)) [0..<vr_len r]"

definition vr_fits :: "virtual_ring \<Rightarrow> bytes \<Rightarrow> bool" where
  "vr_fits r data = (length data \<le> vr_max_payload r)"

definition vr_enq :: "bytes \<Rightarrow> virtual_ring \<Rightarrow> bool \<times> virtual_ring" where
  "vr_enq data r = (let (res, r1) = vr_try_push data r in (\<not> isl res, r1))"

lemma vr_ok_new:
  "virtual_ring_new name cap m = Some r \<Longrightarrow> cap < 2 ^ 64 \<Longrightarrow>
     vr_ok r \<and> vr_contents r = [] \<and> vr_tail r = 0 \<and> vr_len r = 0"
  by (auto simp: virtual_ring_new_def vr_ok_def vr_len_def vr_contents_def split: if_splits)

lemma vr_inv_new [inv_intros]:
  "virtual_ring_new name cap m = Some r \<Longrightarrow> cap < 2 ^ 64 \<Longrightarrow> cap dvd 2 ^ 64 \<Longrightarrow> vr_inv r \<and> vr_contents r = []"
  using vr_ok_new [of name cap m r] by (auto simp: vr_inv_def virtual_ring_new_def split: if_splits)

lemma vr_inv_simps: "vr_inv r \<Longrightarrow> vr_ok r" "vr_inv r \<Longrightarrow> vr_flat k r"
  by (simp_all add: vr_inv_def vr_flat_def)

lemma vr_idx_less: "vr_ok r \<Longrightarrow> vr_idx r i < vr_capacity r"
  by (simp add: vr_ok_def vr_idx_def)

text \<open>Wrapping at \<open>2 ^ 64\<close> does not disturb an index modulo a divisor of it.\<close>

lemma unat_add_mod_dvd:
  assumes "c dvd 2 ^ 64"
  shows "unat (a + of_nat n :: u64) mod c = (unat a + n) mod c"
proof -
  have "unat (a + of_nat n :: u64) = (unat a + n) mod 2 ^ 64"
    by (simp add: unat_word_ariths(1) unat_of_nat mod_simps)
  then show ?thesis using assms by (simp add: mod_mod_cancel)
qed

lemma vr_idx_eq:
  assumes "vr_flat (Suc k) r" "i \<le> vr_len r"
  shows "vr_idx r i = (unat (vr_tail r) + i) mod vr_capacity r"
proof (cases "vr_capacity r dvd 2 ^ 64")
  case True
  then show ?thesis by (simp add: vr_idx_def unat_add_mod_dvd)
next
  case False
  then have "unat (vr_tail r) + i < 2 ^ 64" using assms by (simp add: vr_flat_def)
  then have "unat (vr_tail r + of_nat i) = unat (vr_tail r) + i"
    by (simp add: unat_word_ariths(1) unat_of_nat mod_simps)
  then show ?thesis by (simp add: vr_idx_def)
qed

lemma vr_idx_inj:
  "vr_flat (Suc k) r \<Longrightarrow> vr_len r < vr_capacity r \<Longrightarrow> i \<le> vr_len r \<Longrightarrow> j \<le> vr_len r \<Longrightarrow> vr_idx r i = vr_idx r j \<Longrightarrow> i = j"
  by (rule add_mod_inj_below [of i "vr_capacity r" j "unat (vr_tail r)"]) (simp_all add: vr_idx_eq)

lemma vr_head_idx: "unat (vr_head r) mod vr_capacity r = vr_idx r (vr_len r)"
  by (simp add: vr_idx_def vr_len_def)

lemma vr_push_ok:
  assumes ok: "vr_ok r" and flat: "vr_flat (Suc k) r" and fits: "length data \<le> vr_max_payload r"
    and room: "vr_len r < vr_capacity r"
  defines "r' \<equiv> snd (vr_try_push data r)"
  shows "fst (vr_try_push data r) = Inr (vr_next_seq r)" "vr_contents r' = vr_contents r @ [data]" "vr_ok r'"
    "vr_flat k r'" "vr_capacity r' = vr_capacity r" "vr_max_payload r' = vr_max_payload r"
    "vr_next_seq r' = vr_next_seq r + 1" "vr_overflows r' = vr_overflows r"
proof -
  let ?i = "vr_idx r (vr_len r)"
  have i: "?i < vr_capacity r" by (rule vr_idx_less [OF ok])
  have r': "r' = r\<lparr>vr_slots := (vr_slots r)[?i := write_at 0 data (vr_slots r ! ?i)],
            vr_lens := (vr_lens r)[?i := length data],
            vr_head := vr_head r + 1, vr_next_seq := vr_next_seq r + 1, vr_writes := vr_writes r + 1\<rparr>"
    using fits room vr_head_idx [of r] by (simp add: r'_def vr_try_push_def Let_def)
  show "fst (vr_try_push data r) = Inr (vr_next_seq r)" using fits room by (simp add: vr_try_push_def Let_def)
  show same_cap: "vr_capacity r' = vr_capacity r" and "vr_max_payload r' = vr_max_payload r"
    "vr_next_seq r' = vr_next_seq r + 1" "vr_overflows r' = vr_overflows r" by (simp_all add: r')
  have "vr_capacity r < 2 ^ 64" using ok by (simp add: vr_ok_def)
  then have "unat (vr_head r - vr_tail r) + unat (1 :: u64) < 2 ^ 64" using room by (simp add: vr_len_def)
  then have "unat (vr_head r - vr_tail r + 1) = Suc (vr_len r)"
    using unat_add_exact [of "vr_head r - vr_tail r" 1] by (simp add: vr_len_def)
  then have len: "vr_len r' = Suc (vr_len r)" by (simp add: r' vr_len_def diff_add_eq)
  show "vr_flat k r'" using flat len by (simp add: vr_flat_def r')
  have slot_len: "length (vr_slots r ! ?i) = vr_max_payload r" using ok i by (simp add: vr_ok_def)
  have idx: "vr_idx r' j = vr_idx r j" for j by (simp add: r' vr_idx_def)
  have same: "vr_slot r' (vr_idx r j) = vr_slot r (vr_idx r j)" if "j < vr_len r" for j
  proof -
    have "vr_idx r j \<noteq> ?i" using vr_idx_inj [OF flat room, of j "vr_len r"] that by auto
    then show ?thesis by (simp add: r' vr_slot_def)
  qed
  have "vr_slot r' ?i = data"
    using i ok by (simp add: r' vr_slot_def vr_ok_def write_at_def)
  then show "vr_contents r' = vr_contents r @ [data]"
    using same by (simp add: vr_contents_def len idx cong: map_cong)
  have wl: "length (write_at 0 data (vr_slots r ! ?i)) = vr_max_payload r"
    using fits slot_len by (simp add: write_at_def)
  have s: "\<forall>s \<in> set (vr_slots r'). length s = vr_max_payload r"
    using wl ok set_update_subset_insert [of "vr_slots r" ?i "write_at 0 data (vr_slots r ! ?i)"]
    by (auto simp: r' vr_ok_def)
  have n: "\<forall>n \<in> set (vr_lens r'). n \<le> vr_max_payload r"
    using fits ok set_update_subset_insert [of "vr_lens r" ?i "length data"] by (auto simp: r' vr_ok_def)
  show "vr_ok r'"
    using ok len room s n by (simp add: vr_ok_def r')
qed

lemma vr_push_room:
  assumes "vr_inv r" "length data \<le> vr_max_payload r" "vr_len r < vr_capacity r"
  defines "r' \<equiv> snd (vr_try_push data r)"
  shows "fst (vr_try_push data r) = Inr (vr_next_seq r)" "vr_contents r' = vr_contents r @ [data]" "vr_inv r'"
    "vr_capacity r' = vr_capacity r" "vr_max_payload r' = vr_max_payload r"
  using vr_push_ok [OF vr_inv_simps [OF assms(1)] assms(2,3)] assms(1) unfolding r'_def by (simp_all add: vr_inv_def)

lemma vr_push_full:
  "length data \<le> vr_max_payload r \<Longrightarrow> vr_len r = vr_capacity r \<Longrightarrow>
    vr_try_push data r = (Inl RingFull, r\<lparr>vr_overflows := vr_overflows r + 1\<rparr>)"
  by (simp add: vr_try_push_def)

lemma vr_overflows_frame [simp]:
  "vr_inv (r\<lparr>vr_overflows := n\<rparr>) = vr_inv r" "vr_contents (r\<lparr>vr_overflows := n\<rparr>) = vr_contents r"
  "vr_ok (r\<lparr>vr_overflows := n\<rparr>) = vr_ok r" "vr_flat k (r\<lparr>vr_overflows := n\<rparr>) = vr_flat k r"
  by (simp_all add: vr_inv_def vr_ok_def vr_flat_def vr_contents_def vr_len_def vr_slot_def vr_idx_def)

lemma length_vr_contents [simp]: "length (vr_contents r) = vr_len r"
  by (simp add: vr_contents_def)

lemma vr_empty_iff: "vr_is_empty r \<longleftrightarrow> vr_contents r = []"
  by (simp add: vr_is_empty_def vr_contents_def vr_len_def unat_eq_0)

lemma vr_pop_ok:
  assumes ok: "vr_ok r" and flat: "vr_flat k r" and ne: "\<not> vr_is_empty r"
  shows "\<exists>x r'. vr_try_pop r = (Some x, r') \<and> vr_contents r = x # vr_contents r' \<and> vr_ok r' \<and> vr_flat k r'
    \<and> vr_capacity r' = vr_capacity r \<and> vr_max_payload r' = vr_max_payload r \<and> vr_next_seq r' = vr_next_seq r
    \<and> vr_overflows r' = vr_overflows r"
proof -
  let ?r = "r\<lparr>vr_tail := vr_tail r + 1\<rparr>"
  have p: "vr_try_pop r = (Some (vr_slot r (vr_idx r 0)), ?r)"
    using ne by (simp add: vr_try_pop_def vr_slot_def vr_idx_def Let_def)
  have "vr_head r - vr_tail r \<noteq> 0" using ne by (simp add: vr_is_empty_def)
  then have "unat (vr_head r - vr_tail r - 1) = vr_len r - 1" "0 < vr_len r"
    by (simp_all add: unat_minus_one vr_len_def unat_gt_0)
  then have len: "vr_len r = Suc (vr_len ?r)" by (simp add: vr_len_def diff_diff_eq)
  have idx: "vr_idx ?r i = vr_idx r (Suc i)" for i by (simp add: vr_idx_def add.assoc)
  have "vr_contents r = vr_slot r (vr_idx r 0) # map (\<lambda>i. vr_slot r (vr_idx r (Suc i))) [0..<vr_len ?r]"
    unfolding vr_contents_def len by (simp add: upt_conv_Cons map_Suc_upt [symmetric] o_def del: upt_Suc)
  moreover have "vr_slot ?r = vr_slot r" by (simp add: vr_slot_def fun_eq_iff)
  ultimately have "vr_contents r = vr_slot r (vr_idx r 0) # vr_contents ?r"
    by (simp add: vr_contents_def idx)
  moreover have "vr_ok ?r" using ok len by (simp add: vr_ok_def)
  moreover have "unat (vr_tail r + 1) \<le> unat (vr_tail r) + 1"
    by (simp add: unat_word_ariths(1))
  then have "vr_flat k ?r" using flat len by (auto simp: vr_flat_def)
  ultimately show ?thesis using p by simp
qed

lemma vr_pop_some:
  assumes "vr_inv r" "\<not> vr_is_empty r"
  shows "\<exists>x r'. vr_try_pop r = (Some x, r') \<and> vr_contents r = x # vr_contents r' \<and> vr_inv r'
    \<and> vr_capacity r' = vr_capacity r \<and> vr_max_payload r' = vr_max_payload r"
  using vr_pop_ok [OF vr_inv_simps(1) [OF assms(1)] vr_inv_simps(2) [OF assms(1), of 0] assms(2)] assms(1)
  by (fastforce simp: vr_inv_def)

interpretation sim: bounded_fifo vr_inv vr_contents vr_capacity vr_fits vr_enq vr_try_pop
proof
  fix r :: virtual_ring and x :: bytes
  assume inv: "vr_inv r"
  show "length (vr_contents r) \<le> vr_capacity r" using inv by (simp add: vr_inv_def vr_ok_def)
  show "fst (vr_try_pop r) = (case vr_contents r of [] \<Rightarrow> None | x # _ \<Rightarrow> Some x)"
    "vr_contents (snd (vr_try_pop r)) = tl (vr_contents r)"
    "vr_inv (snd (vr_try_pop r)) \<and> vr_capacity (snd (vr_try_pop r)) = vr_capacity r
      \<and> vr_fits (snd (vr_try_pop r)) = vr_fits r"
    using vr_pop_some [OF inv] inv
    by (cases "vr_is_empty r"; auto simp: vr_empty_iff vr_try_pop_def vr_fits_def fun_eq_iff)+
  assume "vr_fits r x"
  then have fits: "length x \<le> vr_max_payload r" by (simp add: vr_fits_def)
  have cap: "vr_len r \<le> vr_capacity r" using inv by (simp add: vr_inv_def vr_ok_def)
  show "fst (vr_enq x r) = (length (vr_contents r) < vr_capacity r)"
    "vr_contents (snd (vr_enq x r)) = vr_contents r @ (if fst (vr_enq x r) then [x] else [])"
    "vr_inv (snd (vr_enq x r)) \<and> vr_capacity (snd (vr_enq x r)) = vr_capacity r \<and> vr_fits (snd (vr_enq x r)) = vr_fits r"
    using vr_push_room [OF inv fits] vr_push_full [OF fits] inv cap
    by (cases "vr_len r < vr_capacity r"; simp add: vr_enq_def split_beta vr_fits_def fun_eq_iff)+
qed

section \<open>Consumers\<close>

record consumer =
  cn_name :: string
  cn_max_per_drain :: nat
  cn_reads :: nat
  cn_scratch :: bytes

definition usize_max :: nat where "usize_max = 2 ^ 64 - 1"

definition consumer_new :: "string \<Rightarrow> consumer" where
  "consumer_new name = \<lparr>cn_name = name, cn_max_per_drain = usize_max, cn_reads = 0, cn_scratch = []\<rparr>"

definition consumer_slow :: "string \<Rightarrow> nat \<Rightarrow> consumer" where
  "consumer_slow name n = \<lparr>cn_name = name, cn_max_per_drain = max n 1, cn_reads = 0, cn_scratch = []\<rparr>"

definition set_max_per_drain :: "nat \<Rightarrow> consumer \<Rightarrow> consumer" where
  "set_max_per_drain n c = c\<lparr>cn_max_per_drain := max n 1\<rparr>"

text \<open>The loop of \<open>drain\<close> with its remaining budget; the number of slots consumed.\<close>

fun drain_loop :: "nat \<Rightarrow> consumer \<Rightarrow> virtual_ring \<Rightarrow> nat \<times> consumer \<times> virtual_ring" where
  "drain_loop 0 c r = (0, c, r)"
| "drain_loop (Suc budget) c r =
     (case vr_try_pop r of
        (None, r1) \<Rightarrow> (0, c, r1)
      | (Some x, r1) \<Rightarrow>
          (let (n, c2, r2) = drain_loop budget (c\<lparr>cn_scratch := x, cn_reads := cn_reads c + 1\<rparr>) r1
           in (Suc n, c2, r2)))"

definition drain :: "nat \<Rightarrow> consumer \<Rightarrow> virtual_ring \<Rightarrow> nat \<times> consumer \<times> virtual_ring" where
  "drain limit c r = drain_loop (min limit (cn_max_per_drain c)) c r"

lemma drain_loop_result:
  assumes "vr_inv r"
  shows "case drain_loop budget c r of (n, c', r') \<Rightarrow>
     n = min budget (vr_len r) \<and> cn_reads c' = cn_reads c + n \<and> vr_contents r' = drop n (vr_contents r) \<and> vr_inv r'
     \<and> vr_capacity r' = vr_capacity r \<and> cn_max_per_drain c' = cn_max_per_drain c \<and> cn_name c' = cn_name c"
  using assms
proof (induction budget arbitrary: c r)
  case 0
  then show ?case by simp
next
  case (Suc budget)
  show ?case
  proof (cases "vr_is_empty r")
    case True
    then have c: "vr_contents r = []" by (simp add: vr_empty_iff)
    then have "vr_len r = 0" using length_vr_contents [of r] by simp
    then show ?thesis using True Suc.prems c by (simp add: vr_try_pop_def)
  next
    case False
    from vr_pop_some [OF Suc.prems False] obtain x r1 where
      p: "vr_try_pop r = (Some x, r1)" "vr_contents r = x # vr_contents r1" "vr_inv r1"
        "vr_capacity r1 = vr_capacity r" by blast
    then have "vr_len r = Suc (vr_len r1)" using length_vr_contents [of r] length_vr_contents [of r1] by simp
    with p Suc.IH [OF p(3), of "c\<lparr>cn_scratch := x, cn_reads := cn_reads c + 1\<rparr>"] show ?thesis
      by (auto split: prod.splits)
  qed
qed

section \<open>Properties\<close>

text \<open>The replies to a sequence of calls: of the ring, and of a list that holds at most \<open>cap\<close> payloads.\<close>

datatype ring_reply = Pushed "ring_error + u64" | Popped "bytes option"

fun vr_calls :: "bytes fifo_op list \<Rightarrow> virtual_ring \<Rightarrow> ring_reply list \<times> virtual_ring" where
  "vr_calls [] r = ([], r)"
| "vr_calls (Enq x # ops) r =
     (let (res, r1) = vr_try_push x r; (rs, r2) = vr_calls ops r1 in (Pushed res # rs, r2))"
| "vr_calls (Deq # ops) r =
     (let (x, r1) = vr_try_pop r; (rs, r2) = vr_calls ops r1 in (Popped x # rs, r2))"

fun queue_calls ::
  "nat \<Rightarrow> nat \<Rightarrow> bytes fifo_op list \<Rightarrow> bytes list \<Rightarrow> u64 \<Rightarrow> ring_reply list \<times> bytes list \<times> u64"
where
  "queue_calls cap m [] q n = ([], q, n)"
| "queue_calls cap m (Enq x # ops) q n =
     (if m < length x then map_prod (Cons (Pushed (Inl RingOversized))) id (queue_calls cap m ops q n)
      else if length q < cap then map_prod (Cons (Pushed (Inr n))) id (queue_calls cap m ops (q @ [x]) (n + 1))
      else map_prod (Cons (Pushed (Inl RingFull))) id (queue_calls cap m ops q n))"
| "queue_calls cap m (Deq # ops) [] n = map_prod (Cons (Popped None)) id (queue_calls cap m ops [] n)"
| "queue_calls cap m (Deq # ops) (y # q) n = map_prod (Cons (Popped (Some y))) id (queue_calls cap m ops q n)"

fun pushes :: "bytes fifo_op list \<Rightarrow> nat" where
  "pushes [] = 0"
| "pushes (Enq _ # ops) = Suc (pushes ops)"
| "pushes (Deq # ops) = pushes ops"

definition refusals :: "ring_reply list \<Rightarrow> nat" where
  "refusals rs = length (filter (\<lambda>p. p = Pushed (Inl RingFull)) rs)"

lemma vr_flat_less: "vr_flat (Suc k) r \<Longrightarrow> vr_flat k r"
  by (auto simp: vr_flat_def)

lemma vr_calls_queue:
  assumes "vr_ok r" "vr_flat (pushes ops) r"
    "queue_calls (vr_capacity r) (vr_max_payload r) ops (vr_contents r) (vr_next_seq r) = (rs, q, n)"
  shows "\<exists>r'. vr_calls ops r = (rs, r') \<and> vr_contents r' = q \<and> vr_next_seq r' = n \<and> vr_ok r'
    \<and> vr_overflows r' = vr_overflows r + refusals rs"
  using assms
proof (induction ops arbitrary: r rs)
  case Nil
  then show ?case by (simp add: refusals_def)
next
  case (Cons op ops)
  show ?case
  proof (cases op)
    case (Enq x)
    then have flat: "vr_flat (Suc (pushes ops)) r" using Cons.prems(2) by simp
    have len: "vr_len r \<le> vr_capacity r" using Cons.prems(1) by (simp add: vr_ok_def)
    consider "vr_max_payload r < length x" | "length x \<le> vr_max_payload r" "vr_len r < vr_capacity r"
      | "length x \<le> vr_max_payload r" "vr_len r = vr_capacity r" using len by linarith
    then show ?thesis
    proof cases
      case 1
      obtain rs1 where "queue_calls (vr_capacity r) (vr_max_payload r) ops (vr_contents r) (vr_next_seq r) = (rs1, q, n)"
        "rs = Pushed (Inl RingOversized) # rs1" using Cons.prems(3) Enq 1 by (auto simp: map_prod_def split: prod.splits)
      then show ?thesis using Cons.IH [OF Cons.prems(1) vr_flat_less [OF flat]] Enq 1
        by (auto simp: vr_try_push_def refusals_def)
    next
      case 2
      note p = vr_push_ok [OF Cons.prems(1) flat 2]
      obtain r1 where r1: "vr_try_push x r = (Inr (vr_next_seq r), r1)" using p(1) by (cases "vr_try_push x r") simp
      obtain rs1 where "queue_calls (vr_capacity r) (vr_max_payload r) ops (vr_contents r @ [x]) (vr_next_seq r + 1) = (rs1, q, n)"
        "rs = Pushed (Inr (vr_next_seq r)) # rs1" using Cons.prems(3) Enq 2 by (auto simp: map_prod_def split: prod.splits)
      then show ?thesis using Cons.IH [OF p(3,4)] p(2,5-8) Enq r1 by (auto simp: refusals_def)
    next
      case 3
      note p = vr_push_full [OF 3]
      obtain rs1 where "queue_calls (vr_capacity r) (vr_max_payload r) ops (vr_contents r) (vr_next_seq r) = (rs1, q, n)"
        "rs = Pushed (Inl RingFull) # rs1" using Cons.prems(3) Enq 3 by (auto simp: map_prod_def split: prod.splits)
      then show ?thesis
        using Cons.IH [of "r\<lparr>vr_overflows := vr_overflows r + 1\<rparr>"] p Cons.prems(1) Enq vr_flat_less [OF flat]
        by (auto simp: refusals_def)
    qed
  next
    case Deq
    show ?thesis
    proof (cases "vr_is_empty r")
      case True
      then obtain rs1 where "queue_calls (vr_capacity r) (vr_max_payload r) ops (vr_contents r) (vr_next_seq r) = (rs1, q, n)"
        "rs = Popped None # rs1" using Cons.prems(3) Deq by (auto simp: vr_empty_iff map_prod_def split: prod.splits)
      then show ?thesis using Cons.IH [OF Cons.prems(1)] Cons.prems(2) Deq True
        by (auto simp: vr_try_pop_def refusals_def)
    next
      case False
      from vr_pop_ok [OF Cons.prems(1) _ False, of "pushes ops"] Cons.prems(2) Deq obtain x r1 where
        p: "vr_try_pop r = (Some x, r1)" "vr_contents r = x # vr_contents r1" "vr_ok r1" "vr_flat (pushes ops) r1"
        "vr_capacity r1 = vr_capacity r" "vr_max_payload r1 = vr_max_payload r" "vr_next_seq r1 = vr_next_seq r"
        "vr_overflows r1 = vr_overflows r" by auto
      obtain rs1 where "queue_calls (vr_capacity r) (vr_max_payload r) ops (vr_contents r1) (vr_next_seq r) = (rs1, q, n)"
        "rs = Popped (Some x) # rs1" using Cons.prems(3) Deq p(2) by (auto simp: map_prod_def split: prod.splits)
      then show ?thesis using Cons.IH [OF p(3,4)] p Deq by (auto simp: refusals_def)
    qed
  qed
qed

text \<open>
  (C39) The simulator's ring is a bounded queue of payloads. Whatever sequence of pushes and pops is made
  on it, the replies are those of a list of at most \<open>capacity\<close> payloads: a payload longer than a slot is
  \<open>Oversized\<close>, one that finds \<open>capacity\<close> payloads stored is \<open>Full\<close> and counted as an overflow, any other
  is accepted with the next sequence number; a pop gives the oldest payload, byte for byte, and
  nothing only when there is none. In the end the ring stores what the list holds. This holds for
  every positive capacity as long as the head counter does not pass \<open>2 ^ 64\<close>, and for ever, across
  the wrap of the counters, when the capacity divides \<open>2 ^ 64\<close>.
\<close>

theorem virtual_ring_order:
  assumes "vr_ok r" "vr_capacity r dvd 2 ^ 64 \<or> unat (vr_tail r) + vr_len r + pushes ops \<le> 2 ^ 64"
    "queue_calls (vr_capacity r) (vr_max_payload r) ops (vr_contents r) (vr_next_seq r) = (replies, q, n)"
  shows "\<exists>r'. vr_calls ops r = (replies, r') \<and> vr_contents r' = q \<and> vr_next_seq r' = n \<and> vr_ok r'
    \<and> vr_overflows r' = vr_overflows r + refusals replies"
  using vr_calls_queue [OF assms(1) _ assms(3)] assms(2) by (simp add: vr_flat_def)

definition example_vring :: virtual_ring where
  "example_vring = the (virtual_ring_new ''r0'' 2 8)"

lemma example_vring_inv: "vr_inv example_vring" "vr_contents example_vring = []" "vr_max_payload example_vring = 8"
  using vr_inv_new [of "''r0''" 2 8 example_vring] by (auto simp: example_vring_def virtual_ring_new_def)

text \<open>A ring of 3 slots, whose capacity does not divide \<open>2 ^ 64\<close>.\<close>

lemma virtual_ring_order_witness:
  "\<exists>r r'. virtual_ring_new ''r0'' 3 2 = Some r
     \<and> vr_calls [Enq [1, 2], Enq [3], Enq [4, 5, 6], Enq [7], Enq [8], Deq, Enq [9]] r
       = ([Pushed (Inr 0), Pushed (Inr 1), Pushed (Inl RingOversized), Pushed (Inr 2), Pushed (Inl RingFull),
           Popped (Some [1, 2]), Pushed (Inr 3)], r')
     \<and> vr_contents r' = [[3], [7], [9]] \<and> vr_overflows r' = 1"
proof -
  obtain r where r: "virtual_ring_new ''r0'' 3 2 = Some r" by (simp add: virtual_ring_new_def)
  have new: "vr_ok r" "vr_contents r = []" "vr_tail r = 0" "vr_len r = 0" using vr_ok_new [OF r] by simp_all
  have f: "vr_capacity r = 3" "vr_max_payload r = 2" "vr_next_seq r = 0" "vr_overflows r = 0"
    using r by (auto simp: virtual_ring_new_def)
  let ?ops = "[Enq [1, 2], Enq [3], Enq [4, 5, 6], Enq [7], Enq [8], Deq, Enq [9]]"
  have "queue_calls (vr_capacity r) (vr_max_payload r) ?ops (vr_contents r) (vr_next_seq r)
      = ([Pushed (Inr 0), Pushed (Inr 1), Pushed (Inl RingOversized), Pushed (Inr 2), Pushed (Inl RingFull),
          Popped (Some [1, 2]), Pushed (Inr 3)], [[3], [7], [9]], 4)"
    using new(2) f by (simp add: numeral_3_eq_3)
  from virtual_ring_order [OF new(1) _ this] show ?thesis using new(3,4) f(4) r by (auto simp: refusals_def simp del: vr_calls.simps)
qed

text \<open>
  What happens past the wrap when the capacity is 3: the payload pushed at head \<open>2 ^ 64 - 1\<close> and the next
  one share slot 0, so a pop returns the second and the first is lost.
\<close>

lemma vr_wrap_overwrites:
  assumes "virtual_ring_new name 3 1 = Some r"
  shows "fst (vr_calls [Enq [1], Enq [2], Deq] (r\<lparr>vr_head := -1, vr_tail := -1\<rparr>))
    = [Pushed (Inr 0), Pushed (Inr 1), Popped (Some [2])]"
proof -
  have r: "r = \<lparr>vr_name = name, vr_slots = [[0], [0], [0]], vr_lens = [0, 0, 0], vr_capacity = 3, vr_max_payload = 1,
      vr_head = 0, vr_tail = 0, vr_next_seq = 0, vr_writes = 0, vr_overflows = 0\<rparr>"
    using assms by (simp add: virtual_ring_new_def numeral_3_eq_3)
  have m: "unat (-1 :: u64) mod 3 = 0" by (simp add: unsigned_minus_1_eq_mask mask_eq_exp_minus_1)
  have a: "vr_try_push [1] (r\<lparr>vr_head := -1, vr_tail := -1\<rparr>)
      = (Inr 0, r\<lparr>vr_slots := [[1], [0], [0]], vr_lens := [1, 0, 0], vr_head := 0, vr_tail := -1, vr_next_seq := 1,
                 vr_writes := 1\<rparr>)" (is "_ = (_, ?r1)")
    by (simp add: vr_try_push_def vr_len_def r m write_at_def)
  have b: "vr_try_push [2] ?r1
      = (Inr 1, ?r1\<lparr>vr_slots := [[2], [0], [0]], vr_lens := [1, 0, 0], vr_head := 1, vr_next_seq := 2,
                 vr_writes := 2\<rparr>)" (is "_ = (_, ?r2)")
    by (simp add: vr_try_push_def vr_len_def r write_at_def)
  have "fst (vr_try_pop ?r2) = Some [2]"
    by (simp add: vr_try_pop_def vr_is_empty_def r m)
  then show ?thesis using a b by (simp add: split_beta)
qed

text \<open>
  A consumer takes exactly as many slots as its budget, its limit and the ring allow, in order,
  and counts each.
\<close>

theorem drain_takes:
  assumes "vr_inv r" "drain limit c r = (n, c', r')"
  shows "n = min (min limit (cn_max_per_drain c)) (vr_len r) \<and> vr_contents r' = drop n (vr_contents r)
    \<and> cn_reads c' = cn_reads c + n \<and> vr_inv r'"
  using drain_loop_result [OF assms(1), of "min limit (cn_max_per_drain c)" c] assms(2) by (simp add: drain_def)

lemma drain_takes_witness:
  "\<exists>n c' r'. drain 5 (consumer_slow ''c0'' 1) (snd (vr_try_push [7] example_vring)) = (n, c', r') \<and> n = 1"
proof -
  let ?r = "snd (vr_try_push [7] example_vring)"
  have cap: "vr_len example_vring = 0" "0 < vr_capacity example_vring"
    using example_vring_inv(1,2) length_vr_contents [of example_vring] by (simp_all add: vr_inv_def vr_ok_def)
  have "vr_inv ?r" "vr_contents ?r = [[7]]"
    using vr_push_room [OF example_vring_inv(1), of "[7]"] example_vring_inv cap by simp_all
  moreover from this have "vr_len ?r = 1" using length_vr_contents [of ?r] by simp
  moreover obtain n c' r' where "drain 5 (consumer_slow ''c0'' 1) ?r = (n, c', r')" by (metis prod_cases3)
  ultimately show ?thesis
    using drain_takes [of ?r 5 "consumer_slow ''c0'' 1" n c' r'] by (simp add: consumer_slow_def)
qed

end
