(* ===== verification/Dsl_Script.thy ===== *)
theory Dsl_Script
  imports Dsl_Doc Scenario Virtual_Ring
begin

text \<open>
  Scripts of scenario files, \<open>simulator/src/dsl/script.rs\<close>. The Rhai engine is a library; what it does
  with the program is to call the functions registered with it. An engine is a function that, given the
  source and the replies to the calls so far, says what comes next; the functions it can call are the
  \<open>script_call\<close>s, and the host they act on is the program's.
\<close>

section \<open>The host\<close>

record script_host =
  sh_at_ns :: "u64 option"
  sh_actions :: "timeline_action list"

definition script_host_default :: script_host where
  "script_host_default = \<lparr>sh_at_ns = None, sh_actions = []\<rparr>"

definition require_at :: "script_host \<Rightarrow> string + u64" where
  "require_at h =
     (case sh_at_ns h of Some t \<Rightarrow> Inr t | None \<Rightarrow> Inl ''call at(ns) before mutating nic/consumer in a script'')"

text \<open>The registered functions. A proxy of a card or a consumer is its name; integers are \<open>i64\<close>.\<close>

datatype script_call =
    CallTimeInt string "64 word"
  | CallTimeFloat string f64
  | CallAt "64 word"
  | CallNic string
  | CallConsumer string
  | CallDropRate string f64
  | CallSetDropRate string f64
  | CallSetFixed string "64 word"
  | CallSetBurst string "64 word" "64 word"
  | CallMaxPerDrain string "64 word"
  | CallSetUnlimited string
  | CallScheduleFault "64 word" string f64
  | CallScheduleFixed "64 word" string "64 word"
  | CallScheduleSlow "64 word" string "64 word"

datatype script_reply = ReplyUnit | ReplyInt "64 word" | ReplyProxy string | ReplyError string

text \<open>\<open>i64::saturating_mul\<close>, and the saturating cast of a float to \<open>i64\<close>.\<close>

definition sat_i64 :: "int \<Rightarrow> 64 word" where
  "sat_i64 i = word_of_int (max (- (2 ^ 63)) (min i (2 ^ 63 - 1)))"

fun f64_to_i64 :: "f64 \<Rightarrow> 64 word" where
  "f64_to_i64 (Fin a) = sat_i64 (if a \<ge> 0 then \<lfloor>a\<rfloor> else \<lceil>a\<rceil>)"
| "f64_to_i64 PosInf = sat_i64 (2 ^ 63)"
| "f64_to_i64 NegInf = sat_i64 (- (2 ^ 63))"
| "f64_to_i64 NaN = 0"

text \<open>\<open>t.max(0) as u64\<close>, and the budget of a consumer.\<close>

definition at_least_zero :: "64 word \<Rightarrow> u64" where
  "at_least_zero t = (if sint t < 0 then 0 else t)"

definition drain_budget :: "64 word \<Rightarrow> nat" where
  "drain_budget n = (if sint n \<le> 0 then usize_max else unat n)"

text \<open>The factors of the time helpers: \<open>ns\<close>, \<open>us\<close>, \<open>ms\<close>, \<open>s\<close>.\<close>

definition time_factor :: "string \<Rightarrow> nat" where
  "time_factor u = (if u = ''us'' then 1000 else if u = ''ms'' then 1000000 else if u = ''s'' then 1000000000 else 1)"

definition host_push :: "timeline_action \<Rightarrow> script_host \<Rightarrow> script_host" where
  "host_push a h = h\<lparr>sh_actions := sh_actions h @ [a]\<rparr>"

text \<open>A call that needs the current time.\<close>

definition at_now :: "(u64 \<Rightarrow> timeline_action) \<Rightarrow> script_host \<Rightarrow> script_reply \<times> script_host" where
  "at_now act h = (case require_at h of Inl e \<Rightarrow> (ReplyError e, h) | Inr t \<Rightarrow> (ReplyUnit, host_push (act t) h))"

definition only_drop_rate :: "f64 \<Rightarrow> fault_spec" where
  "only_drop_rate rate = fault_spec_default\<lparr>fp_drop_rate := rate\<rparr>"

definition fixed_traffic :: "64 word \<Rightarrow> traffic_config" where
  "fixed_traffic pps = traffic_config_default\<lparr>tc_pattern := TpFixedRate (at_least_zero pps)\<rparr>"

fun host_call :: "script_call \<Rightarrow> script_host \<Rightarrow> script_reply \<times> script_host" where
  "host_call (CallTimeInt u n) h = (ReplyInt (sat_i64 (sint n * int (time_factor u))), h)"
| "host_call (CallTimeFloat u x) h = (ReplyInt (f64_to_i64 (f64_round (f64_mul x (Fin (of_nat (time_factor u)))))), h)"
| "host_call (CallAt t) h = (ReplyUnit, h\<lparr>sh_at_ns := Some (at_least_zero t)\<rparr>)"
| "host_call (CallNic name) h = (ReplyProxy name, h)"
| "host_call (CallConsumer name) h = (ReplyProxy name, h)"
| "host_call (CallDropRate nic rate) h = at_now (\<lambda>t. SetFault t nic (only_drop_rate rate)) h"
| "host_call (CallSetDropRate nic rate) h = at_now (\<lambda>t. SetFault t nic (only_drop_rate rate)) h"
| "host_call (CallSetFixed nic pps) h = at_now (\<lambda>t. SetTraffic t nic (fixed_traffic pps)) h"
| "host_call (CallSetBurst nic n gap_ns) h =
     at_now (\<lambda>t. SetTraffic t nic (traffic_config_default\<lparr>
         tc_pattern := TpBurst (if sint n < 1 then 1 else unat n) (unat (at_least_zero gap_ns)), tc_batch_size := 256\<rparr>)) h"
| "host_call (CallMaxPerDrain c n) h = at_now (\<lambda>t. SlowConsumer t c (drain_budget n)) h"
| "host_call (CallSetUnlimited c) h = at_now (\<lambda>t. SlowConsumer t c usize_max) h"
| "host_call (CallScheduleFault t nic rate) h = (ReplyUnit, host_push (SetFault (at_least_zero t) nic (only_drop_rate rate)) h)"
| "host_call (CallScheduleFixed t nic pps) h = (ReplyUnit, host_push (SetTraffic (at_least_zero t) nic (fixed_traffic pps)) h)"
| "host_call (CallScheduleSlow t c n) h = (ReplyUnit, host_push (SlowConsumer (at_least_zero t) c (drain_budget n)) h)"

section \<open>Running a script\<close>

datatype script_next = NextCall script_call | NextDone | NextFail string

type_synonym script_engine = "string \<Rightarrow> script_reply list \<Rightarrow> script_next"

text \<open>\<open>None\<close>: the script calls for ever. Otherwise the engine's error, if any, and the host.\<close>

partial_function (option) script_loop ::
  "(script_reply list \<Rightarrow> script_next) \<Rightarrow> script_reply list \<Rightarrow> script_host \<Rightarrow> (string option \<times> script_host) option"
where
  "script_loop eng replies h =
     (case eng replies of
        NextDone \<Rightarrow> Some (None, h)
      | NextFail e \<Rightarrow> Some (Some e, h)
      | NextCall c \<Rightarrow> (let (r, h1) = host_call c h in script_loop eng (replies @ [r]) h1))"

definition eval_script :: "script_engine \<Rightarrow> string \<Rightarrow> timeline_action list result option" where
  "eval_script eng source =
     map_option (\<lambda>(e, h). case e of
         Some m \<Rightarrow> Inl (config_error (''Rhai script error: '' @ m))
       | None \<Rightarrow> Inr (sort_key ta_at_ns (sh_actions h)))
     (script_loop (eng source) [] script_host_default)"

text \<open>The \<open>[script]\<close> table; \<open>read_text\<close> reads a file.\<close>

definition script_source :: "(string \<Rightarrow> string + string) \<Rightarrow> string \<Rightarrow> script_doc \<Rightarrow> string result" where
  "script_source read_text base d =
     (if scd_engine d \<noteq> '''' \<and> \<not> eq_ignore_ascii_case (scd_engine d) ''rhai''
      then Inl (config_error (''unsupported script engine '' @ [CHR 0x27] @ scd_engine d @ [CHR 0x27] @ '' (only rhai)''))
      else
        (let missing = Inl (config_error (''[script] requires source = '' @ replicate 3 (CHR 0x27) @ ''...''
                 @ replicate 3 (CHR 0x27) @ '' or path = '' @ [CHR 0x22] @ ''file.rhai'' @ [CHR 0x22]));
             from_path = (\<lambda>p.
               let path = (if path_is_absolute p then p else path_join base p) in
               case read_text path of
                 Inl e \<Rightarrow> Inl (config_error (''failed to read script '' @ [CHR 0x27] @ path @ [CHR 0x27] @ '': '' @ e))
               | Inr text \<Rightarrow> Inr text) in
         case (scd_source d, scd_path d) of
           (Some s, None) \<Rightarrow> if trim s \<noteq> '''' then Inr s else missing
         | (Some s, Some p) \<Rightarrow> if trim s \<noteq> '''' then Inr s else from_path p
         | (None, Some p) \<Rightarrow> from_path p
         | (None, None) \<Rightarrow> missing))"

definition eval_script_doc ::
  "script_engine \<Rightarrow> (string \<Rightarrow> string + string) \<Rightarrow> string \<Rightarrow> script_doc \<Rightarrow> timeline_action list result option"
where
  "eval_script_doc eng read_text base d =
     (case script_source read_text base d of Inl e \<Rightarrow> Some (Inl e) | Inr source \<Rightarrow> eval_script eng source)"

section \<open>What a script can do\<close>

lemma eval_script_sorted: "eval_script eng source = Some (Inr acts) \<Longrightarrow> sorted (map ta_at_ns acts)"
  by (auto simp: eval_script_def split: option.splits)

lemma eval_script_doc_sorted:
  "eval_script_doc eng rd base d = Some (Inr acts) \<Longrightarrow> sorted (map ta_at_ns acts)"
  by (auto simp: eval_script_doc_def eval_script_sorted split: sum.splits)

end
