(* ===== verification/Sim_Scheduler.thy ===== *)
theory Sim_Scheduler
  imports Scenario Sim_Nic Pcap_Source Virtual_Ring
begin

text \<open>
  The simulation scheduler, \<open>simulator/src/scheduler.rs\<close>: the sources behind one interface, the state of
  a run, one tick, and the run to completion. What the code reads from the wall clock in a tick is
  an argument. A boxed source is one of the two types that implement the interface.
\<close>

section \<open>Sources behind one interface\<close>

datatype dyn_nic = NicDev virtual_nic | PcapDev pcap_source

fun dn_name :: "dyn_nic \<Rightarrow> string" where
  "dn_name (NicDev s) = nc_name (vn_config s)"
| "dn_name (PcapDev s) = pc_name (ps_config s)"

fun dn_init :: "dyn_nic \<Rightarrow> unit result \<times> dyn_nic" where
  "dn_init (NicDev s) = map_prod id NicDev (vn_init s)"
| "dn_init (PcapDev s) = map_prod id PcapDev (ps_init s)"

fun dn_shutdown :: "dyn_nic \<Rightarrow> unit result \<times> dyn_nic" where
  "dn_shutdown (NicDev s) = map_prod id NicDev (vn_shutdown s)"
| "dn_shutdown (PcapDev s) = map_prod id PcapDev (ps_shutdown s)"

fun dn_set_tick_context :: "u64 \<Rightarrow> u64 \<Rightarrow> dyn_nic \<Rightarrow> dyn_nic" where
  "dn_set_tick_context tick_ns clock_ns (NicDev s) = NicDev (vn_set_tick_context tick_ns clock_ns s)"
| "dn_set_tick_context tick_ns clock_ns (PcapDev s) = PcapDev (ps_set_tick_context tick_ns clock_ns s)"

fun dn_poll :: "libm \<Rightarrow> dyn_nic \<Rightarrow> raw_batch \<Rightarrow> (nat result \<times> dyn_nic \<times> raw_batch) option" where
  "dn_poll lm (NicDev s) b = (case nic_poll_batch lm s b of (r, s1, b1) \<Rightarrow> Some (r, NicDev s1, b1))"
| "dn_poll lm (PcapDev s) b = map_option (\<lambda>(r, s1, b1). (r, PcapDev s1, b1)) (pcap_poll_batch s b)"

fun dn_take_spike_ns :: "dyn_nic \<Rightarrow> u64 \<times> dyn_nic" where
  "dn_take_spike_ns (NicDev s) = map_prod id NicDev (vn_take_spike_ns s)"
| "dn_take_spike_ns (PcapDev s) = map_prod id PcapDev (ps_take_spike_ns s)"

fun dn_set_traffic :: "traffic_config \<Rightarrow> dyn_nic \<Rightarrow> dyn_nic" where
  "dn_set_traffic t (NicDev s) = NicDev (vn_set_traffic t s)"
| "dn_set_traffic t (PcapDev s) = PcapDev (ps_set_traffic t s)"

fun dn_set_fault :: "fault_spec \<Rightarrow> dyn_nic \<Rightarrow> dyn_nic" where
  "dn_set_fault f (NicDev s) = NicDev (vn_set_fault f s)"
| "dn_set_fault f (PcapDev s) = PcapDev (ps_set_fault f s)"

fun dn_generated :: "dyn_nic \<Rightarrow> nat" where
  "dn_generated (NicDev s) = vn_generated s"
| "dn_generated (PcapDev s) = ps_generated s"

fun dn_dropped :: "dyn_nic \<Rightarrow> nat" where
  "dn_dropped (NicDev s) = vn_dropped s"
| "dn_dropped (PcapDev s) = ps_dropped s"

fun dn_corrupted :: "dyn_nic \<Rightarrow> nat" where
  "dn_corrupted (NicDev s) = vn_corrupted s"
| "dn_corrupted (PcapDev s) = ps_corrupted s"

section \<open>State\<close>

record sim_stats =
  ss_ticks :: nat
  ss_generated :: nat
  ss_dropped :: nat
  ss_corrupted :: nat
  ss_slots_written :: nat
  ss_slots_consumed :: nat
  ss_ring_overflows :: nat
  ss_elapsed :: nat
  ss_clock_ns :: u64

definition sim_stats_default :: sim_stats where
  "sim_stats_default =
     \<lparr>ss_ticks = 0, ss_generated = 0, ss_dropped = 0, ss_corrupted = 0, ss_slots_written = 0,
      ss_slots_consumed = 0, ss_ring_overflows = 0, ss_elapsed = 0, ss_clock_ns = 0\<rparr>"

record edu_controls =
  ed_paused :: bool
  ed_breakpoint_ns :: "u64 option"
  ed_breakpoint_tick :: "nat option"
  ed_max_steps :: "nat option"

definition edu_controls_default :: edu_controls where
  "edu_controls_default =
     \<lparr>ed_paused = False, ed_breakpoint_ns = None, ed_breakpoint_tick = None, ed_max_steps = None\<rparr>"

record sim_scheduler =
  sd_scenario :: scenario
  sd_nics :: "dyn_nic list"
  sd_events :: "sim_event list"
  sd_metrics :: "sim_sample list"
  sd_ring :: "virtual_ring option"
  sd_consumers :: "consumer list"
  sd_edu :: edu_controls
  sd_timeline :: "timeline_action list"
  sd_timeline_idx :: nat
  sd_last_batch :: "raw_batch option"
  sd_clock :: "sim_clock option"
  sd_wall_start :: "nat option"
  sd_stats :: sim_stats
  sd_running :: bool

definition sim_scheduler_new :: "scenario \<Rightarrow> sim_scheduler" where
  "sim_scheduler_new sc =
     \<lparr>sd_scenario = sc, sd_nics = [], sd_events = [], sd_metrics = [], sd_ring = None, sd_consumers = [],
      sd_edu = edu_controls_default, sd_timeline = [], sd_timeline_idx = 0, sd_last_batch = None,
      sd_clock = None, sd_wall_start = None, sd_stats = sim_stats_default, sd_running = False\<rparr>"

definition with_ring :: "virtual_ring \<Rightarrow> sim_scheduler \<Rightarrow> sim_scheduler" where
  "with_ring r s = s\<lparr>sd_ring := Some r\<rparr>"

definition add_consumer :: "consumer \<Rightarrow> sim_scheduler \<Rightarrow> sim_scheduler" where
  "add_consumer c s = s\<lparr>sd_consumers := sd_consumers s @ [c]\<rparr>"

definition with_edu :: "edu_controls \<Rightarrow> sim_scheduler \<Rightarrow> sim_scheduler" where
  "with_edu e s = s\<lparr>sd_edu := e\<rparr>"

text \<open>The sort is stable, as \<open>sort_by_key\<close> is.\<close>

definition with_timeline :: "timeline_action list \<Rightarrow> sim_scheduler \<Rightarrow> sim_scheduler" where
  "with_timeline actions s = s\<lparr>sd_timeline := sort_key ta_at_ns actions, sd_timeline_idx := 0\<rparr>"

definition add_nic :: "dyn_nic \<Rightarrow> sim_scheduler \<Rightarrow> sim_scheduler" where
  "add_nic n s = s\<lparr>sd_nics := sd_nics s @ [n]\<rparr>"

definition sd_ring_occupancy :: "sim_scheduler \<Rightarrow> (nat \<times> nat \<times> f64) option" where
  "sd_ring_occupancy s = map_option (\<lambda>r. (vr_len r, vr_capacity r, vr_occupancy r)) (sd_ring s)"

definition sd_consumer_reads :: "sim_scheduler \<Rightarrow> nat" where
  "sd_consumer_reads s = sum_list (map cn_reads (sd_consumers s))"

definition duration_ns :: "sim_scheduler \<Rightarrow> u64" where
  "duration_ns s = of_nat (sc_duration (sd_scenario s))"

definition sd_pause :: "sim_scheduler \<Rightarrow> sim_scheduler" where
  "sd_pause s = s\<lparr>sd_edu := (sd_edu s)\<lparr>ed_paused := True\<rparr>\<rparr>"

definition sd_resume :: "sim_scheduler \<Rightarrow> sim_scheduler" where
  "sd_resume s = s\<lparr>sd_edu := (sd_edu s)\<lparr>ed_paused := False\<rparr>\<rparr>"

definition sd_emit :: "u64 \<Rightarrow> sim_event_kind \<Rightarrow> sim_scheduler \<Rightarrow> sim_scheduler" where
  "sd_emit clock kind s = s\<lparr>sd_events := emit_at clock kind (sd_events s)\<rparr>"

definition sd_record :: "sim_sample \<Rightarrow> sim_scheduler \<Rightarrow> sim_scheduler" where
  "sd_record x s = s\<lparr>sd_metrics := sd_metrics s @ [x]\<rparr>"

definition snapshot_nic_stats :: "sim_scheduler \<Rightarrow> sim_scheduler" where
  "snapshot_nic_stats s =
     s\<lparr>sd_stats := (sd_stats s)\<lparr>ss_generated := sum_list (map dn_generated (sd_nics s)),
         ss_dropped := sum_list (map dn_dropped (sd_nics s)),
         ss_corrupted := sum_list (map dn_corrupted (sd_nics s))\<rparr>\<rparr>"

section \<open>Timeline\<close>

fun apply_action :: "timeline_action \<Rightarrow> sim_scheduler \<Rightarrow> sim_scheduler" where
  "apply_action (SetTraffic _ nic traffic) s =
     s\<lparr>sd_nics := map (\<lambda>n. if dn_name n = nic then dn_set_traffic traffic n else n) (sd_nics s)\<rparr>"
| "apply_action (SetFault _ nic fault) s =
     s\<lparr>sd_nics := map (\<lambda>n. if dn_name n = nic then dn_set_fault fault n else n) (sd_nics s)\<rparr>"
| "apply_action (SlowConsumer _ name k) s =
     s\<lparr>sd_consumers := map (\<lambda>c. if cn_name c = name then set_max_per_drain k c else c) (sd_consumers s)\<rparr>"

text \<open>The loop over the actions that are left.\<close>

fun apply_actions :: "u64 \<Rightarrow> timeline_action list \<Rightarrow> sim_scheduler \<Rightarrow> sim_scheduler" where
  "apply_actions now [] s = s"
| "apply_actions now (a # rest) s =
     (if ta_at_ns a > now then s
      else apply_actions now rest (apply_action a (s\<lparr>sd_timeline_idx := sd_timeline_idx s + 1\<rparr>)))"

definition apply_timeline :: "u64 \<Rightarrow> sim_scheduler \<Rightarrow> sim_scheduler" where
  "apply_timeline now s = apply_actions now (drop (sd_timeline_idx s) (sd_timeline s)) s"

section \<open>Lifecycle\<close>

text \<open>Initialising the sources in order; the first failure stops.\<close>

fun init_nics :: "dyn_nic list \<Rightarrow> unit result \<times> dyn_nic list" where
  "init_nics [] = (Inr (), [])"
| "init_nics (n # ns) =
     (case dn_init n of
        (Inl e, n1) \<Rightarrow> (Inl e, n1 # ns)
      | (Inr _, n1) \<Rightarrow> (let (r, ns1) = init_nics ns in (r, n1 # ns1)))"

fun shutdown_nics :: "dyn_nic list \<Rightarrow> unit result \<times> dyn_nic list" where
  "shutdown_nics [] = (Inr (), [])"
| "shutdown_nics (n # ns) =
     (case dn_shutdown n of
        (Inl e, n1) \<Rightarrow> (Inl e, n1 # ns)
      | (Inr _, n1) \<Rightarrow> (let (r, ns1) = shutdown_nics ns in (r, n1 # ns1)))"

definition sd_begin :: "nat \<Rightarrow> sim_scheduler \<Rightarrow> unit result \<times> sim_scheduler" where
  "sd_begin wall s =
     (if sd_running s then (Inr (), s)
      else case init_nics (sd_nics s) of
          (Inl e, ns) \<Rightarrow> (Inl e, s\<lparr>sd_nics := ns\<rparr>)
        | (Inr _, ns) \<Rightarrow>
            (let s1 = s\<lparr>sd_nics := ns, sd_clock := Some (sim_clock_new (sc_clock_mode (sd_scenario s))),
                       sd_wall_start := Some wall, sd_stats := sim_stats_default, sd_timeline_idx := 0,
                       sd_running := True\<rparr>
             in (Inr (), apply_timeline 0 (sd_emit 0 (EvSimulatorStarted (sc_name (sd_scenario s1))) s1))))"

definition sd_finish :: "nat \<Rightarrow> u64 \<Rightarrow> sim_scheduler \<Rightarrow> unit result \<times> sim_scheduler" where
  "sd_finish wall elapsed s =
     (let s1 = snapshot_nic_stats s;
          s2 = (case sd_wall_start s1 of
                  Some start \<Rightarrow> s1\<lparr>sd_wall_start := None, sd_stats := (sd_stats s1)\<lparr>ss_elapsed := wall - start\<rparr>\<rparr>
                | None \<Rightarrow> s1);
          s3 = (case sd_clock s2 of
                  Some c \<Rightarrow> s2\<lparr>sd_stats := (sd_stats s2)\<lparr>ss_clock_ns := now_ns elapsed c\<rparr>\<rparr>
                | None \<Rightarrow> s2);
          s4 = sd_emit (ss_clock_ns (sd_stats s3))
                 (EvSimulatorStopped (ss_ticks (sd_stats s3)) (unat (of_nat (ss_elapsed (sd_stats s3)) :: u64))) s3
      in case shutdown_nics (sd_nics s4) of
          (Inl e, ns) \<Rightarrow> (Inl e, s4\<lparr>sd_nics := ns\<rparr>)
        | (Inr _, ns) \<Rightarrow> (Inr (), s4\<lparr>sd_nics := ns, sd_running := False\<rparr>))"

section \<open>One tick\<close>

text \<open>What one tick reads from the wall clock: the anchor of a run that begins, and elapsed times.\<close>

record wall_reads =
  wr_start :: nat
  wr_now1 :: u64
  wr_now2 :: u64
  wr_tick :: u64
  wr_next :: u64

text \<open>
  Polling the sources, one after the other, into the same batch; a failed poll is ignored. The
  last component is the accumulated latency.
\<close>

fun poll_nics ::
  "libm \<Rightarrow> u64 \<Rightarrow> u64 \<Rightarrow> dyn_nic list \<Rightarrow> raw_batch \<Rightarrow> u64 \<Rightarrow> (dyn_nic list \<times> raw_batch \<times> u64) option"
where
  "poll_nics lm tick_ns now [] b spike = Some ([], b, spike)"
| "poll_nics lm tick_ns now (n # ns) b spike =
     (case dn_poll lm (dn_set_tick_context tick_ns now n) b of
        None \<Rightarrow> None
      | Some (_, n1, b1) \<Rightarrow>
          (let (sp, n2) = dn_take_spike_ns n1 in
           case poll_nics lm tick_ns now ns b1 (saturating_add spike sp) of
             None \<Rightarrow> None
           | Some (ns2, b2, spike2) \<Rightarrow> Some (n2 # ns2, b2, spike2)))"

definition bump_stats :: "(sim_stats \<Rightarrow> sim_stats) \<Rightarrow> sim_scheduler \<Rightarrow> sim_scheduler" where
  "bump_stats f s = s\<lparr>sd_stats := f (sd_stats s)\<rparr>"

text \<open>One delivered packet on its way into the ring.\<close>

definition ring_packet :: "u64 \<Rightarrow> bytes \<times> packet_meta \<Rightarrow> sim_scheduler \<times> virtual_ring \<Rightarrow> sim_scheduler \<times> virtual_ring"
where
  "ring_packet now p v =
     (let (s, ring) = v in
      case vr_try_push (fst p) ring of
        (Inr sequence, r1) \<Rightarrow>
          (sd_emit now (EvSlotWritten (vr_name r1) sequence)
             (sd_record (SimCounter SmSinkWrites 1) (bump_stats (\<lambda>st. st\<lparr>ss_slots_written := ss_slots_written st + 1\<rparr>) s)), r1)
      | (Inl _, r1) \<Rightarrow>
          (sd_emit now (EvQueueOverflow (vr_name r1))
             (bump_stats (\<lambda>st. st\<lparr>ss_ring_overflows := ss_ring_overflows st + 1\<rparr>) s), r1))"

text \<open>One consumer's turn: the remaining consumers see the ring it leaves.\<close>

fun drain_consumers ::
  "u64 \<Rightarrow> consumer list \<Rightarrow> virtual_ring \<Rightarrow> sim_scheduler \<Rightarrow> consumer list \<times> virtual_ring \<times> sim_scheduler"
where
  "drain_consumers now [] ring s = ([], ring, s)"
| "drain_consumers now (c # cs) ring s =
     (let (n, c1, ring1) = drain usize_max c ring;
          s1 = bump_stats (\<lambda>st. st\<lparr>ss_slots_consumed := ss_slots_consumed st + n\<rparr>) s;
          s2 = (sd_emit now (EvConsumerRead (vr_name ring1) (cn_reads c1)) ^^ n) s1;
          (cs2, ring2, s3) = drain_consumers now cs ring1 s2
      in (c1 # cs2, ring2, s3))"

text \<open>The part of a tick behind the polls: the ring is fed and drained.\<close>

definition feed_ring :: "u64 \<Rightarrow> raw_batch \<Rightarrow> sim_scheduler \<Rightarrow> sim_scheduler" where
  "feed_ring now b s =
     (case sd_ring s of
        None \<Rightarrow> s
      | Some ring \<Rightarrow>
          (let (s1, r1) = fold (ring_packet now) (net_packets b) (s, ring);
               occ = vr_occupancy r1;
               s2 = sd_record (SimGauge SmQueueOccupancy occ) (sd_record (SimGauge SmRingOccupancy occ) s1);
               (cs, r2, s3) = drain_consumers now (sd_consumers s2) r1 s2
           in s3\<lparr>sd_ring := Some r2, sd_consumers := cs\<rparr>))"

definition edu_break :: "u64 \<Rightarrow> sim_scheduler \<Rightarrow> bool" where
  "edu_break now s =
     ((case ed_breakpoint_ns (sd_edu s) of Some bp \<Rightarrow> now \<ge> bp | None \<Rightarrow> False)
      \<or> (case ed_breakpoint_tick (sd_edu s) of Some bp \<Rightarrow> ss_ticks (sd_stats s) \<ge> bp | None \<Rightarrow> False)
      \<or> (case ed_max_steps (sd_edu s) of Some m \<Rightarrow> ss_ticks (sd_stats s) \<ge> m | None \<Rightarrow> False))"

text \<open>The clock of a run; \<open>begin\<close> has set it.\<close>

definition run_clock :: "sim_scheduler \<Rightarrow> sim_clock" where
  "run_clock s = (case sd_clock s of Some c \<Rightarrow> c | None \<Rightarrow> sim_clock_new RealTime)"

text \<open>
  The body of a tick once no stop and no breakpoint applies. \<open>None\<close>: a poll does not return.
\<close>

definition tick_body :: "libm \<Rightarrow> wall_reads \<Rightarrow> sim_scheduler \<Rightarrow> (bool result \<times> sim_scheduler) option" where
  "tick_body lm w s =
     (let tick_ns = sc_tick_ns (sd_scenario s);
          batch_cap = max (tc_batch_size (sc_traffic (sd_scenario s))) 1;
          payload = max (tc_payload_size (sc_traffic (sd_scenario s))) 1;
          batch = the (raw_batch_new batch_cap (42 + payload));
          now = now_ns (wr_now2 w) (run_clock s) in
      case poll_nics lm tick_ns now (sd_nics s) batch 0 of
        None \<Rightarrow> None
      | Some (ns, b, spike_ns) \<Rightarrow>
          (let s1 = feed_ring now b (s\<lparr>sd_nics := ns\<rparr>);
               s2 = bump_stats (\<lambda>st. st\<lparr>ss_ticks := ss_ticks st + 1\<rparr>) (s1\<lparr>sd_last_batch := Some b\<rparr>);
               s3 = sd_emit now (EvTickCompleted (ss_ticks (sd_stats s2)) (unat (wr_tick w))) s2;
               s4 = sd_record (SimHistogram SmTickDurationNs (f64_of_nat (unat (wr_tick w))))
                      (sd_record (SimCounter SmTickCount 1) s3);
               clock = (if clock_is_virtual (run_clock s4)
                        then advance_ns (saturating_add tick_ns spike_ns) (run_clock s4) else run_clock s4);
               next_ns = now_ns (wr_next w) clock;
               s5 = bump_stats (\<lambda>st. st\<lparr>ss_clock_ns := next_ns\<rparr>) (snapshot_nic_stats (s4\<lparr>sd_clock := Some clock\<rparr>))
           in Some (if next_ns \<ge> duration_ns s5 then (Inr False, s5\<lparr>sd_running := False\<rparr>) else (Inr True, s5))))"

definition sched_step :: "libm \<Rightarrow> wall_reads \<Rightarrow> sim_scheduler \<Rightarrow> (bool result \<times> sim_scheduler) option" where
  "sched_step lm w s0 =
     (case (if sd_running s0 then (Inr (), s0) else sd_begin (wr_start w) s0) of
        (Inl e, s) \<Rightarrow> Some (Inl e, s)
      | (Inr _, s) \<Rightarrow>
          (let now = now_ns (wr_now1 w) (run_clock s) in
           if now \<ge> duration_ns s then Some (Inr False, s\<lparr>sd_running := False\<rparr>)
           else
             (let s1 = apply_timeline now s in
              if edu_break now s1 then Some (Inr False, sd_pause s1) else tick_body lm w s1)))"

text \<open>The loop of \<open>run\<close>, with the wall clock readings of each tick.\<close>

partial_function (option) sched_loop ::
  "libm \<Rightarrow> (nat \<Rightarrow> wall_reads) \<Rightarrow> nat \<Rightarrow> sim_scheduler \<Rightarrow> (unit result \<times> sim_scheduler) option"
where
  "sched_loop lm wall k s =
     (if \<not> sd_running s then Some (Inr (), s)
      else case sched_step lm (wall k) s of
          None \<Rightarrow> None
        | Some (r, s1) \<Rightarrow>
            (case r of
               Inl e \<Rightarrow> Some (Inl e, s1)
             | Inr again \<Rightarrow>
                 if \<not> again \<or> ed_paused (sd_edu s1) then Some (Inr (), s1) else sched_loop lm wall (Suc k) s1))"

definition sched_run ::
  "libm \<Rightarrow> (nat \<Rightarrow> wall_reads) \<Rightarrow> nat \<Rightarrow> u64 \<Rightarrow> sim_scheduler \<Rightarrow> (sim_stats result \<times> sim_scheduler) option"
where
  "sched_run lm wall wall_end elapsed s =
     (case sd_begin (wr_start (wall 0)) s of
        (Inl e, s1) \<Rightarrow> Some (Inl e, s1)
      | (Inr _, s1) \<Rightarrow>
          if ed_paused (sd_edu s1) then Some (Inr (sd_stats s1), s1)
          else case sched_loop lm wall 0 s1 of
              None \<Rightarrow> None
            | Some (Inl e, s2) \<Rightarrow> Some (Inl e, s2)
            | Some (Inr _, s2) \<Rightarrow>
                if ed_paused (sd_edu s2) then Some (Inr (sd_stats s2), s2)
                else (case sd_finish wall_end elapsed s2 of
                        (Inl e, s3) \<Rightarrow> Some (Inl e, s3)
                      | (Inr _, s3) \<Rightarrow> Some (Inr (sd_stats s3), s3)))"

definition finish_run :: "nat \<Rightarrow> u64 \<Rightarrow> sim_scheduler \<Rightarrow> sim_stats result \<times> sim_scheduler" where
  "finish_run wall elapsed s =
     (case sd_finish wall elapsed s of (Inl e, s1) \<Rightarrow> (Inl e, s1) | (Inr _, s1) \<Rightarrow> (Inr (sd_stats s1), s1))"

end
