(* ===== verification/Dsl_Compile.thy ===== *)
theory Dsl_Compile
  imports Dsl_Duration Dsl_Script Sim_Scheduler
begin

text \<open>
  Compilation of scenario documents, \<open>simulator/src/dsl/compile.rs\<close> and \<open>dsl/mod.rs\<close>: a parsed document
  becomes a run that the scheduler can be built from. The TOML parser, the script engine, the display of a
  TOML value and the file system are the fields of an environment.
\<close>

record dsl_env =
  de_parse :: "string \<Rightarrow> string + scenario_doc"
  de_engine :: script_engine
  de_display :: "toml_value \<Rightarrow> string"
  de_read_text :: "string \<Rightarrow> string + string"
  de_read_bytes :: "string \<Rightarrow> string + bytes"

section \<open>Compiled runs\<close>

record compiled_nic =
  cni_name :: string
  cni_batch_size :: nat
  cni_udp_port :: u16
  cni_traffic :: traffic_config
  cni_fault :: fault_spec
  cni_fault_seed :: u64

record compiled_pcap =
  cpc_name :: string
  cpc_path :: string
  cpc_replay :: replay_mode
  cpc_loop_capture :: bool
  cpc_fault :: fault_spec
  cpc_fault_seed :: u64

record compiled_fabric =
  cfb_name :: string
  cfb_slots :: nat
  cfb_max_frame :: nat

record compiled_consumer =
  cco_name :: string
  cco_max_per_drain :: nat

record compiled_run =
  cr_scenario :: scenario
  cr_edu :: edu_controls
  cr_events_enabled :: bool
  cr_metrics_enabled :: bool
  cr_simulated :: bool
  cr_nics :: "compiled_nic list"
  cr_pcaps :: "compiled_pcap list"
  cr_fabric :: "compiled_fabric option"
  cr_consumers :: "compiled_consumer list"
  cr_timeline :: "timeline_action list"
  cr_storage_declared :: nat

section \<open>Tables\<close>

definition or_default :: "'a option \<Rightarrow> 'a \<Rightarrow> 'a" where
  "or_default x d = (case x of Some y \<Rightarrow> y | None \<Rightarrow> d)"

text \<open>The traffic patterns, of a card and of a timeline entry; \<open>unknown\<close> is the error for any other name.\<close>

definition pattern_of ::
  "string \<Rightarrow> error \<Rightarrow> u64 option \<Rightarrow> nat option \<Rightarrow> string option \<Rightarrow> f64 option \<Rightarrow> f64 option \<Rightarrow> u64 option \<Rightarrow> traffic_pattern result"
where
  "pattern_of name unknown pps burst_size gap mean_pps std_pps seed =
     (if name = ''fixed'' then Inr (TpFixedRate (or_default pps 1000))
      else if name = ''burst'' then
        try_bind (parse_duration_ns (or_default gap ''1ms'')) (\<lambda>g. Inr (TpBurst (or_default burst_size 1000) (unat g)))
      else if name = ''gaussian'' then
        Inr (TpGaussian (or_default mean_pps (Fin 50000)) (or_default std_pps (Fin 10000)) (or_default seed 0))
      else if name = ''full'' then Inr TpFullSpeed
      else Inl unknown)"

definition compile_payload :: "payload_doc \<Rightarrow> (payload_spec \<times> nat) result" where
  "compile_payload p =
     (let kind = ascii_lower (pd_kind p) in
      if kind = ''fixed_seq'' \<or> kind = ''fixed'' then Inr (FixedSeq, max (or_default (pd_size p) 8) 1)
      else if kind = ''random'' then Inr (RandomFill (or_default (pd_seed p) 0), max (or_default (pd_size p) 32) 1)
      else if kind = ''gaussian_size'' then
        (let mx = max (or_default (pd_max p) 128) 1 in
         Inr (GaussianSize (or_default (pd_mean p) (Fin 64)) (or_default (pd_std_dev p) (Fin 16))
                (or_default (pd_seed p) 0) mx, mx))
      else if kind = ''protocol'' then
        (let proto = or_default (pd_proto p) ''market_quote''; symbol = or_default (pd_symbol p) ''AAPL'' in
         try_bind
           (if proto = ''market_quote'' then Inr (market_quote symbol)
            else if proto = ''fix_quote'' then Inr (fix_quote symbol)
            else Inl (config_error (''unknown protocol '' @ quoted proto @ '' (use market_quote|fix_quote)'')))
           (\<lambda>msg. Inr (Protocol msg, nominal_size msg)))
      else if kind = ''custom'' then
        Inl (config_error (''payload kind '' @ quoted ''custom'' @ '' is Rust-only; use PayloadSpec::Custom in code''))
      else Inl (config_error (''unknown payload kind '' @ quoted kind
                 @ '' (use fixed_seq|random|gaussian_size|protocol)'')))"

definition compile_traffic :: "traffic_doc \<Rightarrow> payload_doc \<Rightarrow> nat \<Rightarrow> traffic_config result" where
  "compile_traffic t p batch_size =
     (let name = ascii_lower (td_pattern t) in
      try_bind (pattern_of name (config_error (''unknown traffic pattern '' @ quoted name @ '' (use fixed|burst|gaussian|full)''))
          (td_pps t) (td_burst_size t) (td_gap t) (td_mean_pps t) (td_std_pps t) (td_seed t)) (\<lambda>pattern.
      try_bind (compile_payload p) (\<lambda>(spec, size).
      Inr \<lparr>tc_pattern = pattern, tc_payload_size = size, tc_batch_size = batch_size, tc_payload = spec\<rparr>)))"

text \<open>An optional duration, zero when absent.\<close>

definition optional_duration :: "u64 \<Rightarrow> string option \<Rightarrow> u64 result" where
  "optional_duration d x = (case x of Some s \<Rightarrow> parse_duration_ns s | None \<Rightarrow> Inr d)"

definition compile_fault :: "fault_doc \<Rightarrow> fault_spec result" where
  "compile_fault f =
     try_bind (optional_duration 0 (fd_latency_spike f)) (\<lambda>spike.
     Inr \<lparr>fp_drop_rate = fd_drop_rate f, fp_corrupt_rate = fd_corrupt_rate f,
          fp_latency_spike_rate = fd_latency_spike_rate f, fp_latency_spike_ns = spike\<rparr>)"

definition compile_replay :: "string \<Rightarrow> f64 \<Rightarrow> replay_mode result" where
  "compile_replay name scale =
     (let n = ascii_lower name in
      if n \<in> {''full'', ''full_speed'', ''fullspeed''} then Inr FullSpeed
      else if n \<in> {''original'', ''original_timing''} then Inr OriginalTiming
      else if n \<in> {''scaled'', ''time_scaled''} then Inr (TimeScaled scale)
      else if n = ''burst'' then Inr (Burst 64 1000000)
      else if n \<in> {''single_step'', ''singlestep'', ''step''} then Inr SingleStep
      else Inl (config_error (''unknown replay mode '' @ quoted n @ '' (use full|original|scaled|burst|single_step)'')))"

definition parse_max_per_drain :: "(toml_value \<Rightarrow> string) \<Rightarrow> toml_value option \<Rightarrow> nat result" where
  "parse_max_per_drain display v =
     (let other = (\<lambda>x. Inl (config_error (''max_per_drain must be a positive integer or '' @ [CHR 0x22] @ ''unlimited''
                    @ [CHR 0x22] @ '', got '' @ display x))) in
      case v of
        None \<Rightarrow> Inr usize_max
      | Some (TomlString s) \<Rightarrow> if eq_ignore_ascii_case s ''unlimited'' then Inr usize_max else other (TomlString s)
      | Some (TomlInteger i) \<Rightarrow> if 0 < sint i then Inr (unat i) else Inl (config_error ''max_per_drain must be > 0'')
      | Some (TomlOther d) \<Rightarrow> other (TomlOther d))"

definition compile_nic :: "u64 \<Rightarrow> nic_doc \<Rightarrow> compiled_nic result" where
  "compile_nic scenario_seed n =
     try_bind (compile_traffic (nd_traffic n) (nd_payload n) (nd_batch_size n)) (\<lambda>traffic.
     try_bind (compile_fault (nd_fault n)) (\<lambda>fault.
     Inr \<lparr>cni_name = nd_name n, cni_batch_size = nd_batch_size n, cni_udp_port = nd_udp_port n, cni_traffic = traffic,
          cni_fault = fault, cni_fault_seed = or_default (fd_seed (nd_fault n)) scenario_seed\<rparr>))"

definition resolve_path :: "string \<Rightarrow> string \<Rightarrow> string" where
  "resolve_path base p = (if path_is_absolute p then p else path_join base p)"

definition compile_pcap :: "string \<Rightarrow> u64 \<Rightarrow> pcap_doc \<Rightarrow> compiled_pcap result" where
  "compile_pcap base scenario_seed p =
     try_bind (compile_replay (pcd_replay p) (pcd_scale p)) (\<lambda>replay.
     try_bind (compile_fault (pcd_fault p)) (\<lambda>fault.
     Inr \<lparr>cpc_name = pcd_name p, cpc_path = resolve_path base (pcd_path p), cpc_replay = replay,
          cpc_loop_capture = pcd_loop p, cpc_fault = fault,
          cpc_fault_seed = or_default (fd_seed (pcd_fault p)) scenario_seed\<rparr>))"

text \<open>The frame of a card: a payload behind the 42 bytes of headers.\<close>

definition nic_frame :: "compiled_nic \<Rightarrow> nat" where
  "nic_frame n = 42 + max (tc_payload_size (cni_traffic n)) 1"

definition compile_fabric :: "compiled_nic list \<Rightarrow> fabric_doc \<Rightarrow> compiled_fabric result" where
  "compile_fabric nics f =
     (let max_frame =
            (case fbd_max_frame f of
               Some m \<Rightarrow> m
             | None \<Rightarrow> max (if nics = [] then 128 else Max (set (map nic_frame nics))) 64) in
      if fbd_slots f = 0 then Inl (config_error ''fabric.slots must be > 0'')
      else Inr \<lparr>cfb_name = fbd_name f, cfb_slots = fbd_slots f, cfb_max_frame = max_frame\<rparr>)"

definition compile_consumer :: "(toml_value \<Rightarrow> string) \<Rightarrow> consumer_doc \<Rightarrow> compiled_consumer result" where
  "compile_consumer display c =
     try_bind (parse_max_per_drain display (cd_max_per_drain c)) (\<lambda>n.
     Inr \<lparr>cco_name = cd_name c, cco_max_per_drain = n\<rparr>)"

text \<open>A new pattern for a card keeps the rest of its traffic.\<close>

definition merge_traffic_override :: "traffic_config \<Rightarrow> timeline_doc \<Rightarrow> traffic_config result" where
  "merge_traffic_override base t =
     (let name = or_default (tld_pattern t) ''fixed'' in
      try_bind (pattern_of name (config_error (''unknown traffic pattern '' @ quoted name))
          (tld_pps t) (tld_burst_size t) (tld_gap t) (tld_mean_pps t) (tld_std_pps t) (tld_seed t)) (\<lambda>pattern.
      Inr (base\<lparr>tc_pattern := pattern\<rparr>)))"

definition dq :: string where "dq = [CHR 0x22]"

definition needs :: "string \<Rightarrow> string \<Rightarrow> error" where
  "needs action field = config_error (action @ '' requires '' @ field @ '' = '' @ dq @ ''...'' @ dq)"

definition compile_timeline_entry ::
  "(toml_value \<Rightarrow> string) \<Rightarrow> compiled_nic list \<Rightarrow> timeline_doc \<Rightarrow> timeline_action result"
where
  "compile_timeline_entry display nics t =
     try_bind (parse_duration_ns (tld_at t)) (\<lambda>at_ns.
     if tld_action t = ''set_traffic'' then
       try_bind (ok_or (needs ''set_traffic'' ''nic'') (tld_nic t)) (\<lambda>nic.
       let base = (case find (\<lambda>n. cni_name n = nic) nics of Some n \<Rightarrow> cni_traffic n | None \<Rightarrow> traffic_config_default) in
       try_bind (merge_traffic_override base t) (\<lambda>traffic. Inr (SetTraffic at_ns nic traffic)))
     else if tld_action t = ''set_fault'' then
       try_bind (ok_or (needs ''set_fault'' ''nic'') (tld_nic t)) (\<lambda>nic.
       try_bind (optional_duration (fp_latency_spike_ns fault_spec_default) (tld_latency_spike t)) (\<lambda>spike.
       Inr (SetFault at_ns nic
         \<lparr>fp_drop_rate = or_default (tld_drop_rate t) (fp_drop_rate fault_spec_default),
          fp_corrupt_rate = or_default (tld_corrupt_rate t) (fp_corrupt_rate fault_spec_default),
          fp_latency_spike_rate = or_default (tld_latency_spike_rate t) (fp_latency_spike_rate fault_spec_default),
          fp_latency_spike_ns = spike\<rparr>)))
     else if tld_action t = ''slow_consumer'' then
       try_bind (ok_or (needs ''slow_consumer'' ''consumer'') (tld_consumer t)) (\<lambda>consumer.
       try_bind (parse_max_per_drain display (tld_max_per_drain t)) (\<lambda>n. Inr (SlowConsumer at_ns consumer n)))
     else Inl (config_error (''unknown timeline action '' @ quoted (tld_action t)
                 @ '' (use set_traffic|set_fault|slow_consumer)'')))"

section \<open>Documents\<close>

definition clock_mode_of :: "string \<Rightarrow> clock_mode result" where
  "clock_mode_of clock =
     (let c = ascii_lower clock in
      if c = ''virtual'' then Inr (Virtual 0)
      else if c \<in> {''realtime'', ''real'', ''real_time''} then Inr RealTime
      else Inl (config_error (''unknown clock '' @ quoted c @ '' (use virtual|realtime)'')))"

definition edu_of :: "string \<Rightarrow> edu_doc option \<Rightarrow> edu_controls result" where
  "edu_of mode ed =
     (let edu = edu_controls_default\<lparr>ed_paused := (mode = ''edu'')\<rparr> in
      case ed of
        None \<Rightarrow> Inr edu
      | Some e \<Rightarrow>
          (let edu1 = edu\<lparr>ed_paused := ead_paused_start e \<or> ed_paused edu, ed_breakpoint_tick := ead_breakpoint_tick e\<rparr> in
           case ead_breakpoint_ns e of
             None \<Rightarrow> Inr edu1
           | Some bp \<Rightarrow> try_bind (parse_duration_ns bp) (\<lambda>t. Inr (edu1\<lparr>ed_breakpoint_ns := Some t\<rparr>))))"

definition fabric_of :: "scenario_doc \<Rightarrow> compiled_nic list \<Rightarrow> compiled_pcap list \<Rightarrow> compiled_fabric option result" where
  "fabric_of doc nics pcaps =
     (case sdoc_fabric doc of
        Some f \<Rightarrow> try_bind (compile_fabric nics f) (\<lambda>c. Inr (Some c))
      | None \<Rightarrow>
          if sdoc_consumer doc \<noteq> [] \<or> nics \<noteq> [] \<or> pcaps \<noteq> []
          then Inr (Some \<lparr>cfb_name = ''ring0'', cfb_slots = 4096, cfb_max_frame = Max (set (map nic_frame nics @ [128]))\<rparr>)
          else Inr None)"

definition consumers_of ::
  "(toml_value \<Rightarrow> string) \<Rightarrow> scenario_doc \<Rightarrow> compiled_fabric option \<Rightarrow> compiled_consumer list result"
where
  "consumers_of display doc fabric =
     (if sdoc_consumer doc = []
      then Inr (if fabric \<noteq> None then [\<lparr>cco_name = ''c0'', cco_max_per_drain = usize_max\<rparr>] else [])
      else collect_results (compile_consumer display) (sdoc_consumer doc))"

text \<open>The document, once the actions of its script are known.\<close>

definition compile_scripted ::
  "dsl_env \<Rightarrow> string \<Rightarrow> scenario_doc \<Rightarrow> timeline_action list \<Rightarrow> compiled_run result"
where
  "compile_scripted env base doc script_actions =
     (let m = sdoc_scenario doc; mode = ascii_lower (md_mode m); display = de_display env in
      try_bind (parse_duration_ns (md_duration m)) (\<lambda>duration_ns.
      try_bind (parse_duration_ns (md_tick m)) (\<lambda>tick_ns.
      if tick_ns = 0 then Inl (config_error ''scenario.tick must be > 0'')
      else try_bind (clock_mode_of (md_clock m)) (\<lambda>clock_mode.
      try_bind (edu_of mode (sdoc_edu doc)) (\<lambda>edu.
      let trace = or_default (sdoc_trace doc) trace_doc_default in
      try_bind (collect_results (compile_nic (md_seed m)) (sdoc_nic doc)) (\<lambda>nics.
      try_bind (collect_results (compile_pcap base (md_seed m)) (sdoc_pcap doc)) (\<lambda>pcaps.
      try_bind (fabric_of doc nics pcaps) (\<lambda>fabric.
      try_bind (consumers_of display doc fabric) (\<lambda>consumers.
      try_bind (collect_results (compile_timeline_entry display nics) (sdoc_timeline doc)) (\<lambda>entries.
      let timeline = sort_key ta_at_ns (entries @ script_actions);
          traffic = (case nics of n # _ \<Rightarrow> cni_traffic n | [] \<Rightarrow> traffic_config_default);
          fault = (case nics of n # _ \<Rightarrow> cni_fault n | [] \<Rightarrow> fault_spec_default) in
      Inr \<lparr>cr_scenario =
             \<lparr>sc_name = md_name m, sc_description = md_description m, sc_traffic = traffic, sc_fault = fault,
              sc_duration = unat duration_ns, sc_clock_mode = clock_mode, sc_tick_ns = tick_ns\<rparr>,
           cr_edu = edu, cr_events_enabled = (if mode = ''benchmark'' then False else trd_events trace),
           cr_metrics_enabled = trd_metrics trace, cr_simulated = True, cr_nics = nics, cr_pcaps = pcaps,
           cr_fabric = fabric, cr_consumers = consumers, cr_timeline = timeline,
           cr_storage_declared = length (sdoc_storage doc)\<rparr>))))))))))"

text \<open>\<open>None\<close>: the script does not return.\<close>

definition compile_doc :: "dsl_env \<Rightarrow> string \<Rightarrow> scenario_doc \<Rightarrow> compiled_run result option" where
  "compile_doc env base doc =
     (if \<not> md_simulated (sdoc_scenario doc)
      then Some (Inl (config_error (''scenario.simulated must be true '' @ [CHR 0xE2, CHR 0x80, CHR 0x94]
                   @ '' FlyScenario results are always simulated'')))
      else case sdoc_script doc of
          None \<Rightarrow> Some (compile_scripted env base doc [])
        | Some d \<Rightarrow>
            map_option (\<lambda>r. try_bind r (compile_scripted env base doc)) (eval_script_doc (de_engine env) (de_read_text env) base d))"

section \<open>From a compiled run to a scheduler\<close>

definition nic_config_of :: "compiled_nic \<Rightarrow> nic_config" where
  "nic_config_of n =
     \<lparr>nc_name = cni_name n, nc_traffic = cni_traffic n, nc_fault = cni_fault n, nc_fault_seed = cni_fault_seed n,
      nc_udp_dst_port = cni_udp_port n\<rparr>"

definition pcap_config_of :: "compiled_pcap \<Rightarrow> pcap_config" where
  "pcap_config_of p =
     \<lparr>pc_name = cpc_name p, pc_replay = cpc_replay p, pc_fault = cpc_fault p, pc_fault_seed = cpc_fault_seed p,
      pc_loop_capture = cpc_loop_capture p\<rparr>"

definition build_pcap :: "dsl_env \<Rightarrow> compiled_pcap \<Rightarrow> pcap_source result" where
  "build_pcap env p =
     (case pcap_from_path (de_read_bytes env) (cpc_path p) (pcap_config_of p) of
        Inl e \<Rightarrow> Inl (config_error (''pcap '' @ quoted (cpc_path p) @ '': '' @ error_display e))
      | Inr s \<Rightarrow> Inr s)"

definition build_consumer :: "compiled_consumer \<Rightarrow> consumer" where
  "build_consumer c =
     (if cco_max_per_drain c = usize_max then consumer_new (cco_name c) else consumer_slow (cco_name c) (cco_max_per_drain c))"

text \<open>\<open>None\<close>: the ring's constructor panics (a frame size of zero is not refused before).\<close>

definition build_scheduler :: "dsl_env \<Rightarrow> compiled_run \<Rightarrow> sim_scheduler result option" where
  "build_scheduler env c =
     (if cr_nics c = [] \<and> cr_pcaps c = []
      then Some (Inl (config_error ''scenario has no [[nic]] or [[pcap]] sources (storage-only runs not yet supported)''))
      else
        (let s0 = with_timeline (cr_timeline c) (with_edu (cr_edu c) (sim_scheduler_new (cr_scenario c)));
             ringed = (case cr_fabric c of
                 None \<Rightarrow> Some s0
               | Some f \<Rightarrow> map_option (\<lambda>r. with_ring r s0) (virtual_ring_new (cfb_name f) (cfb_slots f) (cfb_max_frame f))) in
         map_option (\<lambda>s1.
           let s2 = fold (\<lambda>n. add_nic (NicDev (virtual_nic_new (nic_config_of n)))) (cr_nics c) s1 in
           try_bind (collect_results (build_pcap env) (cr_pcaps c)) (\<lambda>ps.
           Inr (fold (\<lambda>k. add_consumer (build_consumer k)) (cr_consumers c) (fold (\<lambda>p. add_nic (PcapDev p)) ps s2))))
         ringed))"

section \<open>Files\<close>

definition parse_str :: "dsl_env \<Rightarrow> string \<Rightarrow> scenario_doc result" where
  "parse_str env text =
     (case de_parse env text of Inl e \<Rightarrow> Inl (config_error (''FlyScenario TOML: '' @ e)) | Inr d \<Rightarrow> Inr d)"

definition load_path :: "dsl_env \<Rightarrow> string \<Rightarrow> scenario_doc result" where
  "load_path env path =
     (case de_read_text env path of
        Inl e \<Rightarrow> Inl (config_error (''failed to read scenario file '' @ quoted path @ '': '' @ e))
      | Inr text \<Rightarrow> parse_str env text)"

definition compile_path :: "dsl_env \<Rightarrow> string \<Rightarrow> compiled_run result option" where
  "compile_path env path =
     (case load_path env path of
        Inl e \<Rightarrow> Some (Inl e)
      | Inr doc \<Rightarrow> compile_doc env (or_default (path_parent path) ''.'') doc)"

definition compile_str :: "dsl_env \<Rightarrow> string \<Rightarrow> string \<Rightarrow> compiled_run result option" where
  "compile_str env text base =
     (case parse_str env text of Inl e \<Rightarrow> Some (Inl e) | Inr doc \<Rightarrow> compile_doc env base doc)"

definition looks_like_scenario_file :: "string \<Rightarrow> bool" where
  "looks_like_scenario_file arg =
     (suffix ''.fly.toml'' (ascii_lower arg) \<or> suffix ''.toml'' (ascii_lower arg)
      \<or> CHR ''/'' \<in> set arg \<or> CHR 0x5C \<in> set arg)"

end
