(* ===== verification/Dashboard.thy ===== *)
theory Dashboard
  imports Dsl_Compile
begin

text \<open>
  The state of the terminal dashboard, its keys and its loop: \<open>simulator/src/tui/app.rs\<close>. The terminal is a
  library's. The dashboard, its scheduler and its sources share one event
  sink; in a call of the scheduler the sources emit before the scheduler does, so what the sink receives in
  a call is what each source's log has gained, then what the scheduler's has.
\<close>

datatype run_mode = Auto | Paused

datatype dash_source = Builtin scenario | Compiled compiled_run

record dashboard =
  da_source :: dash_source
  da_sink :: "sim_event list"
  da_sched :: sim_scheduler
  da_mode :: run_mode
  da_ticks_per_frame :: nat
  da_event_cursor :: nat
  da_event_log :: "string list"
  da_pps_hist :: "nat list"
  da_tick_lat_hist :: "nat list"
  da_prev_packets :: nat
  da_status :: string
  da_finished :: bool

definition HIST_CAP :: nat where "HIST_CAP = 64"
definition LOG_CAP :: nat where "LOG_CAP = 80"

definition times_sign :: string where "times_sign = [CHR 0xC3, CHR 0x97]"
definition em_dash :: string where "em_dash = [CHR 0xE2, CHR 0x80, CHR 0x94]"

section \<open>The shared sink\<close>

fun dn_events :: "dyn_nic \<Rightarrow> sim_event list" where
  "dn_events (NicDev s) = vn_events s"
| "dn_events (PcapDev s) = ps_events s"

definition gained :: "'a list \<Rightarrow> 'a list \<Rightarrow> 'a list" where
  "gained xs ys = drop (length xs) ys"

definition sink_gains :: "sim_scheduler \<Rightarrow> sim_scheduler \<Rightarrow> sim_event list" where
  "sink_gains s s1 =
     concat (map2 (\<lambda>n n1. gained (dn_events n) (dn_events n1)) (sd_nics s) (sd_nics s1))
     @ gained (sd_events s) (sd_events s1)"

section \<open>Building a scheduler\<close>

definition build_scheduler_builtin :: "scenario \<Rightarrow> sim_scheduler" where
  "build_scheduler_builtin sc =
     (let nic = virtual_nic_new \<lparr>nc_name = ''nic0'', nc_traffic = sc_traffic sc, nc_fault = sc_fault sc,
                                 nc_fault_seed = 0, nc_udp_dst_port = 9000\<rparr>;
          ring_slots = (if sc_name sc = ''queue_overflow'' then 16 else 4096);
          frame = 42 + max (tc_payload_size (sc_traffic sc)) 1;
          sched = add_nic (NicDev nic)
                    (with_edu (edu_controls_default\<lparr>ed_paused := True\<rparr>)
                      (with_ring (the (virtual_ring_new ''ring0'' ring_slots frame)) (sim_scheduler_new sc)))
      in if sc_name sc = ''slow_consumer'' then add_consumer (consumer_slow ''c0'' 1) sched
         else add_consumer (consumer_new ''c0'') sched)"

text \<open>\<open>None\<close> where the construction panics.\<close>

definition dash_build :: "dsl_env \<Rightarrow> dash_source \<Rightarrow> sim_scheduler result option" where
  "dash_build env src =
     (case src of
        Builtin sc \<Rightarrow> Some (Inr (build_scheduler_builtin sc))
      | Compiled c \<Rightarrow> map_option (\<lambda>r. try_bind r (\<lambda>s. Inr (sd_pause s))) (build_scheduler env c))"

fun dash_scenario :: "dash_source \<Rightarrow> scenario" where
  "dash_scenario (Builtin sc) = sc"
| "dash_scenario (Compiled c) = cr_scenario c"

section \<open>Events and samples\<close>

definition push_hist :: "nat list \<Rightarrow> nat \<Rightarrow> nat \<Rightarrow> nat list" where
  "push_hist buf v cap = (let b = buf @ [v] in if length b > cap then drop (length b - cap) b else b)"

definition ingest_tick_samples :: "dashboard \<Rightarrow> dashboard" where
  "ingest_tick_samples d =
     (let packets = ss_generated (sd_stats (da_sched d));
          new_events = events_from (da_event_cursor d) (da_sink d)
      in d\<lparr>da_prev_packets := packets,
           da_pps_hist := push_hist (da_pps_hist d) (packets - da_prev_packets d) HIST_CAP,
           da_tick_lat_hist :=
             fold (\<lambda>ev h. case ev_kind ev of EvTickCompleted _ ns \<Rightarrow> push_hist h ns HIST_CAP | _ \<Rightarrow> h)
               new_events (da_tick_lat_hist d)\<rparr>)"

text \<open>\<open>{:.p}\<close> of a float that is not negative: \<open>p\<close> decimals of its exact value, ties to even.\<close>

definition fixed_dec :: "nat \<Rightarrow> rat \<Rightarrow> string" where
  "fixed_dec p q =
     (let n = nat (round_half_even (q * 10 ^ p)); dec = nat_dec (n mod 10 ^ p)
      in nat_dec (n div 10 ^ p)
         @ (if p = 0 then '''' else ''.'' @ replicate (p - length dec) (CHR ''0'') @ dec))"

fun show_fixed :: "nat \<Rightarrow> f64 \<Rightarrow> string" where
  "show_fixed p (Fin q) = fixed_dec p q"
| "show_fixed p PosInf = ''inf''"
| "show_fixed p NegInf = ''-inf''"
| "show_fixed p NaN = ''NaN''"

definition show_ms :: "u64 \<Rightarrow> string" where
  "show_ms ns = show_fixed 3 (f64_div_pos (f64_of_nat (unat ns)) 1000000)"

text \<open>\<open>{:?}\<close> of the kinds that \<open>format_event\<close> does not name; \<open>dbg\<close> is \<open>{:?}\<close> of a string.\<close>

definition debug_kind :: "(string \<Rightarrow> string) \<Rightarrow> sim_event_kind \<Rightarrow> string" where
  "debug_kind dbg k =
     (case k of
        EvRecordRead backend off len \<Rightarrow>
          ''RecordRead { backend: '' @ dbg backend @ '', offset: '' @ nat_dec off @ '', len: '' @ nat_dec len @ '' }''
      | EvRecordDropped backend off \<Rightarrow>
          ''RecordDropped { backend: '' @ dbg backend @ '', offset: '' @ nat_dec off @ '' }''
      | EvParserError message \<Rightarrow> ''ParserError { message: '' @ dbg message @ '' }''
      | EvPlacementDecision strategy count \<Rightarrow>
          ''PlacementDecision { strategy: '' @ dbg strategy @ '', count: '' @ nat_dec count @ '' }''
      | _ \<Rightarrow> '''')"

definition format_event :: "(string \<Rightarrow> string) \<Rightarrow> sim_event \<Rightarrow> string" where
  "format_event dbg ev =
     (let t = show_ms (ev_clock_ns ev) @ ''ms'' in
      case ev_kind ev of
        EvPacketGenerated nic len sq \<Rightarrow>
          t @ '' gen '' @ nic @ '' seq='' @ nat_dec (unat sq) @ '' len='' @ nat_dec len
      | EvPacketDropped nic sq \<Rightarrow> t @ '' DROP '' @ nic @ '' seq='' @ nat_dec (unat sq)
      | EvPacketCorrupted nic sq \<Rightarrow> t @ '' CORRUPT '' @ nic @ '' seq='' @ nat_dec (unat sq)
      | EvSlotWritten ring sq \<Rightarrow> t @ '' write '' @ ring @ '' seq='' @ nat_dec (unat sq)
      | EvConsumerRead ring sq \<Rightarrow> t @ '' read '' @ ring @ '' seq='' @ nat_dec sq
      | EvQueueOverflow ring \<Rightarrow> t @ '' OVERFLOW '' @ ring
      | EvTickCompleted tick ns \<Rightarrow> t @ '' tick='' @ nat_dec tick @ '' wall='' @ nat_dec ns @ ''ns''
      | EvSimulatorStarted sc \<Rightarrow> t @ '' start '' @ sc
      | EvSimulatorStopped ticks _ \<Rightarrow> t @ '' stop ticks='' @ nat_dec ticks
      | k \<Rightarrow> t @ '' '' @ debug_kind dbg k)"

definition packet_noise :: "sim_event_kind \<Rightarrow> bool" where
  "packet_noise k =
     (case k of EvPacketGenerated _ _ _ \<Rightarrow> True | EvSlotWritten _ _ \<Rightarrow> True | EvConsumerRead _ _ \<Rightarrow> True | _ \<Rightarrow> False)"

definition tick_noise :: "sim_event_kind \<Rightarrow> bool" where
  "tick_noise k = (packet_noise k \<or> (case k of EvTickCompleted _ _ \<Rightarrow> True | _ \<Rightarrow> False))"

definition shown :: "dashboard \<Rightarrow> sim_event \<Rightarrow> bool" where
  "shown d ev \<longleftrightarrow>
     \<not> (da_mode d = Auto \<and> da_ticks_per_frame d > 1 \<and> tick_noise (ev_kind ev))
     \<and> \<not> (packet_noise (ev_kind ev) \<and> da_mode d = Auto)"

definition refresh_events :: "(string \<Rightarrow> string) \<Rightarrow> dashboard \<Rightarrow> dashboard" where
  "refresh_events dbg d =
     (let new_events = events_from (da_event_cursor d) (da_sink d);
          log = da_event_log d @ map (format_event dbg) (filter (shown d) new_events);
          log1 = (if length log > LOG_CAP then drop (length log - LOG_CAP) log else log);
          sink = truncate_to 2000 (da_sink d)
      in d\<lparr>da_event_log := log1, da_sink := sink, da_event_cursor := length sink\<rparr>)"

section \<open>Operations\<close>

text \<open>What a call reads from the wall clock: in a tick, and when a run is finished.\<close>

record frame_reads =
  fr_step :: wall_reads
  fr_wall :: nat
  fr_elapsed :: u64

record dash_env =
  dv_dsl :: dsl_env
  dv_libm :: libm
  dv_debug :: "string \<Rightarrow> string"

definition arm :: "dash_env \<Rightarrow> frame_reads \<Rightarrow> sim_scheduler \<Rightarrow> (sim_stats result \<times> sim_scheduler) option" where
  "arm env w s = sched_run (dv_libm env) (\<lambda>_. fr_step w) (fr_wall w) (fr_elapsed w) s"

definition dash_from_source :: "dash_env \<Rightarrow> frame_reads \<Rightarrow> dash_source \<Rightarrow> dashboard result option" where
  "dash_from_source env w src =
     (case dash_build (dv_dsl env) src of
        None \<Rightarrow> None
      | Some (Inl e) \<Rightarrow> Some (Inl e)
      | Some (Inr s0) \<Rightarrow>
          (let s1 = sd_pause s0 in
           case arm env w s1 of
             None \<Rightarrow> None
           | Some (Inl e, s2) \<Rightarrow> Some (Inl e)
           | Some (Inr _, s2) \<Rightarrow>
               Some (Inr (refresh_events (dv_debug env)
                 \<lparr>da_source = src, da_sink = sink_gains s1 s2, da_sched = s2, da_mode = Paused, da_ticks_per_frame = 1,
                  da_event_cursor = 0, da_event_log = [], da_pps_hist = [], da_tick_lat_hist = [],
                  da_prev_packets = 0,
                  da_status = ''Paused '' @ em_dash @ '' press Space to auto-run, s to step'',
                  da_finished = False\<rparr>))))"

definition dash_restart :: "dash_env \<Rightarrow> frame_reads \<Rightarrow> dashboard \<Rightarrow> (unit result \<times> dashboard) option" where
  "dash_restart env w d =
     (let s = (if sd_running (da_sched d) then snd (finish_run (fr_wall w) (fr_elapsed w) (da_sched d)) else da_sched d);
          d1 = d\<lparr>da_sched := s, da_sink := [], da_event_cursor := 0, da_event_log := [], da_pps_hist := [],
                 da_tick_lat_hist := [], da_prev_packets := 0, da_finished := False, da_mode := Paused\<rparr> in
      case dash_build (dv_dsl env) (da_source d) of
        None \<Rightarrow> None
      | Some (Inl e) \<Rightarrow> Some (Inl e, d1)
      | Some (Inr s0) \<Rightarrow>
          (let s1 = sd_pause s0 in
           case arm env w s1 of
             None \<Rightarrow> None
           | Some (r, s2) \<Rightarrow>
               (let d2 = d1\<lparr>da_sched := s2, da_sink := sink_gains s1 s2\<rparr> in
                case r of
                  Inl e \<Rightarrow> Some (Inl e, d2)
                | Inr _ \<Rightarrow>
                    Some (Inr (), refresh_events (dv_debug env) (d2\<lparr>da_status := ''Restarted '' @ em_dash @ '' paused''\<rparr>)))))"

definition dash_finish :: "frame_reads \<Rightarrow> dashboard \<Rightarrow> dashboard" where
  "dash_finish w d =
     (let s2 = snd (finish_run (fr_wall w) (fr_elapsed w) (da_sched d))
      in d\<lparr>da_sched := s2, da_sink := da_sink d @ sink_gains (da_sched d) s2, da_finished := True, da_mode := Paused,
           da_status := ''Scenario complete (simulated) '' @ em_dash @ '' r to restart, q to quit''\<rparr>)"

definition step_once :: "dash_env \<Rightarrow> frame_reads \<Rightarrow> dashboard \<Rightarrow> (unit result \<times> dashboard) option" where
  "step_once env w d =
     (if da_finished d then Some (Inr (), d\<lparr>da_status := ''Finished '' @ em_dash @ '' press r to restart''\<rparr>)
      else
        (let s0 = sd_resume (da_sched d) in
         case sched_step (dv_libm env) (fr_step w) s0 of
           None \<Rightarrow> None
         | Some (r, s1) \<Rightarrow>
             (let d1 = d\<lparr>da_sched := s1, da_sink := da_sink d @ sink_gains s0 s1\<rparr> in
              case r of
                Inl e \<Rightarrow> Some (Inl e, d1)
              | Inr again \<Rightarrow>
                  (let d2 = refresh_events (dv_debug env) (ingest_tick_samples d1) in
                   if again then Some (Inr (), d2)
                   else if ed_paused (sd_edu s1) \<and> sd_running s1
                     then Some (Inr (), d2\<lparr>da_status := ''Breakpoint '' @ em_dash @ '' paused'', da_mode := Paused\<rparr>)
                   else Some (Inr (), dash_finish w d2)))))"

text \<open>The ticks of a frame; each tick has its own readings.\<close>

fun auto_loop :: "dash_env \<Rightarrow> (nat \<Rightarrow> frame_reads) \<Rightarrow> nat \<Rightarrow> nat \<Rightarrow> dashboard \<Rightarrow> (unit result \<times> dashboard) option" where
  "auto_loop env wall k 0 d = Some (Inr (), d)"
| "auto_loop env wall k (Suc n) d =
     (case step_once env (wall k) d of
        None \<Rightarrow> None
      | Some (Inl e, d1) \<Rightarrow> Some (Inl e, d1)
      | Some (Inr _, d1) \<Rightarrow>
          if da_finished d1 \<or> da_mode d1 = Paused then Some (Inr (), d1) else auto_loop env wall (Suc k) n d1)"

definition auto_ticks :: "dash_env \<Rightarrow> (nat \<Rightarrow> frame_reads) \<Rightarrow> dashboard \<Rightarrow> (unit result \<times> dashboard) option" where
  "auto_ticks env wall d =
     (if da_mode d \<noteq> Auto \<or> da_finished d then Some (Inr (), d)
      else auto_loop env wall 0 (da_ticks_per_frame d) d)"

text \<open>The keys the dashboard knows, with the control modifier.\<close>

datatype key_code = KeyChar char | KeyEsc | KeyRight | KeyOther

definition dash_speed :: "nat \<Rightarrow> dashboard \<Rightarrow> dashboard" where
  "dash_speed n d =
     d\<lparr>da_ticks_per_frame := n, da_status := ''Speed '' @ times_sign @ nat_dec n @ '' ticks/frame''\<rparr>"

definition dash_space :: "dashboard \<Rightarrow> dashboard" where
  "dash_space d =
     (if da_finished d then d\<lparr>da_status := ''Finished '' @ em_dash @ '' press r to restart''\<rparr>
      else if da_mode d = Auto then d\<lparr>da_mode := Paused, da_sched := sd_pause (da_sched d), da_status := ''Paused''\<rparr>
      else d\<lparr>da_mode := Auto, da_sched := sd_resume (da_sched d),
             da_status := ''Auto-run '' @ times_sign @ nat_dec (da_ticks_per_frame d)\<rparr>)"

text \<open>\<open>Inr True\<close>: quit.\<close>

definition handle_key ::
  "dash_env \<Rightarrow> frame_reads \<Rightarrow> key_code \<Rightarrow> bool \<Rightarrow> dashboard \<Rightarrow> (bool result \<times> dashboard) option"
where
  "handle_key env w key control d =
     (if key = KeyChar (CHR ''q'') \<or> key = KeyEsc \<or> key = KeyChar (CHR ''c'') \<and> control then Some (Inr True, d)
      else if key = KeyChar (CHR '' '') then Some (Inr False, dash_space d)
      else if key = KeyChar (CHR ''s'') \<or> key = KeyRight then
        (case step_once env w (d\<lparr>da_mode := Paused\<rparr>) of
           None \<Rightarrow> None
         | Some (Inl e, d1) \<Rightarrow> Some (Inl e, d1)
         | Some (Inr _, d1) \<Rightarrow>
             Some (Inr False,
               if da_finished d1 then d1
               else d1\<lparr>da_status := ''Stepped '' @ em_dash @ '' tick '' @ nat_dec (ss_ticks (sd_stats (da_sched d1)))\<rparr>))
      else if key = KeyChar (CHR ''+'') \<or> key = KeyChar (CHR ''='') then
        Some (Inr False, dash_speed (min (min (da_ticks_per_frame d * 2) (2 ^ 32 - 1)) 1024) d)
      else if key = KeyChar (CHR ''-'') \<or> key = KeyChar (CHR ''_'') then
        Some (Inr False, dash_speed (max (da_ticks_per_frame d div 2) 1) d)
      else if key = KeyChar (CHR ''r'') then
        (case dash_restart env w d of
           None \<Rightarrow> None
         | Some (Inl e, d1) \<Rightarrow> Some (Inl e, d1)
         | Some (Inr _, d1) \<Rightarrow> Some (Inr False, d1))
      else Some (Inr False, d))"

text \<open>
  The event loop on the input of its iterations: the key pressed, if any, and whether a frame is due. The
  result is \<open>Inr True\<close> when the user has quit.
\<close>

record dash_input =
  di_key :: "(key_code \<times> bool) option"
  di_due :: bool
  di_reads :: frame_reads
  di_ticks :: "nat \<Rightarrow> frame_reads"

fun dash_loop :: "dash_env \<Rightarrow> dash_input list \<Rightarrow> dashboard \<Rightarrow> (bool result \<times> dashboard) option" where
  "dash_loop env [] d = Some (Inr False, d)"
| "dash_loop env (i # is) d =
     (case (case di_key i of None \<Rightarrow> Some (Inr False, d) | Some (key, control) \<Rightarrow> handle_key env (di_reads i) key control d) of
        None \<Rightarrow> None
      | Some (Inl e, d1) \<Rightarrow> Some (Inl e, d1)
      | Some (Inr quit, d1) \<Rightarrow>
          if quit then Some (Inr True, d1)
          else if di_due i then
            (case auto_ticks env (di_ticks i) d1 of
               None \<Rightarrow> None
             | Some (Inl e, d2) \<Rightarrow> Some (Inl e, d2)
             | Some (Inr _, d2) \<Rightarrow> dash_loop env is d2)
          else dash_loop env is d1)"

section \<open>The snapshot\<close>

record dash_state =
  dst_scenario_name :: string
  dst_scenario_desc :: string
  dst_clock_ns :: u64
  dst_duration_ns :: u64
  dst_stats :: sim_stats
  dst_ring :: "(nat \<times> nat \<times> f64) option"
  dst_consumer_reads :: nat
  dst_mode :: run_mode
  dst_ticks_per_frame :: nat
  dst_event_log :: "string list"
  dst_pps_hist :: "nat list"
  dst_tick_lat_hist :: "nat list"
  dst_last_batch_len :: nat
  dst_status :: string
  dst_finished :: bool

definition dash_state_default :: dash_state where
  "dash_state_default =
     \<lparr>dst_scenario_name = '''', dst_scenario_desc = '''', dst_clock_ns = 0, dst_duration_ns = 0,
      dst_stats = sim_stats_default, dst_ring = None, dst_consumer_reads = 0, dst_mode = Paused,
      dst_ticks_per_frame = 1, dst_event_log = [], dst_pps_hist = [], dst_tick_lat_hist = [], dst_last_batch_len = 0,
      dst_status = ''Space=run  s=step  +/-=speed  r=restart  q=quit'', dst_finished = False\<rparr>"

definition snapshot :: "u64 \<Rightarrow> dashboard \<Rightarrow> dash_state" where
  "snapshot elapsed d =
     (let s = da_sched d; sc = dash_scenario (da_source d) in
      \<lparr>dst_scenario_name = sc_name sc, dst_scenario_desc = sc_description sc,
       dst_clock_ns = (case sd_clock s of Some c \<Rightarrow> now_ns elapsed c | None \<Rightarrow> 0), dst_duration_ns = duration_ns s,
       dst_stats = sd_stats s, dst_ring = sd_ring_occupancy s, dst_consumer_reads = sd_consumer_reads s,
       dst_mode = da_mode d, dst_ticks_per_frame = da_ticks_per_frame d, dst_event_log = da_event_log d,
       dst_pps_hist = da_pps_hist d, dst_tick_lat_hist = da_tick_lat_hist d,
       dst_last_batch_len = (case sd_last_batch s of Some b \<Rightarrow> net_len b | None \<Rightarrow> 0),
       dst_status = da_status d, dst_finished = da_finished d\<rparr>)"

end
