(* ===== verification/Dash_View.thy ===== *)
theory Dash_View
  imports Dashboard
begin

text \<open>
  What the dashboard shows: the ratios and texts that \<open>simulator/src/tui/ui.rs\<close> computes from a snapshot, and the
  text and SVG screenshots of \<open>snapshot.rs\<close>. Layout, styles and the drawing of widgets are a library's.
\<close>

section \<open>Gauges and texts\<close>

text \<open>
  The gauges' ratios; the widget panics unless a ratio is between 0 and 1. A \<open>u64\<close> is always finite as a float.
\<close>

definition clock_ratio :: "dash_state \<Rightarrow> f64" where
  "clock_ratio st =
     (if dst_duration_ns st = 0 then Fin 0
      else f64_clamp
             (f64_div_pos (f64_of_nat (unat (dst_clock_ns st)))
               (case f64_of_nat (unat (dst_duration_ns st)) of Fin q \<Rightarrow> q | _ \<Rightarrow> 1))
             (Fin 0) (Fin 1))"

definition ring_ratio :: "dash_state \<Rightarrow> f64" where
  "ring_ratio st = (case dst_ring st of Some (_, _, occ) \<Rightarrow> f64_clamp occ (Fin 0) (Fin 1) | None \<Rightarrow> Fin 0)"

text \<open>The lines of the event log that are drawn in an area of the given height.\<close>

definition event_window :: "nat \<Rightarrow> dash_state \<Rightarrow> string list" where
  "event_window area_height st =
     (let height = area_height - 2; start = length (dst_event_log st) - max height 1 in drop start (dst_event_log st))"

text \<open>\<open>{:?}\<close> of a duration: the largest unit that is not zero, its fraction without trailing zeros.\<close>

definition trimmed_fraction :: "nat \<Rightarrow> nat \<Rightarrow> string" where
  "trimmed_fraction digits n =
     (let dec = nat_dec n; ds = rev (dropWhile (\<lambda>c. c = CHR ''0'') (rev (replicate (digits - length dec) (CHR ''0'') @ dec)))
      in if n = 0 then '''' else ''.'' @ ds)"

definition duration_debug :: "nat \<Rightarrow> string" where
  "duration_debug n =
     (if n \<ge> 10 ^ 9 then nat_dec (n div 10 ^ 9) @ trimmed_fraction 9 (n mod 10 ^ 9) @ ''s''
      else if n \<ge> 10 ^ 6 then nat_dec (n div 10 ^ 6) @ trimmed_fraction 6 (n mod 10 ^ 6) @ ''ms''
      else if n \<ge> 10 ^ 3 then nat_dec (n div 10 ^ 3) @ trimmed_fraction 3 (n mod 10 ^ 3) @ [CHR 0xC2, CHR 0xB5] @ ''s''
      else nat_dec n @ ''ns'')"

definition header_text :: "dash_state \<Rightarrow> string" where
  "header_text st =
     '' FlyBy Simulator '' @ '' ''
     @ (case dst_mode st of Auto \<Rightarrow> '' AUTO '' | Paused \<Rightarrow> '' PAUSED '')
     @ (if dst_finished st then '' DONE '' else '''')
     @ ''  '' @ dst_scenario_name st @ '' '' @ em_dash @ '' '' @ dst_scenario_desc st @ ''  '' @ ''[SIMULATED]''"

definition clock_label :: "dash_state \<Rightarrow> string" where
  "clock_label st =
     ''clock '' @ show_ms (dst_clock_ns st) @ '' ms / '' @ show_ms (dst_duration_ns st) @ '' ms   tick=''
     @ nat_dec (ss_ticks (dst_stats st)) @ ''   speed'' @ times_sign @ nat_dec (dst_ticks_per_frame st)"

definition drop_pct :: "sim_stats \<Rightarrow> f64" where
  "drop_pct s =
     (if ss_generated s = 0 then Fin 0
      else f64_div_pos (f64_mul (Fin 100) (f64_of_nat (ss_dropped s)))
             (case f64_of_nat (ss_generated s) of Fin q \<Rightarrow> q | _ \<Rightarrow> 1))"

definition stats_lines :: "dash_state \<Rightarrow> string list" where
  "stats_lines st =
     (let s = dst_stats st in
      [''packets   gen='' @ nat_dec (ss_generated s) @ ''  drop='' @ nat_dec (ss_dropped s)
         @ '' ('' @ show_fixed 1 (drop_pct s) @ ''%)  corrupt='' @ nat_dec (ss_corrupted s),
       ''shm       written='' @ nat_dec (ss_slots_written s) @ ''  consumed='' @ nat_dec (ss_slots_consumed s)
         @ ''  overflow='' @ nat_dec (ss_ring_overflows s),
       ''consumer  reads='' @ nat_dec (dst_consumer_reads st),
       (case dst_ring st of
          Some (len, cap, occ) \<Rightarrow>
            ''ring      '' @ nat_dec len @ ''/'' @ nat_dec cap @ ''  ('' @ show_fixed 0 (f64_mul occ (Fin 100)) @ ''% full)''
        | None \<Rightarrow> ''ring      (none)''),
       ''batch     last_len='' @ nat_dec (dst_last_batch_len st),
       ''wall      '' @ duration_debug (ss_elapsed s)])"

datatype colour = Red | Yellow | Grey | DarkGrey

definition event_colour :: "string \<Rightarrow> colour" where
  "event_colour line =
     (if sublist ''DROP'' line \<or> sublist ''OVERFLOW'' line then Red
      else if sublist ''CORRUPT'' line then Yellow
      else if sublist ''tick='' line then DarkGrey
      else Grey)"

definition footer_text :: "dash_state \<Rightarrow> string" where
  "footer_text st =
     '' '' @ dst_status st @ ''   '' @ ''Space'' @ '' run/pause  '' @ ''s'' @ '' step  '' @ ''+/-'' @ '' speed  ''
     @ ''r'' @ '' restart  '' @ ''q'' @ '' quit''"

section \<open>Screenshots\<close>

text \<open>\<open>str::lines\<close>: lines end at a newline, one carriage return before it included; a last empty line is none.\<close>

definition strip_cr :: "string \<Rightarrow> string" where
  "strip_cr l = (if suffix [CHR 0x0D] l then butlast l else l)"

fun split_newlines :: "string \<Rightarrow> string \<Rightarrow> string list" where
  "split_newlines acc [] = (if acc = [] then [] else [acc])"
| "split_newlines acc (c # s) = (if c = CHR 0x0A then strip_cr acc # split_newlines [] s else split_newlines (acc @ [c]) s)"

definition str_lines :: "string \<Rightarrow> string list" where
  "str_lines s = split_newlines [] s"

definition strip_quote_front :: "string \<Rightarrow> string" where
  "strip_quote_front l = (if prefix [CHR 0x22] l then tl l else l)"

definition strip_quote_back :: "string \<Rightarrow> string" where
  "strip_quote_back l = (if suffix [CHR 0x22] l then butlast l else l)"

fun join_with :: "string \<Rightarrow> string list \<Rightarrow> string" where
  "join_with sep [] = ''''"
| "join_with sep [x] = x"
| "join_with sep (x # y # ys) = x @ sep @ join_with sep (y # ys)"

definition clean_backend_text :: "string \<Rightarrow> string" where
  "clean_backend_text raw =
     join_with [CHR 0x0A] (map (\<lambda>l. strip_quote_back (strip_quote_front (trim l))) (str_lines raw))"

definition escape_char :: "char \<Rightarrow> string" where
  "escape_char c =
     (if c = CHR ''&'' then ''&amp;''
      else if c = CHR ''<'' then ''&lt;''
      else if c = CHR ''>'' then ''&gt;''
      else if c = CHR 0x22 then ''&quot;''
      else if (of_char c :: nat) \<le> 31 then '' ''
      else [c])"

definition xml_escape :: "string \<Rightarrow> string" where
  "xml_escape s = concat (map escape_char s)"

text \<open>The characters of a string in UTF-8: its bytes that do not continue one.\<close>

definition char_count :: "string \<Rightarrow> nat" where
  "char_count s = length (filter (\<lambda>c. \<not> (128 \<le> (of_char c :: nat) \<and> (of_char c :: nat) < 192)) s)"

definition xml_attr :: "string \<Rightarrow> string \<Rightarrow> string" where
  "xml_attr k v = k @ ''='' @ [CHR 0x22] @ v @ [CHR 0x22]"

definition svg_fill :: "string \<Rightarrow> string" where
  "svg_fill line =
     (if sublist ''DROP'' line \<or> sublist ''OVERFLOW'' line then ''#ff7b72''
      else if sublist ''PAUSED'' line \<or> sublist ''SIMULATED'' line then ''#ffa657''
      else if sublist ''AUTO'' line \<or> sublist ''DONE'' line then ''#3fb950''
      else ''#c9d1d9'')"

definition char_w :: f64 where "char_w = round64 (36 / 5)"
definition char_h :: f64 where "char_h = Fin 14"

text \<open>Sizes and positions; the margin is 16 on each side and the title takes 28.\<close>

definition svg_width :: "nat \<Rightarrow> f64" where
  "svg_width cols = f64_add (Fin 32) (f64_mul (f64_of_nat cols) char_w)"

definition svg_height :: "nat \<Rightarrow> f64" where
  "svg_height rows = f64_add (Fin 60) (f64_mul (f64_of_nat rows) char_h)"

definition svg_line_y :: "nat \<Rightarrow> f64" where
  "svg_line_y i = f64_add (Fin 44) (f64_mul (f64_add (f64_of_nat i) (Fin 1)) char_h)"

definition svg_fonts :: string where
  "svg_fonts = ''ui-monospace, SFMono-Regular, Menlo, Monaco, Consolas, monospace''"

definition svg_head :: "string \<Rightarrow> f64 \<Rightarrow> f64 \<Rightarrow> string" where
  "svg_head title width height =
     ''<svg '' @ xml_attr ''xmlns'' ''http://www.w3.org/2000/svg'' @ '' '' @ xml_attr ''width'' (show_fixed 0 width)
     @ '' '' @ xml_attr ''height'' (show_fixed 0 height) @ '' ''
     @ xml_attr ''viewBox'' (''0 0 '' @ show_fixed 1 width @ '' '' @ show_fixed 1 height) @ ''>'' @ [CHR 0x0A]
     @ ''  <rect '' @ xml_attr ''width'' ''100%'' @ '' '' @ xml_attr ''height'' ''100%'' @ '' ''
     @ xml_attr ''fill'' ''#0d1117'' @ '' '' @ xml_attr ''rx'' ''8'' @ ''/>'' @ [CHR 0x0A]
     @ ''  <text '' @ xml_attr ''x'' ''16'' @ '' '' @ xml_attr ''y'' ''18'' @ '' '' @ xml_attr ''fill'' ''#8b949e'' @ '' ''
     @ xml_attr ''font-family'' svg_fonts @ '' '' @ xml_attr ''font-size'' ''11'' @ ''>'' @ title @ ''</text>'' @ [CHR 0x0A]
     @ ''  <g '' @ xml_attr ''font-family'' svg_fonts @ '' '' @ xml_attr ''font-size'' ''12'' @ '' ''
     @ xml_attr ''fill'' ''#c9d1d9'' @ ''>'' @ [CHR 0x0A]"

definition svg_line :: "nat \<Rightarrow> string \<Rightarrow> string" where
  "svg_line i line =
     ''    <text '' @ xml_attr ''x'' ''16'' @ '' '' @ xml_attr ''y'' (show_fixed 1 (svg_line_y i)) @ '' ''
     @ xml_attr ''fill'' (svg_fill line) @ '' '' @ xml_attr ''xml:space'' ''preserve'' @ ''>'' @ xml_escape line
     @ ''</text>'' @ [CHR 0x0A]"

definition text_frame_to_svg :: "string \<Rightarrow> string \<Rightarrow> string" where
  "text_frame_to_svg frame title =
     (let ls = str_lines frame;
          cols = (if ls = [] then 80 else Max (set (map char_count ls)));
          rows = max (length ls) 1
      in svg_head title (svg_width cols) (svg_height rows) @ concat (map2 svg_line [0..<length ls] ls)
         @ ''  </g>'' @ [CHR 0x0A] @ ''</svg>'' @ [CHR 0x0A])"

text \<open>The steps before a screenshot: as many as asked for, or until the run has finished.\<close>

fun frame_steps :: "dash_env \<Rightarrow> (nat \<Rightarrow> frame_reads) \<Rightarrow> nat \<Rightarrow> nat \<Rightarrow> dashboard \<Rightarrow> (unit result \<times> dashboard) option" where
  "frame_steps env w k 0 d = Some (Inr (), d)"
| "frame_steps env w k (Suc n) d =
     (case step_once env (w k) d of
        None \<Rightarrow> None
      | Some (Inl e, d1) \<Rightarrow> Some (Inl e, d1)
      | Some (Inr _, d1) \<Rightarrow> if da_finished d1 then Some (Inr (), d1) else frame_steps env w (Suc k) n d1)"

text \<open>\<open>draw\<close> is the library's drawing of a snapshot on a terminal of the given size: its text, or the error's.\<close>

definition render_text_frame ::
  "dash_env \<Rightarrow> (nat \<Rightarrow> nat \<Rightarrow> dash_state \<Rightarrow> string + string) \<Rightarrow> (nat \<Rightarrow> frame_reads) \<Rightarrow> u64 \<Rightarrow> scenario \<Rightarrow> nat \<Rightarrow> nat
     \<Rightarrow> nat \<Rightarrow> string result option"
where
  "render_text_frame env draw w elapsed sc steps width height =
     (case dash_from_source env (w 0) (Builtin sc) of
        None \<Rightarrow> None
      | Some (Inl e) \<Rightarrow> Some (Inl e)
      | Some (Inr d) \<Rightarrow>
          (case frame_steps env w 1 steps d of
             None \<Rightarrow> None
           | Some (Inl e, d1) \<Rightarrow> Some (Inl e)
           | Some (Inr _, d1) \<Rightarrow>
               Some (case draw width height (snapshot elapsed d1) of
                 Inl e \<Rightarrow> Inl (error_new Io (''tui snapshot: '' @ e))
               | Inr raw \<Rightarrow> Inr (clean_backend_text raw))))"

text \<open>The text of a frame stays text in the SVG: what is escaped reads back as it was, control characters as blanks.\<close>

fun xml_unescape :: "string \<Rightarrow> string" where
  "xml_unescape [] = []"
| "xml_unescape (c # s) =
     (if prefix ''&amp;'' (c # s) then CHR ''&'' # xml_unescape (drop 4 s)
      else if prefix ''&lt;'' (c # s) then CHR ''<'' # xml_unescape (drop 3 s)
      else if prefix ''&gt;'' (c # s) then CHR ''>'' # xml_unescape (drop 3 s)
      else if prefix ''&quot;'' (c # s) then CHR 0x22 # xml_unescape (drop 5 s)
      else c # xml_unescape s)"

lemma xml_escape_unescape: "xml_unescape (xml_escape s) = map (\<lambda>c. if (of_char c :: nat) \<le> 31 then CHR '' '' else c) s"
proof (induction s)
  case Nil
  show ?case by (simp add: xml_escape_def)
next
  case (Cons c s)
  then show ?case by (simp add: xml_escape_def escape_char_def)
qed

lemma xml_escape_safe: "c \<in> set (xml_escape s) \<Longrightarrow> c \<noteq> CHR ''<'' \<and> c \<noteq> CHR ''>'' \<and> c \<noteq> CHR 0x22"
  by (auto simp: xml_escape_def escape_char_def split: if_splits)

end
