(* ===== verification/Sim_Sched_Props.thy ===== *)
theory Sim_Sched_Props
  imports Sim_Scheduler
begin

text \<open>
  What the simulation scheduler guarantees: a run in virtual time ends, after the number of ticks that
  its duration allows, and which of the polled packets reach the ring.
\<close>

section \<open>What a tick leaves alone\<close>

text \<open>The part of the state that feeding the ring and the event log do not touch.\<close>

definition sd_core :: "sim_scheduler \<Rightarrow> scenario \<times> sim_clock option \<times> edu_controls \<times> bool \<times> dyn_nic list \<times> nat" where
  "sd_core s = (sd_scenario s, sd_clock s, sd_edu s, sd_running s, sd_nics s, ss_ticks (sd_stats s))"

lemma sd_core_simps [simp]:
  "sd_core (sd_emit c k s) = sd_core s" "sd_core (sd_record x s) = sd_core s"
  "sd_core (s\<lparr>sd_ring := r\<rparr>) = sd_core s" "sd_core (s\<lparr>sd_consumers := cs\<rparr>) = sd_core s"
  "sd_core (s\<lparr>sd_last_batch := lb\<rparr>) = sd_core s"
  by (simp_all add: sd_core_def sd_emit_def sd_record_def)

lemma sd_core_bump: "(\<And>st. ss_ticks (f st) = ss_ticks st) \<Longrightarrow> sd_core (bump_stats f s) = sd_core s"
  by (simp add: sd_core_def bump_stats_def)

lemma ring_packet_core: "sd_core (fst (ring_packet now p v)) = sd_core (fst v)"
  by (simp add: ring_packet_def sd_core_bump split: prod.split sum.split)

lemma ring_packets_core: "sd_core (fst (fold (ring_packet now) ps v)) = sd_core (fst v)"
  by (induction ps arbitrary: v) (simp_all add: ring_packet_core)

lemma emits_core: "sd_core ((sd_emit c k ^^ n) s) = sd_core s"
  by (induction n) simp_all

lemma drain_consumers_core: "sd_core (snd (snd (drain_consumers now cs ring s))) = sd_core s"
  by (induction cs arbitrary: ring s) (simp_all add: emits_core sd_core_bump split_beta Let_def)

lemma feed_ring_core: "sd_core (feed_ring now b s) = sd_core s"
proof (cases "sd_ring s")
  case (Some ring)
  obtain s1 r1 where f: "fold (ring_packet now) (net_packets b) (s, ring) = (s1, r1)" by (rule prod.exhaust)
  then have "sd_core s1 = sd_core s" using ring_packets_core [of now "net_packets b" "(s, ring)"] by simp
  then show ?thesis using Some f drain_consumers_core by (simp add: feed_ring_def split_beta Let_def)
qed (simp add: feed_ring_def)

section \<open>Sources that return\<close>

fun returns :: "dyn_nic \<Rightarrow> bool" where
  "returns (NicDev s) = True"
| "returns (PcapDev s) = (\<not> pc_loop_capture (ps_config s))"

lemma returns_simps [simp]:
  "returns (dn_set_tick_context t c n) = returns n" "returns (dn_set_traffic tc n) = returns n"
  "returns (dn_set_fault f n) = returns n" "returns (snd (dn_take_spike_ns n)) = returns n"
  "returns (snd (dn_init n)) = returns n"
  by (cases n; simp add: ps_set_tick_context_def ps_set_traffic_def ps_set_fault_def ps_take_spike_ns_def
      ps_init_def Let_def map_prod_def split_beta split: sum.split)+

lemma dn_poll_returns:
  assumes "returns n" "net_inv b"
  shows "\<exists>r n' b'. dn_poll lm n b = Some (r, n', b') \<and> returns n' \<and> net_inv b'"
proof (cases n)
  case (NicDev s)
  then show ?thesis using nic_poll_inv [OF assms(2), of lm s] by (cases "nic_poll_batch lm s b") simp
next
  case (PcapDev s)
  show ?thesis
  proof (cases "ps_initialized s")
    case True
    then show ?thesis using pcap_poll_result [of s b] assms PcapDev by auto
  next
    case False
    then show ?thesis using assms PcapDev by (simp add: pcap_poll_batch_def)
  qed
qed

lemma poll_nics_returns:
  assumes "list_all returns ns" "net_inv b"
  shows "\<exists>ns' b' sp'. poll_nics lm t now ns b sp = Some (ns', b', sp') \<and> list_all returns ns' \<and> net_inv b'"
  using assms
proof (induction ns arbitrary: b sp)
  case (Cons n ns)
  have "returns (dn_set_tick_context t now n)" using Cons.prems by simp
  from dn_poll_returns [OF this Cons.prems(2), of lm] obtain r n' b' where
    p: "dn_poll lm (dn_set_tick_context t now n) b = Some (r, n', b')" "returns n'" "net_inv b'" by blast
  obtain x n2 where tk: "dn_take_spike_ns n' = (x, n2)" by (rule prod.exhaust)
  have "returns n2" using returns_simps(4) [of n'] p(2) tk by simp
  moreover have "\<exists>ns' b'' sp'. poll_nics lm t now ns b' (saturating_add sp x) = Some (ns', b'', sp')
      \<and> list_all returns ns' \<and> net_inv b''"
    using Cons.IH [OF _ p(3)] Cons.prems(1) by simp
  ultimately show ?case using p(1) tk by auto
qed simp

lemma init_nics_returns: "list_all returns ns \<Longrightarrow> list_all returns (snd (init_nics ns))"
proof (induction ns)
  case (Cons n ns)
  obtain r n1 where i: "dn_init n = (r, n1)" by (rule prod.exhaust)
  then have "returns n1" using returns_simps(5) [of n] Cons.prems by simp
  then show ?case using Cons i by (cases r) (simp_all add: split_beta)
qed simp

section \<open>Runs in virtual time\<close>

definition on_time :: "u64 \<Rightarrow> u64 \<Rightarrow> sim_scheduler \<Rightarrow> bool" where
  "on_time tick_ns dur s \<longleftrightarrow> sd_running s \<and> list_all returns (sd_nics s) \<and> sc_tick_ns (sd_scenario s) = tick_ns
     \<and> duration_ns s = dur \<and> clock_is_virtual (run_clock s) \<and> sd_clock s \<noteq> None"

lemma apply_action_returns: "list_all returns (sd_nics (apply_action a s)) = list_all returns (sd_nics s)"
  by (cases a) (simp_all add: list.pred_map o_def if_distrib [of returns])

lemma apply_action_frame:
  "sd_scenario (apply_action a s) = sd_scenario s" "sd_clock (apply_action a s) = sd_clock s"
  "sd_edu (apply_action a s) = sd_edu s" "sd_running (apply_action a s) = sd_running s"
  "sd_stats (apply_action a s) = sd_stats s"
  by (cases a; simp)+

lemma apply_actions_frame:
  "sd_scenario (apply_actions now acts s) = sd_scenario s \<and> sd_clock (apply_actions now acts s) = sd_clock s
    \<and> sd_edu (apply_actions now acts s) = sd_edu s \<and> sd_running (apply_actions now acts s) = sd_running s
    \<and> sd_stats (apply_actions now acts s) = sd_stats s
    \<and> list_all returns (sd_nics (apply_actions now acts s)) = list_all returns (sd_nics s)"
proof (induction acts arbitrary: s)
  case (Cons a acts)
  show ?case
    using Cons.IH [of "apply_action a (s\<lparr>sd_timeline_idx := sd_timeline_idx s + 1\<rparr>)"]
    by (simp add: apply_action_frame apply_action_returns)
qed simp

lemma apply_timeline_frame:
  "sd_scenario (apply_timeline now s) = sd_scenario s" "sd_clock (apply_timeline now s) = sd_clock s"
  "sd_edu (apply_timeline now s) = sd_edu s" "sd_running (apply_timeline now s) = sd_running s"
  "sd_stats (apply_timeline now s) = sd_stats s"
  "list_all returns (sd_nics (apply_timeline now s)) = list_all returns (sd_nics s)"
  by (simp_all add: apply_timeline_def apply_actions_frame)

lemma on_time_timeline: "on_time t d s \<Longrightarrow> on_time t d (apply_timeline now s)"
  using apply_timeline_frame [of now s] by (simp add: on_time_def duration_ns_def run_clock_def)

lemma now_virtual: "clock_is_virtual c \<Longrightarrow> now_ns e c = ck_virtual_ns c"
  by (cases "ck_mode c") (simp_all add: clock_is_virtual_def now_ns_def)

definition clock_of :: "sim_scheduler \<Rightarrow> nat" where
  "clock_of s = unat (ck_virtual_ns (run_clock s))"

text \<open>A tick's body moves the clock by at least one tick, or to its last value.\<close>

lemma tick_body_result:
  assumes "on_time t d s"
  shows "\<exists>r s' sp. tick_body lm w s = Some (Inr r, s') \<and> ss_ticks (sd_stats s') = Suc (ss_ticks (sd_stats s))
    \<and> sd_edu s' = sd_edu s \<and> clock_of s' = min (clock_of s + min (unat t + unat (sp :: u64)) (2 ^ 64 - 1)) (2 ^ 64 - 1)
    \<and> (r \<longleftrightarrow> clock_of s' < unat d) \<and> (r \<longrightarrow> on_time t d s') \<and> ss_clock_ns (sd_stats s') = ck_virtual_ns (run_clock s')
    \<and> sd_clock s' \<noteq> None \<and> clock_is_virtual (run_clock s') \<and> duration_ns s' = d"
proof -
  let ?cap = "max (tc_batch_size (sc_traffic (sd_scenario s))) 1"
  let ?pay = "max (tc_payload_size (sc_traffic (sd_scenario s))) 1"
  let ?b = "the (raw_batch_new ?cap (42 + ?pay))"
  define now where "now = now_ns (wr_now2 w) (run_clock s)"
  have "0 < ?cap" "0 < 42 + ?pay" by linarith+
  from raw_batch_new_some [OF this] have "net_inv ?b" by (metis option.sel)
  moreover have "list_all returns (sd_nics s)" using assms by (simp add: on_time_def)
  ultimately obtain ns b sp where p: "poll_nics lm t now (sd_nics s) ?b 0 = Some (ns, b, sp)"
    and ns: "list_all returns ns" using poll_nics_returns by blast
  define s1 where "s1 = feed_ring now b (s\<lparr>sd_nics := ns\<rparr>)"
  have core: "sd_core s1 = sd_core (s\<lparr>sd_nics := ns\<rparr>)" by (simp add: s1_def feed_ring_core)
  then have c1: "sd_scenario s1 = sd_scenario s" "sd_clock s1 = sd_clock s" "sd_edu s1 = sd_edu s"
    "sd_running s1 = sd_running s" "sd_nics s1 = ns" "ss_ticks (sd_stats s1) = ss_ticks (sd_stats s)"
    by (simp_all add: sd_core_def)
  have virt: "clock_is_virtual (run_clock s)" and tick: "sc_tick_ns (sd_scenario s) = t" and dur: "duration_ns s = d"
    using assms by (simp_all add: on_time_def)
  define clock where "clock = advance_ns (saturating_add t sp) (run_clock s)"
  have cv: "clock_is_virtual clock" using virt by (simp add: clock_def advance_ns_def clock_is_virtual_def)
  have cn: "unat (ck_virtual_ns clock) = min (clock_of s + min (unat t + unat sp) (2 ^ 64 - 1)) (2 ^ 64 - 1)"
    using virt by (simp add: clock_def advance_ns_def clock_of_def unat_saturating_add)
  define s2 where "s2 = bump_stats (\<lambda>st. st\<lparr>ss_ticks := ss_ticks st + 1\<rparr>) (s1\<lparr>sd_last_batch := Some b\<rparr>)"
  define s4 where "s4 = sd_record (SimHistogram SmTickDurationNs (f64_of_nat (unat (wr_tick w))))
      (sd_record (SimCounter SmTickCount 1) (sd_emit now (EvTickCompleted (ss_ticks (sd_stats s2)) (unat (wr_tick w))) s2))"
  have c4: "sd_scenario s4 = sd_scenario s" "sd_clock s4 = sd_clock s" "sd_edu s4 = sd_edu s"
    "sd_running s4 = sd_running s" "sd_nics s4 = ns" "ss_ticks (sd_stats s4) = Suc (ss_ticks (sd_stats s))"
    using c1 by (simp_all add: s4_def s2_def sd_record_def sd_emit_def bump_stats_def)
  have rc: "run_clock s4 = run_clock s" using c4 by (simp add: run_clock_def)
  define s5 where "s5 = bump_stats (\<lambda>st. st\<lparr>ss_clock_ns := ck_virtual_ns clock\<rparr>) (snapshot_nic_stats (s4\<lparr>sd_clock := Some clock\<rparr>))"
  have c5: "sd_scenario s5 = sd_scenario s" "sd_clock s5 = Some clock" "sd_edu s5 = sd_edu s" "sd_running s5 = sd_running s"
    "sd_nics s5 = ns" "ss_ticks (sd_stats s5) = Suc (ss_ticks (sd_stats s))" "ss_clock_ns (sd_stats s5) = ck_virtual_ns clock"
    using c4 by (simp_all add: s5_def bump_stats_def snapshot_nic_stats_def)
  have d5: "duration_ns s5 = d" using c5 dur by (simp add: duration_ns_def)
  have "tick_body lm w s = Some (if ck_virtual_ns clock \<ge> d then (Inr False, s5\<lparr>sd_running := False\<rparr>) else (Inr True, s5))"
    unfolding tick_body_def Let_def tick now_def [symmetric] p option.case prod.case s1_def [symmetric] s2_def [symmetric]
      s4_def [symmetric] rc if_P [OF virt] clock_def [symmetric] now_virtual [OF cv] s5_def [symmetric] d5 ..
  then show ?thesis
    using c5 cn cv d5 ns assms tick
    by (cases "ck_virtual_ns clock \<ge> d")
      (auto simp: on_time_def clock_of_def run_clock_def word_le_nat_alt duration_ns_def)
qed

lemma sched_step_result:
  assumes "on_time t d s"
  shows "\<exists>r s'. sched_step lm w s = Some (Inr r, s') \<and> sd_clock s' \<noteq> None \<and> clock_is_virtual (run_clock s')
    \<and> duration_ns s' = d \<and> (r \<longrightarrow> on_time t d s')
    \<and> (\<not> r \<and> clock_of s' = clock_of s \<and> ss_ticks (sd_stats s') = ss_ticks (sd_stats s)
          \<and> (unat d \<le> clock_of s \<or> ed_paused (sd_edu s'))
       \<or> clock_of s < unat d \<and> ss_ticks (sd_stats s') = Suc (ss_ticks (sd_stats s)) \<and> (r \<longleftrightarrow> clock_of s' < unat d)
          \<and> (clock_of s' < unat d \<longrightarrow> clock_of s + unat t \<le> clock_of s'))"
proof -
  note ot = assms [unfolded on_time_def]
  define now where "now = ck_virtual_ns (run_clock s)"
  have now: "now_ns (wr_now1 w) (run_clock s) = now" using ot by (simp add: now_virtual now_def)
  have co: "clock_of s = unat now" by (simp add: clock_of_def now_def)
  show ?thesis
  proof (cases "now \<ge> d")
    case True
    then have "sched_step lm w s = Some (Inr False, s\<lparr>sd_running := False\<rparr>)"
      using ot now by (simp add: sched_step_def)
    then show ?thesis
      using ot True co by (auto simp: run_clock_def duration_ns_def clock_of_def word_le_nat_alt)
  next
    case False
    define s1 where "s1 = apply_timeline now s"
    note fr = apply_timeline_frame [of now s, folded s1_def]
    have o1: "on_time t d s1" unfolding s1_def by (rule on_time_timeline [OF assms])
    have c1: "clock_of s1 = clock_of s" using fr by (simp add: clock_of_def run_clock_def)
    have lt: "clock_of s < unat d" using False co by (simp add: word_le_nat_alt)
    have step: "sched_step lm w s = (if edu_break now s1 then Some (Inr False, sd_pause s1) else tick_body lm w s1)"
      using ot now False by (simp add: sched_step_def s1_def Let_def)
    show ?thesis
    proof (cases "edu_break now s1")
      case True
      then show ?thesis
        using step o1 c1 fr by (auto simp: sd_pause_def on_time_def run_clock_def duration_ns_def clock_of_def)
    next
      case False
      from tick_body_result [OF o1, of lm w] obtain r s' sp where
        b: "tick_body lm w s1 = Some (Inr r, s')" "ss_ticks (sd_stats s') = Suc (ss_ticks (sd_stats s1))"
          "clock_of s' = min (clock_of s1 + min (unat t + unat (sp :: u64)) (2 ^ 64 - 1)) (2 ^ 64 - 1)"
          "r \<longleftrightarrow> clock_of s' < unat d" "r \<longrightarrow> on_time t d s'" "sd_clock s' \<noteq> None"
          "clock_is_virtual (run_clock s')" "duration_ns s' = d" by blast
      have "unat d \<le> 2 ^ 64 - 1" using unat_u64_less [of d] by linarith
      then have "clock_of s' < unat d \<longrightarrow> clock_of s + unat t \<le> clock_of s'" using b(3) c1 by linarith
      then show ?thesis using b step False lt fr by (intro exI [of _ r] exI [of _ s']) simp
    qed
  qed
qed

lemma sched_loop_ends:
  assumes "on_time t d s" "0 < unat t"
  shows "\<exists>s'. sched_loop lm wall k s = Some (Inr (), s') \<and> sd_clock s' \<noteq> None \<and> clock_is_virtual (run_clock s')
    \<and> duration_ns s' = d \<and> (unat d \<le> clock_of s' \<or> ed_paused (sd_edu s'))
    \<and> ss_ticks (sd_stats s') * unat t \<le> ss_ticks (sd_stats s) * unat t + (unat d - clock_of s) + (unat t - 1)"
  using assms
proof (induction "unat d - clock_of s" arbitrary: s k rule: less_induct)
  case less
  from sched_step_result [OF less.prems(1), of lm "wall k"] obtain r s' where
    st: "sched_step lm (wall k) s = Some (Inr r, s')" "sd_clock s' \<noteq> None" "clock_is_virtual (run_clock s')"
      "duration_ns s' = d" "r \<longrightarrow> on_time t d s'"
    and cs: "\<not> r \<and> clock_of s' = clock_of s \<and> ss_ticks (sd_stats s') = ss_ticks (sd_stats s)
          \<and> (unat d \<le> clock_of s \<or> ed_paused (sd_edu s'))
       \<or> clock_of s < unat d \<and> ss_ticks (sd_stats s') = Suc (ss_ticks (sd_stats s)) \<and> (r \<longleftrightarrow> clock_of s' < unat d)
          \<and> (clock_of s' < unat d \<longrightarrow> clock_of s + unat t \<le> clock_of s')" by blast
  have run: "sd_running s" using less.prems(1) by (simp add: on_time_def)
  let ?T = "unat t" and ?D = "unat d"
  show ?case
  proof (cases "r \<and> \<not> ed_paused (sd_edu s')")
    case False
    then have "sched_loop lm wall k s = Some (Inr (), s')"
      using run st(1) by (auto simp: sched_loop.simps [of lm wall k s])
    moreover have "?D \<le> clock_of s' \<or> ed_paused (sd_edu s')" using cs False by auto
    moreover have "ss_ticks (sd_stats s') * ?T \<le> ss_ticks (sd_stats s) * ?T + (?D - clock_of s) + (?T - 1)"
      using cs less.prems(2) by auto
    ultimately show ?thesis using st by blast
  next
    case True
    then have c: "clock_of s < ?D" "clock_of s' < ?D" "clock_of s + ?T \<le> clock_of s'"
      "ss_ticks (sd_stats s') = Suc (ss_ticks (sd_stats s))" using cs by auto
    have "sched_loop lm wall k s = sched_loop lm wall (Suc k) s'"
      using run st(1) True by (simp add: sched_loop.simps [of lm wall k s])
    moreover have "?D - clock_of s' < ?D - clock_of s" using c less.prems(2) by linarith
    from less.hyps [OF this _ less.prems(2), of "Suc k"] st(5) True obtain s2 where
      l: "sched_loop lm wall (Suc k) s' = Some (Inr (), s2)" "sd_clock s2 \<noteq> None" "clock_is_virtual (run_clock s2)"
        "duration_ns s2 = d" "?D \<le> clock_of s2 \<or> ed_paused (sd_edu s2)"
      and n: "ss_ticks (sd_stats s2) * ?T \<le> ss_ticks (sd_stats s') * ?T + (?D - clock_of s') + (?T - 1)" by blast
    have "ss_ticks (sd_stats s') * ?T = ss_ticks (sd_stats s) * ?T + ?T" using c(4) by simp
    then have "ss_ticks (sd_stats s2) * ?T \<le> ss_ticks (sd_stats s) * ?T + (?D - clock_of s) + (?T - 1)"
      using n c by linarith
    ultimately show ?thesis using l by auto
  qed
qed

lemma sd_begin_on_time:
  assumes "sc_clock_mode (sd_scenario s) = Virtual start" "list_all returns (sd_nics s)" "\<not> sd_running s"
    "sd_begin wall s = (Inr u, s1)"
  shows "on_time (sc_tick_ns (sd_scenario s)) (duration_ns s) s1" "clock_of s1 = unat start" "ss_ticks (sd_stats s1) = 0"
proof -
  obtain ns where ns: "init_nics (sd_nics s) = (Inr (), ns)"
    using assms(3,4) by (cases "init_nics (sd_nics s)"; cases "fst (init_nics (sd_nics s))") (auto simp: sd_begin_def)
  then have r: "list_all returns ns" using init_nics_returns [OF assms(2)] by simp
  let ?s = "sd_emit 0 (EvSimulatorStarted (sc_name (sd_scenario s)))
      (s\<lparr>sd_nics := ns, sd_clock := Some (sim_clock_new (sc_clock_mode (sd_scenario s))),
          sd_wall_start := Some wall, sd_stats := sim_stats_default, sd_timeline_idx := 0, sd_running := True\<rparr>)"
  have s1: "s1 = apply_timeline 0 ?s" using assms(3,4) ns by (simp add: sd_begin_def Let_def)
  have "on_time (sc_tick_ns (sd_scenario s)) (duration_ns s) ?s"
    using r assms(1) by (simp add: on_time_def sd_emit_def duration_ns_def run_clock_def sim_clock_new_def clock_is_virtual_def)
  then show "on_time (sc_tick_ns (sd_scenario s)) (duration_ns s) s1" unfolding s1 by (rule on_time_timeline)
  show "clock_of s1 = unat start" "ss_ticks (sd_stats s1) = 0"
    using apply_timeline_frame [of 0 ?s] assms(1)
    by (simp_all add: s1 clock_of_def run_clock_def sd_emit_def sim_clock_new_def sim_stats_default_def)
qed

section \<open>What reaches the ring\<close>

definition offered :: "sim_scheduler \<Rightarrow> nat" where
  "offered s = ss_slots_written (sd_stats s) + ss_ring_overflows (sd_stats s)"

lemma ring_packet_offers: "offered (fst (ring_packet now p v)) = Suc (offered (fst v))"
  by (simp add: ring_packet_def offered_def bump_stats_def sd_emit_def sd_record_def split: prod.split sum.split)

lemma ring_packets_offer: "offered (fst (fold (ring_packet now) ps v)) = offered (fst v) + length ps"
  by (induction ps arbitrary: v) (simp_all add: ring_packet_offers)

lemma emits_offered: "offered ((sd_emit c k ^^ n) s) = offered s"
  by (induction n) (simp_all add: offered_def sd_emit_def)

lemma drain_consumers_offered: "offered (snd (snd (drain_consumers now cs ring s))) = offered s"
proof (induction cs arbitrary: ring s)
  case (Cons c cs)
  have "offered (bump_stats (\<lambda>st. st\<lparr>ss_slots_consumed := ss_slots_consumed st + n\<rparr>) s) = offered s" for n
    by (simp add: offered_def bump_stats_def)
  then show ?case by (simp add: split_beta Let_def Cons.IH emits_offered)
qed simp

lemma feed_ring_offers:
  assumes "sd_ring s = Some ring"
  shows "offered (feed_ring now b s) = offered s + net_len b"
proof -
  obtain s1 r1 where f: "fold (ring_packet now) (net_packets b) (s, ring) = (s1, r1)" by (rule prod.exhaust)
  have "offered s1 = offered s + net_len b"
    using ring_packets_offer [of now "net_packets b" "(s, ring)"] f by (simp add: net_len_def)
  moreover have "offered (sd_record x s) = offered s" "offered (s\<lparr>sd_ring := r, sd_consumers := cs\<rparr>) = offered s" for x s r cs
    by (simp_all add: offered_def sd_record_def)
  ultimately show ?thesis
    using assms f by (simp add: feed_ring_def split_beta Let_def drain_consumers_offered)
qed

section \<open>A poll does not depend on what the batch held\<close>

text \<open>
  Two batches of the same shape \<open>k\<close>, their capacity and frame size, and two that hold the same packets
  besides. A poll resets its batch, so on batches of the same shape it leaves the source in the same state and, when it is initialised,
  delivers the same packets.
\<close>

definition same_shape :: "nat \<times> nat \<Rightarrow> raw_batch \<Rightarrow> raw_batch \<Rightarrow> bool" where
  "same_shape k b c \<longleftrightarrow> net_inv b \<and> net_inv c
     \<and> (net_capacity b, nb_max_frame_size b) = k \<and> (net_capacity c, nb_max_frame_size c) = k"

definition same_batch :: "nat \<times> nat \<Rightarrow> raw_batch \<Rightarrow> raw_batch \<Rightarrow> bool" where
  "same_batch k b c \<longleftrightarrow> same_shape k b c \<and> net_packets b = net_packets c"

lemma same_batch_shape: "same_batch k b c \<Longrightarrow> same_shape k b c"
  by (simp add: same_batch_def)

lemma same_batch_ops:
  "same_shape k b c \<Longrightarrow> same_batch k (net_reset b) (net_reset c)"
  "same_batch k b c \<Longrightarrow> same_batch k (net_record_drop b) (net_record_drop c)"
  "same_batch k b c \<Longrightarrow> net_capacity b = net_capacity c"
  by (auto simp: same_batch_def same_shape_def net_inv_reset net_inv_record_drop)

lemma same_batch_push:
  assumes "same_batch k b c"
  shows "fst (net_push d m b) = fst (net_push d m c)" "same_batch k (snd (net_push d m b)) (snd (net_push d m c))"
proof -
  have inv: "net_inv b" "net_inv c" using assms by (simp_all add: same_batch_def same_shape_def)
  have eq: "net_capacity b = net_capacity c" "nb_max_frame_size b = nb_max_frame_size c"
    using assms by (auto simp: same_batch_def same_shape_def)
  have "net_len b = net_len c"
    using assms length_net_packets [of b] length_net_packets [of c] by (simp add: same_batch_def net_len_def)
  then show "fst (net_push d m b) = fst (net_push d m c)" "same_batch k (snd (net_push d m b)) (snd (net_push d m c))"
    using net_push_cases [OF inv(1), of d m] net_push_cases [OF inv(2), of d m] assms inv eq
    by (simp_all add: same_batch_def same_shape_def net_inv_push)
qed

text \<open>Two runs of a loop over a source, a batch and counters.\<close>

definition same_vars :: "nat \<times> nat \<Rightarrow> 's \<times> raw_batch \<times> 'c \<Rightarrow> 's \<times> raw_batch \<times> 'c \<Rightarrow> bool" where
  "same_vars k v u \<longleftrightarrow> fst v = fst u \<and> same_batch k (fst (snd v)) (fst (snd u)) \<and> snd (snd v) = snd (snd u)"

lemma same_varsE:
  assumes "same_vars k v u"
  obtains s b c d where "v = (s, b, d)" "u = (s, c, d)" "same_batch k b c"
  using assms by (cases v; cases u) (auto simp: same_vars_def)

lemma nic_attempt_same:
  assumes "same_vars k v u"
  shows "fst (nic_attempt lm i v) = fst (nic_attempt lm i u) \<and> same_vars k (snd (nic_attempt lm i v)) (snd (nic_attempt lm i u))"
proof -
  obtain s b c d n where v: "v = (s, b, d, n)" "u = (s, c, d, n)" and bc: "same_batch k b c"
    using assms by (metis same_varsE prod.collapse)
  have push: "fst (net_push x m b) = fst (net_push x m c)" "same_batch k (snd (net_push x m b)) (snd (net_push x m c))"
    "same_batch k (net_record_drop (snd (net_push x m b))) (net_record_drop (snd (net_push x m c)))" for x m
    using same_batch_push [OF bc] same_batch_ops(2) by blast+
  show ?thesis
    using same_batch_ops(2,3) [OF bc] push
    by (simp add: v nic_attempt_def Let_def split_beta same_vars_def bc split: net_push_result.split)
qed

lemma nic_loop_same: "same_vars k v u \<Longrightarrow> same_vars k (nic_loop lm j i v) (nic_loop lm j i u)"
proof (induction j arbitrary: i v u)
  case (Suc j)
  note a = nic_attempt_same [OF Suc.prems, of lm i]
  show ?case using a Suc.IH by (simp add: split_beta)
qed simp

lemma nic_poll_same:
  assumes "same_shape k b c" "nic_poll_batch lm s b = (r, s', b')"
  shows "\<exists>c'. nic_poll_batch lm s c = (r, s', c') \<and> same_shape k b' c' \<and> (vn_initialized s \<longrightarrow> same_batch k b' c')"
proof (cases "vn_initialized s")
  case False
  then show ?thesis using assms by (auto simp: nic_poll_batch_def)
next
  case True
  obtain intended pacer where p: "packets_for_tick lm (vn_tick_ns s) (vn_pacer s) = (intended, pacer)"
    by (rule prod.exhaust)
  have "same_vars k (s\<lparr>vn_pacer := pacer\<rparr>, net_reset b, 0, 0) (s\<lparr>vn_pacer := pacer\<rparr>, net_reset c, 0, 0)"
    using same_batch_ops(1) [OF assms(1)] by (simp add: same_vars_def)
  from nic_loop_same [OF this, of lm intended 0] show ?thesis
    using assms True p same_batch_ops(1) [OF assms(1)] same_batch_shape
    by (auto simp: nic_poll_batch_def Let_def split_beta same_vars_def split: if_splits)
qed

text \<open>The part of a delivery before the push, which does not see the batch.\<close>

definition pcap_prepare :: "pcap_packet \<Rightarrow> pcap_source \<Rightarrow> bytes \<times> pcap_source" where
  "pcap_prepare pkt s =
     (let name = pc_name (ps_config s); sequence = of_nat (ps_generated s);
          (hit, f1) = should_corrupt (ps_fault s);
          s1 = s\<lparr>ps_fault := f1\<rparr>;
          (data, s2) =
            (if hit
             then (let (d, f) = corrupt_payload (pk_data pkt) (ps_fault s1)
                   in (d, ps_count SmPacketsCorrupted 1 (ps_emit (EvPacketCorrupted name sequence)
                            (s1\<lparr>ps_fault := f, ps_corrupted := ps_corrupted s1 + 1\<rparr>))))
             else (pk_data pkt, s1));
          (spike, f3) = should_spike (ps_fault s2);
          s3 = s2\<lparr>ps_fault := f3\<rparr>
      in (data, if spike > 0 then s3\<lparr>ps_spike_ns := saturating_add (ps_spike_ns s3) spike\<rparr> else s3))"

lemma pcap_deliver_prepare:
  "pcap_deliver pkt (s, b, d) =
    (let (data, s4) = pcap_prepare pkt s;
         (r, b1) = net_push data \<lparr>pm_timestamp_ns = pk_timestamp_ns pkt, pm_queue_id = 0,
                  pm_original_len = of_nat (min (length data) (2 ^ 32 - 1))\<rparr> b
     in if r = PktFull then (True, (s4\<lparr>ps_cursor := ps_cursor s4 - 1, ps_generated := ps_generated s4 - 1\<rparr>, b1, d))
        else (False, (ps_count SmThroughputBytes (length data) (ps_count SmPacketsGenerated 1
              (ps_emit (EvPacketGenerated (pc_name (ps_config s)) (length data) (of_nat (ps_generated s))) s4)), b1, d + 1)))"
  unfolding pcap_deliver_def pcap_prepare_def Let_def
  by (simp split: prod.split net_push_result.split)

lemma pcap_attempt_same:
  assumes "same_vars k v u"
  shows "fst (pcap_attempt v) = fst (pcap_attempt u) \<and> same_vars k (snd (pcap_attempt v)) (snd (pcap_attempt u))"
proof -
  obtain s b c d where v: "v = (s, b, d)" "u = (s, c, d)" and bc: "same_batch k b c"
    using assms by (metis same_varsE)
  have deliver: "fst (pcap_deliver pkt (q, b, d)) = fst (pcap_deliver pkt (q, c, d))
      \<and> same_vars k (snd (pcap_deliver pkt (q, b, d))) (snd (pcap_deliver pkt (q, c, d)))" for pkt q
    using same_batch_push [OF bc] by (simp add: pcap_deliver_prepare Let_def split_beta same_vars_def)
  note same = same_batch_ops(2,3) [OF bc]
  obtain x s1 where w: "pcap_wrap s = (x, s1)" by (rule prod.exhaust)
  show ?thesis
  proof (cases "d < net_capacity c \<and> x = None")
    case False
    then show ?thesis using w same(2) bc by (cases x) (auto simp: v pcap_attempt_def same_vars_def)
  next
    case True
    let ?pkt = "ps_packets s1 ! ps_cursor s1"
    obtain ready rp where r: "ready_at (pk_timestamp_ns ?pkt) (ps_clock_ns s1) (ps_replay s1) = (ready, rp)"
      by (rule prod.exhaust)
    obtain hit f1 where h: "should_drop (ps_fault s1) = (hit, f1)" by (rule prod.exhaust)
    let ?s = "s1\<lparr>ps_replay := rp, ps_cursor := ps_cursor s1 + 1, ps_generated := ps_generated s1 + 1, ps_fault := f1\<rparr>"
    obtain stop v1 where l1: "pcap_deliver ?pkt (?s, b, d) = (stop, v1)" by (rule prod.exhaust)
    obtain stop2 u1 where l2: "pcap_deliver ?pkt (?s, c, d) = (stop2, u1)" by (rule prod.exhaust)
    have l: "pcap_deliver ?pkt (?s, c, d) = (stop, u1)" "same_vars k v1 u1"
      using deliver [of ?pkt ?s] l1 l2 by simp_all
    show ?thesis
    proof (cases "ready \<and> \<not> hit")
      case deliver: True
      then have "pcap_attempt v = (if stop then Some (Inr ()) else None, v1)"
        "pcap_attempt u = (if stop then Some (Inr ()) else None, u1)"
        using True w same(2) r h l1 l(1) by (simp_all add: v pcap_attempt_def)
      then show ?thesis using l(2) by simp
    next
      case False
      then show ?thesis using True w same bc r h
        by (cases ready) (simp_all add: v pcap_attempt_def same_vars_def Let_def)
    qed
  qed
qed

lemma pcap_loop_same:
  assumes "pcap_loop v = Some (r, v')" "same_vars k v u"
  shows "\<exists>u'. pcap_loop u = Some (r, u') \<and> same_vars k v' u'"
proof -
  let ?P = "\<lambda>v y. \<forall>u. same_vars k v u \<longrightarrow> (\<exists>u'. pcap_loop u = Some (fst y, u') \<and> same_vars k (snd y) u')"
  have step: "?P v y" if rec: "\<And>v y. f v = Some y \<Longrightarrow> ?P v y"
    and st: "(case pcap_attempt v of (Some r, v1) \<Rightarrow> Some (r, v1) | (None, v1) \<Rightarrow> f v1) = Some y" for f v y
  proof (intro allI impI)
    fix u
    assume vu: "same_vars k v u"
    obtain q v1 where a: "pcap_attempt v = (q, v1)" by (rule prod.exhaust)
    obtain u1 where b: "pcap_attempt u = (q, u1)" "same_vars k v1 u1"
      using pcap_attempt_same [OF vu] a by (cases "pcap_attempt u") simp
    show "\<exists>u'. pcap_loop u = Some (fst y, u') \<and> same_vars k (snd y) u'"
    proof (cases q)
      case None
      then have "f v1 = Some y" using st a by simp
      from rec [OF this] b(2) have "\<exists>u'. pcap_loop u1 = Some (fst y, u') \<and> same_vars k (snd y) u'" by blast
      then show ?thesis using b(1) None by (subst pcap_loop.simps) simp
    next
      case (Some x)
      then show ?thesis using st a b by (auto simp: pcap_loop.simps [of u])
    qed
  qed
  have "?P v (r, v')" by (rule pcap_loop.raw_induct [where P = ?P, OF step assms(1)])
  then show ?thesis unfolding fst_conv snd_conv using assms(2) by blast
qed

lemma pcap_poll_same:
  assumes "same_shape k b c" "pcap_poll_batch s b = Some (r, s', b')"
  shows "\<exists>c'. pcap_poll_batch s c = Some (r, s', c') \<and> same_shape k b' c'"
proof -
  note reset = same_batch_shape [OF same_batch_ops(1) [OF assms(1)]]
  consider "\<not> ps_initialized s" | "ps_initialized s" "ps_packets s = []" | "ps_initialized s \<and> ps_packets s \<noteq> []"
    by blast
  then show ?thesis
  proof cases
    case 1
    then show ?thesis using assms by (auto simp: pcap_poll_batch_def)
  next
    case 2
    then show ?thesis using assms(2) reset by (auto simp: pcap_poll_batch_def)
  next
    case True: 3
    then obtain x s1 b1 n where l: "pcap_loop (s, net_reset b, 0) = Some (x, s1, b1, n)"
      using assms(2) by (auto simp: pcap_poll_batch_def split: option.splits)
    have "same_vars k (s, net_reset b, 0 :: nat) (s, net_reset c, 0)"
      using same_batch_ops(1) [OF assms(1)] by (simp add: same_vars_def)
    from pcap_loop_same [OF l this] obtain c1 where "pcap_loop (s, net_reset c, 0) = Some (x, s1, c1, n)" "same_batch k b1 c1"
      by (auto simp: same_vars_def)
    then show ?thesis using True assms(2) l same_batch_shape
      by (auto simp: pcap_poll_batch_def split: sum.splits)
  qed
qed

lemma dn_poll_same:
  assumes "same_shape k b c" "dn_poll lm n b = Some (r, n', b')"
  shows "\<exists>c'. dn_poll lm n c = Some (r, n', c') \<and> same_shape k b' c'"
proof (cases n)
  case (NicDev s)
  obtain r1 s1 b1 where p: "nic_poll_batch lm s b = (r1, s1, b1)" by (rule prod_cases3)
  from nic_poll_same [OF assms(1) p] show ?thesis using assms(2) p NicDev by auto
next
  case (PcapDev s)
  then obtain s1 where p: "pcap_poll_batch s b = Some (r, s1, b')" "n' = PcapDev s1" using assms(2) by auto
  from pcap_poll_same [OF assms(1) p(1)] show ?thesis using p(2) PcapDev by auto
qed

text \<open>What a source becomes when it is polled alone with a batch of the tick's shape, and what it delivers.\<close>

definition polled_alone :: "libm \<Rightarrow> u64 \<Rightarrow> u64 \<Rightarrow> raw_batch \<Rightarrow> dyn_nic \<Rightarrow> (dyn_nic \<times> (bytes \<times> packet_meta) list) option" where
  "polled_alone lm tick_ns now b n =
     map_option (\<lambda>(_, n1, b1). (snd (dn_take_spike_ns n1), net_packets b1)) (dn_poll lm (dn_set_tick_context tick_ns now n) b)"

lemma poll_nics_last:
  assumes "list_all returns front" "net_inv b" "vn_initialized v" "same_shape k b c"
  shows "\<exists>ns' v' b' sp'. poll_nics lm t now (front @ [NicDev v]) b sp = Some (ns' @ [NicDev v'], b', sp')
    \<and> list_all2 (\<lambda>n n'. \<exists>ps. polled_alone lm t now c n = Some (n', ps)) front ns'
    \<and> polled_alone lm t now c (NicDev v) = Some (NicDev v', net_packets b')
    \<and> vn_generated v' + vn_dropped v = vn_generated v + net_len b' + vn_dropped v'"
  using assms(1,2,4)
proof (induction front arbitrary: b sp)
  case Nil
  let ?v = "vn_set_tick_context t now v"
  have init: "vn_initialized ?v" using assms(3) by (simp add: vn_set_tick_context_def)
  from nic_poll_result [OF init Nil(2), of lm] obtain n v1 b1 where
    p: "nic_poll_batch lm ?v b = (Inr n, v1, b1)" "net_len b1 = n"
    "vn_generated v1 + vn_dropped v = vn_generated v + n + vn_dropped v1"
    by (auto simp: vn_set_tick_context_def)
  from nic_poll_same [OF Nil(3) p(1)] init obtain c1 where "nic_poll_batch lm ?v c = (Inr n, v1, c1)"
    "net_packets b1 = net_packets c1" by (auto simp: same_batch_def)
  then show ?case using p by (intro exI [of _ "[]"]) (simp add: vn_take_spike_ns_def polled_alone_def)
next
  case (Cons n front)
  have "returns (dn_set_tick_context t now n)" using Cons.prems by simp
  from dn_poll_returns [OF this Cons.prems(2), of lm] obtain r n' b1 where
    p: "dn_poll lm (dn_set_tick_context t now n) b = Some (r, n', b1)" "net_inv b1" by blast
  obtain x n2 where tk: "dn_take_spike_ns n' = (x, n2)" by (rule prod.exhaust)
  from dn_poll_same [OF Cons.prems(3) p(1)] obtain c1 where
    c1: "dn_poll lm (dn_set_tick_context t now n) c = Some (r, n', c1)" "same_shape k b1 c1" by blast
  then have keep: "same_shape k b1 c" using Cons.prems(3) by (simp add: same_shape_def)
  from Cons.IH [OF _ p(2) keep, of "saturating_add sp x"] Cons.prems(1) obtain ns' v' b' sp' where
    "poll_nics lm t now (front @ [NicDev v]) b1 (saturating_add sp x) = Some (ns' @ [NicDev v'], b', sp')"
    "list_all2 (\<lambda>n n'. \<exists>ps. polled_alone lm t now c n = Some (n', ps)) front ns'"
    "polled_alone lm t now c (NicDev v) = Some (NicDev v', net_packets b')"
    "vn_generated v' + vn_dropped v = vn_generated v + net_len b' + vn_dropped v'" by auto
  then show ?case using p tk c1 by (intro exI [of _ "n2 # ns'"]) (auto simp: polled_alone_def)
qed

section \<open>Properties\<close>

text \<open>
  A run in virtual time with a positive tick and captures that are not looped returns. When it
  is not paused, its clock has reached the duration, and it took at most as many ticks as the
  duration holds, the last one begun counted.
\<close>

theorem sched_run_ends:
  assumes "sc_clock_mode (sd_scenario s) = Virtual start" "0 < unat (sc_tick_ns (sd_scenario s))"
    "list_all returns (sd_nics s)" "\<not> sd_running s"
  shows "\<exists>r s'. sched_run lm wall wall_end elapsed s = Some (r, s')
    \<and> (\<forall>st. r = Inr st \<longrightarrow> \<not> ed_paused (sd_edu s') \<longrightarrow> duration_ns s \<le> ss_clock_ns st
          \<and> ss_ticks st * unat (sc_tick_ns (sd_scenario s))
              \<le> (unat (duration_ns s) - unat start) + (unat (sc_tick_ns (sd_scenario s)) - 1))"
proof -
  obtain b s1 where bg: "sd_begin (wr_start (wall 0)) s = (b, s1)" by (rule prod.exhaust)
  show ?thesis
  proof (cases b)
    case (Inl e)
    then show ?thesis using bg by (simp add: sched_run_def)
  next
    case (Inr u)
    note on = sd_begin_on_time [OF assms(1,3,4) bg [unfolded Inr]]
    show ?thesis
    proof (cases "ed_paused (sd_edu s1)")
      case True
      then show ?thesis using bg Inr by (simp add: sched_run_def)
    next
      case False
      from sched_loop_ends [OF on(1) assms(2), of lm wall 0] obtain s2 where
        l: "sched_loop lm wall 0 s1 = Some (Inr (), s2)" and c: "sd_clock s2 \<noteq> None" "clock_is_virtual (run_clock s2)"
        and e: "unat (duration_ns s) \<le> clock_of s2 \<or> ed_paused (sd_edu s2)"
        and n: "ss_ticks (sd_stats s2) * unat (sc_tick_ns (sd_scenario s))
            \<le> (unat (duration_ns s) - unat start) + (unat (sc_tick_ns (sd_scenario s)) - 1)"
        using on(2,3) by auto
      show ?thesis
      proof (cases "ed_paused (sd_edu s2)")
        case True
        then show ?thesis using bg Inr l False by (simp add: sched_run_def)
      next
        case np: False
        obtain f s3 where fin: "sd_finish wall_end elapsed s2 = (f, s3)" by (rule prod.exhaust)
        obtain ck where ck: "sd_clock s2 = Some ck" using c(1) by blast
        have "ss_clock_ns (sd_stats s3) = ck_virtual_ns ck" "ss_ticks (sd_stats s3) = ss_ticks (sd_stats s2)"
          using fin ck c(2)
          by (auto simp: sd_finish_def Let_def snapshot_nic_stats_def sd_emit_def run_clock_def now_virtual
              split: option.splits prod.splits sum.splits)
        moreover have "unat (duration_ns s) \<le> unat (ck_virtual_ns ck)" using e np ck by (simp add: clock_of_def run_clock_def)
        ultimately show ?thesis
          using bg Inr l False np fin n by (cases f) (auto simp: sched_run_def word_le_nat_alt)
      qed
    qed
  qed
qed

definition example_scheduler :: sim_scheduler where
  "example_scheduler =
     add_nic (NicDev (virtual_nic_new nic_config_default)) (sim_scheduler_new scenario_default)"

text \<open>One card, one second, ticks of a millisecond: at most 1000 of them.\<close>

lemma sched_run_ends_witness:
  "\<exists>r s'. sched_run zero_libm (\<lambda>_. \<lparr>wr_start = 0, wr_now1 = 0, wr_now2 = 0, wr_tick = 0, wr_next = 0\<rparr>) 0 0 example_scheduler
     = Some (r, s') \<and> (\<forall>st. r = Inr st \<longrightarrow> \<not> ed_paused (sd_edu s') \<longrightarrow> ss_ticks st \<le> 1000)"
proof -
  have ex: "sc_clock_mode (sd_scenario example_scheduler) = Virtual 0" "sc_tick_ns (sd_scenario example_scheduler) = 1000000"
    "list_all returns (sd_nics example_scheduler)" "\<not> sd_running example_scheduler"
    "duration_ns example_scheduler = 1000000000"
    by (simp_all add: example_scheduler_def add_nic_def sim_scheduler_new_def scenario_default_def duration_ns_def)
  have bound: "n \<le> 1000" if "n * 1000000 \<le> (1000000000 - 0) + (1000000 - 1 :: nat)" for n
    using that by linarith
  from sched_run_ends [OF ex(1) _ ex(3,4), of zero_libm
      "\<lambda>_. \<lparr>wr_start = 0, wr_now1 = 0, wr_now2 = 0, wr_tick = 0, wr_next = 0\<rparr>" 0 0]
  have "\<exists>r s'. sched_run zero_libm (\<lambda>_. \<lparr>wr_start = 0, wr_now1 = 0, wr_now2 = 0, wr_tick = 0, wr_next = 0\<rparr>) 0 0
      example_scheduler = Some (r, s')
      \<and> (\<forall>st. r = Inr st \<longrightarrow> \<not> ed_paused (sd_edu s') \<longrightarrow> 1000000000 \<le> ss_clock_ns st
          \<and> ss_ticks st * 1000000 \<le> (1000000000 - 0) + (1000000 - 1))"
    by (simp add: ex)
  then show ?thesis using bound by blast
qed

text \<open>
  (C26) All sources of a tick are polled into one batch, and each poll resets it: what a tick offers to
  the ring is what the last card alone delivered. The packets of the earlier sources disappear
  uncounted: every source is left exactly as a poll into a batch of its own would leave it, so its
  generated, dropped and corrupted counters say nothing of the loss; the statistics are the sums of
  these counters; and the slots written and the overflows of the ring grow by the packets of the last
  card only.
\<close>

theorem only_last_card_reaches_ring:
  assumes "sd_nics s = front @ [NicDev v]" "list_all returns front" "vn_initialized v" "sd_ring s = Some ring"
    and "alone = polled_alone lm (sc_tick_ns (sd_scenario s)) (now_ns (wr_now2 w) (run_clock s))
      (the (raw_batch_new (max (tc_batch_size (sc_traffic (sd_scenario s))) 1)
              (42 + max (tc_payload_size (sc_traffic (sd_scenario s))) 1)))"
  shows "\<exists>r s' ns' v' ps. tick_body lm w s = Some (r, s') \<and> sd_nics s' = ns' @ [NicDev v']
    \<and> list_all2 (\<lambda>n n'. \<exists>lost. alone n = Some (n', lost)) front ns'
    \<and> alone (NicDev v) = Some (NicDev v', ps) \<and> offered s' = offered s + length ps
    \<and> vn_generated v' + vn_dropped v = vn_generated v + length ps + vn_dropped v'
    \<and> ss_generated (sd_stats s') = sum_list (map dn_generated (sd_nics s'))
    \<and> ss_dropped (sd_stats s') = sum_list (map dn_dropped (sd_nics s'))
    \<and> ss_corrupted (sd_stats s') = sum_list (map dn_corrupted (sd_nics s'))"
proof -
  let ?cap = "max (tc_batch_size (sc_traffic (sd_scenario s))) 1"
  let ?pay = "max (tc_payload_size (sc_traffic (sd_scenario s))) 1"
  let ?b = "the (raw_batch_new ?cap (42 + ?pay))"
  define now where "now = now_ns (wr_now2 w) (run_clock s)"
  have "0 < ?cap" "0 < 42 + ?pay" by linarith+
  from raw_batch_new_some [OF this] have inv: "net_inv ?b" by (metis option.sel)
  then have "same_shape (net_capacity ?b, nb_max_frame_size ?b) ?b ?b" by (simp add: same_shape_def)
  from poll_nics_last [OF assms(2) inv assms(3) this, of lm "sc_tick_ns (sd_scenario s)" now 0] obtain ns' v' b sp where
    p: "poll_nics lm (sc_tick_ns (sd_scenario s)) now (sd_nics s) ?b 0 = Some (ns' @ [NicDev v'], b, sp)"
    and a: "list_all2 (\<lambda>n n'. \<exists>ps. alone n = Some (n', ps)) front ns'" "alone (NicDev v) = Some (NicDev v', net_packets b)"
    and v': "vn_generated v' + vn_dropped v = vn_generated v + net_len b + vn_dropped v'"
    unfolding assms(1,5) now_def by blast
  let ?s = "s\<lparr>sd_nics := ns' @ [NicDev v']\<rparr>"
  have f: "offered (feed_ring now b ?s) = offered s + length (net_packets b)"
    using feed_ring_offers [of ?s ring now b] assms(4) by (simp add: offered_def net_len_def)
  have n: "sd_nics (feed_ring now b ?s) = ns' @ [NicDev v']"
    using feed_ring_core [of now b ?s] by (simp add: sd_core_def)
  have "case tick_body lm w s of None \<Rightarrow> False
    | Some (r, s') \<Rightarrow> sd_nics s' = sd_nics (feed_ring now b ?s) \<and> offered s' = offered (feed_ring now b ?s)
        \<and> ss_generated (sd_stats s') = sum_list (map dn_generated (sd_nics s'))
        \<and> ss_dropped (sd_stats s') = sum_list (map dn_dropped (sd_nics s'))
        \<and> ss_corrupted (sd_stats s') = sum_list (map dn_corrupted (sd_nics s'))"
    using p by (simp add: tick_body_def Let_def now_def offered_def bump_stats_def snapshot_nic_stats_def sd_emit_def
        sd_record_def)
  then obtain r s' where "tick_body lm w s = Some (r, s')" "sd_nics s' = sd_nics (feed_ring now b ?s)"
    "offered s' = offered (feed_ring now b ?s)" "ss_generated (sd_stats s') = sum_list (map dn_generated (sd_nics s'))"
    "ss_dropped (sd_stats s') = sum_list (map dn_dropped (sd_nics s'))"
    "ss_corrupted (sd_stats s') = sum_list (map dn_corrupted (sd_nics s'))" by (auto split: option.splits)
  then show ?thesis using f n a v' by (simp add: net_len_def)
qed

text \<open>Two identical cards: what the first one delivers never reaches the ring.\<close>

lemma only_last_card_reaches_ring_witness:
  "\<exists>r s' ns' v'. tick_body zero_libm \<lparr>wr_start = 0, wr_now1 = 0, wr_now2 = 0, wr_tick = 0, wr_next = 0\<rparr>
       (with_ring example_vring (add_nic (NicDev (snd (vn_init (virtual_nic_new nic_config_default))))
          (add_nic (NicDev (snd (vn_init (virtual_nic_new nic_config_default)))) (sim_scheduler_new scenario_default))))
     = Some (r, s') \<and> sd_nics s' = ns' @ [NicDev v'] \<and> length ns' = 1
     \<and> offered s' + vn_dropped v' = vn_generated v'"
proof -
  let ?v = "snd (vn_init (virtual_nic_new nic_config_default))"
  let ?s = "with_ring example_vring (add_nic (NicDev ?v) (add_nic (NicDev ?v) (sim_scheduler_new scenario_default)))"
  have v: "vn_initialized ?v" "vn_generated ?v = 0" "vn_dropped ?v = 0"
    by (simp_all add: vn_init_def Let_def vn_emit_def)
  have s: "sd_nics ?s = [NicDev ?v] @ [NicDev ?v]" "sd_ring ?s = Some example_vring" "offered ?s = 0"
    "list_all returns [NicDev ?v]"
    by (simp_all add: with_ring_def add_nic_def sim_scheduler_new_def offered_def sim_stats_default_def)
  let ?w = "\<lparr>wr_start = 0, wr_now1 = 0, wr_now2 = 0, wr_tick = 0, wr_next = 0\<rparr>"
  define alone where "alone = polled_alone zero_libm (sc_tick_ns (sd_scenario ?s)) (now_ns (wr_now2 ?w) (run_clock ?s))
      (the (raw_batch_new (max (tc_batch_size (sc_traffic (sd_scenario ?s))) 1)
              (42 + max (tc_payload_size (sc_traffic (sd_scenario ?s))) 1)))"
  from only_last_card_reaches_ring [OF s(1,4) v(1) s(2) alone_def] obtain r s' ns' v' and ps :: "(bytes \<times> packet_meta) list" where
    tb: "tick_body zero_libm ?w ?s = Some (r, s')" "sd_nics s' = ns' @ [NicDev v']"
      "list_all2 (\<lambda>n n'. \<exists>lost. alone n = Some (n', lost)) [NicDev ?v] ns'" "offered s' = offered ?s + length ps"
      "vn_generated v' + vn_dropped ?v = vn_generated ?v + length ps + vn_dropped v'"
    by blast
  have "offered s' + vn_dropped v' = vn_generated v'" using tb(4,5) v(2,3) s(3) by linarith
  moreover have "length ns' = 1" using list_all2_lengthD [OF tb(3)] by simp
  ultimately show ?thesis using tb(1,2) by blast
qed

end
