(* ===== verification/Sim_Ring_Props.thy ===== *)
theory Sim_Ring_Props
  imports Sim_Sched_Props
begin

text \<open>
  When a run of the scheduler loses nothing between its sources and its consumer: the ring holds a
  whole batch, its slots hold a whole frame, and one consumer without a limit empties it in every tick.
\<close>

section \<open>Batches keep their shape\<close>

definition shaped :: "nat \<Rightarrow> nat \<Rightarrow> raw_batch \<Rightarrow> bool" where
  "shaped cap m b \<longleftrightarrow> net_inv b \<and> net_capacity b = cap \<and> nb_max_frame_size b = m"

lemma shaped_ops [simp, intro]:
  "shaped cap m b \<Longrightarrow> shaped cap m (net_reset b)" "shaped cap m b \<Longrightarrow> shaped cap m (net_record_drop b)"
  "shaped cap m b \<Longrightarrow> shaped cap m (snd (net_push d mt b))"
  by (simp_all add: shaped_def net_inv_reset net_inv_record_drop net_inv_push)

lemma nic_attempt_shaped:
  assumes "shaped cap m (fst (snd v))"
  shows "shaped cap m (fst (snd (snd (nic_attempt lm i v))))"
proof -
  have "shaped cap m b1" if "net_push d mt (fst (snd v)) = (r, b1)" for d mt r b1
    using shaped_ops(3) [OF assms, of d mt] that by simp
  then show ?thesis using assms
    by (cases v) (auto simp: nic_attempt_def Let_def split_beta split: net_push_result.split)
qed

lemma nic_loop_shaped: "shaped cap m (fst (snd v)) \<Longrightarrow> shaped cap m (fst (snd (nic_loop lm k i v)))"
  by (induction k arbitrary: i v) (simp_all add: split_beta nic_attempt_shaped)

lemma pcap_attempt_shaped:
  assumes "shaped cap m (fst (snd v))"
  shows "shaped cap m (fst (snd (snd (pcap_attempt v))))"
proof -
  have d: "shaped cap m (fst (snd (snd (pcap_deliver pkt x))))" if "shaped cap m (fst (snd x))" for pkt x
    using shaped_ops(3) [OF that]
    by (cases x) (simp add: pcap_deliver_def Let_def split_beta split: net_push_result.split)
  show ?thesis
    using assms d [of "(s, fst (snd v), n)" for s n]
    by (cases v; cases "fst (pcap_wrap (fst v))") (simp_all add: pcap_attempt_def Let_def split_beta)
qed

lemma pcap_loop_shaped:
  assumes "pcap_loop v = Some y" "shaped cap m (fst (snd v))"
  shows "shaped cap m (fst (snd (snd y)))"
proof -
  let ?P = "\<lambda>v y. shaped cap m (fst (snd v)) \<longrightarrow> shaped cap m (fst (snd (snd y)))"
  have "?P v y"
  proof (rule pcap_loop.raw_induct [where P = ?P, OF _ assms(1)])
    fix lp v y
    assume IH: "\<And>v y. lp v = Some y \<Longrightarrow> ?P v y"
      and st: "(case pcap_attempt v of (Some r, v1) \<Rightarrow> Some (r, v1) | (None, v1) \<Rightarrow> lp v1) = Some y"
    obtain w v1 where a: "pcap_attempt v = (w, v1)" by (rule prod.exhaust)
    then show "?P v y" using pcap_attempt_shaped [of cap m v] st IH [of v1 y] by (cases w) auto
  qed
  with assms(2) show ?thesis by simp
qed

lemma dn_poll_shaped:
  assumes "dn_poll lm n b = Some (r, n', b')" "shaped cap m b"
  shows "shaped cap m b'"
proof (cases n)
  case (NicDev s)
  have "shaped cap m (fst (snd (nic_loop lm k i (s1, net_reset b, x, y))))" for k i s1 x y
    using assms(2) by (intro nic_loop_shaped) simp
  then show ?thesis using assms NicDev
    by (auto simp: nic_poll_batch_def Let_def split_beta split: if_splits)
next
  case (PcapDev s)
  have "shaped cap m b1" if "pcap_loop (s, net_reset b, 0) = Some (q, s1, b1, k)" for q s1 b1 k
    using pcap_loop_shaped [OF that, of cap m] assms(2) by simp
  then show ?thesis using assms PcapDev
    by (auto simp: pcap_poll_batch_def Let_def split: if_splits option.splits sum.splits)
qed

lemma poll_nics_shaped:
  "poll_nics lm t now ns b sp = Some (ns', b', sp') \<Longrightarrow> shaped cap m b \<Longrightarrow> shaped cap m b'"
proof (induction ns arbitrary: b sp ns' sp')
  case (Cons n ns)
  from Cons.prems(1) obtain r n1 b1 where p: "dn_poll lm (dn_set_tick_context t now n) b = Some (r, n1, b1)"
    by (auto split: option.splits)
  then show ?case using Cons.prems Cons.IH dn_poll_shaped [OF p Cons.prems(2)]
    by (auto simp: split_beta Let_def split: option.splits)
qed simp

lemma net_packets_bound: "net_inv b \<Longrightarrow> p \<in> set (net_packets b) \<Longrightarrow> length (fst p) \<le> nb_max_frame_size b"
  by (auto simp: net_packets_def net_inv_def list_all_length)

lemma net_count_bound: "net_inv b \<Longrightarrow> length (net_packets b) \<le> net_capacity b"
  by (simp add: net_inv_def net_capacity_def)

section \<open>A ring with room, emptied\<close>

lemma ring_packet_room:
  assumes "vr_inv ring" "length (fst p) \<le> vr_max_payload ring" "vr_len ring < vr_capacity ring"
    "ring_packet now p (s, ring) = (s', ring')"
  shows "vr_inv ring'" "vr_len ring' = Suc (vr_len ring)" "vr_capacity ring' = vr_capacity ring"
    "vr_max_payload ring' = vr_max_payload ring"
    "ss_ring_overflows (sd_stats s') = ss_ring_overflows (sd_stats s)"
    "ss_slots_written (sd_stats s') = Suc (ss_slots_written (sd_stats s))"
    "ss_slots_consumed (sd_stats s') = ss_slots_consumed (sd_stats s)"
    "sd_consumers s' = sd_consumers s" "sd_timeline s' = sd_timeline s"
proof -
  obtain x r1 where p: "vr_try_push (fst p) ring = (x, r1)" by (rule prod.exhaust)
  note room = vr_push_room [OF assms(1-3), unfolded p, simplified]
  have r': "ring' = r1" using assms(4) p room(1) by (simp add: ring_packet_def)
  show "vr_inv ring'" "vr_capacity ring' = vr_capacity ring" "vr_max_payload ring' = vr_max_payload ring"
    using room r' by simp_all
  show "vr_len ring' = Suc (vr_len ring)" using room(2) r' length_vr_contents by (metis length_append_singleton)
  show "ss_ring_overflows (sd_stats s') = ss_ring_overflows (sd_stats s)"
    "ss_slots_written (sd_stats s') = Suc (ss_slots_written (sd_stats s))"
    "ss_slots_consumed (sd_stats s') = ss_slots_consumed (sd_stats s)"
    "sd_consumers s' = sd_consumers s" "sd_timeline s' = sd_timeline s"
    using assms(4) p room(1) by (auto simp: ring_packet_def bump_stats_def sd_emit_def sd_record_def)
qed

lemma ring_packets_room:
  assumes "vr_inv ring" "\<And>p. p \<in> set ps \<Longrightarrow> length (fst p) \<le> vr_max_payload ring"
    "vr_len ring + length ps \<le> vr_capacity ring" "fold (ring_packet now) ps (s, ring) = (s', ring')"
  shows "vr_inv ring' \<and> vr_len ring' = vr_len ring + length ps \<and> vr_capacity ring' = vr_capacity ring
    \<and> vr_max_payload ring' = vr_max_payload ring
    \<and> ss_ring_overflows (sd_stats s') = ss_ring_overflows (sd_stats s)
    \<and> ss_slots_written (sd_stats s') = ss_slots_written (sd_stats s) + length ps
    \<and> ss_slots_consumed (sd_stats s') = ss_slots_consumed (sd_stats s)
    \<and> sd_consumers s' = sd_consumers s \<and> sd_timeline s' = sd_timeline s"
  using assms
proof (induction ps arbitrary: s ring)
  case (Cons p ps)
  obtain s1 ring1 where r: "ring_packet now p (s, ring) = (s1, ring1)" by (rule prod.exhaust)
  have "length (fst p) \<le> vr_max_payload ring" "vr_len ring < vr_capacity ring" using Cons.prems(2,3) by simp_all
  note one = ring_packet_room [OF Cons.prems(1) this r]
  have "fold (ring_packet now) ps (s1, ring1) = (s', ring')" using Cons.prems(4) r by simp
  from Cons.IH [OF one(1) _ _ this] show ?case using one Cons.prems(2,3) by simp
qed simp

text \<open>A consumer without a limit takes everything.\<close>

definition drains_all :: "consumer \<Rightarrow> bool" where
  "drains_all c \<longleftrightarrow> cn_max_per_drain c = usize_max"

lemma drain_all:
  assumes "vr_inv r" "drains_all c" "drain usize_max c r = (n, c', r')"
  shows "n = vr_len r" "vr_len r' = 0" "vr_inv r'" "vr_capacity r' = vr_capacity r" "drains_all c'"
proof -
  have "vr_len r < 2 ^ 64" using unat_u64_less by (simp add: vr_len_def)
  then have m: "min usize_max (vr_len r) = vr_len r" by (simp add: usize_max_def)
  have "case drain_loop usize_max c r of (n, c', r') \<Rightarrow>
     n = min usize_max (vr_len r) \<and> cn_reads c' = cn_reads c + n \<and> vr_contents r' = drop n (vr_contents r) \<and> vr_inv r'
     \<and> vr_capacity r' = vr_capacity r \<and> cn_max_per_drain c' = cn_max_per_drain c \<and> cn_name c' = cn_name c"
    by (rule drain_loop_result [OF assms(1)])
  moreover have "drain_loop usize_max c r = (n, c', r')" using assms(2,3) by (simp add: drain_def drains_all_def)
  ultimately show "n = vr_len r" "vr_inv r'" "vr_capacity r' = vr_capacity r" "drains_all c'" "vr_len r' = 0"
    using m assms(2) length_vr_contents [of r'] by (simp_all add: drains_all_def)
qed

lemma drain_loop_max_payload: "vr_max_payload (snd (snd (drain_loop k c r))) = vr_max_payload r"
proof (induction k arbitrary: c r)
  case (Suc k)
  have "vr_max_payload (snd (vr_try_pop r)) = vr_max_payload r" by (simp add: vr_try_pop_def Let_def)
  then show ?case using Suc by (simp add: split_beta Let_def split: option.split)
qed simp

section \<open>Runs without loss\<close>

definition not_slow :: "timeline_action \<Rightarrow> bool" where
  "not_slow a = (case a of SlowConsumer _ _ _ \<Rightarrow> False | _ \<Rightarrow> True)"

text \<open>The scheduler between two ticks: the ring empty and large enough, its only consumer unlimited.\<close>

definition roomy :: "sim_scheduler \<Rightarrow> bool" where
  "roomy s \<longleftrightarrow> (\<exists>ring c. sd_ring s = Some ring \<and> vr_inv ring \<and> vr_len ring = 0
     \<and> max (tc_batch_size (sc_traffic (sd_scenario s))) 1 \<le> vr_capacity ring
     \<and> 42 + max (tc_payload_size (sc_traffic (sd_scenario s))) 1 \<le> vr_max_payload ring
     \<and> sd_consumers s = [c] \<and> drains_all c) \<and> list_all not_slow (sd_timeline s)"

definition lossless :: "sim_scheduler \<Rightarrow> bool" where
  "lossless s \<longleftrightarrow> roomy s \<and> ss_ring_overflows (sd_stats s) = 0
     \<and> ss_slots_consumed (sd_stats s) = ss_slots_written (sd_stats s)"

text \<open>The part of the state that these depend on.\<close>

definition ring_core :: "sim_scheduler \<Rightarrow> virtual_ring option \<times> consumer list \<times> scenario \<times> timeline_action list \<times> nat \<times> nat \<times> nat" where
  "ring_core s = (sd_ring s, sd_consumers s, sd_scenario s, sd_timeline s, ss_ring_overflows (sd_stats s),
     ss_slots_consumed (sd_stats s), ss_slots_written (sd_stats s))"

lemma lossless_core: "ring_core s' = ring_core s \<Longrightarrow> lossless s' = lossless s"
  by (simp add: ring_core_def lossless_def roomy_def)

lemma ring_core_simps [simp]:
  "ring_core (sd_emit c k s) = ring_core s" "ring_core (sd_record x s) = ring_core s"
  "ring_core (s\<lparr>sd_last_batch := lb\<rparr>) = ring_core s" "ring_core (s\<lparr>sd_clock := ck\<rparr>) = ring_core s"
  "ring_core (s\<lparr>sd_nics := ns\<rparr>) = ring_core s" "ring_core (s\<lparr>sd_running := b\<rparr>) = ring_core s"
  "ring_core (s\<lparr>sd_timeline_idx := i\<rparr>) = ring_core s" "ring_core (sd_pause s) = ring_core s"
  "ring_core (snapshot_nic_stats s) = ring_core s" "ring_core (s\<lparr>sd_wall_start := ws\<rparr>) = ring_core s"
  "ring_core (bump_stats (\<lambda>st. st\<lparr>ss_ticks := tk st\<rparr>) s) = ring_core s"
  "ring_core (bump_stats (\<lambda>st. st\<lparr>ss_clock_ns := cn st\<rparr>) s) = ring_core s"
  by (simp_all add: ring_core_def sd_emit_def sd_record_def sd_pause_def snapshot_nic_stats_def bump_stats_def)

lemma apply_actions_core:
  "list_all not_slow acts \<Longrightarrow> ring_core (apply_actions now acts s) = ring_core s"
proof (induction acts arbitrary: s)
  case (Cons a acts)
  then have "ring_core (apply_action a (s\<lparr>sd_timeline_idx := sd_timeline_idx s + 1\<rparr>)) = ring_core s"
    by (cases a) (simp_all add: not_slow_def ring_core_def)
  then show ?case using Cons by simp
qed simp

lemma apply_timeline_core: "roomy s \<Longrightarrow> ring_core (apply_timeline now s) = ring_core s"
  unfolding apply_timeline_def
  by (rule apply_actions_core) (auto simp: roomy_def list_all_iff dest: in_set_dropD)

lemma feed_ring_lossless:
  assumes "lossless s" "shaped (max (tc_batch_size (sc_traffic (sd_scenario s))) 1)
      (42 + max (tc_payload_size (sc_traffic (sd_scenario s))) 1) b"
  shows "lossless (feed_ring now b s)"
proof -
  from assms(1) obtain ring c where r: "sd_ring s = Some ring" "vr_inv ring" "vr_len ring = 0"
    "max (tc_batch_size (sc_traffic (sd_scenario s))) 1 \<le> vr_capacity ring"
    "42 + max (tc_payload_size (sc_traffic (sd_scenario s))) 1 \<le> vr_max_payload ring"
    "sd_consumers s = [c]" "drains_all c"
    and tl: "list_all not_slow (sd_timeline s)"
    and st: "ss_ring_overflows (sd_stats s) = 0" "ss_slots_consumed (sd_stats s) = ss_slots_written (sd_stats s)"
    by (auto simp: lossless_def roomy_def)
  have inv: "net_inv b" "net_capacity b \<le> vr_capacity ring" "nb_max_frame_size b \<le> vr_max_payload ring"
    using assms(2) r(4,5) by (simp_all add: shaped_def)
  let ?ps = "net_packets b"
  obtain s1 r1 where f: "fold (ring_packet now) ?ps (s, ring) = (s1, r1)" by (rule prod.exhaust)
  have "length (fst p) \<le> vr_max_payload ring" if "p \<in> set ?ps" for p
    using net_packets_bound [OF inv(1) that] inv(3) by linarith
  moreover have "vr_len ring + length ?ps \<le> vr_capacity ring" using net_count_bound [OF inv(1)] inv(2) r(3) by linarith
  ultimately have g: "vr_inv r1 \<and> vr_len r1 = vr_len ring + length ?ps \<and> vr_capacity r1 = vr_capacity ring
    \<and> vr_max_payload r1 = vr_max_payload ring
    \<and> ss_ring_overflows (sd_stats s1) = ss_ring_overflows (sd_stats s)
    \<and> ss_slots_written (sd_stats s1) = ss_slots_written (sd_stats s) + length ?ps
    \<and> ss_slots_consumed (sd_stats s1) = ss_slots_consumed (sd_stats s)
    \<and> sd_consumers s1 = sd_consumers s \<and> sd_timeline s1 = sd_timeline s"
    using ring_packets_room [OF r(2) _ _ f] by blast
  obtain n c' r' where d: "drain usize_max c r1 = (n, c', r')" by (rule prod_cases3)
  note dr = drain_all [OF _ r(7) d]
  have mp: "vr_max_payload r' = vr_max_payload r1" using drain_loop_max_payload [of _ c r1] d by (metis drain_def snd_conv)
  have sc: "sd_scenario s1 = sd_scenario s" using ring_packets_core [of now ?ps "(s, ring)"] f by (simp add: sd_core_def)
  have em: "ring_core ((sd_emit now k ^^ i) x) = ring_core x" for k i x by (induction i) simp_all
  let ?s2 = "sd_record (SimGauge SmQueueOccupancy (vr_occupancy r1)) (sd_record (SimGauge SmRingOccupancy (vr_occupancy r1)) s1)"
  let ?s3 = "(sd_emit now (EvConsumerRead (vr_name r') (cn_reads c')) ^^ n)
      (bump_stats (\<lambda>st. st\<lparr>ss_slots_consumed := ss_slots_consumed st + n\<rparr>) ?s2)"
  have s2: "sd_consumers ?s2 = [c]" using g r(6) by (simp add: sd_record_def)
  have "feed_ring now b s = ?s3\<lparr>sd_ring := Some r', sd_consumers := [c']\<rparr>"
    by (simp add: feed_ring_def r(1) f d s2 Let_def)
  moreover have "ring_core ?s3 = ring_core (bump_stats (\<lambda>st. st\<lparr>ss_slots_consumed := ss_slots_consumed st + n\<rparr>) s1)"
    unfolding em by (simp add: ring_core_def bump_stats_def sd_record_def)
  moreover have "ring_core (bump_stats (\<lambda>st. st\<lparr>ss_slots_consumed := ss_slots_consumed st + n\<rparr>) s1)
      = (sd_ring s1, sd_consumers s1, sd_scenario s, sd_timeline s, 0, ss_slots_written (sd_stats s) + n,
         ss_slots_written (sd_stats s) + n)"
    using g st dr(1) r(3) sc by (simp add: ring_core_def bump_stats_def)
  ultimately show ?thesis using r(4,5) g dr mp tl by (simp add: lossless_def roomy_def ring_core_def)
qed

lemma tick_body_lossless:
  assumes "tick_body lm w s = Some (r, s')" "lossless s"
  shows "lossless s'"
proof -
  let ?cap = "max (tc_batch_size (sc_traffic (sd_scenario s))) 1"
  let ?pay = "max (tc_payload_size (sc_traffic (sd_scenario s))) 1"
  let ?b = "the (raw_batch_new ?cap (42 + ?pay))"
  define now where "now = now_ns (wr_now2 w) (run_clock s)"
  have "0 < ?cap" "0 < 42 + ?pay" by linarith+
  from raw_batch_new_some [OF this] have b: "shaped ?cap (42 + ?pay) ?b" by (auto simp: shaped_def)
  obtain ns b sp where p: "poll_nics lm (sc_tick_ns (sd_scenario s)) now (sd_nics s) ?b 0 = Some (ns, b, sp)"
    using assms(1) by (auto simp: tick_body_def Let_def now_def split: option.splits)
  let ?s = "s\<lparr>sd_nics := ns\<rparr>"
  have "lossless ?s" using assms(2) lossless_core [of ?s s] by simp
  then have l: "lossless (feed_ring now b ?s)"
    using poll_nics_shaped [OF p b] by (intro feed_ring_lossless) simp_all
  have "ring_core s' = ring_core (feed_ring now b ?s)"
    using assms(1) p by (auto simp: tick_body_def Let_def now_def split: if_splits)
  then show ?thesis using l lossless_core by blast
qed

lemma lossless_timeline: "lossless s \<Longrightarrow> lossless (apply_timeline now s)"
  using apply_timeline_core [of s now] lossless_core [of "apply_timeline now s" s] by (simp add: lossless_def)

text \<open>A run that begins clears the counts.\<close>

lemma sd_begin_lossless:
  assumes "sd_begin wall s = (Inr u, s')" "roomy s" "\<not> sd_running s"
  shows "lossless s'"
proof -
  obtain ns where ns: "init_nics (sd_nics s) = (Inr (), ns)"
    using assms(1,3) by (cases "init_nics (sd_nics s)"; cases "fst (init_nics (sd_nics s))") (auto simp: sd_begin_def)
  let ?s = "sd_emit 0 (EvSimulatorStarted (sc_name (sd_scenario s)))
      (s\<lparr>sd_nics := ns, sd_clock := Some (sim_clock_new (sc_clock_mode (sd_scenario s))),
          sd_wall_start := Some wall, sd_stats := sim_stats_default, sd_timeline_idx := 0, sd_running := True\<rparr>)"
  have "lossless ?s" using assms(2) by (simp add: lossless_def roomy_def sd_emit_def sim_stats_default_def)
  moreover have "s' = apply_timeline 0 ?s" using assms(1,3) ns by (simp add: sd_begin_def Let_def)
  ultimately show ?thesis using lossless_timeline by blast
qed

lemma sched_step_lossless:
  assumes "sched_step lm w s = Some (r, s')" "lossless s" "sd_running s"
  shows "lossless s'"
proof -
  define now where "now = now_ns (wr_now1 w) (run_clock s)"
  note tl = lossless_timeline [OF assms(2), of now]
  consider "s' = s\<lparr>sd_running := False\<rparr>" | "s' = sd_pause (apply_timeline now s)"
    | "tick_body lm w (apply_timeline now s) = Some (r, s')"
    using assms(1,3) by (auto simp: sched_step_def Let_def now_def split: if_splits)
  then show ?thesis
  proof cases
    case 1
    then show ?thesis using assms(2) lossless_core [of s' s] by simp
  next
    case 2
    then show ?thesis using tl lossless_core [of s' "apply_timeline now s"] by simp
  next
    case 3
    then show ?thesis using tick_body_lossless tl by blast
  qed
qed

lemma sched_loop_lossless:
  assumes "sched_loop lm wall k s = Some y" "lossless s"
  shows "lossless (snd y)"
proof -
  let ?P = "\<lambda>lm wall k s y. lossless s \<longrightarrow> lossless (snd y)"
  have "?P lm wall k s y"
  proof (rule sched_loop.raw_induct [where P = ?P, OF _ assms(1)])
    fix lp lm wall k s and y :: "unit result \<times> sim_scheduler"
    assume IH: "\<And>lm wall k s (y :: unit result \<times> sim_scheduler). lp lm wall k s = Some y \<Longrightarrow> ?P lm wall k s y"
      and st: "(if \<not> sd_running s then Some (Inr (), s)
        else case sched_step lm (wall k) s of None \<Rightarrow> None
          | Some (r, s1) \<Rightarrow> (case r of Inl e \<Rightarrow> Some (Inl e, s1)
              | Inr again \<Rightarrow> if \<not> again \<or> ed_paused (sd_edu s1) then Some (Inr (), s1) else lp lm wall (Suc k) s1)) = Some y"
    show "?P lm wall k s y"
    proof (cases "sd_running s")
      case True
      then obtain r s1 where ss: "sched_step lm (wall k) s = Some (r, s1)"
        using st by (auto split: option.splits)
      note l1 = sched_step_lossless [OF ss _ True]
      show ?thesis using st True ss l1 IH [of lm wall "Suc k" s1 y] by (auto split: sum.splits if_splits)
    qed (use st in auto)
  qed
  with assms(2) show ?thesis by simp
qed

lemma sd_finish_core: "ring_core (snd (sd_finish wall el s)) = ring_core s"
proof -
  have e: "ring_core (s\<lparr>sd_stats := (sd_stats s)\<lparr>ss_elapsed := n\<rparr>\<rparr>) = ring_core s"
    "ring_core (s\<lparr>sd_stats := (sd_stats s)\<lparr>ss_clock_ns := c\<rparr>\<rparr>) = ring_core s" for s n c
    by (simp_all add: ring_core_def)
  show ?thesis
    by (simp add: sd_finish_def Let_def split_beta ring_core_def snapshot_nic_stats_def sd_emit_def split: option.split sum.split)
qed

lemma sched_run_lossless:
  assumes "sched_run lm wall we el s = Some (r, s')" "roomy s" "\<not> sd_running s" "r = Inr st"
  shows "ss_ring_overflows st = 0 \<and> ss_slots_consumed st = ss_slots_written st"
proof -
  obtain b s1 where bg: "sd_begin (wr_start (wall 0)) s = (b, s1)" by (rule prod.exhaust)
  then obtain u where b: "b = Inr u" using assms(1,4) by (cases b) (auto simp: sched_run_def)
  have l1: "lossless s1" using sd_begin_lossless [OF bg [unfolded b] assms(2,3)] .
  have fin: "lossless (snd (sd_finish we el s2))" if "lossless s2" for s2
    using that lossless_core [OF sd_finish_core] by blast
  have "lossless s' \<and> st = sd_stats s'"
    using assms(1,4) bg b l1 fin sched_loop_lossless [of lm wall 0 s1]
    by (fastforce simp: sched_run_def split: if_splits option.splits prod.splits sum.splits)
  then show ?thesis by (simp add: lossless_def)
qed

end
