(* ===== verification/Dsl_Laws.thy ===== *)
theory Dsl_Laws
  imports Dsl_Compile Sim_Ring_Props
begin

text \<open>
  Laws of the compilation of scenario documents (\<open>simulator/src/dsl/compile.rs\<close>): what a compiled run
  satisfies, the scheduler that is built from it, and its runs.
\<close>

section \<open>What a compiled run satisfies\<close>

definition nic_ready :: "compiled_nic \<Rightarrow> bool" where
  "nic_ready n \<longleftrightarrow> 0 < tc_payload_size (cni_traffic n) \<and> tc_batch_size (cni_traffic n) = cni_batch_size n"

definition run_wf :: "compiled_run \<Rightarrow> bool" where
  "run_wf c \<longleftrightarrow> cr_simulated c \<and> 0 < sc_tick_ns (cr_scenario c) \<and> sc_duration (cr_scenario c) < 2 ^ 64
     \<and> sc_clock_mode (cr_scenario c) \<in> {Virtual 0, RealTime}
     \<and> sorted (map ta_at_ns (cr_timeline c)) \<and> list_all nic_ready (cr_nics c)
     \<and> list_all (\<lambda>k. 0 < cco_max_per_drain k) (cr_consumers c)
     \<and> (case cr_fabric c of
          None \<Rightarrow> cr_nics c = [] \<and> cr_pcaps c = [] \<and> cr_consumers c = []
        | Some f \<Rightarrow> 0 < cfb_slots f \<and> cr_consumers c \<noteq> [])"

lemma compile_payload_size: "compile_payload p = Inr (spec, n) \<Longrightarrow> 0 < n"
  by (auto simp: compile_payload_def Let_def less_max_iff_disj market_quote_def fix_quote_def split: if_splits)

lemma compile_nic_ready: "compile_nic seed n = Inr c \<Longrightarrow> nic_ready c"
  by (auto simp: compile_nic_def compile_traffic_def nic_ready_def Let_def dest: compile_payload_size)

lemma parse_max_pos: "parse_max_per_drain display v = Inr n \<Longrightarrow> 0 < n"
proof -
  have "0 < unat i" if "0 < sint i" for i :: "64 word"
    using that by (metis less_irrefl neq0_conv signed_0 unat_eq_0)
  then show "parse_max_per_drain display v = Inr n \<Longrightarrow> 0 < n"
    by (auto simp: parse_max_per_drain_def Let_def usize_max_def split: option.splits toml_value.splits if_splits)
qed

lemma compile_consumer_pos: "compile_consumer display k = Inr c \<Longrightarrow> 0 < cco_max_per_drain c"
  by (auto simp: compile_consumer_def dest: parse_max_pos)

lemma clock_mode_cases: "clock_mode_of c = Inr m \<Longrightarrow> m \<in> {Virtual 0, RealTime}"
  by (auto simp: clock_mode_of_def Let_def split: if_splits)

lemma compile_fabric_slots: "compile_fabric nics f = Inr c \<Longrightarrow> 0 < cfb_slots c"
  by (auto simp: compile_fabric_def Let_def split: if_splits)

lemma compile_scripted_parts:
  assumes "compile_scripted env base doc acts = Inr c"
  shows "cr_simulated c" "0 < sc_tick_ns (cr_scenario c)" "sc_duration (cr_scenario c) < 2 ^ 64"
    "clock_mode_of (md_clock (sdoc_scenario doc)) = Inr (sc_clock_mode (cr_scenario c))"
    "collect_results (compile_nic (md_seed (sdoc_scenario doc))) (sdoc_nic doc) = Inr (cr_nics c)"
    "collect_results (compile_pcap base (md_seed (sdoc_scenario doc))) (sdoc_pcap doc) = Inr (cr_pcaps c)"
    "fabric_of doc (cr_nics c) (cr_pcaps c) = Inr (cr_fabric c)"
    "consumers_of (de_display env) doc (cr_fabric c) = Inr (cr_consumers c)"
    "sorted (map ta_at_ns (cr_timeline c))"
    "sc_traffic (cr_scenario c) = (case cr_nics c of n # _ \<Rightarrow> cni_traffic n | [] \<Rightarrow> traffic_config_default)"
proof -
  from assms obtain d t where d: "parse_duration_ns (md_duration (sdoc_scenario doc)) = Inr d"
    and t: "parse_duration_ns (md_tick (sdoc_scenario doc)) = Inr t" "t \<noteq> 0"
    and sc: "sc_tick_ns (cr_scenario c) = t" "sc_duration (cr_scenario c) = unat d"
    by (auto simp: compile_scripted_def Let_def split: if_splits)
  show "0 < sc_tick_ns (cr_scenario c)" "sc_duration (cr_scenario c) < 2 ^ 64"
    using sc t unat_u64_less [of d] by (simp_all add: word_neq_0_conv)
  show "cr_simulated c" "sorted (map ta_at_ns (cr_timeline c))"
    "clock_mode_of (md_clock (sdoc_scenario doc)) = Inr (sc_clock_mode (cr_scenario c))"
    "collect_results (compile_nic (md_seed (sdoc_scenario doc))) (sdoc_nic doc) = Inr (cr_nics c)"
    "collect_results (compile_pcap base (md_seed (sdoc_scenario doc))) (sdoc_pcap doc) = Inr (cr_pcaps c)"
    "fabric_of doc (cr_nics c) (cr_pcaps c) = Inr (cr_fabric c)"
    "consumers_of (de_display env) doc (cr_fabric c) = Inr (cr_consumers c)"
    "sc_traffic (cr_scenario c) = (case cr_nics c of n # _ \<Rightarrow> cni_traffic n | [] \<Rightarrow> traffic_config_default)"
    using assms by (auto simp: compile_scripted_def Let_def split: if_splits)
qed

lemma compile_doc_scripted:
  "compile_doc env base doc = Some (Inr c) \<Longrightarrow> \<exists>acts. compile_scripted env base doc acts = Inr c"
  by (auto simp: compile_doc_def split: if_splits option.splits)

lemma fabric_of_slots: "fabric_of doc nics pcaps = Inr (Some f) \<Longrightarrow> 0 < cfb_slots f"
  by (auto simp: fabric_of_def compile_fabric_slots split: option.splits if_splits)

lemma fabric_of_none:
  "fabric_of doc nics pcaps = Inr None \<Longrightarrow> nics = [] \<and> pcaps = [] \<and> sdoc_consumer doc = []"
  by (auto simp: fabric_of_def split: option.splits if_splits)

lemma consumers_of_nonempty: "consumers_of display doc (Some f) = Inr cs \<Longrightarrow> cs \<noteq> []"
  by (auto simp: consumers_of_def collect_results_Inr split: if_splits)

lemma consumers_of_pos: "consumers_of display doc fabric = Inr cs \<Longrightarrow> list_all (\<lambda>k. 0 < cco_max_per_drain k) cs"
  by (auto simp: consumers_of_def usize_max_def split: if_splits dest: collect_results_all [OF _ compile_consumer_pos])

lemma compile_doc_wf:
  assumes "compile_doc env base doc = Some (Inr c)"
  shows "run_wf c"
proof -
  obtain acts where cs: "compile_scripted env base doc acts = Inr c" using compile_doc_scripted [OF assms] by blast
  note p = compile_scripted_parts [OF cs]
  have "list_all nic_ready (cr_nics c)" using collect_results_all [OF p(5)] compile_nic_ready by blast
  moreover have "case cr_fabric c of None \<Rightarrow> cr_nics c = [] \<and> cr_pcaps c = [] \<and> cr_consumers c = []
      | Some f \<Rightarrow> 0 < cfb_slots f \<and> cr_consumers c \<noteq> []"
    using p(7,8) fabric_of_slots consumers_of_nonempty fabric_of_none
    by (cases "cr_fabric c") (auto simp: consumers_of_def)
  ultimately show ?thesis
    using p(1-3,9) clock_mode_cases [OF p(4)] consumers_of_pos [OF p(8)] by (simp add: run_wf_def)
qed

section \<open>The scheduler that is built\<close>

lemma fold_add_nic: "sd_nics (fold (\<lambda>n. add_nic (f n)) ns s) = sd_nics s @ map f ns"
  "sd_ring (fold (\<lambda>n. add_nic (f n)) ns s) = sd_ring s" "sd_consumers (fold (\<lambda>n. add_nic (f n)) ns s) = sd_consumers s"
  "sd_scenario (fold (\<lambda>n. add_nic (f n)) ns s) = sd_scenario s" "sd_timeline (fold (\<lambda>n. add_nic (f n)) ns s) = sd_timeline s"
  "sd_running (fold (\<lambda>n. add_nic (f n)) ns s) = sd_running s" "sd_edu (fold (\<lambda>n. add_nic (f n)) ns s) = sd_edu s"
  by (induction ns arbitrary: s) (simp_all add: add_nic_def)

lemma fold_add_consumer:
  "sd_consumers (fold (\<lambda>k. add_consumer (f k)) ks s) = sd_consumers s @ map f ks"
  "sd_ring (fold (\<lambda>k. add_consumer (f k)) ks s) = sd_ring s" "sd_nics (fold (\<lambda>k. add_consumer (f k)) ks s) = sd_nics s"
  "sd_scenario (fold (\<lambda>k. add_consumer (f k)) ks s) = sd_scenario s"
  "sd_timeline (fold (\<lambda>k. add_consumer (f k)) ks s) = sd_timeline s"
  "sd_running (fold (\<lambda>k. add_consumer (f k)) ks s) = sd_running s" "sd_edu (fold (\<lambda>k. add_consumer (f k)) ks s) = sd_edu s"
  by (induction ks arbitrary: s) (simp_all add: add_consumer_def)

lemma build_scheduler_parts:
  assumes "build_scheduler env c = Some (Inr s)"
  shows "sd_scenario s = cr_scenario c" "sd_edu s = cr_edu c" "sd_timeline s = sort_key ta_at_ns (cr_timeline c)"
    "sd_consumers s = map build_consumer (cr_consumers c)" "\<not> sd_running s"
    "\<exists>ps. collect_results (build_pcap env) (cr_pcaps c) = Inr ps
       \<and> sd_nics s = map (\<lambda>n. NicDev (virtual_nic_new (nic_config_of n))) (cr_nics c) @ map PcapDev ps"
    "case cr_fabric c of None \<Rightarrow> sd_ring s = None
      | Some f \<Rightarrow> virtual_ring_new (cfb_name f) (cfb_slots f) (cfb_max_frame f) = sd_ring s \<and> sd_ring s \<noteq> None"
  using assms
  by (auto simp: build_scheduler_def Let_def fold_add_nic fold_add_consumer with_ring_def with_timeline_def with_edu_def
      sim_scheduler_new_def split: if_splits option.splits)

lemma build_pcap_config: "build_pcap env p = Inr s \<Longrightarrow> ps_config s = pcap_config_of p"
  by (auto simp: build_pcap_def pcap_from_path_def pcap_source_new_def split: sum.splits)

lemma built_returns:
  assumes "build_scheduler env c = Some (Inr s)" "list_all (\<lambda>p. \<not> cpc_loop_capture p) (cr_pcaps c)"
  shows "list_all returns (sd_nics s)"
proof -
  from build_scheduler_parts(6) [OF assms(1)] obtain ps where ps: "collect_results (build_pcap env) (cr_pcaps c) = Inr ps"
    "sd_nics s = map (\<lambda>n. NicDev (virtual_nic_new (nic_config_of n))) (cr_nics c) @ map PcapDev ps" by blast
  have "list_all2 (\<lambda>p s. build_pcap env p = Inr s) (cr_pcaps c) ps" using ps(1) by (simp add: collect_results_Inr)
  then have "list_all (\<lambda>s. \<not> pc_loop_capture (ps_config s)) ps"
    using assms(2) by (induction rule: list_all2_induct) (auto simp: pcap_config_of_def dest: build_pcap_config)
  then show ?thesis using ps(2) by (auto simp: list_all_iff)
qed


lemma default_fabric_roomy:
  assumes "compile_doc env base doc = Some (Inr c)" "sdoc_fabric doc = None" "sdoc_consumer doc = []"
    "list_all not_slow (cr_timeline c)" "tc_batch_size (sc_traffic (cr_scenario c)) \<le> 4096"
    "build_scheduler env c = Some (Inr s)"
  shows "roomy s"
proof -
  obtain acts where "compile_scripted env base doc acts = Inr c" using compile_doc_scripted [OF assms(1)] by blast
  note p = compile_scripted_parts [OF this]
  note b = build_scheduler_parts [OF assms(6)]
  have "cr_nics c \<noteq> [] \<or> cr_pcaps c \<noteq> []" using assms(6) by (auto simp: build_scheduler_def split: if_splits)
  then have f: "cr_fabric c = Some \<lparr>cfb_name = ''ring0'', cfb_slots = 4096, cfb_max_frame = Max (set (map nic_frame (cr_nics c) @ [128]))\<rparr>"
    using p(7) assms(2) by (simp add: fabric_of_def)
  let ?m = "Max (set (map nic_frame (cr_nics c) @ [128]))"
  have m: "n \<in> set (map nic_frame (cr_nics c) @ [128]) \<Longrightarrow> n \<le> ?m" for n by (rule Max_ge) auto
  have frame: "42 + max (tc_payload_size (sc_traffic (cr_scenario c))) 1 \<le> ?m"
  proof (cases "cr_nics c")
    case Nil
    have "128 \<le> ?m" by (rule m) simp
    then show ?thesis using p(10) Nil by (simp add: traffic_config_default_def)
  next
    case (Cons n ns)
    then have "nic_frame n \<le> ?m" by (intro m) simp
    then show ?thesis using p(10) Cons by (simp add: nic_frame_def)
  qed
  from b(7) f obtain ring where ring: "sd_ring s = Some ring" "virtual_ring_new ''ring0'' 4096 ?m = Some ring" by auto
  have "vr_inv ring \<and> vr_contents ring = []" using vr_inv_new [OF ring(2)] by simp
  then have "vr_inv ring" "vr_len ring = 0" using length_vr_contents [of ring] by auto
  moreover have "vr_capacity ring = 4096" "vr_max_payload ring = ?m" using ring(2) by (auto simp: virtual_ring_new_def split: if_splits)
  moreover have "cr_consumers c = [\<lparr>cco_name = ''c0'', cco_max_per_drain = usize_max\<rparr>]"
    using p(8) assms(3) f by (simp add: consumers_of_def)
  ultimately show ?thesis
    using assms(4,5) b(1,3,4) ring(1) frame
    by (simp add: roomy_def drains_all_def build_consumer_def consumer_new_def list_all_iff)
qed

section \<open>Runs that succeed\<close>

text \<open>A source whose initialisation cannot fail: a card, or a capture whose replay mode was accepted.\<close>

fun init_ok :: "dyn_nic \<Rightarrow> bool" where
  "init_ok (NicDev s) = True"
| "init_ok (PcapDev s) = (\<exists>r. sim_replay_new (pc_replay (ps_config s)) = Inr r)"

lemma dn_init_ok: "init_ok n \<Longrightarrow> \<exists>n1. dn_init n = (Inr (), n1)"
  by (cases n) (auto simp: vn_init_def ps_init_def Let_def)

lemma init_nics_ok: "list_all init_ok ns \<Longrightarrow> \<exists>ns1. init_nics ns = (Inr (), ns1)"
proof (induction ns)
  case (Cons n ns)
  then show ?case using dn_init_ok [of n] by auto
qed simp

lemma shutdown_nics_ok: "\<exists>ns1. shutdown_nics ns = (Inr (), ns1)"
proof (induction ns)
  case (Cons n ns)
  have "\<exists>n1. dn_shutdown n = (Inr (), n1)" by (cases n) (simp_all add: vn_shutdown_def ps_shutdown_def)
  then show ?case using Cons by auto
qed simp

lemma sched_run_succeeds:
  assumes "sc_clock_mode (sd_scenario s) = Virtual start" "0 < unat (sc_tick_ns (sd_scenario s))"
    "list_all returns (sd_nics s)" "\<not> sd_running s" "list_all init_ok (sd_nics s)"
    "sched_run lm wall wall_end elapsed s = Some (r, s')"
  shows "\<exists>st. r = Inr st"
proof -
  obtain b s1 where bg: "sd_begin (wr_start (wall 0)) s = (b, s1)" by (rule prod.exhaust)
  have b: "b = Inr ()" using init_nics_ok [OF assms(5)] bg assms(4) by (auto simp: sd_begin_def Let_def)
  note on = sd_begin_on_time [OF assms(1,3,4) bg [unfolded b]]
  from sched_loop_ends [OF on(1) assms(2), of lm wall 0] obtain s2 where l: "sched_loop lm wall 0 s1 = Some (Inr (), s2)"
    by blast
  have "\<exists>s3. sd_finish wall_end elapsed s2 = (Inr (), s3)"
    using shutdown_nics_ok by (auto simp: sd_finish_def Let_def split: prod.split sum.split) (metis Inl_Inr_False prod.inject)+
  then show ?thesis using assms(6) bg b l by (auto simp: sched_run_def split: if_splits)
qed

lemma build_pcap_init_ok: "build_pcap env p = Inr s \<Longrightarrow> init_ok (PcapDev s)"
  by (auto simp: build_pcap_def pcap_from_path_def pcap_source_new_def split: sum.splits)

lemma built_init_ok:
  assumes "build_scheduler env c = Some (Inr s)"
  shows "list_all init_ok (sd_nics s)"
proof -
  from build_scheduler_parts(6) [OF assms] obtain ps where ps: "collect_results (build_pcap env) (cr_pcaps c) = Inr ps"
    "sd_nics s = map (\<lambda>n. NicDev (virtual_nic_new (nic_config_of n))) (cr_nics c) @ map PcapDev ps" by blast
  have "list_all (\<lambda>s. init_ok (PcapDev s)) ps" by (rule collect_results_all [OF ps(1) build_pcap_init_ok])
  then show ?thesis using ps(2) by (auto simp: list_all_iff)
qed

lemma compiled_run_result:
  assumes "compile_doc env base doc = Some (Inr c)" "build_scheduler env c = Some (Inr s)"
    "sc_clock_mode (cr_scenario c) = Virtual 0" "list_all (\<lambda>p. \<not> cpc_loop_capture p) (cr_pcaps c)"
  shows "\<exists>st s'. sched_run lm wall wall_end elapsed s = Some (Inr st, s')
    \<and> (ed_paused (sd_edu s') \<or> sc_duration (cr_scenario c) \<le> unat (ss_clock_ns st)
          \<and> ss_ticks st * unat (sc_tick_ns (cr_scenario c))
              \<le> sc_duration (cr_scenario c) + (unat (sc_tick_ns (cr_scenario c)) - 1))"
proof -
  note b = build_scheduler_parts [OF assms(2)]
  have wf: "0 < unat (sc_tick_ns (cr_scenario c))" "sc_duration (cr_scenario c) < 2 ^ 64"
    using compile_doc_wf [OF assms(1)] by (simp_all add: run_wf_def word_less_nat_alt)
  then have d: "unat (duration_ns s) = sc_duration (cr_scenario c)" using b(1) by (simp add: duration_ns_def unat_of_nat_u64)
  have on: "sc_clock_mode (sd_scenario s) = Virtual 0" "0 < unat (sc_tick_ns (sd_scenario s))" "list_all returns (sd_nics s)"
    "\<not> sd_running s" using b(1,5) assms(3) wf(1) built_returns [OF assms(2,4)] by simp_all
  from sched_run_ends [OF on, of lm wall wall_end elapsed] obtain r s' where
    run: "sched_run lm wall wall_end elapsed s = Some (r, s')"
    and e: "\<forall>st. r = Inr st \<longrightarrow> \<not> ed_paused (sd_edu s') \<longrightarrow> duration_ns s \<le> ss_clock_ns st
        \<and> ss_ticks st * unat (sc_tick_ns (sd_scenario s))
            \<le> (unat (duration_ns s) - unat (0 :: u64)) + (unat (sc_tick_ns (sd_scenario s)) - 1)" by blast
  from sched_run_succeeds [OF on built_init_ok [OF assms(2)] run] obtain st where "r = Inr st" by blast
  then show ?thesis using run e d b(1) by (auto simp: word_le_nat_alt)
qed

lemma virtual_ring_new_none: "virtual_ring_new name k m = None \<longleftrightarrow> k = 0 \<or> m = 0"
  by (auto simp: virtual_ring_new_def)

lemma build_scheduler_none:
  "build_scheduler env c = None \<longleftrightarrow> (cr_nics c \<noteq> [] \<or> cr_pcaps c \<noteq> [])
     \<and> (\<exists>f. cr_fabric c = Some f \<and> (cfb_slots f = 0 \<or> cfb_max_frame f = 0))"
  by (auto simp: build_scheduler_def Let_def virtual_ring_new_none split: option.split)

lemma Max_frames_pos: "nics \<noteq> [] \<Longrightarrow> 0 < Max (set (map nic_frame nics))"
  by (cases nics) (auto simp: Max_gr_iff nic_frame_def)

lemma compiled_frame_zero:
  assumes "fabric_of doc nics pcaps = Inr (Some f)"
  shows "cfb_max_frame f = 0 \<longleftrightarrow> (\<exists>d. sdoc_fabric doc = Some d \<and> fbd_max_frame d = Some 0)"
proof (cases "sdoc_fabric doc")
  case None
  have "0 < Max (set (map nic_frame nics @ [128]))" by (subst Max_gr_iff) auto
  then show ?thesis using assms None by (auto simp: fabric_of_def split: if_splits)
next
  case (Some d)
  then show ?thesis using assms
    by (auto simp: fabric_of_def compile_fabric_def Let_def split: if_splits option.splits)
qed

end
