(* ===== verification/Dash_Laws.thy ===== *)
theory Dash_Laws
  imports Dash_View Dsl_Laws
begin

text \<open>
  Lemmas on the dashboard: what every key and frame keeps of its displays, that a step of the dashboard is a
  step of the scheduler, what the runs of a scheduler keep of its educational controls, gauges' ratios, and breakpoints.
\<close>

section \<open>Bounded displays\<close>

definition dash_wf :: "dashboard \<Rightarrow> bool" where
  "dash_wf d \<longleftrightarrow> length (da_event_log d) \<le> LOG_CAP \<and> length (da_pps_hist d) \<le> HIST_CAP
     \<and> length (da_tick_lat_hist d) \<le> HIST_CAP \<and> 1 \<le> da_ticks_per_frame d \<and> da_ticks_per_frame d \<le> 1024
     \<and> da_event_cursor d \<le> length (da_sink d) \<and> (da_finished d \<longrightarrow> da_mode d = Paused)"

text \<open>Only the last \<open>c\<close> entries are kept.\<close>

lemma length_keep_last: "length (if length xs > c then drop (length xs - c) xs else xs) \<le> c"
  by simp

lemma length_push_hist: "length (push_hist buf v cap) \<le> cap"
  unfolding push_hist_def Let_def by (rule length_keep_last)

lemma ingest_wf: "dash_wf d \<Longrightarrow> dash_wf (ingest_tick_samples d)"
proof -
  have f: "length (fold (\<lambda>ev h. case ev_kind ev of EvTickCompleted _ ns \<Rightarrow> push_hist h ns HIST_CAP | _ \<Rightarrow> h) evs h) \<le> HIST_CAP"
    if "length h \<le> HIST_CAP" for evs h
    using that
    by (induction evs arbitrary: h) (simp_all add: length_push_hist split: sim_event_kind.split)
  show "dash_wf d \<Longrightarrow> dash_wf (ingest_tick_samples d)"
    by (simp add: dash_wf_def ingest_tick_samples_def Let_def length_push_hist f)
qed

lemma refresh_log_bound: "length (da_event_log (refresh_events dbg d)) \<le> LOG_CAP"
  using length_keep_last [of LOG_CAP "da_event_log d @ map (format_event dbg) (filter (shown d) (events_from (da_event_cursor d) (da_sink d)))"]
  by (simp add: refresh_events_def Let_def del: length_append length_drop)

lemma refresh_wf:
  "length (da_pps_hist d) \<le> HIST_CAP \<Longrightarrow> length (da_tick_lat_hist d) \<le> HIST_CAP \<Longrightarrow> 1 \<le> da_ticks_per_frame d \<Longrightarrow>
    da_ticks_per_frame d \<le> 1024 \<Longrightarrow> (da_finished d \<longrightarrow> da_mode d = Paused) \<Longrightarrow> dash_wf (refresh_events dbg d)"
  using refresh_log_bound [of dbg d]
  by (simp add: dash_wf_def) (simp add: refresh_events_def Let_def)

lemma refresh_keeps_wf: "dash_wf d \<Longrightarrow> dash_wf (refresh_events dbg d)"
  by (rule refresh_wf) (simp_all add: dash_wf_def)

lemma dash_wf_frame [simp]:
  "dash_wf (d\<lparr>da_status := st\<rparr>) = dash_wf d" "dash_wf (d\<lparr>da_sched := s\<rparr>) = dash_wf d"
  "dash_wf (d\<lparr>da_status := st, da_mode := m\<rparr>) = dash_wf (d\<lparr>da_mode := m\<rparr>)"
  by (simp_all add: dash_wf_def)

lemma sink_grows_wf: "dash_wf d \<Longrightarrow> dash_wf (d\<lparr>da_sched := s, da_sink := da_sink d @ evs\<rparr>)"
  by (simp add: dash_wf_def)

lemma paused_wf: "dash_wf d \<Longrightarrow> dash_wf (d\<lparr>da_mode := Paused\<rparr>)"
  by (simp add: dash_wf_def)

lemma finish_wf: "dash_wf d \<Longrightarrow> dash_wf (dash_finish w d)"
  by (simp add: dash_wf_def dash_finish_def Let_def)

lemma step_once_wf:
  assumes "step_once env w d = Some (r, d')" "dash_wf d"
  shows "dash_wf d'"
proof (cases "da_finished d")
  case True
  then show ?thesis using assms by (auto simp: step_once_def)
next
  case False
  then obtain q s1 where st: "sched_step (dv_libm env) (fr_step w) (sd_resume (da_sched d)) = Some (q, s1)"
    using assms(1) by (auto simp: step_once_def Let_def split: option.splits)
  let ?d1 = "d\<lparr>da_sched := s1, da_sink := da_sink d @ sink_gains (sd_resume (da_sched d)) s1\<rparr>"
  let ?d2 = "refresh_events (dv_debug env) (ingest_tick_samples ?d1)"
  have w1: "dash_wf ?d1" by (rule sink_grows_wf [OF assms(2)])
  have w2: "dash_wf ?d2" by (intro refresh_keeps_wf ingest_wf w1)
  have "d' = ?d1 \<or> d' = ?d2 \<or> d' = dash_finish w ?d2
      \<or> d' = ?d2\<lparr>da_status := ''Breakpoint '' @ em_dash @ '' paused'', da_mode := Paused\<rparr>"
    using assms(1) False st by (auto simp: step_once_def Let_def split: sum.splits if_splits)
  then show ?thesis using w1 w2 finish_wf [OF w2, of w] paused_wf [OF w2] by auto
qed

lemma auto_loop_wf: "auto_loop env wall k n d = Some (r, d') \<Longrightarrow> dash_wf d \<Longrightarrow> dash_wf d'"
proof (induction n arbitrary: k d)
  case (Suc n)
  obtain q d1 where s: "step_once env (wall k) d = Some (q, d1)"
    using Suc.prems(1) by (auto split: option.splits)
  have "dash_wf d1" by (rule step_once_wf [OF s Suc.prems(2)])
  then show ?case using Suc s by (auto split: sum.splits if_splits)
qed simp

lemma restart_wf:
  assumes "dash_restart env w d = Some (r, d')" "dash_wf d"
  shows "dash_wf d'"
proof -
  have t: "1 \<le> da_ticks_per_frame d" "da_ticks_per_frame d \<le> 1024" using assms(2) by (simp_all add: dash_wf_def)
  show ?thesis using assms(1) t
    by (auto simp: dash_restart_def Let_def dash_wf_def [of d'] split: option.splits sum.splits prod.splits)
      (auto simp: refresh_events_def Let_def)
qed

lemma handle_key_wf:
  assumes "handle_key env w key control d = Some (r, d')" "dash_wf d"
  shows "dash_wf d'"
proof -
  have sp: "dash_wf (dash_space d)" using assms(2) by (auto simp: dash_space_def dash_wf_def)
  have speed: "dash_wf (dash_speed n d)" if "1 \<le> n" "n \<le> 1024" for n
    using that assms(2) by (simp add: dash_speed_def dash_wf_def)
  have tpf: "1 \<le> da_ticks_per_frame d" "da_ticks_per_frame d \<le> 1024" using assms(2) by (simp_all add: dash_wf_def)
  have up: "dash_wf (dash_speed (min (min (da_ticks_per_frame d * 2) (2 ^ 32 - 1)) 1024) d)" using tpf by (intro speed) simp_all
  have down: "dash_wf (dash_speed (max (da_ticks_per_frame d div 2) 1) d)" using tpf by (intro speed) simp_all
  have step: "step_once env w (d\<lparr>da_mode := Paused\<rparr>) = Some (q, d1) \<Longrightarrow> dash_wf d1" for q d1
    using step_once_wf paused_wf [OF assms(2)] by blast
  show ?thesis
    using assms sp up down restart_wf [OF _ assms(2)]
    by (auto simp: handle_key_def dest!: step split: if_splits option.splits sum.splits)
qed

lemma dash_loop_wf: "dash_loop env is d = Some (r, d') \<Longrightarrow> dash_wf d \<Longrightarrow> dash_wf d'"
proof (induction "is" arbitrary: d)
  case (Cons i "is")
  obtain q d1 where k: "(case di_key i of None \<Rightarrow> Some (Inr False, d) | Some (key, control) \<Rightarrow> handle_key env (di_reads i) key control d)
      = Some (q, d1)" using Cons.prems(1) by (auto split: option.splits)
  have w1: "dash_wf d1"
    using k Cons.prems(2) handle_key_wf by (auto split: option.splits)
  show ?case
  proof (cases "q = Inr False \<and> di_due i")
    case True
    then obtain p d2 where a: "auto_ticks env (di_ticks i) d1 = Some (p, d2)"
      using Cons.prems(1) k by (auto split: option.splits)
    have "dash_wf d2" using a w1 auto_loop_wf by (auto simp: auto_ticks_def split: if_splits)
    then show ?thesis using Cons True k a by (auto split: sum.splits)
  next
    case False
    then show ?thesis using Cons k w1 by (auto split: sum.splits if_splits)
  qed
qed simp

lemma from_source_wf: "dash_from_source env w src = Some (Inr d) \<Longrightarrow> dash_wf d"
  by (auto simp: dash_from_source_def Let_def intro!: refresh_wf split: option.splits sum.splits prod.splits)

section \<open>Stepping is running\<close>

fun dash_steps :: "dash_env \<Rightarrow> (nat \<Rightarrow> frame_reads) \<Rightarrow> nat \<Rightarrow> nat \<Rightarrow> dashboard \<Rightarrow> (unit result \<times> dashboard) option" where
  "dash_steps env wall k 0 d = Some (Inr (), d)"
| "dash_steps env wall k (Suc n) d =
     (case step_once env (wall k) d of
        Some (Inr _, d1) \<Rightarrow> dash_steps env wall (Suc k) n d1
      | x \<Rightarrow> x)"

lemma apply_action_edu: "apply_action a (s\<lparr>sd_edu := e\<rparr>) = (apply_action a s)\<lparr>sd_edu := e\<rparr>"
  by (cases a) simp_all

lemma apply_actions_edu: "apply_actions now acts (s\<lparr>sd_edu := e\<rparr>) = (apply_actions now acts s)\<lparr>sd_edu := e\<rparr>"
proof (induction acts arbitrary: s)
  case (Cons a acts)
  have c: "s\<lparr>sd_edu := e, sd_timeline_idx := n\<rparr> = s\<lparr>sd_timeline_idx := n, sd_edu := e\<rparr>" for n by simp
  show ?case by (simp add: c apply_action_edu Cons.IH)
qed simp

lemma apply_timeline_edu: "apply_timeline now (s\<lparr>sd_edu := e\<rparr>) = (apply_timeline now s)\<lparr>sd_edu := e\<rparr>"
  by (simp add: apply_timeline_def apply_actions_edu)

lemma sd_begin_edu:
  assumes "sd_begin w s = (r, s1)"
  shows "sd_begin w (s\<lparr>sd_edu := e\<rparr>) = (r, s1\<lparr>sd_edu := e\<rparr>)"
proof (cases "sd_running s")
  case True
  then show ?thesis using assms by (simp add: sd_begin_def)
next
  case False
  obtain q ns where i: "init_nics (sd_nics s) = (q, ns)" by (rule prod.exhaust)
  let ?s = "sd_emit 0 (EvSimulatorStarted (sc_name (sd_scenario s)))
      (s\<lparr>sd_nics := ns, sd_clock := Some (sim_clock_new (sc_clock_mode (sd_scenario s))),
          sd_wall_start := Some w, sd_stats := sim_stats_default, sd_timeline_idx := 0, sd_running := True\<rparr>)"
  have c: "sd_emit 0 (EvSimulatorStarted (sc_name (sd_scenario s)))
      (s\<lparr>sd_edu := e, sd_nics := ns, sd_clock := Some (sim_clock_new (sc_clock_mode (sd_scenario s))),
          sd_wall_start := Some w, sd_stats := sim_stats_default, sd_timeline_idx := 0, sd_running := True\<rparr>)
      = ?s\<lparr>sd_edu := e\<rparr>" by (simp add: sd_emit_def)
  have "sd_begin w (s\<lparr>sd_edu := e\<rparr>) = (case q of Inl x \<Rightarrow> (Inl x, s\<lparr>sd_edu := e, sd_nics := ns\<rparr>)
      | Inr _ \<Rightarrow> (Inr (), apply_timeline 0 (?s\<lparr>sd_edu := e\<rparr>)))"
    using False i c by (cases q) (simp_all add: sd_begin_def)
  moreover have "sd_begin w s = (case q of Inl x \<Rightarrow> (Inl x, s\<lparr>sd_nics := ns\<rparr>) | Inr _ \<Rightarrow> (Inr (), apply_timeline 0 ?s))"
    using False i by (cases q) (simp_all add: sd_begin_def)
  ultimately show ?thesis using assms by (cases q) (auto simp: apply_timeline_edu)
qed

text \<open>A paused run arms the scheduler; resumed, it is as the headless run begins.\<close>

lemma arm_resumed:
  assumes "arm env w (sd_pause s) = Some (Inr st, s2)" "sd_begin (wr_start (fr_step w)) (sd_resume s) = (Inr u, s1)"
  shows "sd_resume s2 = s1"
proof -
  have p: "sd_pause s = (sd_resume s)\<lparr>sd_edu := (sd_edu s)\<lparr>ed_paused := True\<rparr>\<rparr>" by (simp add: sd_pause_def sd_resume_def)
  have b: "sd_begin (wr_start (fr_step w)) (sd_pause s) = (Inr u, s1\<lparr>sd_edu := (sd_edu s)\<lparr>ed_paused := True\<rparr>\<rparr>)"
    unfolding p by (rule sd_begin_edu [OF assms(2)])
  have e: "sd_edu s1 = (sd_edu s)\<lparr>ed_paused := False\<rparr>"
    using assms(2) by (auto simp: sd_begin_def Let_def apply_timeline_frame sd_emit_def sd_resume_def split: if_splits prod.splits sum.splits)
  have "s2 = s1\<lparr>sd_edu := (sd_edu s)\<lparr>ed_paused := True\<rparr>\<rparr>" using assms(1) b by (simp add: arm_def sched_run_def)
  then show ?thesis using e by (simp add: sd_resume_def)
qed

lemma resume_unpaused: "\<not> ed_paused (sd_edu s) \<Longrightarrow> sd_resume s = s"
  by (simp add: sd_resume_def)

lemma tick_body_running: "tick_body lm w s = Some (Inr True, s') \<Longrightarrow> sd_running s \<Longrightarrow> sd_running s'"
proof -
  have c: "sd_running (feed_ring now b (s\<lparr>sd_nics := ns\<rparr>)) = sd_running s" for now b ns
    using feed_ring_core [of now b "s\<lparr>sd_nics := ns\<rparr>"] by (simp add: sd_core_def)
  show "tick_body lm w s = Some (Inr True, s') \<Longrightarrow> sd_running s \<Longrightarrow> sd_running s'"
    by (auto simp: tick_body_def Let_def c bump_stats_def snapshot_nic_stats_def sd_record_def sd_emit_def
        split: option.splits if_splits)
qed

lemma sched_step_running:
  "sched_step lm w s = Some (Inr True, s') \<Longrightarrow> sd_running s \<Longrightarrow> sd_running s'"
  by (auto simp: sched_step_def Let_def apply_timeline_frame split: if_splits intro: tick_body_running)

lemma dash_sched_frame [simp]:
  "da_sched (refresh_events dbg d) = da_sched d" "da_sched (ingest_tick_samples d) = da_sched d"
  "da_finished (refresh_events dbg d) = da_finished d" "da_finished (ingest_tick_samples d) = da_finished d"
  by (simp_all add: refresh_events_def ingest_tick_samples_def Let_def)

text \<open>One step of the dashboard is one step of the scheduler, and finishes the run at its end.\<close>

lemma step_once_follows:
  assumes "sched_step (dv_libm env) (fr_step w) (sd_resume (da_sched d)) = Some (Inr again, s1)" "\<not> da_finished d"
    "\<not> ed_paused (sd_edu s1)"
  shows "\<exists>d1. step_once env w d = Some (Inr (), d1) \<and>
    (if again then da_sched d1 = s1 \<and> \<not> da_finished d1
     else da_sched d1 = snd (finish_run (fr_wall w) (fr_elapsed w) s1) \<and> da_finished d1)"
  using assms by (auto simp: step_once_def Let_def dash_finish_def)

lemma dash_follows_loop:
  fixes d :: dashboard
  assumes "sched_loop lm wall k s = Some y"
  shows "lm = dv_libm env \<Longrightarrow> wall = (\<lambda>i. fr_step (w i)) \<Longrightarrow> (\<And>i. fr_wall (w i) = we \<and> fr_elapsed (w i) = el) \<Longrightarrow>
    sd_running s \<Longrightarrow> fst y = Inr () \<Longrightarrow> \<not> ed_paused (sd_edu (snd y)) \<Longrightarrow> sd_resume (da_sched d) = s \<Longrightarrow> \<not> da_finished d \<Longrightarrow>
    \<exists>n d1. dash_steps env w k n d = Some (Inr (), d1) \<and> da_finished d1 \<and> da_sched d1 = snd (finish_run we el (snd y))"
proof -
  let ?P = "\<lambda>lm wall k s y. lm = dv_libm env \<longrightarrow> wall = (\<lambda>i. fr_step (w i)) \<longrightarrow> (\<forall>i. fr_wall (w i) = we \<and> fr_elapsed (w i) = el) \<longrightarrow>
    sd_running s \<longrightarrow> fst y = Inr () \<longrightarrow> \<not> ed_paused (sd_edu (snd y)) \<longrightarrow>
    (\<forall>d :: dashboard. sd_resume (da_sched d) = s \<longrightarrow> \<not> da_finished d \<longrightarrow>
      (\<exists>n d1. dash_steps env w k n d = Some (Inr (), d1) \<and> da_finished d1 \<and> da_sched d1 = snd (finish_run we el (snd y))))"
  have "?P lm wall k s y"
  proof (rule sched_loop.raw_induct [where P = ?P, OF _ assms], intro impI allI)
    fix lp lm wall k s and d :: dashboard and y :: "unit result \<times> sim_scheduler"
    assume IH: "\<And>lm wall k s (y :: unit result \<times> sim_scheduler). lp lm wall k s = Some y \<Longrightarrow> ?P lm wall k s y"
      and st: "(if \<not> sd_running s then Some (Inr (), s)
        else case sched_step lm (wall k) s of None \<Rightarrow> None
          | Some (r, s1) \<Rightarrow> (case r of Inl e \<Rightarrow> Some (Inl e, s1)
              | Inr again \<Rightarrow> if \<not> again \<or> ed_paused (sd_edu s1) then Some (Inr (), s1) else lp lm wall (Suc k) s1)) = Some y"
      and a: "lm = dv_libm env" "wall = (\<lambda>i. fr_step (w i))" "\<forall>i. fr_wall (w i) = we \<and> fr_elapsed (w i) = el"
        "sd_running s" "fst y = Inr ()" "\<not> ed_paused (sd_edu (snd y))" "sd_resume (da_sched d) = s" "\<not> da_finished d"
    obtain r s1 where ss: "sched_step lm (wall k) s = Some (r, s1)" using st a(4) by (auto split: option.splits)
    obtain again where r: "r = Inr again" using st a(4,5) ss by (cases r) auto
    show "\<exists>n d1. dash_steps env w k n d = Some (Inr (), d1) \<and> da_finished d1 \<and> da_sched d1 = snd (finish_run we el (snd y))"
    proof (cases "again \<and> \<not> ed_paused (sd_edu s1)")
      case True
      have y: "lp lm wall (Suc k) s1 = Some y" using True st a(4) ss r by auto
      from step_once_follows [of env "w k" d again s1] ss r a True obtain d1 where
        d1: "step_once env (w k) d = Some (Inr (), d1)" "da_sched d1 = s1" "\<not> da_finished d1" by auto
      have "again = True" using True by simp
      then have "sd_running s1" using sched_step_running [of lm "wall k" s s1] ss r a(4) by simp
      with IH [OF y] a d1 resume_unpaused True have
        "\<exists>n d2. dash_steps env w (Suc k) n d1 = Some (Inr (), d2) \<and> da_finished d2 \<and> da_sched d2 = snd (finish_run we el (snd y))"
        by simp
      then obtain n d2 where "dash_steps env w (Suc k) n d1 = Some (Inr (), d2)" "da_finished d2"
        "da_sched d2 = snd (finish_run we el (snd y))" by blast
      then show ?thesis using d1(1) by (intro exI [of _ "Suc n"] exI [of _ d2]) simp
    next
      case False
      then have y: "y = (Inr (), s1)" using st a(4) ss r by auto
      then have np: "\<not> ed_paused (sd_edu s1)" using a(6) by simp
      from step_once_follows [of env "w k" d again s1] ss r a np False obtain d1 where
        d1: "step_once env (w k) d = Some (Inr (), d1)" "da_sched d1 = snd (finish_run we el s1)" "da_finished d1" by auto
      then show ?thesis using y by (intro exI [of _ "Suc 0"] exI [of _ d1]) simp
    qed
  qed
  then show "lm = dv_libm env \<Longrightarrow> wall = (\<lambda>i. fr_step (w i)) \<Longrightarrow> (\<And>i. fr_wall (w i) = we \<and> fr_elapsed (w i) = el) \<Longrightarrow>
    sd_running s \<Longrightarrow> fst y = Inr () \<Longrightarrow> \<not> ed_paused (sd_edu (snd y)) \<Longrightarrow> sd_resume (da_sched d) = s \<Longrightarrow> \<not> da_finished d \<Longrightarrow>
    \<exists>n d1. dash_steps env w k n d = Some (Inr (), d1) \<and> da_finished d1 \<and> da_sched d1 = snd (finish_run we el (snd y))"
    by blast
qed

lemma finish_run_sched: "snd (finish_run we el s) = snd (sd_finish we el s)"
  by (simp add: finish_run_def split: prod.split sum.split)

section \<open>Gauges\<close>

definition unit_ratio :: "f64 \<Rightarrow> bool" where
  "unit_ratio x \<longleftrightarrow> (\<exists>q. x = Fin q \<and> 0 \<le> q \<and> q \<le> 1)"

lemma clamp_unit_ratio: "x \<noteq> NaN \<Longrightarrow> unit_ratio (f64_clamp x (Fin 0) (Fin 1))"
  by (cases x) (auto simp: f64_clamp_def unit_ratio_def)

lemma round64_not_nan: "round64 q \<noteq> NaN"
  by (simp add: round64_def Let_def)

lemma div_pos_not_nan: "x \<noteq> NaN \<Longrightarrow> f64_div_pos x b \<noteq> NaN"
  by (cases x) (simp_all add: round64_not_nan)

section \<open>Runs without breakpoints\<close>

definition unbroken :: "edu_controls \<Rightarrow> bool" where
  "unbroken e \<longleftrightarrow> ed_breakpoint_ns e = None \<and> ed_breakpoint_tick e = None \<and> ed_max_steps e = None"

lemma tick_body_edu: "tick_body lm w s = Some (r, s') \<Longrightarrow> sd_edu s' = sd_edu s"
proof -
  have c: "sd_edu (feed_ring now b (s\<lparr>sd_nics := ns\<rparr>)) = sd_edu s" for now b ns
    using feed_ring_core [of now b "s\<lparr>sd_nics := ns\<rparr>"] by (simp add: sd_core_def)
  show "tick_body lm w s = Some (r, s') \<Longrightarrow> sd_edu s' = sd_edu s"
    by (auto simp: tick_body_def Let_def c bump_stats_def snapshot_nic_stats_def sd_record_def sd_emit_def
        split: option.splits if_splits)
qed

lemma sched_step_edu:
  assumes "sched_step lm w s = Some (r, s')" "unbroken (sd_edu s)" "sd_running s"
  shows "sd_edu s' = sd_edu s"
proof -
  have "\<not> edu_break now (apply_timeline now s)" for now
    using assms(2) by (simp add: edu_break_def apply_timeline_frame unbroken_def)
  then show ?thesis using assms(1,3) tick_body_edu by (fastforce simp: sched_step_def Let_def apply_timeline_frame split: if_splits)
qed

lemma sched_loop_edu:
  assumes "sched_loop lm wall k s = Some y" "unbroken (sd_edu s)"
  shows "sd_edu (snd y) = sd_edu s"
proof -
  let ?P = "\<lambda>lm wall k s y. unbroken (sd_edu s) \<longrightarrow> sd_edu (snd y) = sd_edu s"
  have "?P lm wall k s y"
  proof (rule sched_loop.raw_induct [where P = ?P, OF _ assms(1)])
    fix lp lm wall k s and y :: "unit result \<times> sim_scheduler"
    assume IH: "\<And>lm wall k s (y :: unit result \<times> sim_scheduler). lp lm wall k s = Some y \<Longrightarrow> ?P lm wall k s y"
      and st: "(if \<not> sd_running s then Some (Inr (), s)
        else case sched_step lm (wall k) s of None \<Rightarrow> None
          | Some (r, s1) \<Rightarrow> (case r of Inl e \<Rightarrow> Some (Inl e, s1)
              | Inr again \<Rightarrow> if \<not> again \<or> ed_paused (sd_edu s1) then Some (Inr (), s1) else lp lm wall (Suc k) s1)) = Some y"
    show "?P lm wall k s y"
    proof (cases "sd_running s")
      case True
      then obtain r s1 where ss: "sched_step lm (wall k) s = Some (r, s1)"
        using st by (auto split: option.splits)
      note e1 = sched_step_edu [OF ss _ True]
      show ?thesis using st True ss e1 IH [of lm wall "Suc k" s1 y] by (auto split: sum.splits if_splits)
    qed (use st in auto)
  qed
  with assms(2) show ?thesis by simp
qed

lemma sd_begin_keeps_edu: "sd_begin w s = (r, s1) \<Longrightarrow> sd_edu s1 = sd_edu s"
  by (auto simp: sd_begin_def Let_def apply_timeline_frame sd_emit_def split: if_splits prod.splits sum.splits)

lemma sd_finish_keeps_edu: "sd_edu (snd (sd_finish we el s)) = sd_edu s"
  by (simp add: sd_finish_def Let_def split_beta snapshot_nic_stats_def sd_emit_def split: option.split sum.split)

lemma sched_run_edu:
  assumes "sched_run lm wall we el s = Some (r, s')" "unbroken (sd_edu s)"
  shows "sd_edu s' = sd_edu s"
proof -
  obtain b s1 where bg: "sd_begin (wr_start (wall 0)) s = (b, s1)" by (rule prod.exhaust)
  note e1 = sd_begin_keeps_edu [OF bg]
  have l: "sched_loop lm wall 0 s1 = Some (q, s2) \<Longrightarrow> sd_edu s2 = sd_edu s" for q s2
    using sched_loop_edu [of lm wall 0 s1 "(q, s2)"] e1 assms(2) by simp
  have f: "sd_finish we el s2 = (q, s3) \<Longrightarrow> sd_edu s3 = sd_edu s2" for s2 q s3
    using sd_finish_keeps_edu [of we el s2] by simp
  show ?thesis using assms(1) bg e1 by (auto simp: sched_run_def dest!: l f split: sum.splits if_splits option.splits prod.splits)
qed

section \<open>Breakpoints\<close>

text \<open>The dashboard at a breakpoint of its run, in virtual time.\<close>

definition at_breakpoint :: "sim_stats \<Rightarrow> sim_clock \<Rightarrow> dashboard \<Rightarrow> bool" where
  "at_breakpoint st c d \<longleftrightarrow> \<not> da_finished d \<and> sd_running (da_sched d) \<and> sd_clock (da_sched d) = Some c
     \<and> clock_is_virtual c \<and> sd_stats (da_sched d) = st \<and> ck_virtual_ns c < duration_ns (da_sched d)
     \<and> edu_break (ck_virtual_ns c) (da_sched d)"

lemma at_breakpoint_display [simp]:
  "at_breakpoint st c (d\<lparr>da_status := t\<rparr>) = at_breakpoint st c d" "at_breakpoint st c (d\<lparr>da_mode := m\<rparr>) = at_breakpoint st c d"
  "at_breakpoint st c (d\<lparr>da_ticks_per_frame := n\<rparr>) = at_breakpoint st c d"
  "at_breakpoint st c (refresh_events dbg d) = at_breakpoint st c d"
  "at_breakpoint st c (ingest_tick_samples d) = at_breakpoint st c d"
  by (simp_all add: at_breakpoint_def)

lemma at_breakpoint_pause [simp]:
  "at_breakpoint st c (d\<lparr>da_sched := sd_pause (da_sched d)\<rparr>) = at_breakpoint st c d"
  "at_breakpoint st c (d\<lparr>da_sched := sd_resume (da_sched d)\<rparr>) = at_breakpoint st c d"
  by (simp_all add: at_breakpoint_def sd_pause_def sd_resume_def duration_ns_def edu_break_def cong: option.case_cong)

lemma break_ignores_pause:
  "edu_break now (apply_timeline now (sd_resume s)) = edu_break now s"
  "edu_break now (sd_pause (apply_timeline now (sd_resume s))) = edu_break now s"
  by (simp_all add: edu_break_def apply_timeline_frame sd_resume_def sd_pause_def cong: option.case_cong)

lemma step_at_breakpoint:
  assumes "at_breakpoint st c d"
  shows "\<exists>d1. step_once env w d = Some (Inr (), d1) \<and> at_breakpoint st c d1"
proof -
  let ?s = "sd_resume (da_sched d)"
  have d: "\<not> duration_ns ?s \<le> ck_virtual_ns c" "sd_running ?s" "run_clock ?s = c"
    using assms by (auto simp: at_breakpoint_def sd_resume_def duration_ns_def run_clock_def not_le)
  have n: "now_ns e c = ck_virtual_ns c" for e using assms by (simp add: at_breakpoint_def now_virtual)
  have "sched_step (dv_libm env) (fr_step w) ?s = Some (Inr False, sd_pause (apply_timeline (ck_virtual_ns c) ?s))"
    using assms d n by (simp add: at_breakpoint_def sched_step_def Let_def break_ignores_pause)
  moreover have "sd_running (sd_pause (apply_timeline (ck_virtual_ns c) ?s))" "ed_paused (sd_edu (sd_pause (apply_timeline (ck_virtual_ns c) ?s)))"
    using assms by (simp_all add: at_breakpoint_def sd_pause_def apply_timeline_frame sd_resume_def)
  ultimately show ?thesis
    using assms
    by (simp add: step_once_def Let_def at_breakpoint_def break_ignores_pause)
      (simp add: sd_pause_def sd_resume_def apply_timeline_frame duration_ns_def)
qed

lemma auto_at_breakpoint:
  assumes "at_breakpoint st c d"
  shows "\<exists>d1. auto_loop env w k n d = Some (Inr (), d1) \<and> at_breakpoint st c d1"
  using assms
proof (induction n arbitrary: k d)
  case (Suc n)
  from step_at_breakpoint [OF Suc.prems, of env "w k"] obtain d1 where
    "step_once env (w k) d = Some (Inr (), d1)" "at_breakpoint st c d1" by blast
  then show ?case using Suc.IH [of d1 "Suc k"] by simp
qed simp

lemma key_at_breakpoint:
  assumes "at_breakpoint st c d" "key \<noteq> KeyChar (CHR ''r'')"
  shows "\<exists>q d1. handle_key env w key control d = Some (Inr q, d1) \<and> at_breakpoint st c d1"
proof -
  have sp: "at_breakpoint st c (dash_space d)"
    using assms(1) at_breakpoint_pause [of st c "d\<lparr>da_mode := Paused\<rparr>"] at_breakpoint_pause [of st c "d\<lparr>da_mode := Auto\<rparr>"]
    by (simp add: dash_space_def)
  from step_at_breakpoint [of st c "d\<lparr>da_mode := Paused\<rparr>" env w] assms(1) obtain d1 where
    "step_once env w (d\<lparr>da_mode := Paused\<rparr>) = Some (Inr (), d1)" "at_breakpoint st c d1" by auto
  then show ?thesis using assms sp by (simp add: handle_key_def dash_speed_def ex_bool_eq)
qed

lemma loop_at_breakpoint:
  assumes "at_breakpoint st c d" "list_all (\<lambda>i. \<forall>m. di_key i \<noteq> Some (KeyChar (CHR ''r''), m)) inputs"
  shows "\<exists>q d1. dash_loop env inputs d = Some (Inr q, d1) \<and> at_breakpoint st c d1"
  using assms
proof (induction inputs arbitrary: d)
  case (Cons i inputs)
  obtain q d1 where k: "(case di_key i of None \<Rightarrow> Some (Inr False, d) | Some (key, m) \<Rightarrow> handle_key env (di_reads i) key m d)
      = Some (Inr q, d1)" "at_breakpoint st c d1"
  proof (cases "di_key i")
    case None
    then show ?thesis using that [of False d] Cons.prems(1) by simp
  next
    case (Some km)
    then show ?thesis using that Cons.prems key_at_breakpoint [of st c d "fst km" env "di_reads i" "snd km"]
      by (cases km) auto
  qed
  have "\<exists>d2. auto_ticks env (di_ticks i) d1 = Some (Inr (), d2) \<and> at_breakpoint st c d2"
    using k(2) auto_at_breakpoint [OF k(2), of env "di_ticks i" 0 "da_ticks_per_frame d1"] by (simp add: auto_ticks_def)
  then obtain d2 where a: "auto_ticks env (di_ticks i) d1 = Some (Inr (), d2)" "at_breakpoint st c d2" by blast
  show ?case using k a Cons.IH [of d1] Cons.IH [of d2] Cons.prems(2) by (simp add: ex_bool_eq)
qed (simp add: ex_bool_eq)

end
