(* ===== verification/Dsl_Props.thy ===== *)
theory Dsl_Props
  imports Dsl_Laws
begin

text \<open>Properties of scenario documents, from the document to the result of its run.\<close>

section \<open>An example\<close>

text \<open>The smallest scenario: one card with its traffic table; everything else by default.\<close>

definition quick_doc :: scenario_doc where
  "quick_doc = (scenario_doc_of (meta_named ''quick''))\<lparr>sdoc_nic := [(nic_named ''nic0'')\<lparr>nd_traffic := traffic_table\<rparr>]\<rparr>"

definition closed_env :: dsl_env where
  "closed_env =
     \<lparr>de_parse = (\<lambda>_. Inr quick_doc), de_engine = (\<lambda>_ _. NextDone), de_display = (\<lambda>_. ''''),
      de_read_text = (\<lambda>_. Inl ''no such file''), de_read_bytes = (\<lambda>_. Inl ''no such file'')\<rparr>"

lemma ascii_lower_literals:
  "ascii_lower ''fixed'' = ''fixed''" "ascii_lower ''fixed_seq'' = ''fixed_seq''" "ascii_lower ''virtual'' = ''virtual''"
  "ascii_lower ''trace'' = ''trace''" "ascii_lower '''' = ''''"
  by (simp_all add: ascii_lower_def)

definition quick_traffic :: traffic_config where
  "quick_traffic = \<lparr>tc_pattern = TpFixedRate 1000, tc_payload_size = 8, tc_batch_size = 64, tc_payload = FixedSeq\<rparr>"

definition quick_run :: compiled_run where
  "quick_run =
     \<lparr>cr_scenario =
        \<lparr>sc_name = ''quick'', sc_description = '''', sc_traffic = quick_traffic, sc_fault = fault_spec_default,
         sc_duration = 1000000000, sc_clock_mode = Virtual 0, sc_tick_ns = 1000000\<rparr>,
      cr_edu = edu_controls_default, cr_events_enabled = True, cr_metrics_enabled = True, cr_simulated = True,
      cr_nics = [\<lparr>cni_name = ''nic0'', cni_batch_size = 64, cni_udp_port = 9000, cni_traffic = quick_traffic,
                   cni_fault = fault_spec_default, cni_fault_seed = 0\<rparr>],
      cr_pcaps = [], cr_fabric = Some \<lparr>cfb_name = ''ring0'', cfb_slots = 4096, cfb_max_frame = 128\<rparr>,
      cr_consumers = [\<lparr>cco_name = ''c0'', cco_max_per_drain = usize_max\<rparr>], cr_timeline = [], cr_storage_declared = 0\<rparr>"

lemma quick_nic: "compile_nic 0 ((nic_named ''nic0'')\<lparr>nd_traffic := traffic_table\<rparr>) = Inr (hd (cr_nics quick_run))"
  by (simp add: compile_nic_def compile_traffic_def compile_payload_def compile_fault_def optional_duration_def
      nic_named_def traffic_table_def traffic_doc_default_def payload_doc_default_def fault_doc_default_def
      default_pattern_def default_payload_kind_def default_batch_def default_udp_port_def ascii_lower_literals
      pattern_of_def or_default_def Let_def quick_run_def quick_traffic_def fault_spec_default_def)

lemma quick_doc_compiles: "compile_doc env base quick_doc = Some (Inr quick_run)"
proof -
  have "nic_frame (hd (cr_nics quick_run)) = 50" by (simp add: quick_run_def nic_frame_def quick_traffic_def)
  then have f: "Max {nic_frame (hd (cr_nics quick_run)), 128} = 128" by simp
  have "compile_scripted env base quick_doc [] = Inr quick_run"
    using f
    by (simp add: compile_scripted_def quick_doc_def scenario_doc_of_def meta_named_def default_duration_def default_tick_def
        default_clock_def default_mode_def parse_default_durations ascii_lower_literals clock_mode_of_def edu_of_def
        quick_nic fabric_of_def consumers_of_def Let_def or_default_def trace_doc_default_def)
      (simp add: quick_run_def edu_controls_default_def)
  then show ?thesis by (simp add: compile_doc_def) (simp add: quick_doc_def scenario_doc_of_def meta_named_def default_true_def)
qed

definition quick_sched :: sim_scheduler where
  "quick_sched =
     add_consumer (consumer_new ''c0'') (add_nic (NicDev (virtual_nic_new (nic_config_of (hd (cr_nics quick_run)))))
       (with_ring (the (virtual_ring_new ''ring0'' 4096 128)) (with_timeline [] (with_edu edu_controls_default
          (sim_scheduler_new (cr_scenario quick_run))))))"

lemma quick_run_builds: "build_scheduler env quick_run = Some (Inr quick_sched)"
  by (simp add: build_scheduler_def quick_run_def quick_sched_def virtual_ring_new_def build_consumer_def Let_def)

text \<open>The quick scenario's run, with a wall clock that stands still.\<close>

definition still_wall :: "nat \<Rightarrow> wall_reads" where
  "still_wall k = \<lparr>wr_start = 0, wr_now1 = 0, wr_now2 = 0, wr_tick = 0, wr_next = 0\<rparr>"

lemma quick_facts:
  "sc_clock_mode (cr_scenario quick_run) = Virtual 0" "list_all (\<lambda>p. \<not> cpc_loop_capture p) (cr_pcaps quick_run)"
  "sc_duration (cr_scenario quick_run) = 1000000000" "sc_tick_ns (cr_scenario quick_run) = 1000000"
  "list_all not_slow (cr_timeline quick_run)" "tc_batch_size (sc_traffic (cr_scenario quick_run)) \<le> 4096"
  "sdoc_fabric quick_doc = None" "sdoc_consumer quick_doc = []"
  by (simp_all add: quick_run_def quick_doc_def scenario_doc_of_def quick_traffic_def)

section \<open>Properties\<close>

text \<open>
  (C29) A document that compiles gives a run the scheduler can be trusted with: marked as simulated, a
  positive tick, a virtual clock from zero or the real one, actions in the order of their times whatever the
  order of the document and of its script, payloads of at least one byte, positive drain budgets, and, unless
  there is nothing at all to connect, a ring with slots and a consumer.
\<close>

theorem compiled_run_wf:
  assumes "compile_doc env base doc = Some (Inr c)"
  shows "run_wf c"
  by (rule compile_doc_wf [OF assms])

lemma compiled_run_wf_witness: "run_wf quick_run"
  by (rule compiled_run_wf [OF quick_doc_compiles])

text \<open>
  (C28) From document to result: a compiled scenario on the virtual clock, without looped captures, is run to
  its end and succeeds. Unless it is paused, its clock has then reached the document's duration, in no more
  ticks than the duration holds.
\<close>

theorem compiled_run_ends:
  assumes "compile_doc env base doc = Some (Inr c)" "build_scheduler env c = Some (Inr s)"
    "sc_clock_mode (cr_scenario c) = Virtual 0" "list_all (\<lambda>p. \<not> cpc_loop_capture p) (cr_pcaps c)"
  shows "\<exists>st s'. sched_run lm wall wall_end elapsed s = Some (Inr st, s')
    \<and> (ed_paused (sd_edu s') \<or> sc_duration (cr_scenario c) \<le> unat (ss_clock_ns st)
          \<and> ss_ticks st * unat (sc_tick_ns (cr_scenario c))
              \<le> sc_duration (cr_scenario c) + (unat (sc_tick_ns (cr_scenario c)) - 1))"
  by (rule compiled_run_result [OF assms])

lemma compiled_run_ends_witness:
  "\<exists>st s'. sched_run zero_libm still_wall 0 0 quick_sched = Some (Inr st, s') \<and> (ed_paused (sd_edu s') \<or> ss_ticks st \<le> 1000)"
proof -
  have bound: "n \<le> 1000" if "n * 1000000 \<le> 1000000000 + (1000000 - 1 :: nat)" for n using that by linarith
  show ?thesis
    using compiled_run_ends [OF quick_doc_compiles [of closed_env "''''"] quick_run_builds quick_facts(1,2),
        of zero_libm still_wall 0 0] bound
    by (fastforce simp: quick_facts(3,4))
qed

text \<open>
  (C27) The default ring and consumer of a document keep up. When the document leaves both to the defaults,
  none of its actions slows a consumer, and the batch of its first card is at most the 4096 slots of the
  default ring, then no packet that a tick offers to the ring is refused, and every slot written is
  consumed, whatever the sources, their faults and the other actions do. It says nothing of packets lost
  before the ring: with several sources a tick offers those of the last one only.
\<close>

theorem default_fabric_lossless:
  assumes "compile_doc env base doc = Some (Inr c)" "sdoc_fabric doc = None" "sdoc_consumer doc = []"
    "list_all not_slow (cr_timeline c)" "tc_batch_size (sc_traffic (cr_scenario c)) \<le> 4096"
    "build_scheduler env c = Some (Inr s)" "sched_run lm wall wall_end elapsed s = Some (Inr st, s')"
  shows "ss_ring_overflows st = 0 \<and> ss_slots_consumed st = ss_slots_written st"
  using sched_run_lossless [OF assms(7) default_fabric_roomy [OF assms(1-6)]] build_scheduler_parts(5) [OF assms(6)]
  by blast

lemma default_fabric_lossless_witness:
  "\<exists>st s'. sched_run zero_libm still_wall 0 0 quick_sched = Some (Inr st, s')
     \<and> ss_ring_overflows st = 0 \<and> ss_slots_consumed st = ss_slots_written st"
proof -
  note c = quick_doc_compiles [of closed_env "''''"]
  obtain st s' where r: "sched_run zero_libm still_wall 0 0 quick_sched = Some (Inr st, s')"
    using compiled_run_result [OF c quick_run_builds quick_facts(1,2)] by blast
  show ?thesis
    using default_fabric_lossless [OF c quick_facts(7,8,5,6) quick_run_builds r] r by blast
qed

text \<open>
  The compiler does not check the frame size of a ring: of the documents it accepts, exactly those with
  a source and a \<open>max_frame\<close> of zero make the construction of the scheduler panic.
\<close>

theorem zero_frame_panics:
  assumes "compile_doc env base doc = Some (Inr c)"
  shows "build_scheduler env c = None \<longleftrightarrow>
    (cr_nics c \<noteq> [] \<or> cr_pcaps c \<noteq> []) \<and> (\<exists>d. sdoc_fabric doc = Some d \<and> fbd_max_frame d = Some 0)"
proof -
  obtain acts where "compile_scripted env base doc acts = Inr c" using compile_doc_scripted [OF assms] by blast
  note f = compile_scripted_parts(7) [OF this]
  show ?thesis
  proof (cases "cr_fabric c")
    case None
    then show ?thesis using fabric_of_none [of doc "cr_nics c" "cr_pcaps c"] f by (simp add: build_scheduler_none)
  next
    case (Some fb)
    then show ?thesis
      using fabric_of_slots [OF f [unfolded Some]] compiled_frame_zero [OF f [unfolded Some]] by (simp add: build_scheduler_none)
  qed
qed

lemma zero_frame_panics_witness: "build_scheduler closed_env quick_run \<noteq> None"
  using zero_frame_panics [OF quick_doc_compiles [of closed_env "''''"]] quick_facts(7) by simp

text \<open>
  A card without a traffic table is refused: the absent table's pattern is empty, not the default of a
  table that is present, and no pattern has that name.
\<close>

theorem nic_needs_traffic_table:
  assumes "n \<in> set (sdoc_nic doc)" "nd_traffic n = traffic_doc_default"
  shows "compile_doc env base doc \<noteq> Some (Inr c)"
proof
  assume "compile_doc env base doc = Some (Inr c)"
  then obtain acts where "compile_scripted env base doc acts = Inr c" using compile_doc_scripted by blast
  from compile_scripted_parts(5) [OF this] obtain k where "compile_nic (md_seed (sdoc_scenario doc)) n = Inr k"
    using assms(1) by (auto simp: collect_results_Inr list_all2_conv_all_nth in_set_conv_nth)
  then show False
    by (simp add: compile_nic_def assms(2) compile_traffic_def traffic_doc_default_def ascii_lower_literals pattern_of_def Let_def)
qed

lemma nic_needs_traffic_table_witness:
  "compile_doc closed_env '''' ((scenario_doc_of (meta_named ''bare''))\<lparr>sdoc_nic := [nic_named ''nic0'']\<rparr>) \<noteq> Some (Inr quick_run)"
  by (rule nic_needs_traffic_table [of "nic_named ''nic0''"]) (simp_all add: nic_named_def)

end
