(* ===== verification/Dash_Props.thy ===== *)
theory Dash_Props
  imports Dash_Laws Dsl_Props
begin

text \<open>Properties of the dashboard: its displays stay bounded, stepping through a run is
  running it, and a breakpoint is never passed.\<close>

section \<open>Properties\<close>

text \<open>
  (C35) Whatever keys are pressed and frames are due, the dashboard's displays stay bounded: at most 80 lines
  of events and 64 samples in each chart, between 1 and 1024 ticks a frame, a cursor within the shared sink,
  and a finished run is paused. The ratios that are drawn lie between 0 and 1, so that no gauge panics.
\<close>

theorem dashboard_stays_bounded:
  assumes "dash_from_source env w src = Some (Inr d)" "dash_loop env inputs d = Some (r, d')"
  shows "dash_wf d' \<and> unit_ratio (clock_ratio (snapshot elapsed d')) \<and> unit_ratio (ring_ratio (snapshot elapsed d'))"
proof -
  have nn: "f64_of_nat n \<noteq> NaN" for n by (simp add: f64_of_nat_def round64_not_nan)
  have z: "unit_ratio (Fin 0)" by (simp add: unit_ratio_def)
  have c: "unit_ratio (clock_ratio st)" for st
    using z by (simp add: clock_ratio_def clamp_unit_ratio div_pos_not_nan nn)
  have "vr_occupancy ring \<noteq> NaN" for ring by (simp add: vr_occupancy_def div_pos_not_nan nn)
  then have "unit_ratio (ring_ratio (snapshot elapsed d'))"
    using z by (simp add: ring_ratio_def snapshot_def Let_def sd_ring_occupancy_def clamp_unit_ratio split: option.split)
  then show ?thesis using c dash_loop_wf [OF assms(2) from_source_wf [OF assms(1)]] by blast
qed

definition quick_dash_env :: dash_env where
  "quick_dash_env = \<lparr>dv_dsl = closed_env, dv_libm = zero_libm, dv_debug = id\<rparr>"

definition still_reads :: "nat \<Rightarrow> frame_reads" where
  "still_reads k = \<lparr>fr_step = still_wall k, fr_wall = 0, fr_elapsed = 0\<rparr>"

lemma quick_dash_arms: "\<exists>d. dash_from_source quick_dash_env (still_reads 0) (Compiled quick_run) = Some (Inr d)"
proof -
  have b: "dash_build (dv_dsl quick_dash_env) (Compiled quick_run) = Some (Inr (sd_pause quick_sched))"
    by (simp add: dash_build_def quick_run_builds)
  let ?s = "sd_pause (sd_pause quick_sched)"
  have "list_all init_ok (sd_nics ?s)" "\<not> sd_running ?s"
    using built_init_ok [OF quick_run_builds] build_scheduler_parts(5) [OF quick_run_builds] by (simp_all add: sd_pause_def)
  then obtain s1 where s1: "sd_begin (wr_start (still_wall 0)) ?s = (Inr (), s1)"
    using init_nics_ok by (fastforce simp: sd_begin_def Let_def)
  have "ed_paused (sd_edu s1)" using sd_begin_keeps_edu [OF s1] by (simp add: sd_pause_def)
  then have "arm quick_dash_env (still_reads 0) ?s = Some (Inr (sd_stats s1), s1)"
    using s1 by (simp add: arm_def sched_run_def still_reads_def)
  then show ?thesis using b by (simp add: dash_from_source_def Let_def)
qed

lemma dashboard_stays_bounded_witness:
  "\<exists>d d'. dash_loop quick_dash_env
      [\<lparr>di_key = Some (KeyChar (CHR ''+''), False), di_due = False, di_reads = still_reads 0, di_ticks = still_reads\<rparr>] d
      = Some (Inr False, d') \<and> dash_wf d'"
proof -
  obtain d where d: "dash_from_source quick_dash_env (still_reads 0) (Compiled quick_run) = Some (Inr d)"
    using quick_dash_arms by blast
  let ?i = "[\<lparr>di_key = Some (KeyChar (CHR ''+''), False), di_due = False, di_reads = still_reads 0, di_ticks = still_reads\<rparr>]"
  obtain d' where l: "dash_loop quick_dash_env ?i d = Some (Inr False, d')" by (simp add: handle_key_def)
  show ?thesis using dashboard_stays_bounded [OF d l] l by blast
qed

text \<open>
  (C34) Stepping through a run in the dashboard is the headless run: with the same readings of the clocks, the
  steps from an armed dashboard lead, at some point, to exactly the scheduler that \<open>run\<close> leaves behind when it is
  not stopped by a breakpoint, statistics included.
\<close>

theorem dashboard_follows_run:
  assumes "dash_build (dv_dsl env) src = Some (Inr s)" "dash_from_source env (w 0) src = Some (Inr d)"
    "\<And>i. fr_wall (w i) = wall_end \<and> fr_elapsed (w i) = elapsed"
    "sched_run (dv_libm env) (\<lambda>i. fr_step (w i)) wall_end elapsed (sd_resume s) = Some (Inr st, s')"
    "\<not> ed_paused (sd_edu s')" "\<not> sd_running s"
  shows "\<exists>n d'. dash_steps env w 0 n d = Some (Inr (), d') \<and> da_finished d' \<and> da_sched d' = s' \<and> sd_stats (da_sched d') = st"
proof -
  obtain s2 q where arm: "arm env (w 0) (sd_pause s) = Some (Inr q, s2)" and d: "da_sched d = s2" "\<not> da_finished d"
    using assms(1,2) by (auto simp: dash_from_source_def Let_def split: option.splits sum.splits prod.splits)
  obtain b s1 where bg: "sd_begin (wr_start (fr_step (w 0))) (sd_resume s) = (b, s1)" by (rule prod.exhaust)
  then obtain u where b: "b = Inr u" using assms(4) by (cases b) (auto simp: sched_run_def)
  have r: "sd_resume (da_sched d) = s1" using arm_resumed [OF arm bg [unfolded b]] d(1) by simp
  have np1: "\<not> ed_paused (sd_edu s1)" using sd_begin_keeps_edu [OF bg] by (simp add: sd_resume_def)
  have run1: "sd_running s1"
    using bg b assms(6) by (auto simp: sd_begin_def sd_resume_def Let_def apply_timeline_frame sd_emit_def split: prod.splits sum.splits)
  obtain e s3 where l: "sched_loop (dv_libm env) (\<lambda>i. fr_step (w i)) 0 s1 = Some (e, s3)"
    using assms(4) bg b np1 by (auto simp: sched_run_def split: option.splits)
  have fin: "s' = snd (sd_finish wall_end elapsed s3)" "e = Inr ()" "st = sd_stats s'" "\<not> ed_paused (sd_edu s3)"
    using assms(4,5) bg b np1 l sd_finish_keeps_edu [of wall_end elapsed s3]
    by (auto simp: sched_run_def split: sum.splits if_splits prod.splits)
  obtain n d1 where "dash_steps env w 0 n d = Some (Inr (), d1)" "da_finished d1" "da_sched d1 = s'"
    using dash_follows_loop [OF l, of env w wall_end elapsed d] fin run1 assms(3) r d(2) by (auto simp: finish_run_sched)
  then show ?thesis using fin(3) by blast
qed

lemma dashboard_follows_run_witness:
  "\<exists>d n d'. dash_steps quick_dash_env still_reads 0 n d = Some (Inr (), d') \<and> da_finished d'
     \<and> ss_slots_consumed (sd_stats (da_sched d')) = ss_slots_written (sd_stats (da_sched d'))"
proof -
  let ?s = "sd_pause quick_sched"
  have b: "dash_build (dv_dsl quick_dash_env) (Compiled quick_run) = Some (Inr ?s)"
    by (simp add: dash_build_def quick_run_builds)
  obtain d where d: "dash_from_source quick_dash_env (still_reads 0) (Compiled quick_run) = Some (Inr d)"
    using quick_dash_arms by blast
  have edu: "sd_edu quick_sched = edu_controls_default" using build_scheduler_parts(2) [OF quick_run_builds] by (simp add: quick_run_def)
  then have rs: "sd_resume ?s = quick_sched" by (simp add: sd_resume_def sd_pause_def edu_controls_default_def)
  have nr: "\<not> sd_running quick_sched" by (rule build_scheduler_parts(5) [OF quick_run_builds])
  obtain st s' where r: "sched_run zero_libm still_wall 0 0 quick_sched = Some (Inr st, s')"
    using compiled_run_result [OF quick_doc_compiles [of closed_env "''''"] quick_run_builds quick_facts(1,2)] by blast
  have np: "\<not> ed_paused (sd_edu s')" using sched_run_edu [OF r] edu by (simp add: unbroken_def edu_controls_default_def)
  have ll: "ss_slots_consumed st = ss_slots_written st"
    using sched_run_lossless [OF r default_fabric_roomy [OF quick_doc_compiles [of closed_env "''''"] quick_facts(7,8,5,6) quick_run_builds] nr] by simp
  have w: "(\<lambda>i. fr_step (still_reads i)) = still_wall" "dv_libm quick_dash_env = zero_libm"
    by (simp_all add: still_reads_def quick_dash_env_def)
  from dashboard_follows_run [of quick_dash_env "Compiled quick_run" ?s still_reads d 0 0 st s', OF b d] r np nr ll
  show ?thesis by (auto simp: w rs) (auto simp: still_reads_def sd_pause_def)
qed

text \<open>
  (C36) A breakpoint holds the dashboard for ever: in virtual time, once the scheduler has reached one, no stepping and no
  auto-running takes another tick or moves the clock; the user can quit or restart.
\<close>

theorem breakpoint_holds_dashboard:
  assumes "at_breakpoint st c d" "list_all (\<lambda>i. \<forall>m. di_key i \<noteq> Some (KeyChar (CHR ''r''), m)) inputs"
  shows "\<exists>q d'. dash_loop env inputs d = Some (Inr q, d') \<and> \<not> da_finished d'
    \<and> sd_stats (da_sched d') = sd_stats (da_sched d) \<and> sd_clock (da_sched d') = sd_clock (da_sched d)"
  using loop_at_breakpoint [OF assms, of env] assms(1) by (auto simp: at_breakpoint_def)

definition held_dashboard :: dashboard where
  "held_dashboard =
     \<lparr>da_source = Builtin scenario_default, da_sink = [],
      da_sched = snd (sd_begin 0 (with_edu (edu_controls_default\<lparr>ed_breakpoint_tick := Some 0\<rparr>) (sim_scheduler_new scenario_default))),
      da_mode = Paused, da_ticks_per_frame = 1, da_event_cursor = 0, da_event_log = [], da_pps_hist = [],
      da_tick_lat_hist = [], da_prev_packets = 0, da_status = [], da_finished = False\<rparr>"

text \<open>A run with a breakpoint at its first tick, and the user who presses \<open>s\<close>, then the space bar.\<close>

lemma breakpoint_holds_dashboard_witness:
  "\<exists>q d'. dash_loop quick_dash_env
      (map (\<lambda>key. \<lparr>di_key = Some (KeyChar key, False), di_due = True, di_reads = still_reads 0, di_ticks = still_reads\<rparr>) ''s '')
      held_dashboard = Some (Inr q, d') \<and> ss_ticks (sd_stats (da_sched d')) = 0"
proof -
  have "at_breakpoint sim_stats_default (sim_clock_new (Virtual 0)) held_dashboard"
    by (simp add: at_breakpoint_def held_dashboard_def sd_begin_def with_edu_def sim_scheduler_new_def scenario_default_def
        apply_timeline_def sd_emit_def sim_clock_new_def clock_is_virtual_def duration_ns_def edu_break_def Let_def
        edu_controls_default_def sim_stats_default_def)
  then show ?thesis
    using breakpoint_holds_dashboard [of sim_stats_default "sim_clock_new (Virtual 0)" held_dashboard
        "map (\<lambda>key. \<lparr>di_key = Some (KeyChar key, False), di_due = True, di_reads = still_reads 0, di_ticks = still_reads\<rparr>) ''s ''" quick_dash_env]
    by (auto simp: at_breakpoint_def sim_stats_default_def)
qed

end
