(* ===== verification/Cli.thy ===== *)
theory Cli
  imports Dash_View
begin

text \<open>
  The command line of the simulator, \<open>simulator/src/main.rs\<close>: which of the four kinds of run the arguments ask
  for, the scheduler each builds, and how the program ends. What is printed before a run starts is left out. The
  reads of files and clocks, the mathematical functions and the user's input are the fields of an environment.
\<close>

record cli_env =
  cx_dsl :: dsl_env
  cx_libm :: libm
  cx_wall :: "nat \<Rightarrow> wall_reads"
  cx_wall_end :: nat
  cx_elapsed :: u64
  cx_capture :: "nat \<Rightarrow> string \<Rightarrow> string + bytes"
  cx_dash :: dash_env
  cx_reads :: frame_reads
  cx_inputs :: "dash_input list"

text \<open>
  How the program ends: a run's statistics, the dashboard (\<open>True\<close>: the user has quit), exit status 1 after the
  lines on standard error, or a panic. A result \<open>None\<close> is a program that does not end.
\<close>

datatype cli_outcome = Reported sim_stats | Closed bool | ExitFailure "string list" | Panicked

section \<open>Results\<close>

definition as_secs_f64 :: "nat \<Rightarrow> f64" where
  "as_secs_f64 ns = f64_add (f64_of_nat (ns div 10 ^ 9)) (f64_div_pos (f64_of_nat (ns mod 10 ^ 9)) (10 ^ 9))"

definition results_lines :: "sim_stats \<Rightarrow> string list" where
  "results_lines st =
     ['''', ''Results (simulated):'',
      ''  Ticks             : '' @ nat_dec (ss_ticks st),
      ''  Packets generated : '' @ nat_dec (ss_generated st),
      ''  Packets dropped   : '' @ nat_dec (ss_dropped st),
      ''  Packets corrupted : '' @ nat_dec (ss_corrupted st),
      ''  Slots written     : '' @ nat_dec (ss_slots_written st),
      ''  Slots consumed    : '' @ nat_dec (ss_slots_consumed st),
      ''  Ring overflows    : '' @ nat_dec (ss_ring_overflows st),
      ''  Virtual clock     : '' @ nat_dec (unat (ss_clock_ns st)) @ '' ns'',
      ''  Wall-clock time   : '' @ duration_debug (ss_elapsed st)]
     @ (case as_secs_f64 (ss_elapsed st) of
          Fin secs \<Rightarrow>
            if secs > 0
            then [''  Throughput        : '' @ show_fixed 0 (f64_div_pos (f64_of_nat (ss_generated st)) secs)
                  @ '' pps (wall-clock, simulated)'']
            else []
        | _ \<Rightarrow> [])"

definition print_stats :: "sim_stats result \<Rightarrow> cli_outcome" where
  "print_stats r =
     (case r of
        Inr st \<Rightarrow> Reported st
      | Inl e \<Rightarrow> ExitFailure [''Simulation error: '' @ error_display e])"

definition run_and_print :: "cli_env \<Rightarrow> sim_scheduler \<Rightarrow> cli_outcome option" where
  "run_and_print env s =
     map_option (\<lambda>(r, _). print_stats r) (sched_run (cx_libm env) (cx_wall env) (cx_wall_end env) (cx_elapsed env) s)"

section \<open>Scenario files and built-in scenarios\<close>

definition unknown_scenario :: "string \<Rightarrow> string list" where
  "unknown_scenario name =
     [''Unknown scenario '' @ quoted name @ ''. Available: '' @ join_with '', '' builtin_names,
      ''Or: flyby-sim run <file.fly.toml>'',
      ''Or: flyby-sim tui [scenario|file.fly.toml]'',
      ''Or: flyby-sim pcap <path> [--full-speed]'',
      ''Medium articles: ./scripts/reproduce-article.sh --list'']"

text \<open>The scenario of a name, or what is printed before the program exits.\<close>

definition resolve_builtin :: "string \<Rightarrow> string list + scenario" where
  "resolve_builtin name =
     (case scenario_by_name name of Some sc \<Rightarrow> Inr sc | None \<Rightarrow> Inl (unknown_scenario name))"

definition failed_to_load :: "string \<Rightarrow> string \<Rightarrow> error \<Rightarrow> string" where
  "failed_to_load what path e = ''Failed to load '' @ what @ '' '' @ quoted path @ '': '' @ error_display e"

definition run_compiled :: "cli_env \<Rightarrow> compiled_run \<Rightarrow> cli_outcome option" where
  "run_compiled env c =
     (if \<not> cr_simulated c then Some Panicked
      else case build_scheduler (cx_dsl env) c of
          None \<Rightarrow> Some Panicked
        | Some (Inl e) \<Rightarrow> Some (ExitFailure [''Failed to build scheduler: '' @ error_display e])
        | Some (Inr s) \<Rightarrow> run_and_print env s)"

definition run_dsl_file :: "cli_env \<Rightarrow> string \<Rightarrow> cli_outcome option" where
  "run_dsl_file env path =
     (case compile_path (cx_dsl env) path of
        None \<Rightarrow> None
      | Some (Inl e) \<Rightarrow> Some (ExitFailure [failed_to_load ''scenario'' path e])
      | Some (Inr c) \<Rightarrow> run_compiled env c)"

definition headless_scheduler :: "scenario \<Rightarrow> sim_scheduler" where
  "headless_scheduler sc =
     (let nic = virtual_nic_new \<lparr>nc_name = ''nic0'', nc_traffic = sc_traffic sc, nc_fault = sc_fault sc,
                                 nc_fault_seed = 0, nc_udp_dst_port = 9000\<rparr>;
          ring_slots = (if sc_name sc = ''queue_overflow'' then 16 else 4096);
          frame = 42 + max (tc_payload_size (sc_traffic sc)) 1;
          sched = add_nic (NicDev nic)
                    (with_ring (the (virtual_ring_new ''ring0'' ring_slots frame)) (sim_scheduler_new sc))
      in if sc_name sc = ''slow_consumer'' then add_consumer (consumer_slow ''c0'' 1) sched
         else add_consumer (consumer_new ''c0'') sched)"

definition run_headless_builtin :: "cli_env \<Rightarrow> scenario \<Rightarrow> cli_outcome option" where
  "run_headless_builtin env sc = run_and_print env (headless_scheduler sc)"

section \<open>Captures\<close>

text \<open>
  A capture is read up to three times: for the source, for the time stamp of its last packet and for the size of its
  largest. \<open>None\<close>: the second read gives fewer packets than the first, an index out of range.
\<close>

definition capture_last_ts :: "cli_env \<Rightarrow> string \<Rightarrow> nat \<Rightarrow> u64 option" where
  "capture_last_ts env path len =
     (if len = 0 then Some 0
      else case load_pcap (cx_capture env 1) path of
          Inl _ \<Rightarrow> Some 0
        | Inr p \<Rightarrow> if len - 1 < length p then Some (pk_timestamp_ns (p ! (len - 1))) else None)"

definition capture_scenario :: "u64 \<Rightarrow> scenario" where
  "capture_scenario last_ts =
     scenario_default\<lparr>sc_name := ''pcap_replay'', sc_description := ''Classic pcap replay'',
       sc_duration := unat (max (saturating_add last_ts 1000000) 1000000), sc_tick_ns := 100000\<rparr>"

definition capture_max_frame :: "cli_env \<Rightarrow> string \<Rightarrow> nat" where
  "capture_max_frame env path =
     max (case load_pcap (cx_capture env 2) path of
            Inl _ \<Rightarrow> 2048
          | Inr p \<Rightarrow> if p = [] then 2048 else Max (set (map (\<lambda>pkt. length (pk_data pkt)) p))) 64"

definition capture_scheduler :: "scenario \<Rightarrow> nat \<Rightarrow> pcap_source \<Rightarrow> sim_scheduler" where
  "capture_scheduler sc max_frame src =
     add_consumer (consumer_new ''c0'') (add_nic (PcapDev src)
       (with_ring (the (virtual_ring_new ''ring0'' 4096 max_frame)) (sim_scheduler_new sc)))"

definition run_pcap :: "cli_env \<Rightarrow> string list \<Rightarrow> cli_outcome option" where
  "run_pcap env args =
     (case args of
        [] \<Rightarrow> Some (ExitFailure [''Usage: flyby-sim pcap <path> [--full-speed]''])
      | path # _ \<Rightarrow>
          (let replay = (if ''--full-speed'' \<in> set args then FullSpeed else OriginalTiming) in
           case pcap_from_path (cx_capture env 0) path
                  (pcap_config_default\<lparr>pc_name := ''pcap0'', pc_replay := replay\<rparr>) of
             Inl e \<Rightarrow> Some (ExitFailure [failed_to_load ''pcap'' path e])
           | Inr src \<Rightarrow>
               (case capture_last_ts env path (length (ps_packets src)) of
                  None \<Rightarrow> Some Panicked
                | Some last_ts \<Rightarrow>
                    run_and_print env (capture_scheduler (capture_scenario last_ts) (capture_max_frame env path) src))))"

section \<open>The dashboard and the arguments\<close>

text \<open>The terminal's own calls are taken to succeed; the dashboard is built with its feature on.\<close>

definition tui_source :: "cli_env \<Rightarrow> string \<Rightarrow> (string list + dash_source) option" where
  "tui_source env arg =
     (if looks_like_scenario_file arg
      then map_option (\<lambda>r. case r of
             Inl e \<Rightarrow> Inl [failed_to_load ''scenario'' arg e]
           | Inr c \<Rightarrow> Inr (Compiled c)) (compile_path (cx_dsl env) arg)
      else Some (case resolve_builtin arg of Inl e \<Rightarrow> Inl e | Inr sc \<Rightarrow> Inr (Builtin sc)))"

definition run_dashboard :: "cli_env \<Rightarrow> dash_source \<Rightarrow> cli_outcome option" where
  "run_dashboard env src =
     (if dash_build (dv_dsl (cx_dash env)) src = None then Some Panicked
      else case dash_from_source (cx_dash env) (cx_reads env) src of
          None \<Rightarrow> None
        | Some (Inl e) \<Rightarrow> Some (ExitFailure [''TUI error: '' @ error_display e])
        | Some (Inr d) \<Rightarrow>
            map_option (\<lambda>(r, _). case r of
                Inl e \<Rightarrow> ExitFailure [''TUI error: '' @ error_display e]
              | Inr quit \<Rightarrow> Closed quit) (dash_loop (cx_dash env) (cx_inputs env) d))"

definition first_or_default :: "string list \<Rightarrow> string" where
  "first_or_default args = (case args of [] \<Rightarrow> ''constant_rate'' | a # _ \<Rightarrow> a)"

definition run_tui :: "cli_env \<Rightarrow> string list \<Rightarrow> cli_outcome option" where
  "run_tui env args =
     (case tui_source env (first_or_default args) of
        None \<Rightarrow> None
      | Some (Inl e) \<Rightarrow> Some (ExitFailure e)
      | Some (Inr src) \<Rightarrow> run_dashboard env src)"

definition run_named :: "cli_env \<Rightarrow> string \<Rightarrow> cli_outcome option" where
  "run_named env arg =
     (if looks_like_scenario_file arg then run_dsl_file env arg
      else case resolve_builtin arg of
          Inl e \<Rightarrow> Some (ExitFailure e)
        | Inr sc \<Rightarrow> run_headless_builtin env sc)"

text \<open>\<open>main\<close>, on the arguments after the program's name.\<close>

definition cli_main :: "cli_env \<Rightarrow> string list \<Rightarrow> cli_outcome option" where
  "cli_main env args =
     (case args of
        [] \<Rightarrow> run_named env (first_or_default args)
      | a # rest \<Rightarrow>
          if a = ''pcap'' then run_pcap env rest
          else if a = ''tui'' then run_tui env rest
          else if a = ''run'' then
            (case rest of
               [] \<Rightarrow> Some (ExitFailure [''Usage: flyby-sim run <scenario.fly.toml>''])
             | path # _ \<Rightarrow> run_dsl_file env path)
          else run_named env (first_or_default args))"

end
