(* ===== verification/Cli_Props.thy ===== *)
theory Cli_Props
  imports Cli Dash_Laws
begin

text \<open>Properties of the command line: how the runs of built-in scenarios and of captures end.\<close>

section \<open>Runs from the command line\<close>

text \<open>A scheduler whose sources start and whose controls are left alone reports, and has reached its duration.\<close>

lemma run_reports:
  assumes "sc_clock_mode (sd_scenario s) = Virtual 0" "0 < unat (sc_tick_ns (sd_scenario s))"
    "list_all returns (sd_nics s)" "\<not> sd_running s" "list_all init_ok (sd_nics s)" "sd_edu s = edu_controls_default"
  shows "\<exists>st s'. sched_run lm wall we el s = Some (Inr st, s') \<and> duration_ns s \<le> ss_clock_ns st
    \<and> ss_ticks st * unat (sc_tick_ns (sd_scenario s)) \<le> unat (duration_ns s) + (unat (sc_tick_ns (sd_scenario s)) - 1)"
proof -
  from sched_run_ends [OF assms(1-4), of lm wall we el] obtain r s' where run: "sched_run lm wall we el s = Some (r, s')"
    and e: "\<forall>st. r = Inr st \<longrightarrow> \<not> ed_paused (sd_edu s') \<longrightarrow> duration_ns s \<le> ss_clock_ns st
        \<and> ss_ticks st * unat (sc_tick_ns (sd_scenario s))
            \<le> (unat (duration_ns s) - unat (0 :: u64)) + (unat (sc_tick_ns (sd_scenario s)) - 1)" by blast
  from sched_run_succeeds [OF assms(1-5) run] obtain st where st: "r = Inr st" by blast
  have "unbroken (sd_edu s)" using assms(6) by (simp add: unbroken_def edu_controls_default_def)
  then have "\<not> ed_paused (sd_edu s')" using sched_run_edu [OF run [unfolded st]] assms(6) by (simp add: edu_controls_default_def)
  then show ?thesis using run st e by auto
qed

lemma built_in_scenario:
  assumes "scenario_by_name name = Some sc"
  shows "sc_name sc = name" "sc_clock_mode sc = Virtual 0" "0 < unat (sc_tick_ns sc)" "sc_duration sc < 2 ^ 64"
    "tc_batch_size (sc_traffic sc) \<le> 4096"
  using assms
  by (auto simp: scenario_by_name_def scen_constant_rate_def scen_market_open_burst_def scen_queue_overflow_def
      scen_packet_loss_def scen_slow_consumer_def scen_corrupt_packets_def scen_gaussian_rate_def scen_protocol_quotes_def
      scenario_default_def traffic_config_default_def market_open_burst_def gaussian_rate_def protocol_quotes_def
      split: if_splits)

lemma built_in_args:
  assumes "scenario_by_name name = Some sc" "args = [name] \<or> args = [] \<and> name = ''constant_rate''"
  shows "cli_main env args = run_headless_builtin env sc"
proof -
  have "\<not> looks_like_scenario_file name"
    using assms(1) by (auto simp: scenario_by_name_def looks_like_scenario_file_def ascii_lower_def suffix_def split: if_splits)
  then have r: "run_named env name = run_headless_builtin env sc" using assms(1) by (simp add: run_named_def resolve_builtin_def)
  have "name \<noteq> ''pcap'' \<and> name \<noteq> ''tui'' \<and> name \<noteq> ''run''"
    using assms(1) by (auto simp: scenario_by_name_def split: if_splits)
  then have "cli_main env [name] = run_headless_builtin env sc" using r by (simp add: cli_main_def first_or_default_def)
  moreover have "cli_main env [] = run_named env ''constant_rate''" by (simp add: cli_main_def first_or_default_def)
  ultimately show ?thesis using assms(2) r by metis
qed

lemma headless_parts:
  "sd_scenario (headless_scheduler sc) = sc" "sd_edu (headless_scheduler sc) = edu_controls_default"
  "sd_timeline (headless_scheduler sc) = []" "\<not> sd_running (headless_scheduler sc)"
  "list_all returns (sd_nics (headless_scheduler sc))" "list_all init_ok (sd_nics (headless_scheduler sc))"
  "sd_ring (headless_scheduler sc) = virtual_ring_new ''ring0'' (if sc_name sc = ''queue_overflow'' then 16 else 4096)
     (42 + max (tc_payload_size (sc_traffic sc)) 1)"
  "sc_name sc \<noteq> ''slow_consumer'' \<Longrightarrow> sd_consumers (headless_scheduler sc) = [consumer_new ''c0'']"
  by (simp_all add: headless_scheduler_def Let_def add_nic_def add_consumer_def with_ring_def sim_scheduler_new_def
      virtual_ring_new_def)

text \<open>The dashboard's scheduler for a built-in scenario is the headless one, paused.\<close>

lemma dashboard_builds_headless: "build_scheduler_builtin sc = sd_pause (headless_scheduler sc)"
  by (simp add: build_scheduler_builtin_def headless_scheduler_def Let_def add_nic_def add_consumer_def with_ring_def
      with_edu_def sim_scheduler_new_def sd_pause_def)

lemma headless_roomy:
  assumes "tc_batch_size (sc_traffic sc) \<le> 4096" "sc_name sc \<noteq> ''queue_overflow''" "sc_name sc \<noteq> ''slow_consumer''"
  shows "roomy (headless_scheduler sc)"
proof -
  let ?m = "42 + max (tc_payload_size (sc_traffic sc)) 1"
  obtain ring where ring: "virtual_ring_new ''ring0'' 4096 ?m = Some ring" by (simp add: virtual_ring_new_def)
  have "vr_inv ring \<and> vr_contents ring = []" using vr_inv_new [OF ring] by simp
  then have "vr_inv ring" "vr_len ring = 0" using length_vr_contents [of ring] by auto
  moreover have "vr_capacity ring = 4096" "vr_max_payload ring = ?m" using ring by (auto simp: virtual_ring_new_def)
  ultimately show ?thesis
    using assms ring headless_parts [of sc] by (simp add: roomy_def drains_all_def consumer_new_def)
qed

lemma capture_parts:
  "sd_scenario (capture_scheduler sc m src) = sc" "sd_nics (capture_scheduler sc m src) = [PcapDev src]"
  "\<not> sd_running (capture_scheduler sc m src)" "sd_edu (capture_scheduler sc m src) = edu_controls_default"
  "sd_timeline (capture_scheduler sc m src) = []" "sd_consumers (capture_scheduler sc m src) = [consumer_new ''c0'']"
  "0 < m \<Longrightarrow> sd_ring (capture_scheduler sc m src) = virtual_ring_new ''ring0'' 4096 m"
  by (simp_all add: capture_scheduler_def add_nic_def add_consumer_def with_ring_def sim_scheduler_new_def virtual_ring_new_def)

lemma capture_roomy: "roomy (capture_scheduler (capture_scenario t) (capture_max_frame env path) src)"
proof -
  let ?m = "capture_max_frame env path"
  have m: "64 \<le> ?m" by (simp add: capture_max_frame_def)
  then obtain ring where ring: "virtual_ring_new ''ring0'' 4096 ?m = Some ring" by (auto simp: virtual_ring_new_def)
  have "vr_inv ring \<and> vr_contents ring = []" using vr_inv_new [OF ring] by simp
  then have "vr_inv ring" "vr_len ring = 0" using length_vr_contents [of ring] by auto
  moreover have "vr_capacity ring = 4096" "vr_max_payload ring = ?m" using ring m by (auto simp: virtual_ring_new_def)
  ultimately show ?thesis
    using m ring capture_parts [where sc = "capture_scenario t" and m = ?m and src = src]
    by (simp add: roomy_def drains_all_def consumer_new_def capture_scenario_def scenario_default_def traffic_config_default_def)
qed

section \<open>Properties\<close>

text \<open>
  (C31) A built-in scenario named on the command line, or the default one, runs to its end and reports: its virtual
  clock has reached the scenario's duration, within the ticks that the duration holds, and, except where the
  scenario is about a small ring or a slow consumer, nothing is lost behind the card.
\<close>

theorem builtin_scenarios_report:
  assumes "scenario_by_name name = Some sc" "args = [name] \<or> args = [] \<and> name = ''constant_rate''"
  shows "\<exists>st. cli_main env args = Some (Reported st) \<and> sc_duration sc \<le> unat (ss_clock_ns st)
    \<and> ss_ticks st * unat (sc_tick_ns sc) \<le> sc_duration sc + (unat (sc_tick_ns sc) - 1)
    \<and> (name \<notin> {''queue_overflow'', ''slow_consumer''} \<longrightarrow>
         ss_ring_overflows st = 0 \<and> ss_slots_consumed st = ss_slots_written st)"
proof -
  note sc = built_in_scenario [OF assms(1)]
  note hp = headless_parts [of sc]
  let ?s = "headless_scheduler sc"
  note m = built_in_args [OF assms, of env]
  have "duration_ns ?s = of_nat (sc_duration sc)" using hp(1) by (simp add: duration_ns_def)
  then have d: "unat (duration_ns ?s) = sc_duration sc" using sc(4) by (simp add: unat_of_nat_u64)
  from run_reports [of ?s "cx_libm env" "cx_wall env" "cx_wall_end env" "cx_elapsed env"] hp(1,2,4-6) sc(2,3) obtain st s' where
    run: "sched_run (cx_libm env) (cx_wall env) (cx_wall_end env) (cx_elapsed env) ?s = Some (Inr st, s')"
    and e: "duration_ns ?s \<le> ss_clock_ns st" "ss_ticks st * unat (sc_tick_ns sc) \<le> unat (duration_ns ?s) + (unat (sc_tick_ns sc) - 1)"
    by auto
  have "ss_ring_overflows st = 0 \<and> ss_slots_consumed st = ss_slots_written st"
    if "name \<notin> {''queue_overflow'', ''slow_consumer''}"
    using sched_run_lossless [OF run headless_roomy hp(4) refl] that sc(1,5) by simp
  then show ?thesis
    using m run e d by (auto simp: run_headless_builtin_def run_and_print_def print_stats_def word_le_nat_alt)
qed

definition quiet_cli :: "cli_env" where
  "quiet_cli =
     (let dsl = \<lparr>de_parse = (\<lambda>_. Inl ''closed''), de_engine = (\<lambda>_ _. NextDone), de_display = (\<lambda>_. ''''),
                 de_read_text = (\<lambda>_. Inl ''no such file''), de_read_bytes = (\<lambda>_. Inl ''no such file'')\<rparr> in
      \<lparr>cx_dsl = dsl, cx_libm = zero_libm,
       cx_wall = (\<lambda>_. \<lparr>wr_start = 0, wr_now1 = 0, wr_now2 = 0, wr_tick = 0, wr_next = 0\<rparr>), cx_wall_end = 0, cx_elapsed = 0,
       cx_capture = (\<lambda>_ _. Inr (write_pcap_bytes [(1700000000000000000, [1, 2, 3])])),
       cx_dash = \<lparr>dv_dsl = dsl, dv_libm = zero_libm, dv_debug = id\<rparr>,
       cx_reads = \<lparr>fr_step = \<lparr>wr_start = 0, wr_now1 = 0, wr_now2 = 0, wr_tick = 0, wr_next = 0\<rparr>, fr_wall = 0, fr_elapsed = 0\<rparr>,
       cx_inputs = []\<rparr>)"

lemma builtin_scenarios_report_witness:
  "\<exists>st. cli_main quiet_cli [''packet_loss''] = Some (Reported st) \<and> 10 ^ 10 \<le> unat (ss_clock_ns st)
     \<and> ss_slots_consumed st = ss_slots_written st"
  using builtin_scenarios_report [of "''packet_loss''" scen_packet_loss "[''packet_loss'']" quiet_cli]
  by (auto simp: scenario_by_name_def scen_packet_loss_def)

text \<open>
  (C32) A capture named on the command line is replayed and reported, but the run always lasts until the virtual clock
  has reached the absolute time stamp of its last packet and a millisecond more, although the replay itself takes
  time stamps from the first packet on: a capture of one packet taken in 2023 runs for 54 years of virtual time.
  Nothing is lost in the ring.
\<close>

theorem capture_run_lasts:
  assumes "\<And>i. cx_capture env i path = Inr bs" "parse_pcap bs = Inr packets" "packets \<noteq> []"
  shows "\<exists>st. cli_main env (''pcap'' # path # opts) = Some (Reported st)
    \<and> min (unat (pk_timestamp_ns (last packets)) + 1000000) (2 ^ 64 - 1) \<le> unat (ss_clock_ns st)
    \<and> ss_ring_overflows st = 0 \<and> ss_slots_consumed st = ss_slots_written st"
proof -
  let ?c = "pcap_config_default\<lparr>pc_name := ''pcap0'',
    pc_replay := if ''--full-speed'' \<in> set (path # opts) then FullSpeed else OriginalTiming\<rparr>"
  obtain rp where rp: "sim_replay_new (pc_replay ?c) = Inr rp"
    by (cases "''--full-speed'' \<in> set (path # opts)") (auto simp: sim_replay_new_def)
  have load: "load_pcap (cx_capture env i) path = Inr packets" for i using assms(1,2) by (simp add: load_pcap_def)
  obtain src where src: "pcap_from_path (cx_capture env 0) path ?c = Inr src" "ps_packets src = packets" "ps_config src = ?c"
    using load rp by (auto simp: pcap_from_path_def pcap_source_new_def)
  let ?t = "pk_timestamp_ns (last packets)"
  have ts: "capture_last_ts env path (length packets) = Some ?t"
    using load assms(3) by (simp add: capture_last_ts_def last_conv_nth)
  let ?s = "capture_scheduler (capture_scenario ?t) (capture_max_frame env path) src"
  have m: "cli_main env (''pcap'' # path # opts) = run_and_print env ?s"
    using src ts by (simp add: cli_main_def run_pcap_def Let_def)
  note parts = capture_parts [where sc = "capture_scenario ?t" and m = "capture_max_frame env path" and src = src]
  have ok: "init_ok (PcapDev src)" using rp src(3) by simp
  have "returns (PcapDev src)" using src(3) by (simp add: pcap_config_default_def)
  with run_reports [of ?s "cx_libm env" "cx_wall env" "cx_wall_end env" "cx_elapsed env"] parts ok obtain st s' where
    run: "sched_run (cx_libm env) (cx_wall env) (cx_wall_end env) (cx_elapsed env) ?s = Some (Inr st, s')"
    and e: "duration_ns ?s \<le> ss_clock_ns st"
    by (auto simp: capture_scenario_def scenario_default_def simp del: init_ok.simps returns.simps)
  have "duration_ns ?s = max (saturating_add ?t 1000000) 1000000"
    using parts(1) by (simp add: duration_ns_def capture_scenario_def)
  then have "unat (saturating_add ?t 1000000) \<le> unat (ss_clock_ns st)" using e by (metis max.bounded_iff word_le_nat_alt)
  moreover have "ss_ring_overflows st = 0 \<and> ss_slots_consumed st = ss_slots_written st"
    using sched_run_lossless [OF run capture_roomy parts(3) refl] .
  ultimately show ?thesis using m run by (simp add: run_and_print_def print_stats_def unat_saturating_add)
qed

lemma capture_run_lasts_witness:
  "\<exists>st. cli_main quiet_cli [''pcap'', ''capture.pcap''] = Some (Reported st) \<and> 1700000000001000000 \<le> unat (ss_clock_ns st)"
proof -
  have p: "parse_pcap (write_pcap_bytes [(1700000000000000000, [1, 2, 3])])
      = Inr [\<lparr>pk_timestamp_ns = 1700000000000000000, pk_data = [1, 2, 3]\<rparr>]"
    using parse_written_pcap [of "[(1700000000000000000, [1, 2, 3])]" False]
    by (simp add: pcap_fits_def write_pcap_bytes_def kept_packet_def pcap_kept_def)
  have "cx_capture quiet_cli i ''capture.pcap'' = Inr (write_pcap_bytes [(1700000000000000000, [1, 2, 3])])" for i
    by (simp add: quiet_cli_def Let_def)
  from capture_run_lasts [of quiet_cli "''capture.pcap''", OF this p, of "[]"] show ?thesis by auto
qed

text \<open>
  (C33) In the replay of a capture no frame is longer than 50 bytes when it comes to the ring: a tick polls into a batch
  sized for the default payload of 8 bytes, whatever the largest frame of the capture is.
\<close>

theorem capture_frames_cut:
  assumes "sd_scenario s = capture_scenario t" "tick_body lm w s = Some (r, s')"
  shows "\<exists>b. sd_last_batch s' = Some b \<and> list_all (\<lambda>p. length (fst p) \<le> 50) (net_packets b)"
proof -
  have tc: "sc_traffic (sd_scenario s) = traffic_config_default" using assms(1) by (simp add: capture_scenario_def scenario_default_def)
  define now where "now = now_ns (wr_now2 w) (run_clock s)"
  let ?b = "the (raw_batch_new (max (tc_batch_size traffic_config_default) 1) 50)"
  have "0 < max (tc_batch_size traffic_config_default) 1" "0 < (50 :: nat)" by linarith+
  from raw_batch_new_some [OF this] have b: "shaped (max (tc_batch_size traffic_config_default) 1) 50 ?b" by (auto simp: shaped_def)
  have pay: "42 + max (tc_payload_size traffic_config_default) 1 = 50" by (simp add: traffic_config_default_def)
  obtain ns b sp where p: "poll_nics lm (sc_tick_ns (sd_scenario s)) now (sd_nics s) ?b 0 = Some (ns, b, sp)"
    using assms(2) unfolding tick_body_def Let_def tc pay now_def [symmetric] by (auto split: option.splits)
  have "sd_last_batch s' = Some b"
    using assms(2) p unfolding tick_body_def Let_def tc pay now_def [symmetric]
    by (auto simp: bump_stats_def snapshot_nic_stats_def sd_record_def sd_emit_def split: if_splits)
  moreover have "shaped (max (tc_batch_size traffic_config_default) 1) 50 b" by (rule poll_nics_shaped [OF p b])
  ultimately show ?thesis using net_packets_bound [of b] by (auto simp: shaped_def list_all_iff)
qed

lemma capture_frames_cut_witness:
  "\<exists>s r s' b. sd_scenario s = capture_scenario 5 \<and> tick_body zero_libm (cx_wall quiet_cli 0) s = Some (r, s')
     \<and> sd_last_batch s' = Some b \<and> list_all (\<lambda>p. length (fst p) \<le> 50) (net_packets b)"
proof -
  let ?s = "capture_scheduler (capture_scenario 5) 64 example_capture"
  note parts = capture_parts [where sc = "capture_scenario 5" and m = 64 and src = example_capture]
  have "returns (PcapDev example_capture)" "init_ok (PcapDev example_capture)"
    by (simp_all add: example_capture_def pcap_source_new_def ps_init_def sim_replay_new_def pcap_config_default_def Let_def ps_emit_def)
  then have ok: "list_all returns (sd_nics ?s)" "list_all init_ok (sd_nics ?s)"
    using parts(2) by (simp_all del: returns.simps init_ok.simps)
  then obtain s1 where bg: "sd_begin 0 ?s = (Inr (), s1)" using init_nics_ok [OF ok(2)] parts(3) by (auto simp: sd_begin_def Let_def)
  have v: "sc_clock_mode (sd_scenario ?s) = Virtual 0" using parts(1) by (simp add: capture_scenario_def scenario_default_def)
  have sc: "sd_scenario s1 = capture_scenario 5"
    using bg parts(1) by (auto simp: sd_begin_def Let_def apply_timeline_frame sd_emit_def split: if_splits prod.splits sum.splits)
  from tick_body_result [OF sd_begin_on_time(1) [OF v ok(1) parts(3) bg], of zero_libm "cx_wall quiet_cli 0"]
  obtain r s' where "tick_body zero_libm (cx_wall quiet_cli 0) s1 = Some (r, s')" by blast
  then show ?thesis using capture_frames_cut [OF sc] sc by blast
qed

end
