(* ===== verification/Spec2Isabelle.thy ===== *)
theory Spec2Isabelle
  imports Runtime_Props Hello_Pipeline Spsc_Concurrent Lifecycle_Props Pcap_Fixtures Dash_Props Cli_Props
begin

text \<open>
  FlyBy moves records from a packet or a storage source, through a decoder, a preprocessor, an
  encoder and a placement strategy, into a ring of fixed-size slots in shared memory. The repository
  is a Cargo workspace: the contract layer (\<open>crates/flyby-core\<close>), the ring and the sink
  (\<open>crates/flyby-memory\<close>), the storage and network sources (\<open>crates/flyby-storage\<close>,
  \<open>crates/flyby-net\<close>), the pipeline, its builder and its drivers (\<open>crates/flyby\<close>), and a simulator
  (\<open>simulator\<close>) that runs virtual network cards, captures and storage against a virtual ring, with scenario
  files, a terminal dashboard and a command line.

  \<^bold>\<open>How the parts interact.\<close> The pipeline polls a source, which fills the batch it is handed; each frame
  goes through the stages, and the sink writes the resulting bytes into the slot that the ring's
  producer counter names and then publishes the slot; a full ring is an error of the write that the
  back-pressure strategy of the runtime handles; the drivers call the pipeline's step until shutdown
  or the end of the source. The simulator's scheduler applies the timed actions that are due, polls
  every source into one batch, passes each item through fault injection, pushes it into the virtual
  ring, drains the consumers and advances the clock. A scenario file is compiled, with the actions that its
  script schedules, to a run from which a scheduler is built; the command line runs that scheduler to its
  end, the dashboard steps it and shows what it emits.

  \<^bold>\<open>Theories.\<close>
  \<^item> \<open>Prelude\<close>: machine types, results as sums, bytes in both orders, list updates.
    \<open>Float64\<close>: the finite values of \<open>f64\<close> with rounding to nearest even, infinities and NaN.
    \<open>Fifo\<close>: the interface \<open>bounded_fifo\<close> of a bounded queue, with its lemmas on runs of operations.
  \<^item> \<open>Core\<close>: \<open>flyby-core\<close> (error.rs, message.rs, metrics.rs, placement.rs). \<open>Stage_Lifecycle\<close>: lifecycle.rs, the
    documented state machine as the relation \<open>permits\<close> on the events a caller sees, and what the stages do as
    the laws of the locales \<open>lifecycle_stage\<close>, \<open>owned_stage\<close> and \<open>steady_stage\<close>, which the theories of the
    sources and of the pipeline interpret on their own \<open>init\<close>, poll and \<open>shutdown\<close>; \<open>Lifecycle_Props\<close> draws
    the conclusions.
  \<^item> \<open>Slot\<close>, \<open>Spsc_Ring\<close>, \<open>Spsc_Concurrent\<close>, \<open>Region\<close>, \<open>Memory_Sink\<close>: \<open>flyby-memory\<close> (slot.rs,
    ring.rs sequentially and with two threads, region.rs, lib.rs). The mapping is a list of bytes, the
    counters are words of 64 bits that wrap. \<open>Memory_Sink\<close> interprets \<open>bounded_fifo\<close>.
  \<^item> \<open>Record_Batch\<close>, \<open>Framing\<close>, \<open>Replay\<close>, \<open>Storage_Config\<close>, \<open>File_Source\<close>, \<open>File_Frames\<close>:
    \<open>flyby-storage\<close> (batch.rs, framing.rs, replay.rs, config.rs with metrics.rs, io_uring.rs and
    spdk.rs, file.rs); the last holds the reference that cuts a whole file into frames.
  \<^item> \<open>Net_Batch\<close>, \<open>Net_Config\<close>, \<open>Net_Sim\<close>: \<open>flyby-net\<close> (batch.rs, config.rs with metrics.rs, source.rs,
    af_xdp.rs and dpdk.rs, sim.rs).
  \<^item> \<open>Placement\<close>, \<open>Runtime_Config\<close>, \<open>Pipeline\<close>, \<open>Adapters\<close>, \<open>Builder\<close>, \<open>Runtime\<close>: \<open>crates/flyby\<close>
    (pipeline.rs, builder.rs and the files of runtime). Each stage of a pipeline is a record of
    functions over a state of its own, as the code has a box of a trait. \<open>Pipeline_Laws\<close>,
    \<open>Pipeline_Run\<close>, \<open>Pipeline_File\<close>, \<open>Pipeline_Props\<close>, \<open>Runtime_Laws\<close>, \<open>Runtime_Props\<close> hold what is
    proved of them; the locales there state the contract of the stages, and the pipeline from a
    file to shared memory is an instance of it, as is, in \<open>Pipeline_Demo\<close>, the builder's demo from the
    simulated network to shared memory. \<open>Hello_Pipeline\<close>: the example of that name under \<open>examples\<close>.
  \<^item> \<open>Sim_Base\<close>, \<open>Virtual_Ring\<close>, \<open>Sim_Fault\<close>, \<open>Sim_Traffic\<close>, \<open>Sim_Nic\<close>, \<open>Sim_Storage\<close>, \<open>Pcap\<close>,
    \<open>Pcap_Source\<close>, \<open>Scenario\<close>, \<open>Sim_Scheduler\<close>, \<open>Sim_Sched_Props\<close>: \<open>simulator\<close> (clock.rs with events.rs
    and metrics.rs, ring.rs with consumer.rs, fault.rs, traffic.rs with generator.rs, nic.rs,
    storage.rs, replay.rs and pcap.rs, scenario.rs with timeline.rs, scheduler.rs). \<open>Virtual_Ring\<close>
    interprets \<open>bounded_fifo\<close> a second time. \<open>Sim_Ring_Props\<close>: runs that lose nothing in the ring.
    \<open>Pcap_Fixtures\<close>: the captures that \<open>simulator/examples/gen_pcap_fixtures.rs\<close> generates.
  \<^item> \<open>Rust_Str\<close>, \<open>Dsl_Duration\<close>, \<open>Dsl_Doc\<close>, \<open>Dsl_Script\<close>, \<open>Dsl_Compile\<close>: \<open>simulator/src/dsl\<close> (duration.rs, doc.rs,
    script.rs, compile.rs with mod.rs), after the string functions and \<open>Result\<close> combinators they use. A document
    is the record of its tables with the defaults the code declares; a script is a function from the engine's
    replies so far to its next call of a registered function. \<open>Dsl_Laws\<close>, \<open>Dsl_Props\<close> hold what is proved.
  \<^item> \<open>Dashboard\<close>, \<open>Dash_View\<close>: \<open>simulator/src/tui\<close> (app.rs; ui.rs and snapshot.rs). The shared event sink is a list
    that grows by what the scheduler and its sources have emitted in a call; an iteration of the event loop is a
    record of the key pressed, whether a frame is due, and the readings of the clocks. \<open>Dash_Laws\<close>,
    \<open>Dash_Props\<close>: the bounds of the displays, stepping against running, breakpoints.
  \<^item> \<open>Cli\<close>, \<open>Cli_Props\<close>: main.rs, the four kinds of run from the arguments to the end of the process.

  A record of the source is a record here with the same fields; \<open>Result\<close> is a sum with the error on the
  left; a method that takes \<open>&mut self\<close> returns the new state with its result. A panic that the
  source can reach is a value of its own (\<open>None\<close>) where a caller can meet it.

  \<^bold>\<open>What is shown.\<close> Of the ring: two threads never read a slot that is being written nor lose or repeat
  one, with stale reads of the other side's counter, and the consumer alone gets whatever was published;
  the sink and the virtual ring answer like a bounded queue of payloads (the virtual ring past the wrap of its
  counters only when its capacity divides 2^64). Of the formats: slots, generated frames and
  captures read back as written, the fixtures are the packets of their formats byte for byte, and the layout
  sizes fail exactly where their sums overflow. Of the lifecycle: every sequence of calls on a simulated source,
  a card or a capture is a run of the documented machine, and on a file source, a virtual storage or a pipeline
  unless an \<open>init\<close> fails while it is running, after which it stays usable against the documentation; the sink
  does not keep the machine. Of the sources: the incremental
  file reader delivers what the reference cuts from the whole file, whatever the sizes of the reads;
  pacing and rates deliver the exact number of packets. Of the pipeline: each frame is processed
  in order and counted once, a file without errors reaches shared memory in order, the drivers agree with
  \<open>SimplePipeline::run\<close>, the demo writes one message per step up to the size of its ring and then hangs, the
  worker pool reports errors and not panics, a runtime ends in the phase of the part that failed and does not run twice, and when the write loop returns. Of the simulator: runs in virtual time end
  after the ticks the duration allows, the polling of a capture returns, every operation of a
  virtual card keeps it well formed and its slices in range, and only the last source's packets reach the ring,
  the others being lost without a trace in any counter. Of scenario files: what
  compiles is well formed, runs to its end, keeps up with what is offered to the default ring unless a consumer
  is slowed or the first card's batch exceeds the ring, and panics exactly for a frame size of zero; durations are read exactly. Of the dashboard and the command line: the
  displays are bounded, stepping leads to the state of the headless run, a breakpoint is never passed, the
  built-in scenarios report, and a capture's run lasts until the time stamp of its last
  packet, with its frames cut to 50 bytes.

  \<^bold>\<open>Bounds and termination.\<close> \<open>usize\<close> has 64 bits. Counters of packets and records that only grow are
  natural numbers where wrapping needs 2^64 operations; sequence numbers, time stamps, seeds and
  sizes are words. Loops that the code bounds are structural recursion over what they consume (a list,
  the remaining batch, a number of retries); loops that may run for ever (the write loop without
  a budget, \<open>run\<close>, the polling of a capture, a run in virtual time) are partial functions whose value
  is \<open>None\<close> when they do not return, and their return is proved where it holds.

  \<^bold>\<open>Parameters.\<close> What is not in the repository is an argument: reads of files and of the clocks, the
  success of \<open>mmap\<close>, the transcendental functions, the stages that a caller supplies, thread affinity,
  the TOML parser (from a text to the record of its tables), the Rhai engine (from the replies so far to the
  next call of a script), the display of a TOML value and the debug form of a string, the drawing of a snapshot
  on a terminal of a given size, and the keys that a user presses.

  \<^bold>\<open>Not modelled.\<close> The layout, the styles and the widgets of the dashboard, and the terminal's own calls, which
  are taken to succeed; what the command line prints before a run starts. Crate roots, benchmarks, tests and the
  program that renders the screenshots of the documentation only call the library; of the example programs the
  writing of files and usage hints are left out. Rust's threads appear as interleavings of the ring's two ends and as the
  results of workers; nothing is said of the memory model below the acquire and release of the counters.
\<close>

end
